(* ===== verification/Prelude.thy ===== *)
theory Prelude
  imports Main "HOL-Library.Word"
begin

text \<open>
  Prelude of the library: the machine integers of the Rust sources, the result type, the
  state-and-error plumbing the components share, and the generic facts about words, lists and
  options their proofs rest on.

  Conventions.  A Rust \<open>uN\<close> is an \<open>N word\<close>; an \<open>i64\<close> is a \<open>64 word\<close> read with \<open>sint\<close>;
  a \<open>usize\<close> that counts elements of a buffer is a \<open>nat\<close>.  \<open>Result<T, E>\<close> is \<open>'e + 'a\<close>
  with \<open>Inl\<close> for \<open>Err\<close>.  Arithmetic on machine integers wraps and a shift amount is taken
  modulo the width, as in a build without overflow checks; slice and index violations,
  \<open>expect\<close> and \<open>assert!\<close> are values of the error types, never silently totalised.
\<close>

unbundle bit_operations_syntax

section \<open>Machine integers\<close>

type_synonym u8 = "8 word"
type_synonym u16 = "16 word"
type_synonym u32 = "32 word"
type_synonym u64 = "64 word"
type_synonym u128 = "128 word"
type_synonym i64 = "64 word"

text \<open>The collections the components add to: \<open>rust_defs\<close> unfolds the small helper
  functions of a component; \<open>word_nat\<close> moves a goal about words to naturals.\<close>

named_theorems rust_defs
named_theorems word_nat

declare unat_word_ariths [word_nat] word_less_nat_alt [word_nat] word_le_nat_alt [word_nat]

text \<open>Rust's \<open><<\<close> and \<open>>>\<close>: the amount is taken modulo the width.\<close>

definition shl :: "'a::len word \<Rightarrow> nat \<Rightarrow> 'a word" where
  "shl x n = push_bit (n mod LENGTH('a)) x"

definition shr :: "'a::len word \<Rightarrow> nat \<Rightarrow> 'a word" where
  "shr x n = drop_bit (n mod LENGTH('a)) x"

text \<open>\<open>>>\<close> on a signed integer: the arithmetic shift.\<close>

definition sar :: "'a::len word \<Rightarrow> nat \<Rightarrow> 'a word" where
  "sar x n = signed_drop_bit (n mod LENGTH('a)) x"

text \<open>\<open>checked_add\<close>, \<open>checked_mul\<close>: \<open>None\<close> when the exact result does not fit.\<close>

definition checked_add :: "'a::len word \<Rightarrow> 'a word \<Rightarrow> 'a word option" where
  "checked_add a b = (if unat a + unat b < 2 ^ LENGTH('a) then Some (a + b) else None)"

definition checked_mul :: "'a::len word \<Rightarrow> 'a word \<Rightarrow> 'a word option" where
  "checked_mul a b = (if unat a * unat b < 2 ^ LENGTH('a) then Some (a * b) else None)"

text \<open>Evaluation compares integers: the kernel computes \<open>2 ^ 64\<close> on integers at once, on naturals by
  counting.\<close>

lemma checked_add_code [code]:
  "checked_add (a::'a::len word) b =
     (if uint a + uint b < 2 ^ LENGTH('a) then Some (a + b) else None)"
proof -
  have "int (unat a + unat b) < int (2 ^ LENGTH('a)) \<longleftrightarrow> uint a + uint b < 2 ^ LENGTH('a)"
    by (simp add: uint_nat [symmetric])
  then show ?thesis by (simp add: checked_add_def del: of_nat_add)
qed
lemma checked_mul_code [code]:
  "checked_mul (a::'a::len word) b =
     (if uint a * uint b < 2 ^ LENGTH('a) then Some (a * b) else None)"
proof -
  have "int (unat a * unat b) < int (2 ^ LENGTH('a)) \<longleftrightarrow> uint a * uint b < 2 ^ LENGTH('a)"
    by (simp only: of_nat_mult of_nat_power uint_nat [symmetric]) simp
  then show ?thesis by (simp only: checked_mul_def of_nat_less_iff)
qed

lemma unat_less_power [code_unfold]: "unat a < 2 ^ n \<longleftrightarrow> uint a < 2 ^ n"
proof -
  have "unat a < 2 ^ n \<longleftrightarrow> int (unat a) < int (2 ^ n)" by (simp only: of_nat_less_iff)
  then show ?thesis by (simp only: uint_nat of_nat_power) simp
qed

lemma power_le_unat [code_unfold]: "2 ^ n \<le> unat a \<longleftrightarrow> 2 ^ n \<le> uint a"
  by (simp add: unat_less_power flip: not_less)

lemma shl_eq_push_bit: "n < LENGTH('a) \<Longrightarrow> shl (x::'a::len word) n = push_bit n x"
  by (simp add: shl_def)

lemma shr_eq_drop_bit: "n < LENGTH('a) \<Longrightarrow> shr (x::'a::len word) n = drop_bit n x"
  by (simp add: shr_def)

lemma bit_shl_iff [bit_simps]:
  "bit (shl (x::'a::len word) n) i \<longleftrightarrow>
     n mod LENGTH('a) \<le> i \<and> i < LENGTH('a) \<and> bit x (i - n mod LENGTH('a))"
  by (auto simp: shl_def bit_simps)

lemma bit_shr_iff [bit_simps]:
  "bit (shr (x::'a::len word) n) i \<longleftrightarrow> bit x (n mod LENGTH('a) + i)"
  by (simp add: shr_def bit_simps)

lemma checked_add_Some:
  "checked_add a b = Some (c::'a::len word) \<longleftrightarrow>
     unat a + unat b < 2 ^ LENGTH('a) \<and> c = a + b"
  by (auto simp: checked_add_def)

lemma checked_add_unat:
  "checked_add a b = Some (c::'a::len word) \<Longrightarrow> unat c = unat a + unat b"
  by (auto simp: checked_add_def unat_word_ariths split: if_splits)

lemma checked_add_None:
  "checked_add a b = None \<longleftrightarrow> 2 ^ LENGTH('a) \<le> unat a + unat (b::'a::len word)"
  by (auto simp: checked_add_def)

lemma minus_one_is_mask: "(- 1 :: 'a::len word) = mask LENGTH('a)"
  by (rule bit_word_eqI) (simp add: bit_simps)

lemma push_bit_one_minus_one:
  "n < LENGTH('a) \<Longrightarrow> push_bit n (1::'a::len word) - 1 = mask n"
  by (simp add: mask_eq_exp_minus_1 push_bit_eq_mult)

lemma and_mask_unat: "unat ((x::'a::len word) AND mask n) = unat x mod 2 ^ n"
  by (metis unsigned_take_bit_eq take_bit_eq_mod take_bit_eq_mask)

lemma word_less_le_minus_one: "a < b \<Longrightarrow> a \<le> b - (1::'a::len word)"
  by uint_arith

lemma unat_u64_less: "unat (x :: u64) < 2 ^ 64"
  using unsigned_less [of x, where 'a = nat] by simp

lemma uint_u64_of_int: "0 \<le> c \<Longrightarrow> c < 2 ^ 64 \<Longrightarrow> uint (word_of_int c :: u64) = c"
  by (simp add: uint_word_of_int take_bit_int_eq_self)

lemma unat_ucast:
  "unat (ucast (x::'a::len word) :: 'b::len word) = unat x mod 2 ^ LENGTH('b)"
  by (simp add: unsigned_ucast_eq take_bit_eq_mod)

lemma unat_of_nat_fits: "n < 2 ^ LENGTH('a) \<Longrightarrow> unat (of_nat n :: 'a::len word) = n"
  by (simp only: unsigned_of_nat take_bit_nat_eq_self of_nat_id)

lemma unat_of_nat_u64: "n < 2 ^ 64 \<Longrightarrow> unat (of_nat n :: u64) = n"
  by (rule unat_of_nat_fits) simp

lemma unat_succ: "n \<noteq> (- 1 :: 'a::len word) \<Longrightarrow> unat (n + 1) = Suc (unat n)"
  by (metis add.commute add_eq_0_iff unatSuc)

lemma word_le_less_succ: "n \<noteq> (- 1 :: 'a::len word) \<Longrightarrow> x \<le> n \<Longrightarrow> x < n + 1"
  by (simp add: word_less_nat_alt word_le_nat_alt unat_succ)

lemma unat_drop_bit: "unat (drop_bit n (x::'a::len word)) = unat x div 2 ^ n"
proof -
  have "unat (drop_bit n x) = drop_bit n (unat x)"
    by (rule bit_eqI) (simp add: bit_simps)
  then show ?thesis by (simp add: drop_bit_eq_div)
qed

lemma unat_shr: "unat (shr (x::'a::len word) n) = unat x div 2 ^ (n mod LENGTH('a))"
  by (simp only: shr_def unat_drop_bit)

lemma unat_push_bit:
  "unat x * 2 ^ n < 2 ^ LENGTH('a) \<Longrightarrow> unat (push_bit n (x :: 'a::len word)) = unat x * 2 ^ n"
  by (subst unsigned_push_bit_eq) (simp only: push_bit_eq_mult take_bit_eq_mod mod_less)

lemma unat_field: "unat (take_bit n (drop_bit m (x :: 'a::len word))) = unat x div 2 ^ m mod 2 ^ n"
  by (subst unsigned_take_bit_eq) (simp only: unat_drop_bit take_bit_eq_mod)

lemma unat_ucast_8_16 [simp]: "unat (ucast (w :: u8) :: u16) = unat w"
proof -
  have "unat w < 2 ^ 8" using unsigned_less [of w, where 'a = nat] by simp
  then show ?thesis by (simp add: unat_ucast)
qed

lemma shr_and_one: "(shr (x :: u64) n AND 1 = 1) \<longleftrightarrow> bit x (n mod 64)"
  by (simp add: shr_def and_one_eq odd_iff_mod_2_eq_one bit_iff_odd_drop_bit)

lemma shr_eq_0_iff: "n < 64 \<Longrightarrow> shr (x :: u64) n = 0 \<longleftrightarrow> (\<forall>i \<ge> n. \<not> bit x i)"
proof (rule iffI)
  assume "n < 64" and z: "shr x n = 0"
  then have "bit x i = bit (drop_bit n x) (i - n)" if "n \<le> i" for i
    using that by (simp add: bit_simps)
  then show "\<forall>i \<ge> n. \<not> bit x i" using z \<open>n < 64\<close> by (simp add: shr_eq_drop_bit)
next
  assume "n < 64" and "\<forall>i \<ge> n. \<not> bit x i"
  then show "shr x n = 0" by (intro bit_word_eqI) (simp add: shr_eq_drop_bit bit_simps)
qed

text \<open>Shifting left and back right spreads the sign bit.\<close>

lemma sar_shl:
  fixes x :: u64
  assumes "0 < k" and "k \<le> 64"
  shows "sar (shl x (64 - k)) (64 - k) = signed_take_bit (k - 1) x"
proof (rule bit_word_eqI)
  fix i assume i: "i < LENGTH(64)"
  show "bit (sar (shl x (64 - k)) (64 - k)) i = bit (signed_take_bit (k - 1) x) i"
  proof (cases "i < k")
    case True
    then have "min i (k - 1) = i" by simp
    moreover have "i = k - 1" if "k - 1 \<le> i" using that True by simp
    ultimately show ?thesis using True assms i by (auto simp: sar_def bit_simps)
  next
    case False
    then have "min i (k - 1) = k - 1" and "64 - (64 - k) = k" using assms by simp_all
    then show ?thesis using False assms i by (auto simp: sar_def bit_simps)
  qed
qed

lemma sint_signed_take_bit:
  fixes x :: u64
  assumes "k < 64"
  shows "sint (signed_take_bit k x) = signed_take_bit k (uint x)"
  by (rule bit_eqI) (use assms in \<open>auto simp: bit_simps min_def\<close>)

lemma int_top_bit:
  fixes m :: int
  assumes "0 \<le> m" and "m < 2 ^ d" and "0 < d"
  shows "m < 2 ^ (d - 1) \<longleftrightarrow> \<not> bit m (d - 1)"
proof -
  obtain n where n: "d = Suc n" using assms(3) by (cases d) auto
  define r where "r = take_bit n m"
  have r: "0 \<le> r" "r < 2 ^ n" by (simp_all add: r_def)
  have "m = 2 ^ n * of_bool (bit m n) + r"
    using take_bit_Suc_from_most [of n m] assms(1,2) by (simp add: n r_def take_bit_int_eq_self)
  then show ?thesis using r by (cases "bit m n") (auto simp: n)
qed

section \<open>Results and state\<close>

text \<open>\<open>rbind\<close> is \<open>?\<close> on a result.  A stateful operation is a function
  \<open>'s \<Rightarrow> ('e + 'a) \<times> 's\<close>: the state is returned on the error path too, since a Rust
  method that fails keeps the writes it made before the failure.\<close>

definition rbind :: "'e + 'a \<Rightarrow> ('a \<Rightarrow> 'e + 'b) \<Rightarrow> 'e + 'b" where
  "rbind r f = (case r of Inl e \<Rightarrow> Inl e | Inr a \<Rightarrow> f a)"

definition ok_or :: "'a option \<Rightarrow> 'e \<Rightarrow> 'e + 'a" where
  "ok_or x e = (case x of None \<Rightarrow> Inl e | Some a \<Rightarrow> Inr a)"

definition map_err :: "('e \<Rightarrow> 'f) \<Rightarrow> 'e + 'a \<Rightarrow> 'f + 'a" where
  "map_err g r = (case r of Inl e \<Rightarrow> Inl (g e) | Inr a \<Rightarrow> Inr a)"

definition se_bind ::
    "('s \<Rightarrow> ('e + 'a) \<times> 's) \<Rightarrow> ('a \<Rightarrow> 's \<Rightarrow> ('e + 'b) \<times> 's) \<Rightarrow> 's \<Rightarrow> ('e + 'b) \<times> 's" where
  "se_bind m f s = (case m s of (Inl e, s') \<Rightarrow> (Inl e, s') | (Inr a, s') \<Rightarrow> f a s')"

lemma rbind_simps [simp]:
  "rbind (Inl e) f = Inl e"
  "rbind (Inr a) f = f a"
  by (simp_all add: rbind_def)

lemma rbind_Inr_iff: "rbind r f = Inr b \<longleftrightarrow> (\<exists>a. r = Inr a \<and> f a = Inr b)"
  by (cases r) auto

lemma rbind_Inl_iff:
  "rbind r f = Inl e \<longleftrightarrow> r = Inl e \<or> (\<exists>a. r = Inr a \<and> f a = Inl e)"
  by (cases r) auto

lemma rbind_cong [fundef_cong]:
  "r = r' \<Longrightarrow> (\<And>a. r' = Inr a \<Longrightarrow> f a = f' a) \<Longrightarrow> rbind r f = rbind r' f'"
  by (cases r') auto

lemma ok_or_simps [simp]:
  "ok_or None e = Inl e"
  "ok_or (Some a) e = Inr a"
  by (simp_all add: ok_or_def)

lemma ok_or_Inr_iff [simp]: "ok_or x e = Inr a \<longleftrightarrow> x = Some a"
  by (cases x) auto

lemma map_err_simps [simp]:
  "map_err g (Inl e) = Inl (g e)"
  "map_err g (Inr a) = Inr a"
  by (simp_all add: map_err_def)

lemma map_err_Inr_iff [simp]: "map_err g r = Inr a \<longleftrightarrow> r = Inr a"
  by (cases r) auto

lemma se_bind_simps [simp]:
  "m s = (Inl e, s') \<Longrightarrow> se_bind m f s = (Inl e, s')"
  "m s = (Inr a, s') \<Longrightarrow> se_bind m f s = f a s'"
  by (simp_all add: se_bind_def)

text \<open>A result as a stateful operation that leaves the state alone.\<close>

definition se_lift :: "'e + 'a \<Rightarrow> 's \<Rightarrow> ('e + 'a) \<times> 's" where
  "se_lift r s = (r, s)"

lemma se_lift_simps [simp]:
  "se_bind (se_lift (Inr a)) f = f a"
  "se_bind (se_lift (Inl e)) f = se_lift (Inl e)"
  by (simp_all add: se_bind_def se_lift_def fun_eq_iff)

lemma se_lift_apply [simp]: "se_lift r s = (r, s)"
  by (simp add: se_lift_def)

lemma se_bind_Inr_iff:
  "se_bind m f s = (Inr b, s'') \<longleftrightarrow> (\<exists>a s'. m s = (Inr a, s') \<and> f a s' = (Inr b, s''))"
  by (auto simp: se_bind_def split: prod.splits sum.splits)

section \<open>Lists\<close>

text \<open>Overwriting a window of a buffer, \<open>data[start..start + n].copy_from_slice(src)\<close>.\<close>

definition splice :: "'a list \<Rightarrow> nat \<Rightarrow> 'a list \<Rightarrow> 'a list" where
  "splice xs i ys = take i xs @ ys @ drop (i + length ys) xs"

lemma length_splice [simp]:
  "i + length ys \<le> length xs \<Longrightarrow> length (splice xs i ys) = length xs"
  by (simp add: splice_def)

lemma nth_splice:
  assumes "i + length ys \<le> length xs" and "k < length xs"
  shows "splice xs i ys ! k =
    (if i \<le> k \<and> k < i + length ys then ys ! (k - i) else xs ! k)"
  using assms by (auto simp: splice_def nth_append)

lemma take_drop_splice_same:
  "i + length ys \<le> length xs \<Longrightarrow> take (length ys) (drop i (splice xs i ys)) = ys"
  by (simp add: splice_def)

lemma splice_same: "i + n \<le> length xs \<Longrightarrow> splice xs i (take n (drop i xs)) = xs"
  by (simp add: splice_def min_def) (metis append_take_drop_id add.commute drop_drop)

text \<open>The first element that satisfies a predicate, \<open>iter().find(p)\<close>, is the library's
  \<open>List.find\<close>; its position, \<open>iter().position(p)\<close>, is below.\<close>

fun position :: "('a \<Rightarrow> bool) \<Rightarrow> 'a list \<Rightarrow> nat option" where
  "position p [] = None"
| "position p (x # xs) = (if p x then Some 0 else map_option Suc (position p xs))"

lemma position_Some:
  "position p xs = Some i \<Longrightarrow>
     i < length xs \<and> p (xs ! i) \<and> (\<forall>j < i. \<not> p (xs ! j))"
proof (induction xs arbitrary: i)
  case Nil
  then show ?case by simp
next
  case (Cons x xs)
  then show ?case
    by (auto split: if_splits simp: less_Suc_eq_0_disj nth_Cons')
qed

lemma position_None: "position p xs = None \<longleftrightarrow> (\<forall>x \<in> set xs. \<not> p x)"
  by (induction xs) auto

text \<open>\<open>slice.get(i)\<close>.\<close>

definition nth_opt :: "'a list \<Rightarrow> nat \<Rightarrow> 'a option" where
  "nth_opt xs i = (if i < length xs then Some (xs ! i) else None)"

lemma nth_opt_simps [simp]:
  "nth_opt [] i = None"
  "nth_opt (x # xs) 0 = Some x"
  "nth_opt (x # xs) (Suc i) = nth_opt xs i"
  by (simp_all add: nth_opt_def)

lemma nth_opt_Some_iff: "nth_opt xs i = Some x \<longleftrightarrow> i < length xs \<and> xs ! i = x"
  by (auto simp: nth_opt_def)

text \<open>\<open>slice.chunks(n)\<close>: windows of \<open>n\<close> elements, the last one shorter.\<close>

fun chunks :: "nat \<Rightarrow> 'a list \<Rightarrow> 'a list list" where
  "chunks n [] = []"
| "chunks n (x # xs) = (if n = 0 then [] else take n (x # xs) # chunks n (drop n (x # xs)))"

lemma concat_chunks: "0 < n \<Longrightarrow> concat (chunks n xs) = xs"
  by (induction n xs rule: chunks.induct) (auto simp del: take_Suc_Cons drop_Suc_Cons)

lemma chunks_bounds: "c \<in> set (chunks n xs) \<Longrightarrow> c \<noteq> [] \<and> length c \<le> n"
  by (induction n xs rule: chunks.induct) (auto split: if_splits)

end
