(* ===== verification/Strings.thy ===== *)
theory Strings
  imports Prelude "HOL-Library.Sublist"
begin

text \<open>
  The parts of the Rust string library the parsers call, on ASCII strings (a \<open>string\<close> is a
  list of characters, so byte length and character count agree): \<open>trim\<close>, \<open>strip_prefix\<close>,
  \<open>strip_suffix\<close>, \<open>split\<close>, \<open>split_once\<close>, \<open>to_digit\<close> and \<open>from_str_radix\<close>, with a printer
  \<open>to_radix\<close> used to state what the number parsers accept.
\<close>

section \<open>Trimming and splitting\<close>

text \<open>\<open>char::is_whitespace\<close> on ASCII: tab, line feed, vertical tab, form feed, carriage
  return and space.\<close>

definition is_whitespace :: "char \<Rightarrow> bool" where
  "is_whitespace c \<longleftrightarrow>
     (let n = (of_char c :: nat) in (9 \<le> n \<and> n \<le> 13) \<or> n = 32)"

definition trim_start :: "string \<Rightarrow> string" where
  "trim_start s = dropWhile is_whitespace s"

definition trim_end :: "string \<Rightarrow> string" where
  "trim_end s = rev (dropWhile is_whitespace (rev s))"

definition trim :: "string \<Rightarrow> string" where
  "trim s = trim_end (trim_start s)"

definition strip_prefix :: "string \<Rightarrow> string \<Rightarrow> string option" where
  "strip_prefix p s = (if prefix p s then Some (drop (length p) s) else None)"

definition strip_suffix :: "string \<Rightarrow> string \<Rightarrow> string option" where
  "strip_suffix p s =
     (if suffix p s then Some (take (length s - length p) s) else None)"

fun split_char :: "char \<Rightarrow> string \<Rightarrow> string list" where
  "split_char c [] = [[]]"
| "split_char c (x # xs) =
     (if x = c then [] # split_char c xs
      else case split_char c xs of [] \<Rightarrow> [[x]] | p # ps \<Rightarrow> (x # p) # ps)"

fun split_once :: "string \<Rightarrow> string \<Rightarrow> (string \<times> string) option" where
  "split_once p [] = (if p = [] then Some ([], []) else None)"
| "split_once p (x # xs) =
     (if prefix p (x # xs) then Some ([], drop (length p) (x # xs))
      else map_option (\<lambda>(a, b). (x # a, b)) (split_once p xs))"

lemma trim_Nil [simp]: "trim [] = []"
  by (simp add: trim_def trim_start_def trim_end_def)

lemma trim_id:
  assumes "\<forall>c \<in> set s. \<not> is_whitespace c"
  shows "trim s = s"
proof -
  have none: "dropWhile is_whitespace t = t" if "set t = set s" for t
    using that assms by (cases t) auto
  have "dropWhile is_whitespace s = s" by (rule none) (rule refl)
  moreover have "dropWhile is_whitespace (rev s) = rev s" by (rule none) (rule set_rev)
  ultimately show ?thesis by (simp add: trim_def trim_start_def trim_end_def)
qed

lemma trim_surround:
  assumes "\<forall>c \<in> set l. is_whitespace c" and "\<forall>c \<in> set r. is_whitespace c"
    and "s \<noteq> []" and "\<not> is_whitespace (hd s)" and "\<not> is_whitespace (last s)"
  shows "trim (l @ s @ r) = s"
proof -
  have "dropWhile is_whitespace (l @ s @ r) = s @ r"
    using assms by (cases s) (simp_all add: dropWhile_append2)
  moreover have "dropWhile is_whitespace (rev r @ rev s) = rev s"
  proof -
    have "dropWhile is_whitespace (rev r @ rev s) = dropWhile is_whitespace (rev s)"
      by (rule dropWhile_append2) (simp add: assms(2))
    also have "\<dots> = rev s"
    proof (cases "rev s")
      case (Cons x xs)
      then have "x = last s" by (metis hd_rev list.sel(1))
      then show ?thesis using assms(5) by (simp only: Cons dropWhile.simps if_False)
    qed simp
    finally show ?thesis .
  qed
  ultimately show ?thesis by (simp add: trim_def trim_start_def trim_end_def)
qed

lemma split_char_none: "c \<notin> set s \<Longrightarrow> split_char c s = [s]"
  by (induction s) auto

lemma strip_prefix_append [simp]: "strip_prefix p (p @ s) = Some s"
  by (simp add: strip_prefix_def)

lemma strip_prefix_None:
  "s = [] \<or> hd s \<noteq> hd p \<Longrightarrow> p \<noteq> [] \<Longrightarrow> strip_prefix p s = None"
  by (cases s; cases p) (auto simp: strip_prefix_def)

lemma strip_prefix_simps [simp]:
  "strip_prefix [] s = Some s"
  "strip_prefix (p # ps) [] = None"
  "strip_prefix (p # ps) (x # xs) = (if p = x then strip_prefix ps xs else None)"
  by (simp_all add: strip_prefix_def)

lemma split_char_append: "c \<notin> set a \<Longrightarrow> split_char c (a @ c # b) = a # split_char c b"
  by (induction a) auto

lemma length_split_char: "length (split_char c s) \<le> Suc (length s)"
  by (induction s) (auto split: list.splits)

lemma length_dropWhile_le': "length (dropWhile p s) \<le> length s"
  by (induction s) auto

lemma length_trim: "length (trim s) \<le> length s"
  unfolding trim_def trim_start_def trim_end_def
  by (metis length_dropWhile_le' length_rev le_trans)

lemma strip_suffix_append [simp]: "strip_suffix p (s @ p) = Some s"
  by (simp add: strip_suffix_def suffix_def)

lemma split_once_append:
  "p \<noteq> [] \<Longrightarrow> hd p \<notin> set a \<Longrightarrow> split_once p (a @ p @ b) = Some (a, b)"
proof (induction a)
  case Nil
  then show ?case by (cases p) auto
next
  case (Cons x a)
  then show ?case by (cases p) auto
qed

lemma split_once_None: "p \<noteq> [] \<Longrightarrow> hd p \<notin> set s \<Longrightarrow> split_once p s = None"
  by (induction s) (auto simp: prefix_Cons)

section \<open>Numbers\<close>

text \<open>\<open>char::to_digit(radix)\<close>.\<close>

definition to_digit :: "nat \<Rightarrow> char \<Rightarrow> nat option" where
  "to_digit r c =
     (let n = (of_char c :: nat);
          d = (if 48 \<le> n \<and> n \<le> 57 then Some (n - 48)
               else if 97 \<le> n \<and> n \<le> 122 then Some (n - 87)
               else if 65 \<le> n \<and> n \<le> 90 then Some (n - 55)
               else None)
      in case d of Some v \<Rightarrow> if v < r then Some v else None | None \<Rightarrow> None)"

text \<open>\<open>from_str_radix\<close> of an unsigned type: the empty string and a lone sign are errors, one
  leading \<open>+\<close> is skipped, and every digit is accumulated with overflow checks.\<close>

fun radix_digits :: "nat \<Rightarrow> 'a::len word \<Rightarrow> string \<Rightarrow> 'a word option" where
  "radix_digits r acc [] = Some acc"
| "radix_digits r acc (c # cs) =
     (case to_digit r c of
        None \<Rightarrow> None
      | Some d \<Rightarrow>
          (case checked_mul acc (of_nat r) of
             None \<Rightarrow> None
           | Some m \<Rightarrow>
               (case checked_add m (of_nat d) of
                  None \<Rightarrow> None
                | Some a \<Rightarrow> radix_digits r a cs)))"

definition from_str_radix :: "nat \<Rightarrow> string \<Rightarrow> 'a::len word option" where
  "from_str_radix r s =
     (case s of
        [] \<Rightarrow> None
      | c # cs \<Rightarrow>
          if cs = [] \<and> (c = CHR ''+'' \<or> c = CHR ''-'') then None
          else if c = CHR ''+'' then radix_digits r 0 cs
          else radix_digits r 0 s)"

text \<open>The digits of a number, most significant first and without leading zeros.\<close>

definition digit_char :: "nat \<Rightarrow> char" where
  "digit_char d = (if d < 10 then char_of (48 + d) else char_of (87 + d))"

fun to_radix :: "nat \<Rightarrow> nat \<Rightarrow> string" where
  "to_radix r n =
     (if r < 2 \<or> n < r then [digit_char n]
      else to_radix r (n div r) @ [digit_char (n mod r)])"

declare to_radix.simps [simp del]

text \<open>The value of a digit string.\<close>

fun digits_value :: "nat \<Rightarrow> nat \<Rightarrow> string \<Rightarrow> nat option" where
  "digits_value r acc [] = Some acc"
| "digits_value r acc (c # cs) =
     (case to_digit r c of None \<Rightarrow> None | Some d \<Rightarrow> digits_value r (acc * r + d) cs)"

lemma to_digit_digit_char: "d < r \<Longrightarrow> r \<le> 36 \<Longrightarrow> to_digit r (digit_char d) = Some d"
  by (auto simp: to_digit_def digit_char_def Let_def)

lemma to_digit_less: "to_digit r c = Some d \<Longrightarrow> d < r"
  by (auto simp: to_digit_def Let_def split: option.splits if_splits)

lemma digits_value_append:
  "digits_value r acc (xs @ ys) =
     (case digits_value r acc xs of None \<Rightarrow> None | Some v \<Rightarrow> digits_value r v ys)"
  by (induction xs arbitrary: acc) (auto split: option.splits)

lemma digits_value_to_radix:
  assumes "2 \<le> r" and "r \<le> 36"
  shows "digits_value r 0 (to_radix r n) = Some n"
proof (induction n rule: less_induct)
  case (less n)
  show ?case
  proof (cases "n < r")
    case True
    then show ?thesis
      using assms by (simp add: to_radix.simps [of r n] to_digit_digit_char)
  next
    case False
    then have "n div r < n" using assms by (auto intro: div_less_dividend)
    then have "digits_value r 0 (to_radix r (n div r)) = Some (n div r)" by (rule less)
    then show ?thesis
      using False assms
      by (simp add: to_radix.simps [of r n] digits_value_append to_digit_digit_char)
  qed
qed

lemma digits_value_ge: "0 < r \<Longrightarrow> digits_value r acc s = Some v \<Longrightarrow> acc \<le> v"
proof (induction s arbitrary: acc)
  case Nil
  then show ?case by simp
next
  case (Cons c s)
  then obtain d where "to_digit r c = Some d" "digits_value r (acc * r + d) s = Some v"
    by (auto split: option.splits)
  then have "acc * r + d \<le> v" using Cons by blast
  moreover have "acc \<le> acc * r" using Cons.prems by simp
  ultimately show ?case by linarith
qed

text \<open>The parser computes the value of the digits, and fails exactly when a character is no
  digit or the value does not fit.\<close>

lemma radix_digits_eq:
  fixes acc :: "'a::len word"
  assumes "0 < r" and "r < 2 ^ LENGTH('a)"
  shows "radix_digits r acc s =
    (case digits_value r (unat acc) s of
       None \<Rightarrow> None
     | Some v \<Rightarrow> if v < 2 ^ LENGTH('a) then Some (of_nat v) else None)"
proof (induction s arbitrary: acc)
  case Nil
  then show ?case by (simp add: unsigned_less)
next
  case (Cons c cs)
  show ?case
  proof (cases "to_digit r c")
    case None
    then show ?thesis by simp
  next
    case (Some d)
    have dr: "d < r" using Some by (rule to_digit_less)
    have ur: "unat (of_nat r :: 'a word) = r" using assms by (intro unat_of_nat_fits)
    have ud: "unat (of_nat d :: 'a word) = d" using assms dr by (intro unat_of_nat_fits) simp
    show ?thesis
    proof (cases "unat acc * r + d < 2 ^ LENGTH('a)")
      case True
      then have mul: "checked_mul acc (of_nat r) = Some (acc * of_nat r)"
        by (simp add: checked_mul_def ur)
      have um: "unat (acc * of_nat r) = unat acc * r"
        using True by (simp add: unat_word_ariths ur)
      have add: "checked_add (acc * of_nat r) (of_nat d) = Some (acc * of_nat r + of_nat d)"
        using True by (simp add: checked_add_def um ud)
      have ua: "unat (acc * of_nat r + of_nat d) = unat acc * r + d"
        using True by (simp add: unat_word_ariths(1) um ud)
      show ?thesis using Some mul add Cons.IH by (simp add: ua)
    next
      case False
      have "(case checked_mul acc (of_nat r) of None \<Rightarrow> None
             | Some m \<Rightarrow> checked_add m (of_nat d)) = (None :: 'a word option)"
      proof (cases "unat acc * r < 2 ^ LENGTH('a)")
        case True
        then have "unat (acc * of_nat r) = unat acc * r" by (simp add: unat_word_ariths ur)
        then show ?thesis using True False by (simp add: checked_mul_def checked_add_def ur ud)
      next
        case F: False
        then show ?thesis by (simp add: checked_mul_def ur)
      qed
      then have lhs: "radix_digits r acc (c # cs) = None"
        using Some by (auto split: option.splits)
      have "digits_value r (unat acc * r + d) cs = Some v \<Longrightarrow> \<not> v < 2 ^ LENGTH('a)" for v
        using digits_value_ge [OF assms(1)] False by (meson le_less_trans)
      then show ?thesis
        using Some unfolding lhs by (auto split: option.splits)
    qed
  qed
qed

lemma from_str_radix_no_sign:
  assumes "s \<noteq> []" and "hd s \<noteq> CHR ''+''" and "s \<noteq> ''-''"
  shows "from_str_radix r s = (radix_digits r 0 s :: 'a::len word option)"
  using assms by (cases s) (auto simp: from_str_radix_def)

lemma to_radix_not_Nil [simp]: "to_radix r n \<noteq> []"
  by (simp add: to_radix.simps [of r n])

text \<open>A printed number consists of alphanumeric characters only.\<close>

definition is_alnum :: "char \<Rightarrow> bool" where
  "is_alnum c \<longleftrightarrow>
     (let n = (of_char c :: nat)
      in (48 \<le> n \<and> n \<le> 57) \<or> (65 \<le> n \<and> n \<le> 90) \<or> (97 \<le> n \<and> n \<le> 122))"

lemma to_digit_alnum: "to_digit r c = Some d \<Longrightarrow> is_alnum c"
  by (auto simp: to_digit_def is_alnum_def Let_def split: if_splits option.splits)

lemma digits_value_digits:
  "digits_value r acc s = Some v \<Longrightarrow> c \<in> set s \<Longrightarrow> \<exists>d. to_digit r c = Some d"
  by (induction s arbitrary: acc) (auto split: option.splits)

lemma digits_value_alnum: "digits_value r acc s = Some v \<Longrightarrow> c \<in> set s \<Longrightarrow> is_alnum c"
  using digits_value_digits to_digit_alnum by blast

lemma digits_value_bound:
  "digits_value r acc s = Some v \<Longrightarrow> v < (acc + 1) * r ^ length s"
proof (induction s arbitrary: acc)
  case (Cons c s)
  then obtain d where d: "to_digit r c = Some d" "digits_value r (acc * r + d) s = Some v"
    by (auto split: option.splits)
  have "acc * r + d + 1 \<le> (acc + 1) * r" using to_digit_less [OF d(1)] by simp
  then have "(acc * r + d + 1) * r ^ length s \<le> (acc + 1) * r * r ^ length s"
    by (rule mult_le_mono1)
  with Cons.IH [OF d(2)] have "v < (acc + 1) * r * r ^ length s" by (rule order_less_le_trans)
  then show ?case by (simp only: list.size power.simps mult.assoc add_0_right power_Suc
        Suc_eq_plus1 power_add power_one_right mult.commute [of "r ^ length s"])
qed simp

lemma is_alnum_digit_char: "d < 36 \<Longrightarrow> is_alnum (digit_char d)"
  by (auto simp: is_alnum_def digit_char_def Let_def)

lemma to_radix_alnum:
  assumes "2 \<le> r" and "r \<le> 36"
  shows "c \<in> set (to_radix r n) \<Longrightarrow> is_alnum c"
proof (induction n rule: less_induct)
  case (less n)
  show ?case
  proof (cases "n < r")
    case True
    then show ?thesis
      using less.prems assms by (simp add: to_radix.simps [of r n] is_alnum_digit_char)
  next
    case False
    then have "n div r < n" using assms by (auto intro: div_less_dividend)
    moreover have "c \<in> set (to_radix r (n div r)) \<or> c = digit_char (n mod r)"
      using less.prems False assms by (auto simp: to_radix.simps [of r n])
    moreover have "n mod r < 36" using mod_less_divisor [of r n] assms by linarith
    ultimately show ?thesis
      using less.IH by (auto intro: is_alnum_digit_char)
  qed
qed

lemma is_alnum_not_whitespace: "is_alnum c \<Longrightarrow> \<not> is_whitespace c"
  by (auto simp: is_alnum_def is_whitespace_def Let_def)

lemma is_alnum_not_punct:
  "is_alnum c \<Longrightarrow> c \<noteq> CHR ''+'' \<and> c \<noteq> CHR ''-'' \<and> c \<noteq> CHR ''_'' \<and> c \<noteq> CHR ''.'' \<and>
     c \<noteq> CHR ''|'' \<and> c \<noteq> CHR ''?'' \<and> c \<noteq> CHR ''@'' \<and> c \<noteq> CHR ''('' \<and> c \<noteq> CHR '')''"
  by (auto simp: is_alnum_def)

lemma from_str_radix_digits:
  assumes "0 < r" and "r < 2 ^ LENGTH('a::len)" and "s \<noteq> []" and "digits_value r 0 s = Some n"
  shows "from_str_radix r s =
    (if n < 2 ^ LENGTH('a) then Some (of_nat n :: 'a word) else None)"
proof -
  have "is_alnum (hd s)" using digits_value_alnum [OF assms(4)] assms(3) by simp
  then have "hd s \<noteq> CHR ''+''" and "s \<noteq> ''-''" by (auto simp: is_alnum_def)
  then have "from_str_radix r s = (radix_digits r 0 s :: 'a word option)"
    using assms(3) by (intro from_str_radix_no_sign)
  then show ?thesis using assms by (simp add: radix_digits_eq)
qed

lemma from_str_radix_to_radix:
  assumes "2 \<le> r" and "r \<le> 36" and "r < 2 ^ LENGTH('a::len)" and "n < 2 ^ LENGTH('a)"
  shows "from_str_radix r (to_radix r n) = Some (of_nat n :: 'a word)"
  using assms by (subst from_str_radix_digits [of _ _ n]) (simp_all add: digits_value_to_radix)


lemma digits_value_decimal:
  "digits_value 10 acc s = Some v \<Longrightarrow> x \<in> set s \<Longrightarrow> (of_char x :: nat) < 58"
  using digits_value_digits [of 10 acc s v x]
  by (auto simp: to_digit_def Let_def split: if_splits)

lemma decimal_code: "x \<in> set (to_radix 10 n) \<Longrightarrow> (of_char x :: nat) < 58"
  using digits_value_decimal [OF digits_value_to_radix [of 10 n]] by simp

lemma decimal_no_letters:
  "x \<in> set (to_radix 10 n) \<Longrightarrow> x \<noteq> CHR ''b'' \<and> x \<noteq> CHR ''o'' \<and> x \<noteq> CHR ''x''"
  using decimal_code [of x n] by auto

lemma no_radix_prefix:
  assumes "s \<noteq> []" and "q \<notin> set s" and "t = [] \<or> hd t \<noteq> q"
  shows "strip_prefix [p, q] (s @ t) = None"
proof (cases s)
  case (Cons x xs)
  then show ?thesis
    using assms by (cases xs; cases t) (auto simp: strip_prefix_def)
qed (use assms in simp)

lemma decimal_trim: "trim (to_radix 10 n) = to_radix 10 n"
  by (rule trim_id) (auto dest: to_radix_alnum [rotated 2] is_alnum_not_whitespace)

text \<open>A number of \<open>k\<close> binary digits: the digits of an instruction pattern such as \<open>0b0101\<close>,
  leading zeros included.\<close>

definition to_binary :: "nat \<Rightarrow> nat \<Rightarrow> string" where
  "to_binary k n = map (\<lambda>i. if bit n i then CHR ''1'' else CHR ''0'') (rev [0..<k])"

lemma length_to_binary [simp]: "length (to_binary k n) = k"
  by (simp add: to_binary_def)

lemma to_binary_alnum: "c \<in> set (to_binary k n) \<Longrightarrow> is_alnum c"
  by (auto simp: to_binary_def is_alnum_def)

lemma to_binary_Suc:
  "to_binary (Suc k) n = (if bit n k then CHR ''1'' else CHR ''0'') # to_binary k n"
  by (simp add: to_binary_def)

lemma digits_value_to_binary:
  "digits_value 2 acc (to_binary k n) = Some (acc * 2 ^ k + n mod 2 ^ k)"
proof (induction k arbitrary: acc)
  case 0
  then show ?case by (simp add: to_binary_def)
next
  case (Suc k)
  have "n mod 2 ^ Suc k = of_bool (bit n k) * 2 ^ k + n mod 2 ^ k"
    using take_bit_Suc_from_most [of k n] by (simp add: take_bit_eq_mod)
  moreover have "to_digit 2 CHR ''1'' = Some 1" and "to_digit 2 CHR ''0'' = Some 0"
    by (simp_all add: to_digit_def)
  ultimately show ?case
    by (simp add: to_binary_Suc Suc.IH algebra_simps)
qed

section \<open>Formatting\<close>

text \<open>\<open>format!\<close>: the placeholders of a template are filled with the arguments in order; an argument
  is not scanned again.  \<open>quoted\<close> puts an argument between single quotes.\<close>

fun fmt :: "string \<Rightarrow> string list \<Rightarrow> string" where
  "fmt [] args = []"
| "fmt [c] args = [c]"
| "fmt (c # d # cs) args =
     (if c = CHR ''{'' \<and> d = CHR ''}'' then
        (case args of [] \<Rightarrow> c # d # fmt cs [] | a # rest \<Rightarrow> a @ fmt cs rest)
      else c # fmt (d # cs) args)"

definition quoted :: "string \<Rightarrow> string" where
  "quoted s = [CHR 0x27] @ s @ [CHR 0x27]"

text \<open>\<open>{}\<close> and \<open>{:#x}\<close> of an unsigned number, \<open>{}\<close> of a signed one.\<close>

definition dec :: "nat \<Rightarrow> string" where
  "dec n = to_radix 10 n"

definition hex :: "nat \<Rightarrow> string" where
  "hex n = ''0x'' @ to_radix 16 n"

definition dec_int :: "int \<Rightarrow> string" where
  "dec_int i = (if i < 0 then ''-'' @ dec (nat (- i)) else dec (nat i))"

text \<open>\<open>eq_ignore_ascii_case\<close>, \<open>to_ascii_uppercase\<close> and \<open>to_ascii_lowercase\<close>.\<close>

definition ascii_upper :: "char \<Rightarrow> char" where
  "ascii_upper c =
     (let n = (of_char c :: nat) in if 97 \<le> n \<and> n \<le> 122 then char_of (n - 32) else c)"

definition ascii_lower :: "char \<Rightarrow> char" where
  "ascii_lower c =
     (let n = (of_char c :: nat) in if 65 \<le> n \<and> n \<le> 90 then char_of (n + 32) else c)"

definition eq_ignore_ascii_case :: "string \<Rightarrow> string \<Rightarrow> bool" where
  "eq_ignore_ascii_case a b \<longleftrightarrow> map ascii_lower a = map ascii_lower b"

definition is_ascii_alphabetic :: "char \<Rightarrow> bool" where
  "is_ascii_alphabetic c \<longleftrightarrow>
     (let n = (of_char c :: nat) in (65 \<le> n \<and> n \<le> 90) \<or> (97 \<le> n \<and> n \<le> 122))"

definition is_ascii_digit :: "char \<Rightarrow> bool" where
  "is_ascii_digit c \<longleftrightarrow> (let n = (of_char c :: nat) in 48 \<le> n \<and> n \<le> 57)"

definition is_ascii_alphanumeric :: "char \<Rightarrow> bool" where
  "is_ascii_alphanumeric c \<longleftrightarrow> is_ascii_alphabetic c \<or> is_ascii_digit c"

lemma eq_ignore_ascii_case_refl [simp]: "eq_ignore_ascii_case a a"
  by (simp add: eq_ignore_ascii_case_def)

text \<open>The first two parts of \<open>s.split(sep)\<close>, the second one if there is any.\<close>

definition split_two :: "string \<Rightarrow> string \<Rightarrow> string \<times> string option" where
  "split_two sep s =
     (case split_once sep s of
        None \<Rightarrow> (s, None)
      | Some (a, rest) \<Rightarrow>
          (a, Some (case split_once sep rest of None \<Rightarrow> rest | Some (b, c) \<Rightarrow> b)))"

text \<open>\<open>{:0w$}\<close> and \<open>{:w$}\<close> of a number's digits: left padding up to a width.\<close>

definition pad_left :: "char \<Rightarrow> nat \<Rightarrow> string \<Rightarrow> string" where
  "pad_left c w s = replicate (w - length s) c @ s"

definition lower_hex :: "nat \<Rightarrow> string" where
  "lower_hex n = to_radix 16 n"

definition upper_hex :: "nat \<Rightarrow> string" where
  "upper_hex n = map ascii_upper (to_radix 16 n)"

text \<open>\<open>parts.join(sep)\<close>.\<close>

fun join :: "string \<Rightarrow> string list \<Rightarrow> string" where
  "join sep [] = []"
| "join sep [s] = s"
| "join sep (s # t # ts) = s @ sep @ join sep (t # ts)"

end
