(* ===== verification/Endian.thy ===== *)
theory Endian
  imports Prelude
begin

text \<open>
  Model of \<open>src/soc/device/endianness.rs\<close>: the byte order of a device, the decoding of at most
  sixteen bytes into a \<open>u128\<close> and the encoding of a masked \<open>u128\<close> into a sixteen byte array.
  An \<open>assert!\<close> that fails is \<open>None\<close>.  The lemmas describe both directions bit by bit, which is
  the form the data handle uses, and derive the round trips.
\<close>

datatype endianness = Little | Big

definition max_endian_bytes :: nat where
  "max_endian_bytes = 16"

lemma max_endian_bytes_simp [simp]: "max_endian_bytes = 16"
  by (simp add: max_endian_bytes_def)

text \<open>\<open>u128::from_le_bytes\<close> and \<open>to_le_bytes\<close> of the standard library, and their
  big-endian twins.\<close>

fun from_le_bytes :: "u8 list \<Rightarrow> u128" where
  "from_le_bytes [] = 0"
| "from_le_bytes (b # bs) = ucast b OR push_bit 8 (from_le_bytes bs)"

definition from_be_bytes :: "u8 list \<Rightarrow> u128" where
  "from_be_bytes bs = from_le_bytes (rev bs)"

definition to_le_bytes :: "u128 \<Rightarrow> u8 list" where
  "to_le_bytes v = map (\<lambda>k. ucast (drop_bit (8 * k) v)) [0 ..< 16]"

definition to_be_bytes :: "u128 \<Rightarrow> u8 list" where
  "to_be_bytes v = rev (to_le_bytes v)"

definition mask_bits :: "nat \<Rightarrow> u128" where
  "mask_bits width_bits =
     (if width_bits \<ge> 128 then - 1
      else if width_bits = 0 then 0
      else shl 1 width_bits - 1)"

definition decode_bytes :: "endianness \<Rightarrow> u8 list \<Rightarrow> u128 option" where
  "decode_bytes e bytes =
     (if length bytes > max_endian_bytes then None
      else if bytes = [] then Some 0
      else case e of
        Little \<Rightarrow> Some (from_le_bytes (bytes @ replicate (max_endian_bytes - length bytes) 0))
      | Big \<Rightarrow> Some (from_be_bytes (replicate (max_endian_bytes - length bytes) 0 @ bytes)))"

definition decode_bits :: "endianness \<Rightarrow> u8 list \<Rightarrow> nat \<Rightarrow> u128 option" where
  "decode_bits e bytes width_bits =
     map_option (\<lambda>v. v AND mask_bits width_bits) (decode_bytes e bytes)"

definition encode_bits :: "endianness \<Rightarrow> u128 \<Rightarrow> nat \<Rightarrow> nat \<Rightarrow> u8 list option" where
  "encode_bits e v width_bits byte_len =
     (if byte_len > max_endian_bytes then None
      else if byte_len = 0 then Some (replicate max_endian_bytes 0)
      else
        let masked = v AND mask_bits width_bits;
            full = (case e of Little \<Rightarrow> to_le_bytes masked | Big \<Rightarrow> to_be_bytes masked)
        in Some (case e of
             Little \<Rightarrow> take byte_len full @ replicate (max_endian_bytes - byte_len) 0
           | Big \<Rightarrow> drop (max_endian_bytes - byte_len) full
                     @ replicate (max_endian_bytes - byte_len) 0))"

definition encode_scalar :: "endianness \<Rightarrow> u64 \<Rightarrow> nat \<Rightarrow> u8 list option" where
  "encode_scalar e v bit_len = encode_bits e (ucast v) bit_len (max ((bit_len + 7) div 8) 1)"

section \<open>Bit by bit\<close>

lemma mask_bits_eq_mask: "mask_bits w = mask w"
proof -
  have "w \<ge> 128 \<Longrightarrow> (- 1 :: u128) = mask w"
    by (rule bit_word_eqI) (simp add: bit_mask_iff)
  then show ?thesis
    by (auto simp: mask_bits_def shl_eq_push_bit push_bit_one_minus_one simp del: push_bit_of_1)
qed

lemma bit_mask_bits [bit_simps]: "bit (mask_bits w) i \<longleftrightarrow> i < w \<and> i < 128"
  by (auto simp: mask_bits_eq_mask bit_simps)

lemma bit_from_le_bytes:
  "bit (from_le_bytes bs) i \<longleftrightarrow> i < 8 * length bs \<and> i < 128 \<and> bit (bs ! (i div 8)) (i mod 8)"
proof (induction bs arbitrary: i)
  case Nil
  then show ?case by simp
next
  case (Cons b bs)
  show ?case
  proof (cases "i < 8")
    case True
    then show ?thesis by (auto simp: bit_simps)
  next
    case False
    then have "i div 8 = Suc ((i - 8) div 8)" and "i mod 8 = (i - 8) mod 8"
      by (simp_all add: le_div_geq le_mod_geq)
    with False Cons.IH [of "i - 8"] show ?thesis
      by (auto simp: bit_simps dest: bit_imp_le_length)
  qed
qed

lemma length_to_le_bytes [simp]: "length (to_le_bytes v) = 16"
  by (simp add: to_le_bytes_def)

lemma length_to_be_bytes [simp]: "length (to_be_bytes v) = 16"
  by (simp add: to_be_bytes_def)

lemma bit_to_le_bytes: "k < 16 \<Longrightarrow> bit (to_le_bytes v ! k) j \<longleftrightarrow> j < 8 \<and> bit v (8 * k + j)"
  by (auto simp: to_le_bytes_def bit_simps)

text \<open>The value of a byte string in a byte order, without the sixteen byte buffer.\<close>

definition bytes_value :: "endianness \<Rightarrow> u8 list \<Rightarrow> u128" where
  "bytes_value e bs = from_le_bytes (case e of Little \<Rightarrow> bs | Big \<Rightarrow> rev bs)"

lemma from_le_bytes_pad: "from_le_bytes (bs @ replicate k 0) = from_le_bytes bs"
  by (rule bit_word_eqI)
     (auto simp: bit_from_le_bytes nth_append less_mult_imp_div_less mult.commute [of 8])

lemma decode_bytes_value:
  "decode_bytes e bs = (if length bs \<le> 16 then Some (bytes_value e bs) else None)"
  by (cases e) (auto simp: decode_bytes_def bytes_value_def from_be_bytes_def from_le_bytes_pad)

lemma decode_bits_value:
  "length bs \<le> 16 \<Longrightarrow> decode_bits e bs w = Some (bytes_value e bs AND mask_bits w)"
  by (simp add: decode_bits_def decode_bytes_value)

text \<open>The encoded bytes: the low \<open>n\<close> bytes of the masked value, in the byte order.\<close>

lemma encode_bits_value:
  assumes "n \<le> 16"
  shows "encode_bits e v w n = Some
    ((case e of Little \<Rightarrow> take n (to_le_bytes (v AND mask_bits w))
      | Big \<Rightarrow> rev (take n (to_le_bytes (v AND mask_bits w)))) @ replicate (16 - n) 0)"
  using assms
  by (cases e) (auto simp: encode_bits_def Let_def to_be_bytes_def drop_rev)

lemma take_encode_bits:
  assumes "n \<le> 16"
  shows "map_option (take n) (encode_bits e v w n) = Some
    (case e of Little \<Rightarrow> take n (to_le_bytes (v AND mask_bits w))
      | Big \<Rightarrow> rev (take n (to_le_bytes (v AND mask_bits w))))"
  using assms by (cases e) (simp_all add: encode_bits_value min_def)

lemma from_le_bytes_take:
  assumes "n \<le> 16"
  shows "from_le_bytes (take n (to_le_bytes v)) = v AND mask (8 * n)"
proof (rule bit_word_eqI)
  fix i assume "i < LENGTH(128)"
  then have i: "i < 128" by simp
  have "i < 8 * n \<Longrightarrow> i div 8 < n"
    by (simp add: less_mult_imp_div_less mult.commute)
  with i assms show "bit (from_le_bytes (take n (to_le_bytes v))) i \<longleftrightarrow> bit (v AND mask (8 * n)) i"
    by (auto simp: bit_from_le_bytes bit_to_le_bytes bit_simps)
qed

lemma to_le_bytes_from:
  assumes "length bs \<le> 16"
  shows "take (length bs) (to_le_bytes (from_le_bytes bs)) = bs"
proof (rule nth_equalityI)
  show "length (take (length bs) (to_le_bytes (from_le_bytes bs))) = length bs"
    using assms by simp
next
  fix k assume "k < length (take (length bs) (to_le_bytes (from_le_bytes bs)))"
  then have k: "k < length bs" by simp
  have "bit (to_le_bytes (from_le_bytes bs) ! k) j = bit (bs ! k) j" if "j < 8" for j
    using that k assms by (auto simp: bit_to_le_bytes bit_from_le_bytes)
  then show "take (length bs) (to_le_bytes (from_le_bytes bs)) ! k = bs ! k"
    using k by (auto intro: bit_word_eqI)
qed

lemma decode_encode_masked:
  assumes "n \<le> 16" and "w \<le> 8 * n"
  shows "\<exists>out. encode_bits e v w n = Some out \<and> length out = 16 \<and>
    decode_bits e (take n out) w = Some (v AND mask_bits w)"
proof -
  let ?m = "v AND mask_bits w"
  have "(?m AND mask (8 * n)) AND mask_bits w = ?m"
    by (rule bit_word_eqI) (use assms in \<open>auto simp: bit_simps\<close>)
  with assms show ?thesis
    by (cases e) (auto simp: encode_bits_value decode_bits_value bytes_value_def from_le_bytes_take
        min_def)
qed

text \<open>encoding then decoding returns the value masked to the width, in both byte orders,
  whenever the width fits the bytes; the encoder never fails on up to sixteen bytes.\<close>

theorem decode_encode_bits:
  assumes "n \<le> 16" and "w \<le> 8 * n"
  shows "\<exists>out. encode_bits e v w n = Some out \<and> length out = 16 \<and>
    decode_bits e (take n out) w = Some (v AND mask_bits w)"
  using assms by (rule decode_encode_masked)

theorem decode_encode_bits_witness:
  "\<exists>out. encode_bits Big 0x1234 16 2 = Some out \<and> length out = 16 \<and>
    decode_bits Big (take 2 out) 16 = Some (0x1234 AND mask_bits 16)"
  by (rule decode_encode_bits) simp_all

text \<open>Decoding then encoding at the full width returns the bytes, and a byte order is the
  other one on the reversed bytes.\<close>

theorem encode_decode_bytes:
  assumes "length bs \<le> 16"
  shows "\<exists>v out. decode_bytes e bs = Some v \<and>
    encode_bits e v (8 * length bs) (length bs) = Some out \<and> take (length bs) out = bs \<and>
    decode_bytes (case e of Little \<Rightarrow> Big | Big \<Rightarrow> Little) (rev bs) = Some v"
proof -
  have m: "from_le_bytes xs AND mask_bits (8 * length xs) = from_le_bytes xs" for xs
    by (rule bit_word_eqI) (auto simp: bit_simps bit_from_le_bytes)
  from m [of bs] m [of "rev bs"] to_le_bytes_from [of bs] to_le_bytes_from [of "rev bs"] assms
  show ?thesis
    by (cases e) (auto simp: decode_bytes_value encode_bits_value bytes_value_def)
qed

theorem encode_decode_bytes_witness:
  "\<exists>v out. decode_bytes Little [0x34, 0x12] = Some v \<and>
    encode_bits Little v (8 * length [0x34, 0x12 :: u8]) (length [0x34, 0x12 :: u8]) = Some out \<and>
    take (length [0x34, 0x12 :: u8]) out = [0x34, 0x12] \<and>
    decode_bytes (case Little of Little \<Rightarrow> Big | Big \<Rightarrow> Little) (rev [0x34, 0x12]) = Some v"
  by (rule encode_decode_bytes) simp

end
