(* ===== verification/Device.thy ===== *)
theory Device
  imports Endian
begin

text \<open>
  Model of the device layer: \<open>src/soc/device/device.rs\<close> (the \<open>Device\<close> trait),
  \<open>error.rs\<close> and \<open>memory/basic.rs\<close>.  A trait object is a state \<open>'d\<close> and a record of the
  trait's methods over it, the vtable; a method takes \<open>&self\<close> but may mutate behind a lock, so
  it returns the state.  A read fills a caller-owned buffer, so it takes and returns the buffer:
  what a failed read leaves in it is part of the model.  The locale \<open>byte_device\<close> states what the
  bus relies on, and \<open>BasicMemory\<close>, the one implementation of the sources, discharges it.
\<close>

text \<open>\<open>DevicePanic\<close> is a slice access that panics; \<open>Backend\<close> carries no source error, which no
  code of the repository inspects.\<close>

datatype device_error =
    DevOutOfRange u64 u64 u64
  | Unsupported string
  | Backend
  | DevicePanic

record 'd device_ops =
  dev_name :: "'d \<Rightarrow> string"
  dev_span :: "'d \<Rightarrow> u64 \<times> u64"
  dev_endianness :: "'d \<Rightarrow> endianness"
  dev_start_transact :: "'d \<Rightarrow> (device_error + unit) \<times> 'd"
  dev_end_transact :: "'d \<Rightarrow> (device_error + unit) \<times> 'd"
  dev_read :: "'d \<Rightarrow> u64 \<Rightarrow> u8 list \<Rightarrow> (device_error + unit) \<times> u8 list \<times> 'd"
  dev_write :: "'d \<Rightarrow> u64 \<Rightarrow> u8 list \<Rightarrow> (device_error + unit) \<times> 'd"

text \<open>The provided methods of the trait.\<close>

definition default_endianness :: "'d \<Rightarrow> endianness" where
  "default_endianness d = Little"

definition default_start_transact :: "'d \<Rightarrow> (device_error + unit) \<times> 'd" where
  "default_start_transact d = (Inr (), d)"

definition default_end_transact :: "'d \<Rightarrow> (device_error + unit) \<times> 'd" where
  "default_end_transact d = (Inr (), d)"

section \<open>The contract of a byte device\<close>

text \<open>What the bus expects of a device that stores bytes: it spans \<open>0..len\<close>, a transaction
  window costs nothing, a read inside the span returns the stored bytes and changes nothing, a
  write inside it overwrites exactly its window, and an access past the end fails without effect.
  The name and the byte order never change.\<close>

locale byte_device =
  fixes ops :: "'d device_ops"
    and bytes :: "'d \<Rightarrow> u8 list"
  assumes span: "length (bytes d) < 2 ^ 64 \<Longrightarrow> dev_span ops d = (0, of_nat (length (bytes d)))"
    and start_ok: "dev_start_transact ops d = (Inr (), d)"
    and end_ok: "dev_end_transact ops d = (Inr (), d)"
    and read_ok: "unat off + length out \<le> length (bytes d) \<Longrightarrow> length (bytes d) < 2 ^ 64 \<Longrightarrow>
      dev_read ops d off out = (Inr (), take (length out) (drop (unat off) (bytes d)), d)"
    and write_result: "unat off + length xs \<le> length (bytes d) \<Longrightarrow> length (bytes d) < 2 ^ 64 \<Longrightarrow>
      fst (dev_write ops d off xs) = Inr ()"
    and write_bytes: "unat off + length xs \<le> length (bytes d) \<Longrightarrow> length (bytes d) < 2 ^ 64 \<Longrightarrow>
      bytes (snd (dev_write ops d off xs)) = splice (bytes d) (unat off) xs"
    and read_oob: "length (bytes d) < unat off + length out \<Longrightarrow> unat off + length out < 2 ^ 64 \<Longrightarrow>
      out \<noteq> [] \<Longrightarrow> \<exists>e. dev_read ops d off out = (Inl e, out, d)"
    and write_oob: "length (bytes d) < unat off + length xs \<Longrightarrow> unat off + length xs < 2 ^ 64 \<Longrightarrow>
      xs \<noteq> [] \<Longrightarrow> \<exists>e. dev_write ops d off xs = (Inl e, d)"
    and write_name: "dev_name ops (snd (dev_write ops d off xs)) = dev_name ops d"
    and write_endianness:
      "dev_endianness ops (snd (dev_write ops d off xs)) = dev_endianness ops d"
begin

lemma write_length:
  assumes "unat off + length xs \<le> length (bytes d)" and "length (bytes d) < 2 ^ 64"
  shows "length (bytes (snd (dev_write ops d off xs))) = length (bytes d)"
  using assms by (simp add: write_bytes)

text \<open>Reading back what was written, and reading anything that the write did not touch.\<close>

lemma read_after_write:
  assumes "unat off + length xs \<le> length (bytes d)" and "length (bytes d) < 2 ^ 64"
    and "length out = length xs"
  shows "fst (snd (dev_read ops (snd (dev_write ops d off xs)) off out)) = xs"
proof -
  let ?d = "snd (dev_write ops d off xs)"
  have "unat off + length out \<le> length (bytes ?d)" "length (bytes ?d) < 2 ^ 64"
    using assms by (simp_all add: write_length)
  then have "dev_read ops ?d off out = (Inr (), take (length out) (drop (unat off) (bytes ?d)), ?d)"
    by (rule read_ok)
  with assms show ?thesis
    by (simp add: write_bytes take_drop_splice_same)
qed

lemma write_elsewhere:
  assumes "unat off + length xs \<le> length (bytes d)" and "length (bytes d) < 2 ^ 64"
    and "k < length (bytes d)" and "k < unat off \<or> unat off + length xs \<le> k"
  shows "bytes (snd (dev_write ops d off xs)) ! k = bytes d ! k"
  using assms by (auto simp: write_bytes nth_splice)

end

section \<open>\<open>BasicMemory\<close>\<close>

record basic_memory =
  mem_name :: string
  mem_bytes :: "u8 list"
  mem_endian :: endianness

definition basic_memory_new :: "string \<Rightarrow> nat \<Rightarrow> endianness \<Rightarrow> basic_memory" where
  "basic_memory_new name len endian =
     \<lparr>mem_name = name, mem_bytes = replicate len 0, mem_endian = endian\<rparr>"

definition mem_size :: "basic_memory \<Rightarrow> u64" where
  "mem_size m = of_nat (length (mem_bytes m))"

definition mem_span :: "basic_memory \<Rightarrow> u64 \<times> u64" where
  "mem_span m = (0, mem_size m)"

text \<open>\<open>let end = start + len\<close> on a 64-bit \<open>usize\<close>; when it wraps below \<open>start\<close> the range check
  passes and the slice \<open>data[start..end]\<close> panics.\<close>

definition usize_end :: "u64 \<Rightarrow> nat \<Rightarrow> nat" where
  "usize_end byte_offset len = (unat byte_offset + len) mod 2 ^ 64"

definition mem_read ::
    "basic_memory \<Rightarrow> u64 \<Rightarrow> u8 list \<Rightarrow> (device_error + unit) \<times> u8 list \<times> basic_memory" where
  "mem_read m byte_offset out =
     (if out = [] then (Inr (), out, m)
      else
        let start = unat byte_offset;
            stop = usize_end byte_offset (length out);
            data = mem_bytes m
        in if stop > length data then
             (Inl (DevOutOfRange byte_offset (of_nat (length out)) (of_nat (length data))), out, m)
           else if start > stop then (Inl DevicePanic, out, m)
           else (Inr (), take (stop - start) (drop start data), m))"

definition mem_write ::
    "basic_memory \<Rightarrow> u64 \<Rightarrow> u8 list \<Rightarrow> (device_error + unit) \<times> basic_memory" where
  "mem_write m byte_offset data_in =
     (if data_in = [] then (Inr (), m)
      else
        let start = unat byte_offset;
            stop = usize_end byte_offset (length data_in);
            data = mem_bytes m
        in if stop > length data then
             (Inl (DevOutOfRange byte_offset (of_nat (length data_in)) (of_nat (length data))), m)
           else if start > stop then (Inl DevicePanic, m)
           else (Inr (), m\<lparr>mem_bytes := splice data start data_in\<rparr>))"

text \<open>The vtable of \<open>impl Device for BasicMemory\<close>; the transaction hooks are the trait's.\<close>

definition memory_ops :: "basic_memory device_ops" where
  "memory_ops =
     \<lparr>dev_name = mem_name, dev_span = mem_span, dev_endianness = mem_endian,
      dev_start_transact = default_start_transact, dev_end_transact = default_end_transact,
      dev_read = mem_read, dev_write = mem_write\<rparr>"

lemma memory_ops_simps [simp]:
  "dev_name memory_ops = mem_name"
  "dev_span memory_ops = mem_span"
  "dev_endianness memory_ops = mem_endian"
  "dev_start_transact memory_ops = default_start_transact"
  "dev_end_transact memory_ops = default_end_transact"
  "dev_read memory_ops = mem_read"
  "dev_write memory_ops = mem_write"
  by (simp_all add: memory_ops_def)

lemma usize_end_exact: "unat off + n < 2 ^ 64 \<Longrightarrow> usize_end off n = unat off + n"
  by (simp add: usize_end_def)

interpretation mem: byte_device memory_ops mem_bytes
  by unfold_locales
     (auto simp: mem_span_def mem_size_def default_start_transact_def default_end_transact_def
       mem_read_def mem_write_def usize_end_def Let_def splice_def)

text \<open>\<open>BasicMemory\<close> never panics on an access that a 64-bit address can describe; it succeeds
  exactly when the window lies inside the allocation, a failure changes neither the memory nor the
  buffer, and after a successful write a read of the window returns the bytes written and every
  other byte is as before.\<close>

theorem basic_memory_read_write:
  assumes "unat off + length xs < 2 ^ 64" and "xs \<noteq> []" and "length (mem_bytes m) < 2 ^ 64"
    and "length out = length xs"
  shows "(case mem_write m off xs of
      (Inr _, m') \<Rightarrow>
        unat off + length xs \<le> length (mem_bytes m) \<and>
        mem_read m' off out = (Inr (), xs, m') \<and>
        length (mem_bytes m') = length (mem_bytes m) \<and>
        (\<forall>k < length (mem_bytes m). k < unat off \<or> unat off + length xs \<le> k \<longrightarrow>
          mem_bytes m' ! k = mem_bytes m ! k)
    | (Inl e, m') \<Rightarrow>
        length (mem_bytes m) < unat off + length xs \<and> m' = m \<and>
        e = DevOutOfRange off (of_nat (length xs)) (of_nat (length (mem_bytes m))) \<and>
        mem_read m off out = (Inl e, out, m))"
proof (cases "unat off + length xs \<le> length (mem_bytes m)")
  case True
  with assms have "mem_write m off xs = (Inr (), m\<lparr>mem_bytes := splice (mem_bytes m) (unat off) xs\<rparr>)"
    by (simp add: mem_write_def usize_end_exact Let_def)
  with True assms show ?thesis
    by (auto simp: mem_read_def usize_end_exact Let_def take_drop_splice_same nth_splice)
next
  case False
  with assms show ?thesis
    by (auto simp: mem_write_def mem_read_def usize_end_exact Let_def)
qed

theorem basic_memory_read_write_witness:
  "(case mem_write (basic_memory_new ''ram'' 4 Little) 1 [7, 8] of
      (Inr _, m') \<Rightarrow> mem_read m' 1 [0, 0] = (Inr (), [7, 8], m')
    | (Inl e, m') \<Rightarrow> False)"
  using basic_memory_read_write
    [of 1 "[7, 8]" "basic_memory_new ''ram'' 4 Little" "[0, 0]"]
  by (auto simp: basic_memory_new_def split: prod.splits sum.splits)

end
