(* ===== verification/DeviceBus.thy ===== *)
theory DeviceBus
  imports Device
begin

text \<open>
  Model of \<open>src/soc/system/bus/range.rs\<close>, \<open>error.rs\<close> and \<open>device_bus.rs\<close>: the address map of
  the SoC.  Ranges are hashed into buckets by the high bits of the address; each bucket is a list
  ordered by descending priority and then by start, so the first range that contains an address
  wins and a redirect shadows the device under it.  The devices a Rust \<open>Arc\<close> would share live in
  the bus record and are named by their index, which never changes because devices are only added.

  The abstraction the proofs use is \<open>segs_at\<close>, the set of ranges that cover an address;
  \<open>bus_wf\<close> is the invariant that makes the bucket lists agree with it.
\<close>

section \<open>Ranges and errors\<close>

datatype range_kind = KindDevice | KindRedirect

record bus_range =
  br_id :: u64
  br_start :: u64
  br_end :: u64
  br_device_offset :: u64
  br_device_id :: nat
  br_priority :: u8
  br_kind :: range_kind

definition br_contains :: "bus_range \<Rightarrow> u64 \<Rightarrow> bool" where
  "br_contains r addr \<longleftrightarrow> br_start r \<le> addr \<and> addr < br_end r"

definition br_overlaps :: "bus_range \<Rightarrow> bus_range \<Rightarrow> bool" where
  "br_overlaps r other \<longleftrightarrow> br_start r < br_end other \<and> br_start other < br_end r"

definition br_len :: "bus_range \<Rightarrow> u64" where
  "br_len r = br_end r - br_start r"

definition br_is_empty :: "bus_range \<Rightarrow> bool" where
  "br_is_empty r \<longleftrightarrow> br_start r = br_end r"

record resolved_range =
  rr_bus_start :: u64
  rr_bus_end :: u64
  rr_device_offset :: u64
  rr_priority :: u8
  rr_device_id :: nat

definition rr_len :: "resolved_range \<Rightarrow> u64" where
  "rr_len r = rr_bus_end r - rr_bus_start r"

definition rr_is_empty :: "resolved_range \<Rightarrow> bool" where
  "rr_is_empty r \<longleftrightarrow> rr_bus_start r = rr_bus_end r"

definition rr_contains :: "resolved_range \<Rightarrow> u64 \<Rightarrow> bool" where
  "rr_contains r addr \<longleftrightarrow> rr_bus_start r \<le> addr \<and> addr < rr_bus_end r"

text \<open>The texts of \<open>Overlap\<close> are constructors; \<open>FaultInvalidInput\<close> is the \<open>io::Error\<close> of the
  integer helpers; \<open>BusPanic\<close> is a failed \<open>assert!\<close> and \<open>BusDeadlock\<close> a lock the current thread
  already holds for writing.\<close>

datatype overlap_details =
    ConflictsWithDevice string
  | ConflictsWithUnknown
  | RangeIsEmpty
  | ExceedsAddressSpace
  | AlreadyRegistered string

datatype redirect_reason =
    SizeNotPositive
  | TargetAddressOverflow
  | TargetCrossesBoundary
  | SourceAddressOverflow

datatype fault_source = FaultDevice device_error | FaultInvalidInput string

datatype bus_error =
    NotMapped u64
  | Overlap u64 overlap_details
  | RedirectInvalid u64 u64 u64 redirect_reason
  | DeviceFault string fault_source
  | BusOutOfRange u64 u64
  | InvalidDeviceSpan string
  | HandleNotPositioned
  | BusPanic
  | BusDeadlock

section \<open>The bus\<close>

definition device_priority :: u8 where
  "device_priority = 0"

definition redirect_priority :: u8 where
  "redirect_priority = 10"

record 'd device_bus =
  bucket_bits :: nat
  bus_devices :: "'d list"
  name_index :: "string \<rightharpoonup> nat"
  buckets :: "u64 \<rightharpoonup> bus_range list"
  range_index :: "u64 \<rightharpoonup> u64 list"
  redirect_index :: "u64 \<times> u64 \<rightharpoonup> u64"
  next_range_id :: u64

definition device_bus_new :: "nat \<Rightarrow> 'd device_bus option" where
  "device_bus_new bits =
     (if bits < 63 then
        Some \<lparr>bucket_bits = bits, bus_devices = [], name_index = Map.empty, buckets = Map.empty,
          range_index = Map.empty, redirect_index = Map.empty, next_range_id = 1\<rparr>
      else None)"

definition bucket_index :: "'d device_bus \<Rightarrow> u64 \<Rightarrow> u64" where
  "bucket_index bus address = shr address (bucket_bits bus)"

text \<open>\<open>insert_segment\<close>.  On a conflict it takes the read lock of \<open>devices\<close>; \<open>register_device\<close>
  calls it while it holds that lock for writing (\<open>devices_locked\<close>), so there the conflict path
  never comes back with an error value.\<close>

definition insert_segment ::
    "'d device_ops \<Rightarrow> bool \<Rightarrow> 'd list \<Rightarrow> bus_range list \<Rightarrow> bus_range \<Rightarrow> bus_error + bus_range list"
where
  "insert_segment ops devices_locked devs entry segment =
     (case find (\<lambda>ex. br_priority ex = br_priority segment \<and> br_overlaps ex segment) entry of
        Some conflict \<Rightarrow>
          if devices_locked then Inl BusDeadlock
          else Inl (Overlap (br_start segment)
            (case nth_opt devs (br_device_id conflict) of
               Some d \<Rightarrow> ConflictsWithDevice (dev_name ops d)
             | None \<Rightarrow> ConflictsWithUnknown))
      | None \<Rightarrow>
          Inr (case position (\<lambda>ex. br_priority ex < br_priority segment \<or>
                    (br_priority ex = br_priority segment \<and> br_start ex > br_start segment)) entry of
                 Some i \<Rightarrow> take i entry @ segment # drop i entry
               | None \<Rightarrow> entry @ [segment]))"

text \<open>The loop of \<open>add_range\<close> over the bucket indices: \<open>entry(idx).or_default()\<close> creates the
  bucket before the insertion can fail, and an insertion that fails leaves the earlier ones.\<close>

definition bucket_list :: "(u64 \<rightharpoonup> bus_range list) \<Rightarrow> u64 \<Rightarrow> bus_range list" where
  "bucket_list bks idx = (case bks idx of None \<Rightarrow> [] | Some entry \<Rightarrow> entry)"

fun add_segments ::
    "'d device_ops \<Rightarrow> bool \<Rightarrow> 'd list \<Rightarrow> bus_range \<Rightarrow> u64 list \<Rightarrow> (u64 \<rightharpoonup> bus_range list) \<Rightarrow>
     (bus_error + unit) \<times> (u64 \<rightharpoonup> bus_range list)"
where
  "add_segments ops locked devs segment [] bks = (Inr (), bks)"
| "add_segments ops locked devs segment (idx # idxs) bks =
     (let entry = bucket_list bks idx in
      case insert_segment ops locked devs entry segment of
        Inl e \<Rightarrow> (Inl e, bks(idx \<mapsto> entry))
      | Inr entry' \<Rightarrow> add_segments ops locked devs segment idxs (bks(idx \<mapsto> entry')))"

definition index_range :: "u64 \<Rightarrow> u64 \<Rightarrow> u64 list" where
  "index_range lo hi = map of_nat [unat lo ..< Suc (unat hi)]"

definition add_range ::
    "'d device_ops \<Rightarrow> bool \<Rightarrow> 'd device_bus \<Rightarrow> u64 \<Rightarrow> u64 \<Rightarrow> nat \<Rightarrow> u64 \<Rightarrow> u8 \<Rightarrow> range_kind \<Rightarrow>
     (bus_error + u64) \<times> 'd device_bus"
where
  "add_range ops locked bus bus_start bus_stop device_id device_offset priority kind =
     (if bus_stop \<le> bus_start then (Inl (Overlap bus_start RangeIsEmpty), bus)
      else
        let range_id = next_range_id bus;
            idxs = index_range (bucket_index bus bus_start) (bucket_index bus (bus_stop - 1));
            segment = \<lparr>br_id = range_id, br_start = bus_start, br_end = bus_stop,
              br_device_offset = device_offset, br_device_id = device_id,
              br_priority = priority, br_kind = kind\<rparr>;
            (res, bks) = add_segments ops locked (bus_devices bus) segment idxs (buckets bus);
            bus' = bus\<lparr>next_range_id := range_id + 1, buckets := bks\<rparr>
        in case res of
             Inl e \<Rightarrow> (Inl e, bus')
           | Inr _ \<Rightarrow>
               (Inr range_id, bus'\<lparr>range_index := (range_index bus')(range_id \<mapsto> idxs)\<rparr>))"

definition drop_range_from :: "u64 \<Rightarrow> u64 \<Rightarrow> (u64 \<rightharpoonup> bus_range list) \<Rightarrow> (u64 \<rightharpoonup> bus_range list)" where
  "drop_range_from range_id idx bks =
     (case bks idx of
        None \<Rightarrow> bks
      | Some v \<Rightarrow>
          let v' = filter (\<lambda>s. br_id s \<noteq> range_id) v
          in if v' = [] then bks(idx := None) else bks(idx \<mapsto> v'))"

definition remove_range ::
    "'d device_bus \<Rightarrow> u64 \<Rightarrow> (bus_error + bool) \<times> 'd device_bus" where
  "remove_range bus range_id =
     (case range_index bus range_id of
        None \<Rightarrow> (Inr False, bus)
      | Some idxs \<Rightarrow>
          (Inr True,
           bus\<lparr>range_index := (range_index bus)(range_id := None),
               buckets := fold (drop_range_from range_id) idxs (buckets bus)\<rparr>))"

definition register_device ::
    "'d device_ops \<Rightarrow> 'd device_bus \<Rightarrow> 'd \<Rightarrow> u64 \<Rightarrow> (bus_error + unit) \<times> 'd device_bus" where
  "register_device ops bus device base_address =
     (let (span_start, span_end) = dev_span ops device;
          name = dev_name ops device
      in if span_start \<noteq> 0 \<or> span_end \<le> span_start then (Inl (InvalidDeviceSpan name), bus)
         else case checked_add base_address (span_end - span_start) of
           None \<Rightarrow> (Inl (Overlap base_address ExceedsAddressSpace), bus)
         | Some stop \<Rightarrow>
             if name_index bus name \<noteq> None
             then (Inl (Overlap base_address (AlreadyRegistered name)), bus)
             else
               let device_id = length (bus_devices bus);
                   bus1 = bus\<lparr>bus_devices := bus_devices bus @ [device],
                     name_index := (name_index bus)(name \<mapsto> device_id)\<rparr>;
                   (res, bus2) = add_range ops True bus1 base_address stop device_id 0
                     device_priority KindDevice
               in (rbind res (\<lambda>_. Inr ()), bus2))"

definition resolved_of :: "bus_range \<Rightarrow> resolved_range" where
  "resolved_of segment =
     \<lparr>rr_bus_start = br_start segment, rr_bus_end = br_end segment,
      rr_device_offset = br_device_offset segment, rr_priority = br_priority segment,
      rr_device_id = br_device_id segment\<rparr>"

definition resolve :: "'d device_bus \<Rightarrow> u64 \<Rightarrow> bus_error + resolved_range" where
  "resolve bus address =
     (case Option.bind (buckets bus (bucket_index bus address))
             (find (\<lambda>segment. br_contains segment address)) of
        None \<Rightarrow> Inl (NotMapped address)
      | Some segment \<Rightarrow>
          (case nth_opt (bus_devices bus) (br_device_id segment) of
             None \<Rightarrow> Inl (NotMapped address)
           | Some _ \<Rightarrow> Inr (resolved_of segment)))"

definition bytes_to_end :: "'d device_bus \<Rightarrow> u64 \<Rightarrow> bus_error + u64" where
  "bytes_to_end bus address = rbind (resolve bus address) (\<lambda>r. Inr (rr_bus_end r - address))"

definition redirect ::
    "'d device_ops \<Rightarrow> 'd device_bus \<Rightarrow> u64 \<Rightarrow> u64 \<Rightarrow> u64 \<Rightarrow> (bus_error + unit) \<times> 'd device_bus" where
  "redirect ops bus source_start sz target_start =
     (let invalid = (\<lambda>reason. (Inl (RedirectInvalid source_start sz target_start reason), bus))
      in if sz = 0 then invalid SizeNotPositive
         else case resolve bus target_start of
           Inl e \<Rightarrow> (Inl e, bus)
         | Inr resolved \<Rightarrow>
             (case checked_add target_start sz of
                None \<Rightarrow> invalid TargetAddressOverflow
              | Some target_end \<Rightarrow>
                  if target_end > rr_bus_end resolved then invalid TargetCrossesBoundary
                  else case checked_add source_start sz of
                    None \<Rightarrow> invalid SourceAddressOverflow
                  | Some source_end \<Rightarrow>
                      let device_offset =
                            rr_device_offset resolved + (target_start - rr_bus_start resolved);
                          (res, bus1) = add_range ops False bus source_start source_end
                            (rr_device_id resolved) device_offset redirect_priority KindRedirect
                      in case res of
                           Inl e \<Rightarrow> (Inl e, bus1)
                         | Inr range_id \<Rightarrow>
                             (Inr (), bus1\<lparr>redirect_index :=
                               (redirect_index bus1)((source_start, sz) \<mapsto> range_id)\<rparr>)))"

definition remove_redirect ::
    "'d device_bus \<Rightarrow> u64 \<Rightarrow> u64 \<Rightarrow> (bus_error + bool) \<times> 'd device_bus" where
  "remove_redirect bus source_start sz =
     (case redirect_index bus (source_start, sz) of
        None \<Rightarrow> (Inr False, bus)
      | Some range_id \<Rightarrow>
          remove_range
            (bus\<lparr>redirect_index := (redirect_index bus)((source_start, sz) := None)\<rparr>) range_id)"

section \<open>Buckets\<close>

text \<open>What the operations keep true of one bucket: ordered by descending priority, and within one
  priority by disjoint ascending ranges.\<close>

definition seg_before :: "bus_range \<Rightarrow> bus_range \<Rightarrow> bool" where
  "seg_before a b \<longleftrightarrow>
     br_priority b < br_priority a \<or> (br_priority a = br_priority b \<and> br_end a \<le> br_start b)"

definition bucket_sorted :: "bus_range list \<Rightarrow> bool" where
  "bucket_sorted v \<longleftrightarrow> sorted_wrt seg_before v \<and> (\<forall>s \<in> set v. br_start s < br_end s)"

definition place_segment :: "bus_range \<Rightarrow> bus_range list \<Rightarrow> bus_range list" where
  "place_segment segment entry =
     (case position (\<lambda>ex. br_priority ex < br_priority segment \<or>
          (br_priority ex = br_priority segment \<and> br_start ex > br_start segment)) entry of
        Some i \<Rightarrow> take i entry @ segment # drop i entry
      | None \<Rightarrow> entry @ [segment])"

definition no_conflict :: "bus_range \<Rightarrow> bus_range list \<Rightarrow> bool" where
  "no_conflict segment entry \<longleftrightarrow>
     (\<forall>ex \<in> set entry. br_priority ex = br_priority segment \<longrightarrow> \<not> br_overlaps ex segment)"

lemma insert_segment_Inr:
  "insert_segment ops locked devs entry segment = Inr entry' \<longleftrightarrow>
     no_conflict segment entry \<and> entry' = place_segment segment entry"
  by (auto simp: insert_segment_def no_conflict_def place_segment_def find_None_iff find_Some_iff
      split: option.splits)

lemma set_place_segment: "set (place_segment segment entry) = insert segment (set entry)"
  by (auto simp: place_segment_def dest: in_set_takeD in_set_dropD split: option.splits)
     (metis Un_iff append_take_drop_id set_append)+

lemma bucket_sorted_place:
  assumes "bucket_sorted entry" and "no_conflict segment entry" and "br_start segment < br_end segment"
  shows "bucket_sorted (place_segment segment entry)"
proof -
  let ?late = "\<lambda>ex. br_priority ex < br_priority segment \<or>
    (br_priority ex = br_priority segment \<and> br_start ex > br_start segment)"
  have early: "seg_before ex segment" if "ex \<in> set entry" "\<not> ?late ex" for ex
    using that assms unfolding seg_before_def no_conflict_def br_overlaps_def by force
  have late: "seg_before segment ex" if "ex \<in> set entry" "?late ex" for ex
    using that assms unfolding seg_before_def no_conflict_def br_overlaps_def bucket_sorted_def
    by force
  have later: "?late b" if "?late a" "seg_before a b" "br_start a < br_end a" for a b
    using that unfolding seg_before_def by force
  show ?thesis
  proof (cases "position ?late entry")
    case None
    then have "\<forall>ex \<in> set entry. seg_before ex segment"
      using early by (auto simp: position_None)
    with assms None show ?thesis
      by (simp add: place_segment_def bucket_sorted_def sorted_wrt_append)
  next
    case (Some i)
    then have i: "i < length entry" "?late (entry ! i)" "\<forall>j < i. \<not> ?late (entry ! j)"
      using position_Some [OF Some] by blast+
    have before: "\<forall>ex \<in> set (take i entry). seg_before ex segment"
    proof
      fix ex assume "ex \<in> set (take i entry)"
      then obtain j where "j < i" "j < length entry" "ex = entry ! j"
        by (auto simp: in_set_conv_nth)
      with i(3) show "seg_before ex segment" by (intro early) auto
    qed
    have after: "\<forall>ex \<in> set (drop i entry). seg_before segment ex"
    proof
      fix ex assume "ex \<in> set (drop i entry)"
      then obtain k where "k < length entry - i" "ex = drop i entry ! k"
        by (auto simp: in_set_conv_nth)
      with i(1) have k: "i + k < length entry" "ex = entry ! (i + k)" by simp_all
      have "?late ex"
      proof (cases k)
        case 0
        with i k show ?thesis by simp
      next
        case (Suc n)
        with assms(1) k i have "seg_before (entry ! i) ex"
          unfolding bucket_sorted_def by (simp add: sorted_wrt_iff_nth_less)
        moreover have "br_start (entry ! i) < br_end (entry ! i)"
          using assms(1) i unfolding bucket_sorted_def by simp
        ultimately show ?thesis using later [OF i(2)] by blast
      qed
      then show "seg_before segment ex" using k late by simp
    qed
    have "sorted_wrt seg_before (take i entry @ drop i entry)"
      using assms(1) by (simp add: bucket_sorted_def)
    with before after have "sorted_wrt seg_before (take i entry @ segment # drop i entry)"
      unfolding sorted_wrt_append by auto
    moreover have "\<forall>s \<in> set (take i entry @ segment # drop i entry). br_start s < br_end s"
      using assms(1,3) by (auto simp: bucket_sorted_def dest: in_set_takeD in_set_dropD)
    ultimately show ?thesis
      using Some by (simp add: place_segment_def bucket_sorted_def)
  qed
qed

lemma bucket_sorted_filter: "bucket_sorted v \<Longrightarrow> bucket_sorted (filter p v)"
  by (auto simp: bucket_sorted_def sorted_wrt_filter)

text \<open>In a sorted bucket the first range that contains an address beats every other one.\<close>

lemma find_contains_max:
  assumes "bucket_sorted v" and "find (\<lambda>s. br_contains s a) v = Some s"
  shows "s \<in> set v \<and> br_contains s a \<and>
    (\<forall>s' \<in> set v. br_contains s' a \<longrightarrow> s' = s \<or> br_priority s' < br_priority s)"
proof -
  from assms(2) obtain i where i: "i < length v" "s = v ! i" "br_contains s a"
      "\<forall>j < i. \<not> br_contains (v ! j) a"
    by (auto simp: find_Some_iff)
  have "s' = s \<or> br_priority s' < br_priority s" if "s' \<in> set v" "br_contains s' a" for s'
  proof -
    from that obtain j where j: "j < length v" "s' = v ! j" by (auto simp: in_set_conv_nth)
    with that i(4) have "i \<le> j" by (meson not_less)
    show ?thesis
    proof (cases "i = j")
      case True
      with i j show ?thesis by simp
    next
      case False
      with \<open>i \<le> j\<close> have "seg_before s s'"
        using assms(1) i j by (simp add: bucket_sorted_def sorted_wrt_iff_nth_less)
      with that i(3) show ?thesis
        unfolding seg_before_def br_contains_def by force
    qed
  qed
  with i show ?thesis by auto
qed

section \<open>The loops of \<open>add_range\<close> and \<open>remove_range\<close>\<close>

lemma unat_of_nat_below: "n \<le> unat (hi :: u64) \<Longrightarrow> unat (of_nat n :: u64) = n"
  using unsigned_less [of hi, where 'a = nat] by (simp add: unat_of_nat take_bit_nat_eq_self)

lemma set_index_range: "set (index_range lo hi) = {lo .. hi}"
proof (intro equalityI subsetI)
  fix x :: u64 assume "x \<in> set (index_range lo hi)"
  then obtain k where k: "unat lo \<le> k" "k \<le> unat hi" "x = of_nat k"
    by (auto simp: index_range_def)
  with unat_of_nat_below [OF k(2)] show "x \<in> {lo .. hi}" by (simp add: word_le_nat_alt)
next
  fix x :: u64 assume "x \<in> {lo .. hi}"
  then have "unat x \<in> {unat lo ..< Suc (unat hi)}" by (simp add: word_le_nat_alt)
  moreover have "x = of_nat (unat x)" by simp
  ultimately show "x \<in> set (index_range lo hi)"
    unfolding index_range_def set_map set_upt by (rule rev_image_eqI)
qed

lemma distinct_index_range: "distinct (index_range lo hi)"
proof -
  have "inj_on (of_nat :: nat \<Rightarrow> u64) {unat lo ..< Suc (unat hi)}"
    by (rule inj_onI) (metis atLeastLessThan_iff less_Suc_eq_le unat_of_nat_below)
  then show ?thesis unfolding index_range_def distinct_map by (simp del: upt_Suc)
qed

lemma bucket_list_upd:
  "bucket_list (bks(idx \<mapsto> v)) idx' = (if idx' = idx then v else bucket_list bks idx')"
  "bucket_list (bks(idx := None)) idx' = (if idx' = idx then [] else bucket_list bks idx')"
  by (simp_all add: bucket_list_def)

text \<open>Whatever the outcome, each bucket either is as before or holds the segment in its place.\<close>

lemma add_segments_any:
  assumes "add_segments ops locked devs segment idxs bks = (res, bks')" and "distinct idxs"
  shows "bucket_list bks' idx = bucket_list bks idx \<or>
    (idx \<in> set idxs \<and> no_conflict segment (bucket_list bks idx) \<and>
     bucket_list bks' idx = place_segment segment (bucket_list bks idx))"
  using assms
proof (induction idxs arbitrary: bks)
  case Nil
  then show ?case by simp
next
  case (Cons i idxs)
  show ?case
  proof (cases "insert_segment ops locked devs (bucket_list bks i) segment")
    case (Inl e)
    with Cons.prems have "bks' = bks(i \<mapsto> bucket_list bks i)" by (simp add: Let_def)
    then have "bucket_list bks' idx = bucket_list bks idx"
      by (metis bucket_list_upd(1))
    then show ?thesis ..
  next
    case (Inr entry')
    then have e: "no_conflict segment (bucket_list bks i)"
        "entry' = place_segment segment (bucket_list bks i)"
      by (simp_all add: insert_segment_Inr)
    from Inr Cons.prems have "add_segments ops locked devs segment idxs (bks(i \<mapsto> entry')) = (res, bks')"
      by (simp add: Let_def)
    from Cons.IH [OF this] Cons.prems(2) e show ?thesis
      unfolding bucket_list_upd by (auto split: if_splits)
  qed
qed

lemma add_segments_ok:
  assumes "add_segments ops locked devs segment idxs bks = (Inr (), bks')" and "distinct idxs"
  shows "bucket_list bks' idx =
      (if idx \<in> set idxs then place_segment segment (bucket_list bks idx) else bucket_list bks idx) \<and>
    (idx \<in> set idxs \<longrightarrow> no_conflict segment (bucket_list bks idx))"
  using assms
proof (induction idxs arbitrary: bks)
  case Nil
  then show ?case by simp
next
  case (Cons i idxs)
  then obtain entry' where "insert_segment ops locked devs (bucket_list bks i) segment = Inr entry'"
      and step: "add_segments ops locked devs segment idxs (bks(i \<mapsto> entry')) = (Inr (), bks')"
    by (auto simp: Let_def split: sum.splits)
  then have e: "no_conflict segment (bucket_list bks i)"
      "entry' = place_segment segment (bucket_list bks i)"
    by (simp_all add: insert_segment_Inr)
  from Cons.IH [OF step] Cons.prems(2) e show ?case
    unfolding bucket_list_upd by (auto split: if_splits)
qed

lemma bucket_list_drop_range:
  "bucket_list (drop_range_from rid idx bks) idx' =
     (if idx' = idx then filter (\<lambda>s. br_id s \<noteq> rid) (bucket_list bks idx')
      else bucket_list bks idx')"
  by (auto simp: drop_range_from_def bucket_list_def Let_def split: option.splits)

lemma bucket_list_drop_ranges:
  "bucket_list (fold (drop_range_from rid) idxs bks) idx =
     (if idx \<in> set idxs then filter (\<lambda>s. br_id s \<noteq> rid) (bucket_list bks idx)
      else bucket_list bks idx)"
  by (induction idxs arbitrary: bks) (auto simp: bucket_list_drop_range)


section \<open>The invariant of the bus\<close>

text \<open>A range is well formed: not empty, of a priority its kind has, over a device of the bus and
  inside that device's span.\<close>

definition seg_ok :: "'d device_ops \<Rightarrow> 'd device_bus \<Rightarrow> bus_range \<Rightarrow> bool" where
  "seg_ok ops bus s \<longleftrightarrow>
     br_start s < br_end s \<and>
     br_priority s = (case br_kind s of KindDevice \<Rightarrow> device_priority | KindRedirect \<Rightarrow> redirect_priority) \<and>
     br_device_id s < length (bus_devices bus) \<and>
     unat (br_device_offset s) + unat (br_len s)
       \<le> unat (snd (dev_span ops (bus_devices bus ! br_device_id s)))"

definition bus_wf :: "'d device_ops \<Rightarrow> 'd device_bus \<Rightarrow> bool" where
  "bus_wf ops bus \<longleftrightarrow>
     bucket_bits bus < 63 \<and>
     (\<forall>idx. bucket_sorted (bucket_list (buckets bus) idx)) \<and>
     (\<forall>idx. \<forall>s \<in> set (bucket_list (buckets bus) idx).
        seg_ok ops bus s \<and> br_id s < next_range_id bus) \<and>
     (\<forall>d \<in> set (bus_devices bus). fst (dev_span ops d) = 0 \<and> 0 < snd (dev_span ops d)) \<and>
     (\<forall>rid. range_index bus rid \<noteq> None \<longrightarrow> rid < next_range_id bus)"

text \<open>The ranges that cover an address, as the buckets hold them.\<close>

definition segs_at :: "'d device_bus \<Rightarrow> u64 \<Rightarrow> bus_range set" where
  "segs_at bus a =
     {s \<in> set (bucket_list (buckets bus) (bucket_index bus a)). br_contains s a}"

lemma bucket_index_mono:
  assumes "a \<le> b" shows "bucket_index bus a \<le> bucket_index bus b"
  using assms
  by (simp only: bucket_index_def word_le_nat_alt unat_shr div_le_mono)

lemma contains_bucket:
  assumes "br_contains s a"
  shows "bucket_index bus a \<in>
    set (index_range (bucket_index bus (br_start s)) (bucket_index bus (br_end s - 1)))"
proof -
  have "a \<le> br_end s - 1"
    using assms unfolding br_contains_def by (blast intro: word_less_le_minus_one)
  with assms show ?thesis
    by (simp add: set_index_range br_contains_def bucket_index_mono)
qed

text \<open>\<open>resolve\<close> in terms of the covering ranges.\<close>

lemma resolve_find:
  "resolve bus a =
     (case find (\<lambda>s. br_contains s a) (bucket_list (buckets bus) (bucket_index bus a)) of
        None \<Rightarrow> Inl (NotMapped a)
      | Some s \<Rightarrow> if br_device_id s < length (bus_devices bus) then Inr (resolved_of s)
                   else Inl (NotMapped a))"
  by (auto simp: resolve_def bucket_list_def nth_opt_def split: option.splits)

lemma resolve_NotMapped:
  assumes "bus_wf ops bus" and "segs_at bus a = {}"
  shows "resolve bus a = Inl (NotMapped a)"
proof -
  have "find (\<lambda>s. br_contains s a) (bucket_list (buckets bus) (bucket_index bus a)) = None"
    using assms(2) by (auto simp: segs_at_def find_None_iff)
  then show ?thesis by (simp add: resolve_find)
qed

lemma resolve_top:
  assumes wf: "bus_wf ops bus" and s: "s \<in> segs_at bus a"
    and top: "\<forall>s' \<in> segs_at bus a. s' = s \<or> br_priority s' < br_priority s"
  shows "resolve bus a = Inr (resolved_of s)"
proof -
  let ?v = "bucket_list (buckets bus) (bucket_index bus a)"
  have "find (\<lambda>s. br_contains s a) ?v \<noteq> None"
    using s by (auto simp: segs_at_def find_None_iff)
  then obtain t where t: "find (\<lambda>s. br_contains s a) ?v = Some t" by blast
  have "bucket_sorted ?v" using wf by (simp add: bus_wf_def)
  from find_contains_max [OF this t] have max: "t \<in> segs_at bus a"
      "\<forall>s' \<in> segs_at bus a. s' = t \<or> br_priority s' < br_priority t"
    by (auto simp: segs_at_def)
  with top max s have "t = s" by (metis order_less_asym)
  moreover from wf s have "br_device_id s < length (bus_devices bus)"
    by (auto simp: bus_wf_def seg_ok_def segs_at_def)
  ultimately show ?thesis using t by (simp add: resolve_find)
qed

lemma resolve_cases:
  assumes "bus_wf ops bus"
  obtains (unmapped) "resolve bus a = Inl (NotMapped a)" "segs_at bus a = {}"
  | (mapped) s where "resolve bus a = Inr (resolved_of s)" "s \<in> segs_at bus a"
      "\<forall>s' \<in> segs_at bus a. s' = s \<or> br_priority s' < br_priority s"
proof (cases "segs_at bus a = {}")
  case True
  with assms unmapped resolve_NotMapped show ?thesis by blast
next
  case False
  let ?v = "bucket_list (buckets bus) (bucket_index bus a)"
  from False obtain s where "find (\<lambda>s. br_contains s a) ?v = Some s"
    by (force simp: segs_at_def find_None_iff not_None_eq [symmetric])
  moreover have "bucket_sorted ?v" using assms by (simp add: bus_wf_def)
  ultimately have max: "s \<in> segs_at bus a"
      "\<forall>s' \<in> segs_at bus a. s' = s \<or> br_priority s' < br_priority s"
    using find_contains_max by (auto simp: segs_at_def)
  with assms mapped resolve_top show ?thesis by blast
qed

lemma segs_at_ok:
  "bus_wf ops bus \<Longrightarrow> s \<in> segs_at bus a \<Longrightarrow>
     seg_ok ops bus s \<and> br_contains s a \<and> br_id s < next_range_id bus"
  unfolding segs_at_def bus_wf_def by blast

text \<open>Two buses that have the same covering ranges resolve alike.\<close>

lemma resolve_cong:
  assumes "bus_wf ops bus" and "bus_wf ops bus'" and "segs_at bus' a = segs_at bus a"
  shows "resolve bus' a = resolve bus a"
  using assms(1)
proof (cases rule: resolve_cases [where a = a])
  case unmapped
  with assms show ?thesis by (simp add: resolve_NotMapped)
next
  case (mapped s)
  with assms show ?thesis by (simp add: resolve_top)
qed


section \<open>Adding and removing a range\<close>

definition new_segment ::
    "'d device_bus \<Rightarrow> u64 \<Rightarrow> u64 \<Rightarrow> nat \<Rightarrow> u64 \<Rightarrow> u8 \<Rightarrow> range_kind \<Rightarrow> bus_range" where
  "new_segment bus start stop device_id device_offset priority kind =
     \<lparr>br_id = next_range_id bus, br_start = start, br_end = stop,
      br_device_offset = device_offset, br_device_id = device_id,
      br_priority = priority, br_kind = kind\<rparr>"

definition covered_buckets :: "'d device_bus \<Rightarrow> u64 \<Rightarrow> u64 \<Rightarrow> u64 list" where
  "covered_buckets bus start stop =
     index_range (bucket_index bus start) (bucket_index bus (stop - 1))"

lemma add_range_cases:
  assumes "start < stop" and "add_range ops locked bus start stop did off prio kind = (res, bus')"
  obtains (ok) bks where
    "add_segments ops locked (bus_devices bus) (new_segment bus start stop did off prio kind)
       (covered_buckets bus start stop) (buckets bus) = (Inr (), bks)"
    and "res = Inr (next_range_id bus)"
    and "bus' = bus\<lparr>next_range_id := next_range_id bus + 1, buckets := bks,
      range_index := (range_index bus)(next_range_id bus \<mapsto> covered_buckets bus start stop)\<rparr>"
  | (err) bks e where
    "add_segments ops locked (bus_devices bus) (new_segment bus start stop did off prio kind)
       (covered_buckets bus start stop) (buckets bus) = (Inl e, bks)"
    and "res = Inl e"
    and "bus' = bus\<lparr>next_range_id := next_range_id bus + 1, buckets := bks\<rparr>"
proof -
  obtain r bks where r: "add_segments ops locked (bus_devices bus)
      (new_segment bus start stop did off prio kind)
      (covered_buckets bus start stop) (buckets bus) = (r, bks)"
    by fastforce
  note run = assms(2) [unfolded add_range_def Let_def new_segment_def [symmetric]
      covered_buckets_def [symmetric] r]
  have n: "(stop \<le> start) = False" using assms(1) by simp
  show ?thesis
  proof (cases r)
    case (Inl e)
    with run have "res = Inl e" "bus' = bus\<lparr>next_range_id := next_range_id bus + 1, buckets := bks\<rparr>"
      by (simp_all add: n)
    with r Inl err show ?thesis by blast
  next
    case (Inr u)
    with run have "res = Inr (next_range_id bus)"
      "bus' = bus\<lparr>next_range_id := next_range_id bus + 1, buckets := bks,
        range_index := (range_index bus)(next_range_id bus \<mapsto> covered_buckets bus start stop)\<rparr>"
      by (simp_all add: n)
    with r Inr ok show ?thesis by simp
  qed
qed

lemma add_range_same:
  assumes "add_range ops locked bus start stop did off prio kind = (res, bus')"
  shows "bus_devices bus' = bus_devices bus \<and> bucket_bits bus' = bucket_bits bus \<and>
    name_index bus' = name_index bus \<and> redirect_index bus' = redirect_index bus"
  using assms by (auto simp: add_range_def Let_def split: if_splits prod.splits sum.splits)

text \<open>The invariant survives the attempt, successful or not.\<close>

lemma add_range_wf:
  assumes wf: "bus_wf ops bus" and room: "next_range_id bus \<noteq> - 1"
    and seg: "seg_ok ops bus (new_segment bus start stop did off prio kind)"
    and run: "add_range ops locked bus start stop did off prio kind = (res, bus')"
  shows "bus_wf ops bus'"
proof -
  let ?seg = "new_segment bus start stop did off prio kind"
  from seg have le: "start < stop" by (simp add: seg_ok_def new_segment_def)
  from le run have "\<exists>bks r. add_segments ops locked (bus_devices bus) ?seg
       (covered_buckets bus start stop) (buckets bus) = (r, bks) \<and>
      buckets bus' = bks \<and> next_range_id bus' = next_range_id bus + 1 \<and>
      (\<forall>rid. range_index bus' rid \<noteq> None \<longrightarrow>
        range_index bus rid \<noteq> None \<or> rid = next_range_id bus)"
  proof (cases rule: add_range_cases)
    case (ok bks)
    then show ?thesis by (intro exI [of _ bks] exI [of _ "Inr ()"]) simp
  next
    case (err bks e)
    then show ?thesis by (intro exI [of _ bks] exI [of _ "Inl e"]) simp
  qed
  then obtain bks r where add: "add_segments ops locked (bus_devices bus) ?seg
       (covered_buckets bus start stop) (buckets bus) = (r, bks)"
    and b': "buckets bus' = bks" and n': "next_range_id bus' = next_range_id bus + 1"
    and r': "\<And>rid. range_index bus' rid \<noteq> None \<Longrightarrow>
        range_index bus rid \<noteq> None \<or> rid = next_range_id bus"
    by blast
  have lt: "x < next_range_id bus + 1" if "x \<le> next_range_id bus" for x
    using room that by (rule word_le_less_succ)
  have bucket: "bucket_list bks idx = bucket_list (buckets bus) idx \<or>
      no_conflict ?seg (bucket_list (buckets bus) idx) \<and>
      bucket_list bks idx = place_segment ?seg (bucket_list (buckets bus) idx)" for idx
    using add_segments_any [OF add] by (auto simp: covered_buckets_def distinct_index_range)
  have same: "seg_ok ops bus' s = seg_ok ops bus s" for s
    using add_range_same [OF run] by (simp add: seg_ok_def)
  have sorted: "bucket_sorted (bucket_list bks idx)" for idx
    using bucket [of idx] wf le
    by (auto simp: bus_wf_def new_segment_def intro!: bucket_sorted_place)
  have members: "seg_ok ops bus' s \<and> br_id s < next_range_id bus'"
    if "s \<in> set (bucket_list bks idx)" for s idx
  proof -
    from that bucket [of idx] have "s = ?seg \<or> s \<in> set (bucket_list (buckets bus) idx)"
      by (auto simp: set_place_segment)
    then show ?thesis
    proof
      assume "s = ?seg"
      with seg show ?thesis by (simp add: same n' lt) (simp add: new_segment_def lt)
    next
      assume "s \<in> set (bucket_list (buckets bus) idx)"
      with wf have "seg_ok ops bus s" "br_id s < next_range_id bus" by (auto simp: bus_wf_def)
      then show ?thesis by (simp add: same n' lt)
    qed
  qed
  have ids: "rid < next_range_id bus'" if "range_index bus' rid \<noteq> None" for rid
    using r' [OF that] wf by (auto simp: n' bus_wf_def intro!: lt)
  show ?thesis
    using wf add_range_same [OF run] sorted members ids unfolding bus_wf_def b' by simp
qed

lemma segs_at_empty_outside:
  assumes "idx \<notin> set (covered_buckets bus start stop)" and "bucket_index bus a = idx"
  shows "\<not> (start \<le> a \<and> a < stop)"
proof
  assume "start \<le> a \<and> a < stop"
  then have "a \<le> stop - 1" by (blast intro: word_less_le_minus_one)
  then have "bucket_index bus a \<le> bucket_index bus (stop - 1)"
    by (rule bucket_index_mono)
  moreover from \<open>start \<le> a \<and> a < stop\<close> have "bucket_index bus start \<le> bucket_index bus a"
    by (simp add: bucket_index_mono)
  ultimately show False
    using assms by (auto simp: covered_buckets_def set_index_range)
qed

text \<open>A successful addition covers exactly the addresses of the range, which no range of the same
  priority covered before.\<close>

lemma add_range_ok:
  assumes run: "add_range ops locked bus start stop did off prio kind = (Inr rid, bus')"
  shows "rid = next_range_id bus"
    and "start < stop"
    and "segs_at bus' a = segs_at bus a \<union>
      (if start \<le> a \<and> a < stop then {new_segment bus start stop did off prio kind} else {})"
    and "start \<le> a \<and> a < stop \<longrightarrow> (\<forall>s \<in> segs_at bus a. br_priority s \<noteq> prio)"
    and "range_index bus' = (range_index bus)(rid \<mapsto> covered_buckets bus start stop)"
    and "next_range_id bus' = next_range_id bus + 1"
proof -
  let ?seg = "new_segment bus start stop did off prio kind"
  show le: "start < stop" using run by (auto simp: add_range_def split: if_splits)
  from le run obtain bks where add: "add_segments ops locked (bus_devices bus) ?seg
       (covered_buckets bus start stop) (buckets bus) = (Inr (), bks)"
    and bus': "bus' = bus\<lparr>next_range_id := next_range_id bus + 1, buckets := bks,
      range_index := (range_index bus)(next_range_id bus \<mapsto> covered_buckets bus start stop)\<rparr>"
    and rid: "rid = next_range_id bus"
    by (cases rule: add_range_cases) auto
  show "rid = next_range_id bus" by (rule rid)
  show "range_index bus' = (range_index bus)(rid \<mapsto> covered_buckets bus start stop)"
    and "next_range_id bus' = next_range_id bus + 1"
    by (simp_all add: bus' rid)
  have distinct: "distinct (covered_buckets bus start stop)"
    by (simp add: covered_buckets_def distinct_index_range)
  let ?i = "bucket_index bus a"
  have bucket: "bucket_list bks ?i =
      (if ?i \<in> set (covered_buckets bus start stop)
       then place_segment ?seg (bucket_list (buckets bus) ?i) else bucket_list (buckets bus) ?i)"
    and free: "?i \<in> set (covered_buckets bus start stop) \<Longrightarrow>
      no_conflict ?seg (bucket_list (buckets bus) ?i)"
    using add_segments_ok [OF add distinct] by blast+
  have i': "bucket_index bus' a = ?i" by (simp add: bus' bucket_index_def)
  have inside: "?i \<in> set (covered_buckets bus start stop)" if "start \<le> a \<and> a < stop"
    using that segs_at_empty_outside by blast
  have seg_a: "br_contains ?seg a \<longleftrightarrow> start \<le> a \<and> a < stop"
    by (simp add: br_contains_def new_segment_def)
  show "segs_at bus' a = segs_at bus a \<union> (if start \<le> a \<and> a < stop then {?seg} else {})"
    unfolding segs_at_def i' using bucket inside seg_a
    by (auto simp: bus' set_place_segment split: if_splits)
  show "start \<le> a \<and> a < stop \<longrightarrow> (\<forall>s \<in> segs_at bus a. br_priority s \<noteq> prio)"
  proof (intro impI ballI notI)
    fix s assume a: "start \<le> a \<and> a < stop" and s: "s \<in> segs_at bus a" and "br_priority s = prio"
    with free [OF inside [OF a]] have "\<not> br_overlaps s ?seg"
      by (auto simp: no_conflict_def segs_at_def new_segment_def)
    moreover from a s have "br_overlaps s ?seg"
      by (auto simp: br_overlaps_def segs_at_def br_contains_def new_segment_def)
    ultimately show False ..
  qed
qed


section \<open>Registration\<close>

text \<open>The bus after \<open>devices.push\<close> and \<open>names.insert\<close>, before the range is added.\<close>

definition push_device :: "'d device_ops \<Rightarrow> 'd device_bus \<Rightarrow> 'd \<Rightarrow> 'd device_bus" where
  "push_device ops bus d =
     bus\<lparr>bus_devices := bus_devices bus @ [d],
       name_index := (name_index bus)(dev_name ops d \<mapsto> length (bus_devices bus))\<rparr>"

lemma push_device_simps [simp]:
  "bus_devices (push_device ops bus d) = bus_devices bus @ [d]"
  "buckets (push_device ops bus d) = buckets bus"
  "bucket_bits (push_device ops bus d) = bucket_bits bus"
  "range_index (push_device ops bus d) = range_index bus"
  "next_range_id (push_device ops bus d) = next_range_id bus"
  "bucket_index (push_device ops bus d) = bucket_index bus"
  "segs_at (push_device ops bus d) = segs_at bus"
  by (auto simp: push_device_def bucket_index_def segs_at_def fun_eq_iff)

lemma seg_ok_push: "seg_ok ops bus s \<Longrightarrow> seg_ok ops (push_device ops bus d) s"
  by (auto simp: seg_ok_def nth_append)

lemma push_device_wf:
  assumes "bus_wf ops bus" and "fst (dev_span ops d) = 0" and "0 < snd (dev_span ops d)"
  shows "bus_wf ops (push_device ops bus d)"
  using assms by (auto simp: bus_wf_def seg_ok_push)

lemma device_segment_ok:
  assumes "0 < snd (dev_span ops d)" and "checked_add base (snd (dev_span ops d)) = Some stop"
  shows "seg_ok ops (push_device ops bus d)
    (new_segment (push_device ops bus d) base stop (length (bus_devices bus)) 0
      device_priority KindDevice)"
proof -
  from assms(2) have "unat stop = unat base + unat (snd (dev_span ops d))"
    by (rule checked_add_unat)
  with assms have "base < stop" by (simp add: word_less_nat_alt)
  moreover have "stop - base = snd (dev_span ops d)"
    using assms(2) by (simp add: checked_add_Some)
  ultimately show ?thesis
    by (simp add: seg_ok_def new_segment_def br_len_def)
qed

lemma register_device_cases:
  assumes "register_device ops bus d base = (res, bus')"
  obtains (span) "fst (dev_span ops d) \<noteq> 0 \<or> snd (dev_span ops d) \<le> fst (dev_span ops d)"
      "res = Inl (InvalidDeviceSpan (dev_name ops d))" "bus' = bus"
  | (space) "checked_add base (snd (dev_span ops d)) = None"
      "res = Inl (Overlap base ExceedsAddressSpace)" "bus' = bus"
  | (name) "name_index bus (dev_name ops d) \<noteq> None"
      "res = Inl (Overlap base (AlreadyRegistered (dev_name ops d)))" "bus' = bus"
  | (added) stop r where "fst (dev_span ops d) = 0" "0 < snd (dev_span ops d)"
      "checked_add base (snd (dev_span ops d)) = Some stop"
      "name_index bus (dev_name ops d) = None"
      "add_range ops True (push_device ops bus d) base stop (length (bus_devices bus)) 0
         device_priority KindDevice = (r, bus')"
      "res = rbind r (\<lambda>_. Inr ())"
proof (cases "dev_span ops d")
  case (Pair lo hi)
  note run = assms [unfolded register_device_def Pair Let_def prod.case push_device_def [symmetric]]
  consider "lo \<noteq> 0 \<or> hi \<le> lo" | "lo = 0" "0 < hi" by (metis not_le)
  then show ?thesis
  proof cases
    case 1
    with run Pair span show ?thesis by simp
  next
    case 2
    then have hi: "hi \<noteq> 0" by simp
    note run = run [unfolded 2(1), simplified, unfolded if_not_P [OF hi]]
    show ?thesis
    proof (cases "checked_add base hi")
      case None
      with run have "res = Inl (Overlap base ExceedsAddressSpace)" "bus' = bus" by (simp_all add: 2)
      then show ?thesis by (intro space) (simp_all add: Pair None)
    next
      case (Some stop)
      show ?thesis
      proof (cases "name_index bus (dev_name ops d)")
        case None
        obtain r b where r: "add_range ops True (push_device ops bus d) base stop
            (length (bus_devices bus)) 0 device_priority KindDevice = (r, b)" by fastforce
        with run Some None have "res = rbind r (\<lambda>_. Inr ())" "bus' = b" by (simp_all add: 2)
        with r show ?thesis by (intro added [of stop r]) (simp_all add: Pair 2 Some None)
      next
        case name': (Some i)
        with run Some have "res = Inl (Overlap base (AlreadyRegistered (dev_name ops d)))" "bus' = bus"
          by (simp_all add: 2)
        then show ?thesis by (intro name) (simp_all add: name')
      qed
    qed
  qed
qed

lemma register_device_effect:
  assumes wf: "bus_wf ops bus" and room: "next_range_id bus \<noteq> - 1"
    and run: "register_device ops bus d base = (res, bus')"
  shows "bus_wf ops bus' \<and>
    (res = Inr () \<longrightarrow>
      (let stop = base + snd (dev_span ops d) in
        base < stop \<and> name_index bus (dev_name ops d) = None \<and>
        bus_devices bus' = bus_devices bus @ [d] \<and>
        (\<forall>a s. base \<le> a \<and> a < stop \<and> s \<in> segs_at bus a \<longrightarrow> br_kind s = KindRedirect) \<and>
        (\<forall>a. resolve bus' a =
          (if base \<le> a \<and> a < stop \<and> segs_at bus a = {}
           then Inr \<lparr>rr_bus_start = base, rr_bus_end = stop, rr_device_offset = 0,
             rr_priority = device_priority, rr_device_id = length (bus_devices bus)\<rparr>
           else resolve bus a))))"
  using run
proof (cases rule: register_device_cases)
  case (added stop r)
  let ?bus = "push_device ops bus d"
  let ?seg = "new_segment ?bus base stop (length (bus_devices bus)) 0 device_priority KindDevice"
  have wf1: "bus_wf ops ?bus" using wf added by (simp add: push_device_wf)
  have seg: "seg_ok ops ?bus ?seg" using added by (simp add: device_segment_ok)
  have wf': "bus_wf ops bus'"
    using add_range_wf [OF wf1 _ seg added(5)] room by simp
  have stop: "stop = base + snd (dev_span ops d)" using added by (simp add: checked_add_Some)
  show ?thesis
  proof (cases r)
    case (Inl e)
    with added wf' show ?thesis by simp
  next
    case (Inr rid)
    note run' = added(5) [unfolded Inr]
    note segs = add_range_ok(3) [OF run']
    have redirects: "br_kind s = KindRedirect" if "base \<le> a \<and> a < stop" "s \<in> segs_at bus a" for a s
      using add_range_ok(4) [OF run'] that segs_at_ok [OF wf that(2)]
      by (cases "br_kind s") (auto simp: seg_ok_def)
    have "resolve bus' a =
        (if base \<le> a \<and> a < stop \<and> segs_at bus a = {} then Inr (resolved_of ?seg)
         else resolve bus a)" for a
    proof (cases "base \<le> a \<and> a < stop")
      case in_range: True
      with segs have at: "segs_at bus' a = insert ?seg (segs_at bus a)" by auto
      show ?thesis
      proof (cases "segs_at bus a = {}")
        case True
        with at in_range wf' show ?thesis by (simp add: resolve_top)
      next
        case False
        from wf show ?thesis
        proof (cases rule: resolve_cases [where a = a])
          case unmapped
          with False show ?thesis by simp
        next
          case (mapped s)
          from redirects [OF in_range mapped(2)] segs_at_ok [OF wf mapped(2)]
          have "br_priority s = redirect_priority" by (simp add: seg_ok_def)
          then have "br_priority ?seg < br_priority s"
            by (simp add: new_segment_def device_priority_def redirect_priority_def)
          with mapped at have "resolve bus' a = Inr (resolved_of s)"
            by (intro resolve_top [OF wf']) auto
          with mapped False show ?thesis by simp
        qed
      qed
    next
      case False
      with segs have "segs_at bus' a = segs_at bus a" by auto
      with False resolve_cong [OF wf wf'] show ?thesis by auto
    qed
    moreover have "base < stop" by (rule add_range_ok(2) [OF run'])
    moreover have "bus_devices bus' = bus_devices bus @ [d]"
      using add_range_same [OF added(5)] by simp
    ultimately show ?thesis
      using wf' added(4) redirects unfolding stop [symmetric] Let_def
      by (simp add: resolved_of_def new_segment_def) blast
  qed
qed (use wf in simp_all)


text \<open>C10: Registering a device keeps the invariant of the address map whatever the outcome.  When it
  succeeds the device has a span that fits the address space, a fresh name and no device under any
  of its addresses; from then on every address of its range that no redirect shadows resolves to it,
  and every address that was mapped resolves as before.\<close>

theorem register_device_spec:
  assumes wf: "bus_wf ops bus" and room: "next_range_id bus \<noteq> - 1"
    and run: "register_device ops bus d base = (res, bus')"
  shows "bus_wf ops bus' \<and>
    (res = Inr () \<longrightarrow>
      (let stop = base + snd (dev_span ops d) in
        base < stop \<and> name_index bus (dev_name ops d) = None \<and>
        bus_devices bus' = bus_devices bus @ [d] \<and>
        (\<forall>a s. base \<le> a \<and> a < stop \<and> s \<in> segs_at bus a \<longrightarrow> br_kind s = KindRedirect) \<and>
        (\<forall>a. resolve bus' a =
          (if base \<le> a \<and> a < stop \<and> segs_at bus a = {}
           then Inr \<lparr>rr_bus_start = base, rr_bus_end = stop, rr_device_offset = 0,
             rr_priority = device_priority, rr_device_id = length (bus_devices bus)\<rparr>
           else resolve bus a))))"
  using assms by (rule register_device_effect)

text \<open>A concrete bus: one device of sixteen bytes at address \<open>0\<close>.  The reader can evaluate every
  operation on it.\<close>

definition demo_memory :: basic_memory where
  "demo_memory = basic_memory_new ''ram'' 16 Little"

definition empty_bus :: "nat \<Rightarrow> basic_memory device_bus" where
  "empty_bus bits = \<lparr>bucket_bits = bits, bus_devices = [], name_index = Map.empty,
     buckets = Map.empty, range_index = Map.empty, redirect_index = Map.empty, next_range_id = 1\<rparr>"

definition demo_bus :: "basic_memory device_bus" where
  "demo_bus = snd (register_device memory_ops (empty_bus 4) demo_memory 0)"

lemma empty_bus_wf: "bits < 63 \<Longrightarrow> bus_wf ops (empty_bus bits)"
  by (simp add: bus_wf_def empty_bus_def bucket_list_def bucket_sorted_def)

lemma demo_span: "mem_span demo_memory = (0, 16)"
  by (simp add: demo_memory_def basic_memory_new_def mem_span_def mem_size_def)

lemma demo_register: "register_device memory_ops (empty_bus 4) demo_memory 0 = (Inr (), demo_bus)"
  and demo_bus_next: "next_range_id demo_bus = 2"
proof -
  have "index_range 0 0 = [0]" by (simp add: index_range_def)
  then show "register_device memory_ops (empty_bus 4) demo_memory 0 = (Inr (), demo_bus)"
    and "next_range_id demo_bus = 2"
    by (simp_all add: demo_bus_def demo_span register_device_def empty_bus_def checked_add_def
        Let_def add_range_def bucket_index_def shr_def bucket_list_def insert_segment_def)
qed

lemma demo_bus_buckets:
  "buckets demo_bus = [0 \<mapsto> [\<lparr>br_id = 1, br_start = 0, br_end = 16, br_device_offset = 0,
     br_device_id = 0, br_priority = device_priority, br_kind = KindDevice\<rparr>]]"
  and demo_bus_fields: "bus_devices demo_bus = [demo_memory]" "bucket_bits demo_bus = 4"
    "range_index demo_bus = [1 \<mapsto> [0]]"
proof -
  have "index_range 0 0 = [0]" by (simp add: index_range_def)
  then show "buckets demo_bus = [0 \<mapsto> [\<lparr>br_id = 1, br_start = 0, br_end = 16, br_device_offset = 0,
      br_device_id = 0, br_priority = device_priority, br_kind = KindDevice\<rparr>]]"
    and "bus_devices demo_bus = [demo_memory]" "bucket_bits demo_bus = 4"
    "range_index demo_bus = [1 \<mapsto> [0]]"
    by (simp_all add: demo_bus_def demo_span register_device_def empty_bus_def checked_add_def
        Let_def add_range_def bucket_index_def shr_def bucket_list_def insert_segment_def)
qed

lemma demo_bus_wf: "bus_wf memory_ops demo_bus"
  by (auto simp: bus_wf_def demo_bus_fields demo_bus_next demo_bus_buckets bucket_list_def
      bucket_sorted_def seg_ok_def demo_span br_len_def split: if_splits)

theorem register_device_spec_witness:
  "bus_wf memory_ops demo_bus \<and>
   resolve demo_bus 5 = Inr \<lparr>rr_bus_start = 0, rr_bus_end = 16, rr_device_offset = 0,
     rr_priority = device_priority, rr_device_id = 0\<rparr>"
proof -
  have 1: "next_range_id (empty_bus 4) \<noteq> - 1" by (simp add: empty_bus_def)
  from register_device_spec [OF empty_bus_wf 1 demo_register]
  have "resolve demo_bus a =
      (if a < 16 \<and> segs_at (empty_bus 4) a = {}
       then Inr \<lparr>rr_bus_start = 0, rr_bus_end = 16, rr_device_offset = 0,
         rr_priority = device_priority, rr_device_id = length (bus_devices (empty_bus 4))\<rparr>
       else resolve (empty_bus 4) a)" and "bus_wf memory_ops demo_bus" for a
    by (simp_all add: demo_span Let_def)
  then show ?thesis by (simp add: empty_bus_def segs_at_def bucket_list_def)
qed


section \<open>Redirects\<close>

lemma redirect_Inr:
  assumes "redirect ops bus src sz tgt = (Inr (), bus')"
  obtains r stop src_end rid bus1 where
    "sz \<noteq> 0" "resolve bus tgt = Inr r" "checked_add tgt sz = Some stop" "stop \<le> rr_bus_end r"
    "checked_add src sz = Some src_end"
    "add_range ops False bus src src_end (rr_device_id r)
       (rr_device_offset r + (tgt - rr_bus_start r)) redirect_priority KindRedirect = (Inr rid, bus1)"
    "bus' = bus1\<lparr>redirect_index := (redirect_index bus1)((src, sz) \<mapsto> rid)\<rparr>"
  using assms by (auto simp: redirect_def Let_def not_less split: if_splits sum.splits option.splits prod.splits)

text \<open>The window a redirect translates to lies inside the target's range, so the new range is
  well formed.\<close>

lemma redirect_segment_ok:
  assumes wf: "bus_wf ops bus" and r: "resolve bus tgt = Inr r"
    and stop: "checked_add tgt sz = Some stop" "stop \<le> rr_bus_end r" and "sz \<noteq> 0"
    and src_end: "checked_add src sz = Some src_end"
  shows "seg_ok ops bus (new_segment bus src src_end (rr_device_id r)
      (rr_device_offset r + (tgt - rr_bus_start r)) redirect_priority KindRedirect)"
  using wf
proof (cases rule: resolve_cases [where a = tgt])
  case unmapped
  with r show ?thesis by simp
next
  case (mapped s)
  with r have r': "r = resolved_of s" by simp
  from segs_at_ok [OF wf mapped(2)] have s: "seg_ok ops bus s" "br_contains s tgt" by auto
  have end': "unat src_end = unat src + unat sz" and stop': "unat stop = unat tgt + unat sz"
    using src_end stop by (simp_all add: checked_add_unat)
  have sz: "0 < unat sz" using \<open>sz \<noteq> 0\<close> by (simp add: unat_gt_0)
  then have lt: "src < src_end" by (simp add: word_less_nat_alt end')
  have len: "unat (src_end - src) = unat sz"
    using src_end by (simp add: checked_add_Some)
  from s have off: "unat (tgt - br_start s) = unat tgt - unat (br_start s)"
    and len': "unat (br_end s - br_start s) = unat (br_end s) - unat (br_start s)"
    by (simp_all add: unat_sub br_contains_def seg_ok_def less_imp_le)
  let ?lim = "unat (snd (dev_span ops (bus_devices bus ! br_device_id s)))"
  from s stop(2) off len' stop' r' have fits:
      "unat (br_device_offset s) + unat (tgt - br_start s) + unat sz \<le> ?lim"
    by (auto simp: seg_ok_def br_len_def br_contains_def resolved_of_def word_le_nat_alt
        word_less_nat_alt)
  have "?lim < 2 ^ 64" by (rule unat_u64_less)
  with fits have "unat (br_device_offset s + (tgt - br_start s)) =
      unat (br_device_offset s) + unat (tgt - br_start s)"
    by (simp add: unat_word_ariths)
  with fits lt len s(1) show ?thesis
    by (simp add: seg_ok_def new_segment_def br_len_def r' resolved_of_def)
qed


lemma redirect_effect:
  assumes wf: "bus_wf ops bus" and room: "next_range_id bus \<noteq> - 1"
    and run: "redirect ops bus src sz tgt = (Inr (), bus')"
  shows "bus_wf ops bus' \<and> (\<exists>r. resolve bus tgt = Inr r \<and>
    (\<forall>a. resolve bus' a =
      (if src \<le> a \<and> a < src + sz
       then Inr \<lparr>rr_bus_start = src, rr_bus_end = src + sz,
         rr_device_offset = rr_device_offset r + (tgt - rr_bus_start r),
         rr_priority = redirect_priority, rr_device_id = rr_device_id r\<rparr>
       else resolve bus a)) \<and>
    (\<forall>i < sz. rr_device_offset r + (tgt - rr_bus_start r) + ((src + i) - src) =
      rr_device_offset r + ((tgt + i) - rr_bus_start r)) \<and>
    unat (rr_device_offset r + (tgt - rr_bus_start r)) + unat sz
      \<le> unat (snd (dev_span ops (bus_devices bus ! rr_device_id r))))"
  using run
proof (cases rule: redirect_Inr)
  case (1 r stop src_end rid bus1)
  let ?seg = "new_segment bus src src_end (rr_device_id r)
    (rr_device_offset r + (tgt - rr_bus_start r)) redirect_priority KindRedirect"
  have seg: "seg_ok ops bus ?seg"
    by (rule redirect_segment_ok [OF wf 1(2,3,4,1,5)])
  have wf1: "bus_wf ops bus1" by (rule add_range_wf [OF wf room seg 1(6)])
  then have wf': "bus_wf ops bus'" by (simp add: 1(7) bus_wf_def seg_ok_def)
  have src_end: "src_end = src + sz" using 1(5) by (simp add: checked_add_Some)
  have segs': "segs_at bus' a = segs_at bus1 a" for a
    by (simp add: 1(7) segs_at_def bucket_index_def)
  have res: "resolve bus' a =
      (if src \<le> a \<and> a < src + sz then Inr (resolved_of ?seg) else resolve bus a)" for a
  proof (cases "src \<le> a \<and> a < src_end")
    case True
    with add_range_ok(3) [OF 1(6)] have at: "segs_at bus' a = insert ?seg (segs_at bus a)"
      by (simp add: segs')
    have "br_priority s < br_priority ?seg" if "s \<in> segs_at bus a" for s
    proof -
      from add_range_ok(4) [OF 1(6)] True that have "br_priority s \<noteq> redirect_priority" by blast
      with segs_at_ok [OF wf that] show ?thesis
        by (auto simp: seg_ok_def new_segment_def device_priority_def redirect_priority_def
            split: range_kind.splits)
    qed
    with at have "resolve bus' a = Inr (resolved_of ?seg)" by (intro resolve_top [OF wf']) auto
    with True src_end show ?thesis by simp
  next
    case False
    with add_range_ok(3) [OF 1(6)] have "segs_at bus' a = segs_at bus a"
      by (auto simp: segs')
    with False src_end resolve_cong [OF wf wf'] show ?thesis by auto
  qed
  have "br_len ?seg = sz"
    using 1(5) by (simp add: br_len_def new_segment_def checked_add_Some)
  with seg have "unat (rr_device_offset r + (tgt - rr_bus_start r)) + unat sz
      \<le> unat (snd (dev_span ops (bus_devices bus ! rr_device_id r)))"
    by (auto simp: seg_ok_def) (simp_all add: new_segment_def)
  with wf' res 1(2) src_end show ?thesis
    by (intro conjI exI [of _ r]) (simp_all add: resolved_of_def new_segment_def algebra_simps)
qed

text \<open>A redirect that fails may leave ranges behind, but well-formed ones.\<close>

lemma redirect_Inl:
  assumes "redirect ops bus src sz tgt = (Inl e, bus')" and "bus' \<noteq> bus"
  obtains r stop src_end where
    "sz \<noteq> 0" "resolve bus tgt = Inr r" "checked_add tgt sz = Some stop" "stop \<le> rr_bus_end r"
    "checked_add src sz = Some src_end"
    "add_range ops False bus src src_end (rr_device_id r)
       (rr_device_offset r + (tgt - rr_bus_start r)) redirect_priority KindRedirect = (Inl e, bus')"
  using assms by (auto simp: redirect_def Let_def not_less split: if_splits sum.splits option.splits prod.splits)

lemma redirect_wf:
  assumes wf: "bus_wf ops bus" and room: "next_range_id bus \<noteq> - 1"
    and run: "redirect ops bus src sz tgt = (res, bus')"
  shows "bus_wf ops bus' \<and> bus_devices bus' = bus_devices bus \<and> name_index bus' = name_index bus \<and>
    (next_range_id bus' = next_range_id bus \<or> next_range_id bus' = next_range_id bus + 1)"
proof (cases "bus' = bus")
  case False
  have added: "bus_wf ops bus1 \<and> bus_devices bus1 = bus_devices bus \<and> name_index bus1 = name_index bus \<and>
      (next_range_id bus1 = next_range_id bus \<or> next_range_id bus1 = next_range_id bus + 1)"
    if "sz \<noteq> 0" "resolve bus tgt = Inr r" "checked_add tgt sz = Some stop" "stop \<le> rr_bus_end r"
      "checked_add src sz = Some src_end"
      and run': "add_range ops False bus src src_end (rr_device_id r)
         (rr_device_offset r + (tgt - rr_bus_start r)) redirect_priority KindRedirect = (q, bus1)"
    for r stop src_end q bus1
  proof -
    have "bus_wf ops bus1"
      by (rule add_range_wf [OF wf room redirect_segment_ok [OF wf that(2,3,4,1,5)] run'])
    moreover have "next_range_id bus1 = next_range_id bus \<or> next_range_id bus1 = next_range_id bus + 1"
      using run' by (auto simp: add_range_def Let_def split: if_splits prod.splits sum.splits)
    ultimately show ?thesis using add_range_same [OF run'] by simp
  qed
  show ?thesis
  proof (cases res)
    case (Inl e)
    show ?thesis by (rule redirect_Inl [OF run [unfolded Inl] False]) (rule added)
  next
    case (Inr u)
    with run have "redirect ops bus src sz tgt = (Inr (), bus')" by simp
    then show ?thesis
    proof (cases rule: redirect_Inr)
      case (1 r stop src_end rid bus1)
      from added [OF 1(1-6)] show ?thesis by (auto simp: 1(7) bus_wf_def seg_ok_def)
    qed
  qed
qed (use wf in simp)

text \<open>C11: A redirect keeps the invariant of the address map whatever the outcome.  When it succeeds,
  exactly the source window changes: address \<open>src + i\<close> now reaches the device and the device offset
  that the range of the target address assigns to \<open>tgt + i\<close>, within the device's span, and every
  other address resolves as before.\<close>

theorem redirect_spec:
  assumes wf: "bus_wf ops bus" and room: "next_range_id bus \<noteq> - 1"
    and run: "redirect ops bus src sz tgt = (Inr (), bus')"
  shows "bus_wf ops bus' \<and> (\<exists>r. resolve bus tgt = Inr r \<and>
    (\<forall>a. resolve bus' a =
      (if src \<le> a \<and> a < src + sz
       then Inr \<lparr>rr_bus_start = src, rr_bus_end = src + sz,
         rr_device_offset = rr_device_offset r + (tgt - rr_bus_start r),
         rr_priority = redirect_priority, rr_device_id = rr_device_id r\<rparr>
       else resolve bus a)) \<and>
    (\<forall>i < sz. rr_device_offset r + (tgt - rr_bus_start r) + ((src + i) - src) =
      rr_device_offset r + ((tgt + i) - rr_bus_start r)) \<and>
    unat (rr_device_offset r + (tgt - rr_bus_start r)) + unat sz
      \<le> unat (snd (dev_span ops (bus_devices bus ! rr_device_id r))))"
  using assms by (rule redirect_effect)

lemma remove_range_found:
  assumes wf: "bus_wf ops bus" and "range_index bus rid = Some idxs"
    and "remove_range bus rid = (res, bus')"
  shows "res = Inr True" and "bus_wf ops bus'"
    and "segs_at bus' a = (if bucket_index bus a \<in> set idxs
      then {s \<in> segs_at bus a. br_id s \<noteq> rid} else segs_at bus a)"
proof -
  from assms have bus': "bus' = bus\<lparr>range_index := (range_index bus)(rid := None),
      buckets := fold (drop_range_from rid) idxs (buckets bus)\<rparr>" and "res = Inr True"
    by (simp_all add: remove_range_def)
  then show "res = Inr True" by simp
  show "bus_wf ops bus'"
    using wf by (auto simp: bus_wf_def bus' bucket_list_drop_ranges bucket_sorted_filter seg_ok_def)
  show "segs_at bus' a = (if bucket_index bus a \<in> set idxs
      then {s \<in> segs_at bus a. br_id s \<noteq> rid} else segs_at bus a)"
    by (auto simp: bus' segs_at_def bucket_index_def bucket_list_drop_ranges)
qed

text \<open>C12: Removing a redirect that was just added restores the address map: the removal reports that
  it found the redirect, the invariant holds, and every address resolves as it did before the
  redirect was made.\<close>

theorem redirect_then_remove:
  assumes wf: "bus_wf ops bus" and room: "next_range_id bus \<noteq> - 1"
    and run: "redirect ops bus src sz tgt = (Inr (), bus')"
  shows "case remove_redirect bus' src sz of (res, bus'') \<Rightarrow>
    res = Inr True \<and> bus_wf ops bus'' \<and> (\<forall>a. resolve bus'' a = resolve bus a)"
  using run
proof (cases rule: redirect_Inr)
  case (1 r stop src_end rid bus1)
  let ?seg = "new_segment bus src src_end (rr_device_id r)
    (rr_device_offset r + (tgt - rr_bus_start r)) redirect_priority KindRedirect"
  let ?idxs = "covered_buckets bus src src_end"
  let ?bus = "bus'\<lparr>redirect_index := (redirect_index bus')((src, sz) := None)\<rparr>"
  note ok = add_range_ok [OF 1(6)]
  have wf1: "bus_wf ops ?bus"
    using add_range_wf [OF wf room redirect_segment_ok [OF wf 1(2,3,4,1,5)] 1(6)]
    by (simp add: 1(7) bus_wf_def seg_ok_def)
  obtain res bus'' where rem: "remove_range ?bus rid = (res, bus'')" by fastforce
  have idx: "range_index ?bus rid = Some ?idxs" by (simp add: 1(7) ok(5))
  note found = remove_range_found [OF wf1 idx rem]
  have i: "bucket_index ?bus a = bucket_index bus a" for a
    using add_range_same [OF 1(6)] by (simp add: 1(7) bucket_index_def)
  have "segs_at ?bus a = segs_at bus a \<union> (if src \<le> a \<and> a < src_end then {?seg} else {})" for a
    using ok(3) by (simp add: 1(7) segs_at_def bucket_index_def)
  moreover have "br_id s \<noteq> rid" if "s \<in> segs_at bus a" for s a
    using segs_at_ok [OF wf that] ok(1) by auto
  moreover have "bucket_index bus a \<in> set ?idxs" if "src \<le> a \<and> a < src_end" for a
    using that segs_at_empty_outside by blast
  ultimately have "segs_at bus'' a = segs_at bus a" for a
    unfolding found(3) i using ok(1) by (auto simp: new_segment_def)
  with found wf have "resolve bus'' a = resolve bus a" for a
    by (intro resolve_cong) auto
  with found rem show ?thesis by (simp add: remove_redirect_def 1(7))
qed

lemma demo_redirect:
  "redirect memory_ops demo_bus 32 8 4 = (Inr (), snd (redirect memory_ops demo_bus 32 8 4))"
proof -
  have "index_range 2 2 = [2]" "index_range 0 0 = [0]" by (simp_all add: index_range_def)
  then show ?thesis
    by (simp add: demo_bus_def demo_span register_device_def empty_bus_def checked_add_def
        Let_def add_range_def bucket_index_def shr_def bucket_list_def insert_segment_def
        redirect_def resolve_def br_contains_def resolved_of_def)
qed

theorem redirect_spec_witness:
  "\<exists>r. resolve demo_bus 4 = Inr r \<and>
     rr_device_offset r + (4 - rr_bus_start r) + ((32 + 3) - 32) = rr_device_offset r + (7 - rr_bus_start r)"
proof -
  have "bus_wf memory_ops demo_bus"
    by (rule demo_bus_wf)
  with redirect_spec [OF _ _ demo_redirect] show ?thesis
    by (fastforce simp: demo_bus_next)
qed

theorem redirect_then_remove_witness:
  "resolve (snd (remove_redirect (snd (redirect memory_ops demo_bus 32 8 4)) 32 8)) 33 =
     resolve demo_bus 33"
  using redirect_then_remove [OF demo_bus_wf _ demo_redirect]
  by (simp add: demo_bus_next split: prod.splits)


section \<open>Resolution\<close>

text \<open>C9: \<open>resolve\<close> answers \<open>NotMapped\<close> exactly for the addresses no range covers; otherwise it
  returns the one covering range of highest priority, which contains the address, and the address
  lies inside the span of the device that range names.\<close>

theorem resolve_spec:
  assumes wf: "bus_wf ops bus"
  shows "case resolve bus a of
      Inl e \<Rightarrow> e = NotMapped a \<and> segs_at bus a = {}
    | Inr r \<Rightarrow> \<exists>s \<in> segs_at bus a. r = resolved_of s \<and>
        (\<forall>s' \<in> segs_at bus a. s' = s \<or> br_priority s' < br_priority s) \<and>
        rr_contains r a \<and> rr_device_id r < length (bus_devices bus) \<and>
        unat (rr_device_offset r) + unat (a - rr_bus_start r)
          < unat (snd (dev_span ops (bus_devices bus ! rr_device_id r)))"
  using wf
proof (cases rule: resolve_cases [where a = a])
  case unmapped
  then show ?thesis by simp
next
  case (mapped s)
  from segs_at_ok [OF wf mapped(2)] have s: "seg_ok ops bus s" "br_contains s a" by auto
  then have "unat (a - br_start s) < unat (br_len s)"
    by (simp add: unat_sub br_contains_def seg_ok_def br_len_def less_imp_le word_less_nat_alt
        word_le_nat_alt diff_less_mono)
  with s mapped(2,3) show ?thesis
    unfolding mapped(1) sum.case
    by (intro bexI [of _ s])
       (auto simp: seg_ok_def resolved_of_def rr_contains_def br_contains_def)
qed

theorem resolve_spec_witness:
  "bus_wf memory_ops demo_bus \<and>
   (case resolve demo_bus 9 of Inl e \<Rightarrow> False | Inr r \<Rightarrow> rr_device_id r = 0)"
  using resolve_spec [OF demo_bus_wf, of 9] demo_bus_wf
  by (simp add: resolve_find demo_bus_fields demo_bus_buckets bucket_list_def bucket_index_def
      shr_def br_contains_def resolved_of_def)

definition overlap_bus :: "basic_memory device_bus" where
  "overlap_bus = snd (redirect memory_ops demo_bus 48 8 0)"



end
