(* ===== verification/Address.thy ===== *)
theory Address
  imports DeviceBus
begin

text \<open>
  Model of \<open>src/soc/system/bus/address.rs\<close>: a cursor over one resolved range of the bus.  The
  handle's \<open>Arc<DeviceBus>\<close> is the bus argument of each operation.  \<open>handle_ok\<close> is the invariant:
  the active range is a non-empty window of an existing device and the cursor lies in it.
\<close>

section \<open>State and operations\<close>

record active_range =
  ar_resolved :: resolved_range
  ar_cursor :: u64

definition ar_bus_address :: "active_range \<Rightarrow> u64" where
  "ar_bus_address ar = rr_bus_start (ar_resolved ar) + ar_cursor ar"

definition ar_device_offset :: "active_range \<Rightarrow> u64" where
  "ar_device_offset ar = rr_device_offset (ar_resolved ar) + ar_cursor ar"

definition ar_bytes_remaining :: "active_range \<Rightarrow> u64" where
  "ar_bytes_remaining ar = rr_bus_end (ar_resolved ar) - ar_bus_address ar"

record address_handle =
  ah_active :: "active_range option"
  ah_jump_address :: "u64 option"
  ah_jump_device_offset :: "u64 option"

definition address_handle_new :: address_handle where
  "address_handle_new = \<lparr>ah_active = None, ah_jump_address = None, ah_jump_device_offset = None\<rparr>"

definition jump :: "'d device_bus \<Rightarrow> address_handle \<Rightarrow> u64 \<Rightarrow> (bus_error + unit) \<times> address_handle" where
  "jump bus h address =
     (case resolve bus address of
        Inl e \<Rightarrow> (Inl e, h)
      | Inr resolved \<Rightarrow>
          let cursor = address - rr_bus_start resolved;
              offset = rr_device_offset resolved + cursor
          in (Inr (), h\<lparr>ah_jump_address := Some address, ah_jump_device_offset := Some offset,
                ah_active := Some \<lparr>ar_resolved = resolved, ar_cursor = cursor\<rparr>\<rparr>))"

text \<open>\<open>jump_relative\<close> computes in \<open>i128\<close>, which holds every value involved.\<close>

definition jump_relative :: "address_handle \<Rightarrow> i64 \<Rightarrow> (bus_error + unit) \<times> address_handle" where
  "jump_relative h delta =
     (case (ah_jump_device_offset h, ah_active h) of
        (Some base, Some active) \<Rightarrow>
          let range_start = uint (rr_device_offset (ar_resolved active));
              range_end = range_start + uint (rr_len (ar_resolved active));
              target = uint base + sint delta
          in if target < range_start \<or> target \<ge> range_end then
               (Inl (BusOutOfRange
                  (case ah_jump_address h of Some a \<Rightarrow> a | None \<Rightarrow> ar_bus_address active)
                  (rr_bus_end (ar_resolved active))), h)
             else (Inr (), h\<lparr>ah_active := Some (active\<lparr>ar_cursor := word_of_int (target - range_start)\<rparr>)\<rparr>)
      | _ \<Rightarrow> (Inl HandleNotPositioned, h))"

definition advance :: "address_handle \<Rightarrow> u64 \<Rightarrow> (bus_error + unit) \<times> address_handle" where
  "advance h n =
     (case ah_active h of
        None \<Rightarrow> (Inl HandleNotPositioned, h)
      | Some active \<Rightarrow>
          if n > ar_bytes_remaining active then
            (Inl (BusOutOfRange (ar_bus_address active + n) (rr_bus_end (ar_resolved active))), h)
          else (Inr (), h\<lparr>ah_active := Some (active\<lparr>ar_cursor := ar_cursor active + n\<rparr>)\<rparr>))"

definition retreat :: "address_handle \<Rightarrow> u64 \<Rightarrow> (bus_error + unit) \<times> address_handle" where
  "retreat h n =
     (case ah_active h of
        None \<Rightarrow> (Inl HandleNotPositioned, h)
      | Some active \<Rightarrow>
          if n > ar_cursor active then
            (Inl (BusOutOfRange (rr_bus_start (ar_resolved active))
               (rr_bus_end (ar_resolved active))), h)
          else (Inr (), h\<lparr>ah_active := Some (active\<lparr>ar_cursor := ar_cursor active - n\<rparr>)\<rparr>))"

definition ah_bytes_to_end :: "address_handle \<Rightarrow> u64" where
  "ah_bytes_to_end h = (case ah_active h of None \<Rightarrow> 0 | Some ar \<Rightarrow> ar_bytes_remaining ar)"

definition ah_bus_address :: "address_handle \<Rightarrow> u64 option" where
  "ah_bus_address h = map_option ar_bus_address (ah_active h)"

definition ah_device_offset :: "address_handle \<Rightarrow> u64 option" where
  "ah_device_offset h = map_option ar_device_offset (ah_active h)"

definition available :: "address_handle \<Rightarrow> u64 \<Rightarrow> bool" where
  "available h sz = (case ah_active h of None \<Rightarrow> False | Some ar \<Rightarrow> ar_bytes_remaining ar \<ge> sz)"

text \<open>\<open>transact\<close>: the closure \<open>op\<close> works on the device and on the variables it captured (\<open>'c\<close>);
  both are returned, because a closure that fails keeps its effects.  The range names its device by
  index; the index is always valid, since an \<open>Arc\<close> keeps its device alive.\<close>

definition transact ::
    "'d device_ops \<Rightarrow> u64 \<Rightarrow>
     ('d \<Rightarrow> u64 \<Rightarrow> resolved_range \<Rightarrow> 'c \<Rightarrow> (device_error + 't) \<times> 'd \<times> 'c) \<Rightarrow>
     'd device_bus \<Rightarrow> address_handle \<Rightarrow> 'c \<Rightarrow>
     (bus_error + 't) \<times> 'd device_bus \<times> address_handle \<times> 'c"
where
  "transact ops sz op bus h c =
     (case ah_active h of
        None \<Rightarrow> (Inl HandleNotPositioned, bus, h, c)
      | Some active \<Rightarrow>
          if sz > ar_bytes_remaining active then
            (Inl (BusOutOfRange (ar_bus_address active + sz) (rr_bus_end (ar_resolved active))),
             bus, h, c)
          else
            (case nth_opt (bus_devices bus) (rr_device_id (ar_resolved active)) of
               None \<Rightarrow> (Inl BusPanic, bus, h, c)
             | Some device \<Rightarrow>
                 let device_id = rr_device_id (ar_resolved active);
                     (res, device', c') = op device (ar_device_offset active) (ar_resolved active) c;
                     bus' = bus\<lparr>bus_devices := (bus_devices bus)[device_id := device']\<rparr>
                 in (case res of
                       Inl e \<Rightarrow> (Inl (DeviceFault (dev_name ops device) (FaultDevice e)), bus', h, c')
                     | Inr v \<Rightarrow> (Inr v, bus',
                         h\<lparr>ah_active := Some (active\<lparr>ar_cursor := ar_cursor active + sz\<rparr>)\<rparr>, c'))))"

section \<open>The invariant of a handle\<close>

definition range_ok :: "'d device_ops \<Rightarrow> 'd device_bus \<Rightarrow> resolved_range \<Rightarrow> bool" where
  "range_ok ops bus r \<longleftrightarrow>
     rr_bus_start r < rr_bus_end r \<and> rr_device_id r < length (bus_devices bus) \<and>
     unat (rr_device_offset r) + unat (rr_len r)
       \<le> unat (snd (dev_span ops (bus_devices bus ! rr_device_id r)))"

definition handle_ok :: "'d device_ops \<Rightarrow> 'd device_bus \<Rightarrow> address_handle \<Rightarrow> bool" where
  "handle_ok ops bus h \<longleftrightarrow>
     (\<forall>ar. ah_active h = Some ar \<longrightarrow>
        range_ok ops bus (ar_resolved ar) \<and> ar_cursor ar \<le> rr_len (ar_resolved ar))"

lemma handle_ok_new: "handle_ok ops bus address_handle_new"
  by (simp add: handle_ok_def address_handle_new_def)

lemma resolve_range_ok:
  assumes "bus_wf ops bus" and "resolve bus a = Inr r"
  shows "range_ok ops bus r" and "rr_bus_start r \<le> a" and "a < rr_bus_end r"
  using assms(1)
proof (atomize (full), cases rule: resolve_cases [where a = a])
  case unmapped
  with assms show "range_ok ops bus r \<and> rr_bus_start r \<le> a \<and> a < rr_bus_end r" by simp
next
  case (mapped s)
  with assms segs_at_ok [OF assms(1) mapped(2)]
  show "range_ok ops bus r \<and> rr_bus_start r \<le> a \<and> a < rr_bus_end r"
    by (auto simp: range_ok_def seg_ok_def resolved_of_def rr_len_def br_len_def br_contains_def)
qed

lemma rr_len_unat:
  "rr_bus_start r < rr_bus_end r \<Longrightarrow> unat (rr_len r) = unat (rr_bus_end r) - unat (rr_bus_start r)"
  by (simp add: rr_len_def unat_sub less_imp_le)

text \<open>Inside the invariant the address arithmetic of the handle is exact.\<close>

lemma handle_arith:
  assumes "range_ok ops bus (ar_resolved ar)" and "ar_cursor ar \<le> rr_len (ar_resolved ar)"
  shows "unat (ar_bus_address ar) = unat (rr_bus_start (ar_resolved ar)) + unat (ar_cursor ar)"
    and "unat (ar_device_offset ar) = unat (rr_device_offset (ar_resolved ar)) + unat (ar_cursor ar)"
    and "unat (ar_bytes_remaining ar) = unat (rr_len (ar_resolved ar)) - unat (ar_cursor ar)"
proof -
  let ?r = "ar_resolved ar"
  have len: "unat (rr_len ?r) = unat (rr_bus_end ?r) - unat (rr_bus_start ?r)"
    and le: "unat (ar_cursor ar) \<le> unat (rr_len ?r)"
    and lt: "unat (rr_bus_start ?r) < unat (rr_bus_end ?r)"
    using assms by (simp_all add: rr_len_unat range_ok_def word_le_nat_alt word_less_nat_alt)
  have e: "unat (rr_bus_end ?r) < 2 ^ 64" by (rule unat_u64_less)
  have "unat (rr_device_offset ?r) + unat (rr_len ?r) < 2 ^ 64"
    using assms(1) unat_u64_less by (force simp: range_ok_def intro: le_less_trans)
  with le show "unat (ar_device_offset ar) = unat (rr_device_offset ?r) + unat (ar_cursor ar)"
    by (simp add: ar_device_offset_def unat_word_ariths)
  show a: "unat (ar_bus_address ar) = unat (rr_bus_start ?r) + unat (ar_cursor ar)"
    using len le lt e by (simp add: ar_bus_address_def unat_word_ariths)
  then have "ar_bus_address ar \<le> rr_bus_end ?r"
    using len le lt by (simp add: word_le_nat_alt)
  then show "unat (ar_bytes_remaining ar) = unat (rr_len ?r) - unat (ar_cursor ar)"
    using a len by (simp add: ar_bytes_remaining_def unat_sub)
qed

lemma jump_ok:
  assumes "bus_wf ops bus" and "jump bus h a = (Inr (), h')"
  obtains r where "resolve bus a = Inr r" "rr_bus_start r \<le> a" "a < rr_bus_end r"
    "h' = h\<lparr>ah_jump_address := Some a,
       ah_jump_device_offset := Some (rr_device_offset r + (a - rr_bus_start r)),
       ah_active := Some \<lparr>ar_resolved = r, ar_cursor = a - rr_bus_start r\<rparr>\<rparr>"
    "handle_ok ops bus h'"
proof -
  from assms(2) obtain r where r: "resolve bus a = Inr r" and h': "h' = h\<lparr>ah_jump_address := Some a,
       ah_jump_device_offset := Some (rr_device_offset r + (a - rr_bus_start r)),
       ah_active := Some \<lparr>ar_resolved = r, ar_cursor = a - rr_bus_start r\<rparr>\<rparr>"
    by (auto simp: jump_def Let_def split: sum.splits)
  note ok = resolve_range_ok [OF assms(1) r]
  then have "unat (a - rr_bus_start r) \<le> unat (rr_len r)"
    by (simp add: rr_len_def unat_sub range_ok_def less_imp_le word_le_nat_alt word_less_nat_alt)
  with ok h' have "handle_ok ops bus h'" by (simp add: handle_ok_def word_le_nat_alt)
  with r ok h' that show ?thesis by blast
qed

lemma cursor_ok:
  assumes "handle_ok ops bus h" and "ah_active h = Some ar" and "n \<le> ar_bytes_remaining ar"
  shows "handle_ok ops bus (h\<lparr>ah_active := Some (ar\<lparr>ar_cursor := ar_cursor ar + n\<rparr>)\<rparr>)"
    and "unat (ar_cursor ar + n) = unat (ar_cursor ar) + unat n"
proof -
  from assms have ok: "range_ok ops bus (ar_resolved ar)" "ar_cursor ar \<le> rr_len (ar_resolved ar)"
    by (simp_all add: handle_ok_def)
  have "unat (ar_cursor ar) + unat n \<le> unat (rr_len (ar_resolved ar))"
    using assms(3) handle_arith(3) [OF ok] ok(2) by (simp add: word_le_nat_alt)
  moreover from this unat_u64_less have "unat (ar_cursor ar) + unat n < 2 ^ 64"
    by (rule le_less_trans)
  ultimately show "handle_ok ops bus (h\<lparr>ah_active := Some (ar\<lparr>ar_cursor := ar_cursor ar + n\<rparr>)\<rparr>)"
    and "unat (ar_cursor ar + n) = unat (ar_cursor ar) + unat n"
    using ok by (simp_all add: handle_ok_def word_le_nat_alt unat_word_ariths)
qed


section \<open>Properties\<close>



text \<open>A relative jump is measured from the device offset of the last absolute jump: it succeeds
  exactly when the exact sum stays inside the active range, then the device offset is that sum and
  the invariant holds; otherwise it fails without effect.\<close>

theorem jump_relative_spec:
  assumes ok: "handle_ok ops bus h" and act: "ah_active h = Some ar"
    and base: "ah_jump_device_offset h = Some base"
  shows "case jump_relative h delta of
      (Inr _, h') \<Rightarrow> handle_ok ops bus h' \<and>
        (\<exists>off. ah_device_offset h' = Some off \<and> uint off = uint base + sint delta) \<and>
        uint (rr_device_offset (ar_resolved ar)) \<le> uint base + sint delta \<and>
        uint base + sint delta < uint (rr_device_offset (ar_resolved ar)) + uint (rr_len (ar_resolved ar))
    | (Inl e, h') \<Rightarrow> h' = h \<and>
        (uint base + sint delta < uint (rr_device_offset (ar_resolved ar)) \<or>
         uint (rr_device_offset (ar_resolved ar)) + uint (rr_len (ar_resolved ar))
           \<le> uint base + sint delta)"
proof -
  let ?r = "ar_resolved ar"
  let ?t = "uint base + sint delta"
  show ?thesis
  proof (cases "?t < uint (rr_device_offset ?r) \<or> uint (rr_device_offset ?r) + uint (rr_len ?r) \<le> ?t")
    case True
    then show ?thesis by (simp add: jump_relative_def act base Let_def)
  next
    case False
    define c where "c = ?t - uint (rr_device_offset ?r)"
    define w :: u64 where "w = word_of_int c"
    let ?ar = "ar\<lparr>ar_cursor := w\<rparr>"
    have c: "0 \<le> c" "c < uint (rr_len ?r)" using False by (auto simp: c_def)
    moreover have "uint (rr_len ?r) < 2 ^ 64" using unsigned_less [of "rr_len ?r"] by simp
    ultimately have u: "uint w = c" unfolding w_def by (intro uint_u64_of_int) auto
    with c have ok': "handle_ok ops bus (h\<lparr>ah_active := Some ?ar\<rparr>)"
      using ok act by (simp add: handle_ok_def word_le_def)
    then have "range_ok ops bus (ar_resolved ?ar)" "ar_cursor ?ar \<le> rr_len (ar_resolved ?ar)"
      by (simp_all add: handle_ok_def)
    from handle_arith(2) [OF this]
    have "uint (ar_device_offset ?ar) = uint (rr_device_offset ?r) + uint w"
      unfolding uint_nat of_nat_add [symmetric] by simp
    then have off: "uint (ar_device_offset ?ar) = ?t" by (simp add: u c_def)
    have "jump_relative h delta = (Inr (), h\<lparr>ah_active := Some ?ar\<rparr>)"
      unfolding jump_relative_def act base Let_def option.case prod.case if_not_P [OF False]
      by (simp only: w_def c_def)
    with ok' False off show ?thesis
      by (simp add: ah_device_offset_def)
  qed
qed

theorem jump_relative_spec_witness:
  "case jump_relative (snd (jump demo_bus address_handle_new 4)) (- 3) of
     (Inr _, h') \<Rightarrow> \<exists>off. ah_device_offset h' = Some off \<and> uint off = 1
   | (Inl e, h') \<Rightarrow> False"
proof -
  let ?r = "\<lparr>rr_bus_start = 0, rr_bus_end = 16, rr_device_offset = 0,
    rr_priority = device_priority, rr_device_id = 0\<rparr>"
  let ?h = "\<lparr>ah_active = Some \<lparr>ar_resolved = ?r, ar_cursor = 4\<rparr>,
    ah_jump_address = Some 4, ah_jump_device_offset = Some 4\<rparr>"
  have j: "jump demo_bus address_handle_new 4 = (Inr (), ?h)"
    by (simp add: jump_def resolve_find demo_bus_fields demo_bus_buckets bucket_list_def
        bucket_index_def shr_def br_contains_def resolved_of_def address_handle_new_def)
  have ok: "handle_ok memory_ops demo_bus ?h"
    by (simp add: handle_ok_def range_ok_def rr_len_def demo_bus_fields demo_span)
  from jump_relative_spec [OF ok, of "\<lparr>ar_resolved = ?r, ar_cursor = 4\<rparr>" 4 "- 3"] j show ?thesis
    by (auto simp: rr_len_def split: prod.splits sum.splits)
qed

end
