(* ===== verification/DataHandle.thy ===== *)
theory DataHandle
  imports Address
begin

text \<open>
  Model of \<open>src/soc/system/bus/data.rs\<close>: byte and bit access through an address handle, with a
  cache of the eight or sixteen device bytes around the last bit access.  The abstraction is
  \<open>mem_bit\<close>, the bits of a byte-addressed memory counted from the least significant bit of byte 0;
  \<open>coherent\<close> is the invariant under which the cache is invisible.  The facts about bit accesses are
  proved in the context of the \<open>byte_device\<close> contract.
\<close>

section \<open>The cache\<close>

record slice_cursor =
  sc_bit_offset :: u16
  sc_bit_len :: u16

record slice_cache =
  bc_device_id :: "nat option"
  bc_base_byte :: u64
  bc_word_count :: nat
  bc_device_bytes :: "u8 list"
  bc_target_value :: "(endianness \<times> u128) option"

definition max_slice_bytes :: nat where
  "max_slice_bytes = max_endian_bytes"

definition max_slice_bits :: u16 where
  "max_slice_bits = of_nat (max_slice_bytes * 8)"

definition slice_cache_default :: slice_cache where
  "slice_cache_default = \<lparr>bc_device_id = None, bc_base_byte = 0, bc_word_count = 0,
     bc_device_bytes = replicate max_slice_bytes 0, bc_target_value = None\<rparr>"

definition invalidate :: "slice_cache \<Rightarrow> slice_cache" where
  "invalidate c = c\<lparr>bc_device_id := None, bc_word_count := 0, bc_target_value := None\<rparr>"

definition cache_matches :: "slice_cache \<Rightarrow> nat \<Rightarrow> u64 \<Rightarrow> nat \<Rightarrow> bool" where
  "cache_matches c device_id base_byte word_count \<longleftrightarrow>
     bc_device_id c = Some device_id \<and> bc_base_byte c = base_byte \<and> bc_word_count c = word_count"

definition ensure_loaded ::
    "'d device_ops \<Rightarrow> nat \<Rightarrow> u64 \<Rightarrow> nat \<Rightarrow> 'd \<Rightarrow> slice_cache \<Rightarrow>
     (device_error + unit) \<times> 'd \<times> slice_cache" where
  "ensure_loaded ops device_id base_byte word_count d c =
     (if cache_matches c device_id base_byte word_count then (Inr (), d, c)
      else
        let byte_len = word_count * 8;
            (res, out, d') = dev_read ops d base_byte (take byte_len (bc_device_bytes c));
            c' = c\<lparr>bc_device_bytes := out @ drop byte_len (bc_device_bytes c)\<rparr>
        in case res of
             Inl e \<Rightarrow> (Inl e, d', c')
           | Inr _ \<Rightarrow> (Inr (), d',
               \<lparr>bc_device_id = Some device_id, bc_base_byte = base_byte, bc_word_count = word_count,
                bc_device_bytes = out @ replicate (max_slice_bytes - byte_len) 0,
                bc_target_value = None\<rparr>))"

definition chunk_base :: "u64 \<Rightarrow> u64" where
  "chunk_base device_offset = device_offset AND NOT 7"

definition ensure_slice ::
    "'d device_ops \<Rightarrow> resolved_range \<Rightarrow> u64 \<Rightarrow> u8 \<Rightarrow> u16 \<Rightarrow> 'd \<Rightarrow> slice_cache \<Rightarrow>
     (device_error + slice_cursor) \<times> 'd \<times> slice_cache" where
  "ensure_slice ops resolved device_offset bit_offset bit_len d c =
     (let base = chunk_base device_offset;
          intra = (ucast ((device_offset - base) * 8) + ucast bit_offset :: u16)
      in if intra + bit_len > max_slice_bits
         then (Inl (Unsupported ''bit slice exceeds cache window''), d, c)
         else
           let word_count = (if intra + bit_len > 64 then 2 else 1);
               (res, d', c') = ensure_loaded ops (rr_device_id resolved) base word_count d c
           in (rbind res (\<lambda>_. Inr \<lparr>sc_bit_offset = intra, sc_bit_len = bit_len\<rparr>), d', c'))"

definition chunk_bits :: "slice_cache \<Rightarrow> u16" where
  "chunk_bits c = of_nat (bc_word_count c * 64)"

definition chunk_byte_len :: "slice_cache \<Rightarrow> nat" where
  "chunk_byte_len c = bc_word_count c * 8"

text \<open>\<open>None\<close> is the panic of \<open>decode_bytes\<close> on more than sixteen bytes.\<close>

definition ensure_chunk_value :: "endianness \<Rightarrow> slice_cache \<Rightarrow> (u128 \<times> slice_cache) option" where
  "ensure_chunk_value device_endian c =
     (case bc_target_value c of
        Some (cached, v) \<Rightarrow>
          if cached = device_endian then Some (v, c)
          else map_option (\<lambda>v. (v, c\<lparr>bc_target_value := Some (device_endian, v)\<rparr>))
            (decode_bytes device_endian (take (chunk_byte_len c) (bc_device_bytes c)))
      | None \<Rightarrow>
          map_option (\<lambda>v. (v, c\<lparr>bc_target_value := Some (device_endian, v)\<rparr>))
            (decode_bytes device_endian (take (chunk_byte_len c) (bc_device_bytes c))))"

definition extract_target_bits ::
    "u16 \<Rightarrow> u16 \<Rightarrow> endianness \<Rightarrow> slice_cache \<Rightarrow> (u128 \<times> slice_cache) option" where
  "extract_target_bits bit_offset bit_len device_endian c =
     map_option (\<lambda>(v, c').
       (case device_endian of
          Little \<Rightarrow> shr v (unat bit_offset) AND mask_bits (unat bit_len)
        | Big \<Rightarrow>
            let shift = (ucast (chunk_bits c') - (ucast bit_offset + ucast bit_len) :: u64)
            in shr v (unat shift) AND mask_bits (unat bit_len), c'))
     (ensure_chunk_value device_endian c)"

definition bits_to_bytes :: "u8 \<Rightarrow> u16 \<Rightarrow> nat" where
  "bits_to_bytes bit_offset bit_len = max ((unat bit_offset + unat bit_len + 7) div 8) 1"

definition bytes_for_len :: "u16 \<Rightarrow> nat" where
  "bytes_for_len bit_len = max ((unat bit_len + 7) div 8) 1"

text \<open>The body runs between the two transaction hooks; the closing hook runs whatever the body
  returned, and an error of the body wins.\<close>

definition with_device_transaction ::
    "'d device_ops \<Rightarrow> ('d \<Rightarrow> 'c \<Rightarrow> (device_error + 't) \<times> 'd \<times> 'c) \<Rightarrow> 'd \<Rightarrow> 'c \<Rightarrow>
     (device_error + 't) \<times> 'd \<times> 'c" where
  "with_device_transaction ops body d c =
     (case dev_start_transact ops d of
        (Inl e, d1) \<Rightarrow> (Inl e, d1, c)
      | (Inr _, d1) \<Rightarrow>
          let (body_result, d2, c2) = body d1 c;
              (end_result, d3) = dev_end_transact ops d2
          in (case body_result of
                Inl e \<Rightarrow> (Inl e, d3, c2)
              | Inr v \<Rightarrow> (case end_result of Inl e \<Rightarrow> (Inl e, d3, c2) | Inr _ \<Rightarrow> (Inr v, d3, c2))))"

section \<open>The handle\<close>

record data_handle =
  dh_address :: address_handle
  dh_cache :: slice_cache

definition data_handle_new :: data_handle where
  "data_handle_new = \<lparr>dh_address = address_handle_new, dh_cache = slice_cache_default\<rparr>"

definition dh_available :: "data_handle \<Rightarrow> u64 \<Rightarrow> bool" where
  "dh_available h sz = available (dh_address h) sz"

definition dh_read ::
    "'d device_ops \<Rightarrow> 'd device_bus \<Rightarrow> data_handle \<Rightarrow> u8 list \<Rightarrow>
     (bus_error + unit) \<times> u8 list \<times> 'd device_bus \<times> data_handle" where
  "dh_read ops bus h out =
     (if out = [] then (Inr (), out, bus, h)
      else
        let (res, bus', address', (out', cache')) =
          transact ops (of_nat (length out))
            (\<lambda>device offset _ (out, cache).
               let (outcome, device', out') = with_device_transaction ops
                     (\<lambda>d out. let (r, out', d') = dev_read ops d offset out in (r, d', out'))
                     device out
               in (outcome, device', (out', invalidate cache)))
            bus (dh_address h) (out, dh_cache h)
        in (res, out', bus', \<lparr>dh_address = address', dh_cache = cache'\<rparr>))"

definition dh_write ::
    "'d device_ops \<Rightarrow> 'd device_bus \<Rightarrow> data_handle \<Rightarrow> u8 list \<Rightarrow>
     (bus_error + unit) \<times> 'd device_bus \<times> data_handle" where
  "dh_write ops bus h data =
     (if data = [] then (Inr (), bus, h)
      else
        let (res, bus', address', cache') =
          transact ops (of_nat (length data))
            (\<lambda>device offset _ cache.
               let (outcome, device', _) = with_device_transaction ops
                     (\<lambda>d u. let (r, d') = dev_write ops d offset data in (r, d', u))
                     device ()
               in (outcome, device', invalidate cache))
            bus (dh_address h) (dh_cache h)
        in (res, bus', \<lparr>dh_address = address', dh_cache = cache'\<rparr>))"

definition read_bits_body ::
    "'d device_ops \<Rightarrow> u8 \<Rightarrow> u16 \<Rightarrow> u64 \<Rightarrow> resolved_range \<Rightarrow> 'd \<Rightarrow> slice_cache \<Rightarrow>
     (device_error + u128) \<times> 'd \<times> slice_cache" where
  "read_bits_body ops bit_offset bit_len offset resolved d c =
     (case ensure_slice ops resolved offset bit_offset bit_len d c of
        (Inl e, d', c') \<Rightarrow> (Inl e, d', c')
      | (Inr cursor, d', c') \<Rightarrow>
          (case extract_target_bits (sc_bit_offset cursor) (sc_bit_len cursor)
                  (dev_endianness ops d') c' of
             None \<Rightarrow> (Inl DevicePanic, d', c')
           | Some (v, c'') \<Rightarrow> (Inr v, d', c'')))"

definition read_bits ::
    "'d device_ops \<Rightarrow> 'd device_bus \<Rightarrow> data_handle \<Rightarrow> u8 \<Rightarrow> u16 \<Rightarrow>
     (bus_error + u128) \<times> 'd device_bus \<times> data_handle" where
  "read_bits ops bus h bit_offset bit_len =
     (if bit_len = 0 then (Inr 0, bus, h)
      else
        let (res, bus', address', cache') =
          transact ops (of_nat (bits_to_bytes bit_offset bit_len))
            (\<lambda>device offset resolved cache.
               with_device_transaction ops
                 (read_bits_body ops bit_offset bit_len offset resolved) device cache)
            bus (dh_address h) (dh_cache h)
        in (res, bus', \<lparr>dh_address = address', dh_cache = cache'\<rparr>))"

text \<open>The new chunk \<open>write_bits\<close> stores: the value goes through the device's byte order twice and
  replaces the window that starts at \<open>cursor.bit_offset\<close>, whatever the byte order.  \<open>None\<close> is the
  panic of \<open>encode_bits\<close>.\<close>

definition updated_chunk ::
    "endianness \<Rightarrow> u128 \<Rightarrow> u16 \<Rightarrow> u16 \<Rightarrow> u128 \<Rightarrow> nat \<Rightarrow> nat \<Rightarrow> u8 list option" where
  "updated_chunk endian current_value cursor_off bit_len v nbits nbytes =
     Option.bind (encode_bits endian v (unat bit_len) (bytes_for_len bit_len)) (\<lambda>write_bytes.
     Option.bind (decode_bits endian (take (bytes_for_len bit_len) write_bytes) (unat bit_len))
       (\<lambda>value_bits.
     let mask = shl (mask_bits (unat bit_len)) (unat cursor_off);
         updated = (current_value AND NOT mask)
           OR shl (value_bits AND mask_bits (unat bit_len)) (unat cursor_off)
     in map_option (take nbytes) (encode_bits endian updated nbits nbytes)))"

definition write_bits_body ::
    "'d device_ops \<Rightarrow> u8 \<Rightarrow> u16 \<Rightarrow> u128 \<Rightarrow> u64 \<Rightarrow> resolved_range \<Rightarrow> 'd \<Rightarrow> slice_cache \<Rightarrow>
     (device_error + unit) \<times> 'd \<times> slice_cache" where
  "write_bits_body ops bit_offset bit_len v offset resolved d c =
     (case ensure_slice ops resolved offset bit_offset bit_len d c of
        (Inl e, d', c') \<Rightarrow> (Inl e, d', c')
      | (Inr cursor, d', c') \<Rightarrow>
          let device_endian = dev_endianness ops d' in
          (case ensure_chunk_value device_endian c' of
             None \<Rightarrow> (Inl DevicePanic, d', c')
           | Some (current_value, c'') \<Rightarrow>
               (case updated_chunk device_endian current_value (sc_bit_offset cursor) bit_len v
                       (unat (chunk_bits c')) (chunk_byte_len c') of
                  None \<Rightarrow> (Inl DevicePanic, d', c'')
                | Some chunk \<Rightarrow>
                    let (r, d'') = dev_write ops d' (bc_base_byte c'') chunk in (r, d'', c''))))"

definition write_bits ::
    "'d device_ops \<Rightarrow> 'd device_bus \<Rightarrow> data_handle \<Rightarrow> u8 \<Rightarrow> u16 \<Rightarrow> u128 \<Rightarrow>
     (bus_error + unit) \<times> 'd device_bus \<times> data_handle" where
  "write_bits ops bus h bit_offset bit_len v =
     (if bit_len = 0 then (Inr (), bus, h)
      else
        let (res, bus', address', cache') =
          transact ops (of_nat (bits_to_bytes bit_offset bit_len))
            (\<lambda>device offset resolved cache.
               let (outcome, device', cache') = with_device_transaction ops
                     (write_bits_body ops bit_offset bit_len v offset resolved) device cache
               in (outcome, device', invalidate cache'))
            bus (dh_address h) (dh_cache h)
        in (res, bus', \<lparr>dh_address = address', dh_cache = cache'\<rparr>))"


section \<open>Bits of a memory\<close>

text \<open>Bit \<open>p\<close> of a byte string, counted from the least significant bit of byte 0.\<close>

definition mem_bit :: "u8 list \<Rightarrow> nat \<Rightarrow> bool" where
  "mem_bit bs p = bit (bs ! (p div 8)) (p mod 8)"

lemma chunk_base_push: "chunk_base off = push_bit 3 (drop_bit 3 off)"
proof (rule bit_word_eqI)
  fix i assume i: "i < LENGTH(64)"
  have "chunk_base off = off AND NOT (mask 3)"
    by (simp add: chunk_base_def mask_eq_exp_minus_1)
  with i show "bit (chunk_base off) i \<longleftrightarrow> bit (push_bit 3 (drop_bit 3 off)) i"
    by (auto simp: bit_simps)
qed

lemma unat_chunk_base: "unat (chunk_base off) = 8 * (unat off div 8)"
proof -
  have "unat (push_bit 3 (drop_bit 3 off)) = take_bit 64 (8 * (unat off div 8))"
    by (simp add: push_bit_eq_mult unat_word_ariths unat_drop_bit take_bit_eq_mod mult.commute)
  moreover have "8 * (unat off div 8) < 2 ^ 64"
    using unat_u64_less [of off] by (rule le_less_trans [rotated]) simp
  ultimately show ?thesis by (simp add: chunk_base_push take_bit_nat_eq_self)
qed

lemma chunk_base_le: "chunk_base off \<le> off"
  by (simp add: word_le_nat_alt unat_chunk_base)

lemma unat_sub_chunk_base: "unat (off - chunk_base off) = unat off mod 8"
  by (simp add: unat_sub [OF chunk_base_le] unat_chunk_base minus_mult_div_eq_mod)

text \<open>The bit position of an access inside its chunk.\<close>

definition intra_bits :: "u64 \<Rightarrow> u8 \<Rightarrow> nat" where
  "intra_bits off bit_offset = 8 * (unat off mod 8) + unat bit_offset"

lemma intra_word:
  "unat (ucast ((off - chunk_base off) * 8 :: u64) + ucast bit_offset :: u16) =
     intra_bits off bit_offset"
proof -
  have m: "unat off mod 8 < 8" by simp
  then have a: "unat ((off - chunk_base off) * 8 :: u64) = 8 * (unat off mod 8)"
    by (subst unat_word_ariths) (simp add: unat_sub_chunk_base)
  then have "unat (ucast ((off - chunk_base off) * 8 :: u64) :: u16) = 8 * (unat off mod 8)"
    using m by (simp add: unat_ucast)
  moreover have b: "unat bit_offset < 256"
    using unsigned_less [of bit_offset, where 'a = nat] by simp
  moreover from b have "unat (ucast bit_offset :: u16) = unat bit_offset"
    by (simp add: unat_ucast)
  ultimately show ?thesis
    using m by (subst unat_word_ariths) (simp add: intra_bits_def)
qed

lemma bit_bytes_value_Little:
  assumes "length bs \<le> 16"
  shows "bit (bytes_value Little bs) i \<longleftrightarrow> i < 8 * length bs \<and> mem_bit bs i"
  using assms by (auto simp: bytes_value_def bit_from_le_bytes mem_bit_def)

lemma mem_bit_window:
  assumes "a + n \<le> length bs" and "i < 8 * n"
  shows "mem_bit (take n (drop a bs)) i = mem_bit bs (8 * a + i)"
  using assms by (simp add: mem_bit_def less_mult_imp_div_less mult.commute)

lemma mem_bit_splice:
  assumes "a + length ys \<le> length bs" and "p < 8 * length bs"
  shows "mem_bit (splice bs a ys) p =
    (if 8 * a \<le> p \<and> p < 8 * (a + length ys) then mem_bit ys (p - 8 * a) else mem_bit bs p)"
proof -
  have "p div 8 < length bs" using assms(2) by (simp add: less_mult_imp_div_less mult.commute)
  moreover have "(a \<le> p div 8 \<and> p div 8 < a + length ys) \<longleftrightarrow>
      (8 * a \<le> p \<and> p < 8 * (a + length ys))"
    by (auto simp: div_less_iff_less_mult less_eq_div_iff_mult_less_eq mult.commute)
  moreover have "p div 8 - a = (p - 8 * a) div 8 \<and> p mod 8 = (p - 8 * a) mod 8" if "8 * a \<le> p"
  proof -
    from that obtain q where "p = 8 * a + q" using le_Suc_ex by blast
    then show ?thesis by simp
  qed
  ultimately show ?thesis
    using assms(1) by (auto simp: mem_bit_def nth_splice)
qed

lemma mem_bit_to_le_bytes:
  assumes "n \<le> 16" and "i < 8 * n"
  shows "mem_bit (take n (to_le_bytes v)) i = bit v i"
  using assms by (simp add: mem_bit_def bit_to_le_bytes less_mult_imp_div_less mult.commute)


section \<open>The cache is invisible\<close>

text \<open>What a loaded cache says of the device bytes \<open>bs\<close>.\<close>

definition cache_of :: "u8 list \<Rightarrow> slice_cache \<Rightarrow> bool" where
  "cache_of bs c \<longleftrightarrow>
     bc_word_count c \<le> 2 \<and> unat (bc_base_byte c) + 8 * bc_word_count c \<le> length bs \<and>
     take (8 * bc_word_count c) (bc_device_bytes c) =
       take (8 * bc_word_count c) (drop (unat (bc_base_byte c)) bs) \<and>
     (\<forall>e v. bc_target_value c = Some (e, v) \<longrightarrow>
        v = bytes_value e (take (8 * bc_word_count c) (bc_device_bytes c)))"

definition coherent :: "('d \<Rightarrow> u8 list) \<Rightarrow> 'd list \<Rightarrow> slice_cache \<Rightarrow> bool" where
  "coherent bytes devs c \<longleftrightarrow>
     length (bc_device_bytes c) = 16 \<and>
     (\<forall>did. bc_device_id c = Some did \<longrightarrow>
        did < length devs \<and> cache_of (bytes (devs ! did)) c)"

lemma coherent_invalidate: "length (bc_device_bytes c) = 16 \<Longrightarrow> coherent bytes devs (invalidate c)"
  by (simp add: coherent_def invalidate_def)

lemma coherent_default: "coherent bytes devs slice_cache_default"
  by (simp add: coherent_def slice_cache_default_def max_slice_bytes_def)

text \<open>The words a bit access loads, and when they lie inside the device.\<close>

definition word_count_for :: "u64 \<Rightarrow> u8 \<Rightarrow> u16 \<Rightarrow> nat" where
  "word_count_for off bit_offset bit_len =
     (if intra_bits off bit_offset + unat bit_len > 64 then 2 else 1)"

definition slice_fits :: "u8 list \<Rightarrow> u64 \<Rightarrow> u8 \<Rightarrow> u16 \<Rightarrow> bool" where
  "slice_fits bs off bit_offset bit_len \<longleftrightarrow>
     intra_bits off bit_offset + unat bit_len \<le> 128 \<and>
     8 * (unat off div 8) + 8 * word_count_for off bit_offset bit_len \<le> length bs \<and>
     length bs < 2 ^ 64"

text \<open>The position of the access in the device, in bits.\<close>

lemma chunk_position:
  "8 * unat (chunk_base off) + intra_bits off bit_offset = 8 * unat off + unat bit_offset"
proof -
  have "8 * (8 * (unat off div 8)) + 8 * (unat off mod 8) = 8 * unat off"
    by (metis distrib_left mult_div_mod_eq)
  then show ?thesis by (simp add: unat_chunk_base intra_bits_def)
qed

context byte_device
begin

lemma ensure_loaded_ok:
  assumes c: "coherent bytes devs c" and d: "did < length devs" "devs ! did = d"
    and fits: "unat base + 8 * wc \<le> length (bytes d)" "wc \<le> 2" "length (bytes d) < 2 ^ 64"
  obtains c' where "ensure_loaded ops did base wc d c = (Inr (), d, c')"
    "coherent bytes devs c'" "bc_device_id c' = Some did" "bc_base_byte c' = base"
    "bc_word_count c' = wc"
proof (cases "cache_matches c did base wc")
  case True
  with c that show ?thesis by (auto simp: ensure_loaded_def cache_matches_def)
next
  case False
  let ?out = "take (8 * wc) (drop (unat base) (bytes d))"
  have len: "length (bc_device_bytes c) = 16" using c by (simp add: coherent_def)
  then have n: "length (take (wc * 8) (bc_device_bytes c)) = 8 * wc"
    using fits by (simp add: mult.commute)
  then have read: "dev_read ops d base (take (wc * 8) (bc_device_bytes c)) = (Inr (), ?out, d)"
    using fits by (subst read_ok) (simp_all only: n)
  let ?c = "\<lparr>bc_device_id = Some did, bc_base_byte = base, bc_word_count = wc,
    bc_device_bytes = ?out @ replicate (max_slice_bytes - wc * 8) 0, bc_target_value = None\<rparr>"
  have "ensure_loaded ops did base wc d c = (Inr (), d, ?c)"
    using False read by (simp add: ensure_loaded_def Let_def)
  moreover have "coherent bytes devs ?c"
  proof -
    have "length ?out = 8 * wc" using fits by simp
    with d fits show ?thesis
      by (simp add: coherent_def cache_of_def max_slice_bytes_def del: length_take)
  qed
  ultimately show ?thesis using that by simp
qed

lemma ensure_slice_ok:
  assumes c: "coherent bytes devs c" and d: "rr_device_id r < length devs" "devs ! rr_device_id r = d"
    and fits: "slice_fits (bytes d) off bit_offset bit_len"
  obtains c' cur where "ensure_slice ops r off bit_offset bit_len d c = (Inr cur, d, c')"
    "unat (sc_bit_offset cur) = intra_bits off bit_offset" "sc_bit_len cur = bit_len"
    "coherent bytes devs c'" "bc_device_id c' = Some (rr_device_id r)"
    "bc_base_byte c' = chunk_base off" "bc_word_count c' = word_count_for off bit_offset bit_len"
proof -
  define intra where "intra = (ucast ((off - chunk_base off) * 8 :: u64) + ucast bit_offset :: u16)"
  have intra: "unat intra = intra_bits off bit_offset"
    unfolding intra_def by (rule intra_word)
  have sum: "unat (intra + bit_len) = intra_bits off bit_offset + unat bit_len"
    using fits by (subst unat_word_ariths) (simp add: intra slice_fits_def)
  then have le: "\<not> intra + bit_len > max_slice_bits"
    using fits by (simp add: word_less_nat_alt slice_fits_def max_slice_bits_def max_slice_bytes_def)
  have wc: "(if intra + bit_len > 64 then 2 else 1 :: nat) = word_count_for off bit_offset bit_len"
    by (simp add: word_less_nat_alt sum word_count_for_def)
  have "unat (chunk_base off) + 8 * word_count_for off bit_offset bit_len \<le> length (bytes d)"
    using fits by (simp add: unat_chunk_base slice_fits_def)
  moreover have "word_count_for off bit_offset bit_len \<le> 2" by (simp add: word_count_for_def)
  moreover have "length (bytes d) < 2 ^ 64" using fits by (simp add: slice_fits_def)
  ultimately obtain c' where
      "ensure_loaded ops (rr_device_id r) (chunk_base off) (word_count_for off bit_offset bit_len) d c
        = (Inr (), d, c')"
      "coherent bytes devs c'" "bc_device_id c' = Some (rr_device_id r)"
      "bc_base_byte c' = chunk_base off" "bc_word_count c' = word_count_for off bit_offset bit_len"
    by (rule ensure_loaded_ok [OF c d])
  moreover from this(1) have "ensure_slice ops r off bit_offset bit_len d c =
      (Inr \<lparr>sc_bit_offset = intra, sc_bit_len = bit_len\<rparr>, d, c')"
    unfolding ensure_slice_def Let_def intra_def [symmetric] if_not_P [OF le] wc by simp
  ultimately show ?thesis using intra that by simp
qed

end

lemma ensure_chunk_value_ok:
  assumes "coherent bytes devs c" and "bc_device_id c = Some did"
  obtains c' where "ensure_chunk_value e c =
      Some (bytes_value e (take (8 * bc_word_count c) (drop (unat (bc_base_byte c)) (bytes (devs ! did)))), c')"
    "coherent bytes devs c'" "bc_base_byte c' = bc_base_byte c" "bc_word_count c' = bc_word_count c"
    "bc_device_id c' = bc_device_id c"
proof -
  let ?bs = "take (8 * bc_word_count c) (bc_device_bytes c)"
  from assms have of: "cache_of (bytes (devs ! did)) c" and len: "length (bc_device_bytes c) = 16"
    and lt: "did < length devs"
    by (auto simp: coherent_def)
  then have bs: "?bs = take (8 * bc_word_count c) (drop (unat (bc_base_byte c)) (bytes (devs ! did)))"
    and wc: "bc_word_count c \<le> 2" by (simp_all add: cache_of_def)
  have dec: "decode_bytes e ?bs = Some (bytes_value e ?bs)" for e
    using wc len by (simp add: decode_bytes_value)
  let ?c = "c\<lparr>bc_target_value := Some (e, bytes_value e ?bs)\<rparr>"
  have c': "coherent bytes devs ?c"
    using assms of len lt by (auto simp: coherent_def cache_of_def)
  have "ensure_chunk_value e c = Some (bytes_value e ?bs, c) \<or>
      ensure_chunk_value e c = Some (bytes_value e ?bs, ?c)"
    using of dec [of e]
    by (auto simp: ensure_chunk_value_def chunk_byte_len_def cache_of_def mult.commute
        split: option.split)
  then show ?thesis
  proof
    assume "ensure_chunk_value e c = Some (bytes_value e ?bs, c)"
    with assms that show ?thesis unfolding bs by blast
  next
    assume "ensure_chunk_value e c = Some (bytes_value e ?bs, ?c)"
    with c' that [of ?c] show ?thesis unfolding bs by simp
  qed
qed


section \<open>Bit accesses on a little-endian device\<close>

text \<open>The \<open>n\<close> bits of a memory from bit \<open>p\<close> on, as a value.\<close>

definition is_bits_at :: "u8 list \<Rightarrow> nat \<Rightarrow> nat \<Rightarrow> u128 \<Rightarrow> bool" where
  "is_bits_at bs p n v \<longleftrightarrow> (\<forall>i. bit v i \<longleftrightarrow> i < n \<and> mem_bit bs (p + i))"

definition set_bits_at :: "u8 list \<Rightarrow> nat \<Rightarrow> nat \<Rightarrow> u128 \<Rightarrow> u8 list \<Rightarrow> bool" where
  "set_bits_at bs p n v bs' \<longleftrightarrow> length bs' = length bs \<and>
     (\<forall>q < 8 * length bs. mem_bit bs' q \<longleftrightarrow>
        (if p \<le> q \<and> q < p + n then bit v (q - p) else mem_bit bs q))"

lemma is_bits_at_unique: "is_bits_at bs p n v \<Longrightarrow> is_bits_at bs p n w \<Longrightarrow> v = w"
  unfolding is_bits_at_def by (intro bit_word_eqI) blast

lemma read_set_bits:
  assumes "set_bits_at bs p n v bs'" and "p + n \<le> 8 * length bs" and "n \<le> 128"
    and "is_bits_at bs' p n w"
  shows "w = v AND mask_bits n"
proof (rule bit_word_eqI)
  fix i assume "i < LENGTH(128)"
  with assms show "bit w i \<longleftrightarrow> bit (v AND mask_bits n) i"
    by (auto simp: is_bits_at_def set_bits_at_def bit_simps)
qed

lemma read_elsewhere:
  assumes "set_bits_at bs p n v bs'" and "q + m \<le> 8 * length bs" and "q + m \<le> p \<or> p + n \<le> q"
    and "is_bits_at bs q m w"
  shows "is_bits_at bs' q m w"
  using assms unfolding is_bits_at_def set_bits_at_def by auto

lemma bit_shr_mask:
  assumes "intra + n \<le> 128"
  shows "bit (shr v intra AND mask_bits n) i \<longleftrightarrow> i < n \<and> bit (v::u128) (intra + i)"
proof (cases "n = 0")
  case False
  with assms have "intra mod 128 = intra" by simp
  with assms show ?thesis by (auto simp: bit_simps)
qed (simp add: bit_simps)

lemma bit_updated:
  assumes "intra + n \<le> 128" and "0 < n" and "i < 128"
  shows "bit ((cur AND NOT (shl (mask_bits n) intra)) OR
      shl ((v AND mask_bits n) AND mask_bits n) intra) i \<longleftrightarrow>
    (if intra \<le> i \<and> i < intra + n then bit v (i - intra) else bit (cur::u128) i)"
proof -
  from assms have "intra mod 128 = intra" by simp
  with assms show ?thesis by (auto simp: bit_simps)
qed

lemma updated_chunk_Little:
  assumes "unat off + unat bit_len \<le> 64 * wc" and "wc \<le> 2" and "bit_len \<noteq> 0"
  obtains chunk where
    "updated_chunk Little cur off bit_len v (64 * wc) (8 * wc) = Some chunk" "length chunk = 8 * wc"
    "\<forall>i < 64 * wc. mem_bit chunk i \<longleftrightarrow>
       (if unat off \<le> i \<and> i < unat off + unat bit_len then bit v (i - unat off) else bit cur i)"
proof -
  let ?n = "unat bit_len"
  have n: "0 < ?n" using assms(3) by (simp add: unat_gt_0)
  have nb: "bytes_for_len bit_len \<le> 16" "?n \<le> 8 * bytes_for_len bit_len"
    using assms by (auto simp: bytes_for_len_def)
  from decode_encode_masked [OF nb] obtain out where out:
      "encode_bits Little v ?n (bytes_for_len bit_len) = Some out"
      "decode_bits Little (take (bytes_for_len bit_len) out) ?n = Some (v AND mask_bits ?n)"
    by blast
  let ?upd = "(cur AND NOT (shl (mask_bits ?n) (unat off))) OR
      shl ((v AND mask_bits ?n) AND mask_bits ?n) (unat off)"
  let ?chunk = "take (8 * wc) (to_le_bytes (?upd AND mask_bits (64 * wc)))"
  have "map_option (take (8 * wc)) (encode_bits Little ?upd (64 * wc) (8 * wc)) = Some ?chunk"
    using take_encode_bits [of "8 * wc" Little ?upd "64 * wc"] assms(2) by simp
  then have "updated_chunk Little cur off bit_len v (64 * wc) (8 * wc) = Some ?chunk"
    by (simp add: updated_chunk_def out Let_def)
  moreover have "length ?chunk = 8 * wc" using assms(2) by simp
  moreover have "mem_bit ?chunk i \<longleftrightarrow>
      (if unat off \<le> i \<and> i < unat off + ?n then bit v (i - unat off) else bit cur i)"
    if "i < 64 * wc" for i
  proof -
    have "mem_bit ?chunk i = bit (?upd AND mask_bits (64 * wc)) i"
      using that assms(2) by (intro mem_bit_to_le_bytes) auto
    also have "\<dots> = bit ?upd i" using that assms(2) by (simp add: bit_simps)
    also have "\<dots> \<longleftrightarrow> (if unat off \<le> i \<and> i < unat off + ?n then bit v (i - unat off) else bit cur i)"
      using that assms n by (intro bit_updated) auto
    finally show ?thesis .
  qed
  ultimately show ?thesis using that by blast
qed


context byte_device
begin

lemma with_transaction: "with_device_transaction ops body d c = body d c"
  by (simp add: with_device_transaction_def start_ok end_ok split: prod.splits sum.splits)

lemma read_bits_body_Little:
  assumes c: "coherent bytes devs c" and d: "rr_device_id r < length devs" "devs ! rr_device_id r = d"
    and fits: "slice_fits (bytes d) off bit_offset bit_len" and le: "dev_endianness ops d = Little"
  obtains v c' where "read_bits_body ops bit_offset bit_len off r d c = (Inr v, d, c')"
    "is_bits_at (bytes d) (8 * unat off + unat bit_offset) (unat bit_len) v"
    "coherent bytes devs c'"
proof -
  let ?intra = "intra_bits off bit_offset" and ?wc = "word_count_for off bit_offset bit_len"
  from ensure_slice_ok [OF c d fits] obtain c1 cur where slice:
      "ensure_slice ops r off bit_offset bit_len d c = (Inr cur, d, c1)"
      "unat (sc_bit_offset cur) = ?intra" "sc_bit_len cur = bit_len" "coherent bytes devs c1"
      "bc_device_id c1 = Some (rr_device_id r)" "bc_base_byte c1 = chunk_base off"
      "bc_word_count c1 = ?wc"
    by blast
  let ?bs = "take (8 * ?wc) (drop (unat (chunk_base off)) (bytes d))"
  from ensure_chunk_value_ok [OF slice(4,5), of Little] slice d obtain c2 where chunk:
      "ensure_chunk_value Little c1 = Some (bytes_value Little ?bs, c2)" "coherent bytes devs c2"
    by auto
  let ?v = "shr (bytes_value Little ?bs) ?intra AND mask_bits (unat bit_len)"
  have wc: "?wc \<le> 2" "?intra + unat bit_len \<le> 64 * ?wc" "?intra + unat bit_len \<le> 128"
      "unat (chunk_base off) + 8 * ?wc \<le> length (bytes d)"
    using fits by (auto simp: word_count_for_def slice_fits_def unat_chunk_base)
  then have len: "length ?bs = 8 * ?wc" by simp
  have "is_bits_at (bytes d) (8 * unat off + unat bit_offset) (unat bit_len) ?v"
    unfolding is_bits_at_def chunk_position [symmetric]
  proof
    fix i
    show "bit ?v i \<longleftrightarrow> i < unat bit_len \<and>
        mem_bit (bytes d) (8 * unat (chunk_base off) + ?intra + i)"
      using wc len
      by (auto simp: bit_shr_mask bit_bytes_value_Little mem_bit_window add.assoc)
  qed
  moreover have "read_bits_body ops bit_offset bit_len off r d c = (Inr ?v, d, c2)"
    by (simp add: read_bits_body_def slice le extract_target_bits_def chunk)
  ultimately show ?thesis using chunk(2) that by blast
qed

lemma write_bits_body_Little:
  assumes c: "coherent bytes devs c" and d: "rr_device_id r < length devs" "devs ! rr_device_id r = d"
    and fits: "slice_fits (bytes d) off bit_offset bit_len" and le: "dev_endianness ops d = Little"
    and n: "bit_len \<noteq> 0"
  obtains d' c' where "write_bits_body ops bit_offset bit_len v off r d c = (Inr (), d', c')"
    "set_bits_at (bytes d) (8 * unat off + unat bit_offset) (unat bit_len) v (bytes d')"
    "length (bc_device_bytes c') = 16" "dev_endianness ops d' = Little"
    "dev_name ops d' = dev_name ops d"
proof -
  let ?intra = "intra_bits off bit_offset" and ?wc = "word_count_for off bit_offset bit_len"
  let ?base = "chunk_base off"
  from ensure_slice_ok [OF c d fits] obtain c1 cur where slice:
      "ensure_slice ops r off bit_offset bit_len d c = (Inr cur, d, c1)"
      "unat (sc_bit_offset cur) = ?intra" "sc_bit_len cur = bit_len" "coherent bytes devs c1"
      "bc_device_id c1 = Some (rr_device_id r)" "bc_base_byte c1 = ?base" "bc_word_count c1 = ?wc"
    by blast
  let ?bs = "take (8 * ?wc) (drop (unat ?base) (bytes d))"
  from ensure_chunk_value_ok [OF slice(4,5), of Little] slice d obtain c2 where chunk:
      "ensure_chunk_value Little c1 = Some (bytes_value Little ?bs, c2)" "coherent bytes devs c2"
      "bc_base_byte c2 = ?base"
    by auto
  have wc: "?wc \<le> 2" "?intra + unat bit_len \<le> 64 * ?wc" "?intra + unat bit_len \<le> 128"
      "unat ?base + 8 * ?wc \<le> length (bytes d)" "length (bytes d) < 2 ^ 64"
    using fits by (auto simp: word_count_for_def slice_fits_def unat_chunk_base)
  then have len: "length ?bs = 8 * ?wc" by simp
  have bits: "unat (chunk_bits c1) = 64 * ?wc" "chunk_byte_len c1 = 8 * ?wc"
    by (simp_all add: chunk_bits_def chunk_byte_len_def slice(7) word_count_for_def)
  from wc(2) slice(2) have "unat (sc_bit_offset cur) + unat bit_len \<le> 64 * ?wc" by simp
  from updated_chunk_Little [OF this wc(1) n, of "bytes_value Little ?bs" v] obtain ys where ys:
      "updated_chunk Little (bytes_value Little ?bs) (sc_bit_offset cur) bit_len v
         (64 * ?wc) (8 * ?wc) = Some ys" "length ys = 8 * ?wc"
      "\<forall>i < 64 * ?wc. mem_bit ys i \<longleftrightarrow>
         (if ?intra \<le> i \<and> i < ?intra + unat bit_len then bit v (i - ?intra)
          else bit (bytes_value Little ?bs) i)"
    unfolding slice(2) by blast
  let ?d = "snd (dev_write ops d ?base ys)"
  from wc ys(2) have fit: "unat ?base + length ys \<le> length (bytes d)" by simp
  have b': "bytes ?d = splice (bytes d) (unat ?base) ys" by (rule write_bytes [OF fit wc(5)])
  have "write_bits_body ops bit_offset bit_len v off r d c = (Inr (), ?d, c2)"
    using write_result [OF fit wc(5)]
    by (simp add: write_bits_body_def slice le chunk bits ys Let_def case_prod_unfold)
  moreover have "set_bits_at (bytes d) (8 * unat off + unat bit_offset) (unat bit_len) v (bytes ?d)"
    unfolding set_bits_at_def chunk_position [symmetric]
  proof (intro conjI allI impI)
    show "length (bytes ?d) = length (bytes d)" using b' fit by simp
  next
    fix q assume q: "q < 8 * length (bytes d)"
    show "mem_bit (bytes ?d) q \<longleftrightarrow>
        (if 8 * unat ?base + ?intra \<le> q \<and> q < 8 * unat ?base + ?intra + unat bit_len
         then bit v (q - (8 * unat ?base + ?intra)) else mem_bit (bytes d) q)"
    proof (cases "8 * unat ?base \<le> q \<and> q < 8 * (unat ?base + length ys)")
      case True
      then obtain i where i: "q = 8 * unat ?base + i" "i < 64 * ?wc"
        using ys(2) le_Suc_ex [of "8 * unat ?base" q] by auto
      with wc len have "bit (bytes_value Little ?bs) i = mem_bit (bytes d) q"
        by (simp add: bit_bytes_value_Little mem_bit_window)
      moreover have "mem_bit (bytes ?d) q = mem_bit ys i"
        using i True q fit by (simp add: b' mem_bit_splice)
      ultimately show ?thesis using ys(3) i by simp
    next
      case False
      with q fit have "mem_bit (bytes ?d) q = mem_bit (bytes d) q"
        by (simp only: b' mem_bit_splice if_False)
      moreover have "\<not> (8 * unat ?base + ?intra \<le> q \<and> q < 8 * unat ?base + ?intra + unat bit_len)"
        using False unfolding ys(2) using wc(2) by auto
      ultimately show ?thesis by (simp only: if_not_P if_False)
    qed
  qed
  moreover have "length (bc_device_bytes c2) = 16" using chunk(2) by (simp add: coherent_def)
  ultimately show ?thesis
    using that le write_endianness write_name by simp
qed

end


section \<open>Bit accesses through a handle\<close>

lemma transact_run:
  assumes "ah_active h = Some ar" and "sz \<le> ar_bytes_remaining ar"
    and "rr_device_id (ar_resolved ar) < length (bus_devices bus)"
    and "op (bus_devices bus ! rr_device_id (ar_resolved ar)) (ar_device_offset ar) (ar_resolved ar) c
      = (Inr v, d', c')"
  shows "transact ops sz op bus h c =
    (Inr v, bus\<lparr>bus_devices := (bus_devices bus)[rr_device_id (ar_resolved ar) := d']\<rparr>,
     h\<lparr>ah_active := Some (ar\<lparr>ar_cursor := ar_cursor ar + sz\<rparr>)\<rparr>, c')"
  using assms by (simp add: transact_def nth_opt_def Let_def not_less)

text \<open>The state in which a bit access through the handle is served: positioned, the bytes left, the
  words inside a little-endian device, and the cache coherent.\<close>

definition bit_access_ok ::
    "('d \<Rightarrow> u8 list) \<Rightarrow> 'd device_ops \<Rightarrow> 'd device_bus \<Rightarrow> data_handle \<Rightarrow> active_range \<Rightarrow> u8 \<Rightarrow> u16 \<Rightarrow>
     bool" where
  "bit_access_ok bytes ops bus h ar bit_offset bit_len \<longleftrightarrow>
     ah_active (dh_address h) = Some ar \<and>
     rr_device_id (ar_resolved ar) < length (bus_devices bus) \<and>
     of_nat (bits_to_bytes bit_offset bit_len) \<le> ar_bytes_remaining ar \<and>
     coherent bytes (bus_devices bus) (dh_cache h) \<and>
     dev_endianness ops (bus_devices bus ! rr_device_id (ar_resolved ar)) = Little \<and>
     slice_fits (bytes (bus_devices bus ! rr_device_id (ar_resolved ar)))
       (ar_device_offset ar) bit_offset bit_len"

definition access_bit :: "active_range \<Rightarrow> u8 \<Rightarrow> nat" where
  "access_bit ar bit_offset = 8 * unat (ar_device_offset ar) + unat bit_offset"

definition moved :: "address_handle \<Rightarrow> active_range \<Rightarrow> nat \<Rightarrow> address_handle" where
  "moved h ar n = h\<lparr>ah_active := Some (ar\<lparr>ar_cursor := ar_cursor ar + of_nat n\<rparr>)\<rparr>"

context byte_device
begin

lemma read_bits_Little:
  assumes ok: "bit_access_ok bytes ops bus h ar bit_offset bit_len" and n: "bit_len \<noteq> 0"
  obtains v c' where "read_bits ops bus h bit_offset bit_len =
      (Inr v, bus, \<lparr>dh_address = moved (dh_address h) ar (bits_to_bytes bit_offset bit_len),
        dh_cache = c'\<rparr>)"
    "is_bits_at (bytes (bus_devices bus ! rr_device_id (ar_resolved ar)))
       (access_bit ar bit_offset) (unat bit_len) v"
    "coherent bytes (bus_devices bus) c'"
proof -
  let ?r = "ar_resolved ar"
  let ?d = "bus_devices bus ! rr_device_id ?r"
  from ok have act: "ah_active (dh_address h) = Some ar" and did: "rr_device_id ?r < length (bus_devices bus)"
    and rem: "of_nat (bits_to_bytes bit_offset bit_len) \<le> ar_bytes_remaining ar"
    and coh: "coherent bytes (bus_devices bus) (dh_cache h)" and le: "dev_endianness ops ?d = Little"
    and fits: "slice_fits (bytes ?d) (ar_device_offset ar) bit_offset bit_len"
    by (simp_all add: bit_access_ok_def)
  from read_bits_body_Little [OF coh did refl fits le] obtain v c' where body:
      "read_bits_body ops bit_offset bit_len (ar_device_offset ar) ?r ?d (dh_cache h) = (Inr v, ?d, c')"
      "is_bits_at (bytes ?d) (8 * unat (ar_device_offset ar) + unat bit_offset) (unat bit_len) v"
      "coherent bytes (bus_devices bus) c'"
    by blast
  have "transact ops (of_nat (bits_to_bytes bit_offset bit_len))
      (\<lambda>device offset resolved cache. with_device_transaction ops
         (read_bits_body ops bit_offset bit_len offset resolved) device cache)
      bus (dh_address h) (dh_cache h) =
    (Inr v, bus, moved (dh_address h) ar (bits_to_bytes bit_offset bit_len), c')"
    using transact_run [OF act rem did, where op = "\<lambda>device offset resolved cache.
        with_device_transaction ops (read_bits_body ops bit_offset bit_len offset resolved) device cache"]
      body(1) by (simp add: with_transaction moved_def)
  with n body that show ?thesis by (simp add: read_bits_def access_bit_def)
qed

lemma write_bits_Little:
  assumes ok: "bit_access_ok bytes ops bus h ar bit_offset bit_len" and n: "bit_len \<noteq> 0"
  obtains d' c' where "write_bits ops bus h bit_offset bit_len v =
      (Inr (), bus\<lparr>bus_devices := (bus_devices bus)[rr_device_id (ar_resolved ar) := d']\<rparr>,
        \<lparr>dh_address = moved (dh_address h) ar (bits_to_bytes bit_offset bit_len), dh_cache = c'\<rparr>)"
    "set_bits_at (bytes (bus_devices bus ! rr_device_id (ar_resolved ar)))
       (access_bit ar bit_offset) (unat bit_len) v (bytes d')"
    "\<And>devs. coherent bytes devs c'" "dev_endianness ops d' = Little"
    "dev_name ops d' = dev_name ops (bus_devices bus ! rr_device_id (ar_resolved ar))"
proof -
  let ?r = "ar_resolved ar"
  let ?d = "bus_devices bus ! rr_device_id ?r"
  from ok have act: "ah_active (dh_address h) = Some ar" and did: "rr_device_id ?r < length (bus_devices bus)"
    and rem: "of_nat (bits_to_bytes bit_offset bit_len) \<le> ar_bytes_remaining ar"
    and coh: "coherent bytes (bus_devices bus) (dh_cache h)" and le: "dev_endianness ops ?d = Little"
    and fits: "slice_fits (bytes ?d) (ar_device_offset ar) bit_offset bit_len"
    by (simp_all add: bit_access_ok_def)
  from write_bits_body_Little [OF coh did refl fits le n, of v] obtain d' c' where body:
      "write_bits_body ops bit_offset bit_len v (ar_device_offset ar) ?r ?d (dh_cache h) = (Inr (), d', c')"
      "set_bits_at (bytes ?d) (8 * unat (ar_device_offset ar) + unat bit_offset) (unat bit_len) v (bytes d')"
      "length (bc_device_bytes c') = 16" "dev_endianness ops d' = Little"
      "dev_name ops d' = dev_name ops ?d"
    by blast
  have "transact ops (of_nat (bits_to_bytes bit_offset bit_len))
      (\<lambda>device offset resolved cache.
         let (outcome, device', cache') = with_device_transaction ops
               (write_bits_body ops bit_offset bit_len v offset resolved) device cache
         in (outcome, device', invalidate cache'))
      bus (dh_address h) (dh_cache h) =
    (Inr (), bus\<lparr>bus_devices := (bus_devices bus)[rr_device_id ?r := d']\<rparr>,
     moved (dh_address h) ar (bits_to_bytes bit_offset bit_len), invalidate c')"
    unfolding moved_def
    by (rule transact_run [OF act rem did]) (simp add: with_transaction body(1))
  with n have "write_bits ops bus h bit_offset bit_len v =
      (Inr (), bus\<lparr>bus_devices := (bus_devices bus)[rr_device_id ?r := d']\<rparr>,
        \<lparr>dh_address = moved (dh_address h) ar (bits_to_bytes bit_offset bit_len),
         dh_cache = invalidate c'\<rparr>)"
    by (simp add: write_bits_def)
  with body that show ?thesis by (simp add: access_bit_def coherent_invalidate)
qed

end


lemma resolve_update_device:
  "resolve (bus\<lparr>bus_devices := (bus_devices bus)[i := d]\<rparr>) a = resolve bus a"
  by (simp add: resolve_find bucket_index_def split: option.split)

lemma jump_update_device:
  "jump (bus\<lparr>bus_devices := (bus_devices bus)[i := d]\<rparr>) h a = jump bus h a"
  by (simp add: jump_def resolve_update_device)

lemma jump_active:
  assumes "jump bus h a = (Inr (), h1)"
  obtains h2 where "jump bus h' a = (Inr (), h2)" "ah_active h2 = ah_active h1"
  using assms by (auto simp: jump_def Let_def split: sum.splits)

context byte_device
begin

lemma write_then_read_Little:
  assumes jump: "jump bus ah0 a = (Inr (), dh_address h)"
    and ok: "bit_access_ok bytes ops bus h ar bit_offset bit_len" and n: "bit_len \<noteq> 0"
  obtains d' h' h2 h3 where
    "write_bits ops bus h bit_offset bit_len v =
       (Inr (), bus\<lparr>bus_devices := (bus_devices bus)[rr_device_id (ar_resolved ar) := d']\<rparr>, h')"
    "set_bits_at (bytes (bus_devices bus ! rr_device_id (ar_resolved ar)))
       (access_bit ar bit_offset) (unat bit_len) v (bytes d')"
    "jump (bus\<lparr>bus_devices := (bus_devices bus)[rr_device_id (ar_resolved ar) := d']\<rparr>)
       (dh_address h') a = (Inr (), h2)"
    "read_bits ops (bus\<lparr>bus_devices := (bus_devices bus)[rr_device_id (ar_resolved ar) := d']\<rparr>)
       (h'\<lparr>dh_address := h2\<rparr>) bit_offset bit_len =
       (Inr (v AND mask_bits (unat bit_len)),
        bus\<lparr>bus_devices := (bus_devices bus)[rr_device_id (ar_resolved ar) := d']\<rparr>, h3)"
proof -
  let ?i = "rr_device_id (ar_resolved ar)"
  let ?d = "bus_devices bus ! ?i"
  let ?off = "ar_device_offset ar" and ?p = "access_bit ar bit_offset"
  from write_bits_Little [OF ok n, of v] obtain d' c' where w:
      "write_bits ops bus h bit_offset bit_len v = (Inr (), bus\<lparr>bus_devices := (bus_devices bus)[?i := d']\<rparr>,
        \<lparr>dh_address = moved (dh_address h) ar (bits_to_bytes bit_offset bit_len), dh_cache = c'\<rparr>)"
      "set_bits_at (bytes ?d) ?p (unat bit_len) v (bytes d')"
      "\<And>devs. coherent bytes devs c'" "dev_endianness ops d' = Little"
    by blast
  let ?bus = "bus\<lparr>bus_devices := (bus_devices bus)[?i := d']\<rparr>"
  let ?h = "\<lparr>dh_address = moved (dh_address h) ar (bits_to_bytes bit_offset bit_len), dh_cache = c'\<rparr>"
  from jump_active [OF jump] obtain h2 where h2: "jump ?bus (dh_address ?h) a = (Inr (), h2)"
      "ah_active h2 = ah_active (dh_address h)"
    unfolding jump_update_device by blast
  have len: "length (bytes d') = length (bytes ?d)" using w(2) by (simp add: set_bits_at_def)
  have ok2: "bit_access_ok bytes ops ?bus (?h\<lparr>dh_address := h2\<rparr>) ar bit_offset bit_len"
    using ok w(3,4) h2(2) len by (simp add: bit_access_ok_def slice_fits_def)
  from ok have i: "?i < length (bus_devices bus)" by (simp add: bit_access_ok_def)
  from read_bits_Little [OF ok2 n] obtain w' c2 where r:
      "read_bits ops ?bus (?h\<lparr>dh_address := h2\<rparr>) bit_offset bit_len = (Inr w', ?bus, c2)"
      "is_bits_at (bytes (bus_devices ?bus ! ?i)) ?p (unat bit_len) w'"
    by blast
  from r(2) i have r2: "is_bits_at (bytes d') ?p (unat bit_len) w'" by simp
  from ok have fits: "slice_fits (bytes ?d) ?off bit_offset bit_len" by (simp add: bit_access_ok_def)
  then have "?p + unat bit_len \<le> 8 * length (bytes ?d)" "unat bit_len \<le> 128"
    unfolding access_bit_def chunk_position [symmetric]
    by (auto simp: slice_fits_def word_count_for_def unat_chunk_base split: if_splits)
  then have "w' = v AND mask_bits (unat bit_len)"
    by (rule read_set_bits [OF w(2) _ _ r2])
  with w(1,2) h2(1) r(1) that show ?thesis by blast
qed

end


lemma demo_jump:
  "jump demo_bus address_handle_new 3 = (Inr (), \<lparr>ah_active = Some \<lparr>ar_resolved =
     \<lparr>rr_bus_start = 0, rr_bus_end = 16, rr_device_offset = 0, rr_priority = device_priority,
      rr_device_id = 0\<rparr>, ar_cursor = 3\<rparr>, ah_jump_address = Some 3, ah_jump_device_offset = Some 3\<rparr>)"
  by (simp add: jump_def resolve_find demo_bus_fields demo_bus_buckets bucket_list_def
      bucket_index_def shr_def br_contains_def resolved_of_def address_handle_new_def)





section \<open>Byte accesses through a handle\<close>

context byte_device
begin

lemma dh_write_ok:
  assumes act: "ah_active (dh_address h) = Some ar"
    and did: "rr_device_id (ar_resolved ar) < length (bus_devices bus)"
    and rem: "of_nat (length data) \<le> ar_bytes_remaining ar"
    and fits: "unat (ar_device_offset ar) + length data
      \<le> length (bytes (bus_devices bus ! rr_device_id (ar_resolved ar)))"
    and small: "length (bytes (bus_devices bus ! rr_device_id (ar_resolved ar))) < 2 ^ 64"
    and ne: "data \<noteq> []"
  obtains d' where "dh_write ops bus h data =
      (Inr (), bus\<lparr>bus_devices := (bus_devices bus)[rr_device_id (ar_resolved ar) := d']\<rparr>,
       \<lparr>dh_address = moved (dh_address h) ar (length data), dh_cache = invalidate (dh_cache h)\<rparr>)"
    "bytes d' = splice (bytes (bus_devices bus ! rr_device_id (ar_resolved ar)))
       (unat (ar_device_offset ar)) data"
    "dev_endianness ops d' = dev_endianness ops (bus_devices bus ! rr_device_id (ar_resolved ar))"
proof -
  let ?d = "bus_devices bus ! rr_device_id (ar_resolved ar)"
  let ?d' = "snd (dev_write ops ?d (ar_device_offset ar) data)"
  have "transact ops (of_nat (length data))
      (\<lambda>device offset _ cache.
         let (outcome, device', _) = with_device_transaction ops
               (\<lambda>d u. let (r, d') = dev_write ops d offset data in (r, d', u)) device ()
         in (outcome, device', invalidate cache))
      bus (dh_address h) (dh_cache h) =
    (Inr (), bus\<lparr>bus_devices := (bus_devices bus)[rr_device_id (ar_resolved ar) := ?d']\<rparr>,
     moved (dh_address h) ar (length data), invalidate (dh_cache h))"
    unfolding moved_def
    by (rule transact_run [OF act rem did])
       (simp add: with_transaction case_prod_unfold write_result [OF fits small])
  with ne have "dh_write ops bus h data =
      (Inr (), bus\<lparr>bus_devices := (bus_devices bus)[rr_device_id (ar_resolved ar) := ?d']\<rparr>,
       \<lparr>dh_address = moved (dh_address h) ar (length data), dh_cache = invalidate (dh_cache h)\<rparr>)"
    by (simp add: dh_write_def)
  then show ?thesis by (rule that) (simp_all add: write_bytes [OF fits small] write_endianness)
qed

lemma dh_read_ok:
  assumes act: "ah_active (dh_address h) = Some ar"
    and did: "rr_device_id (ar_resolved ar) < length (bus_devices bus)"
    and rem: "of_nat (length out) \<le> ar_bytes_remaining ar"
    and fits: "unat (ar_device_offset ar) + length out
      \<le> length (bytes (bus_devices bus ! rr_device_id (ar_resolved ar)))"
    and small: "length (bytes (bus_devices bus ! rr_device_id (ar_resolved ar))) < 2 ^ 64"
    and ne: "out \<noteq> []"
  shows "dh_read ops bus h out =
      (Inr (), take (length out) (drop (unat (ar_device_offset ar))
         (bytes (bus_devices bus ! rr_device_id (ar_resolved ar)))), bus,
       \<lparr>dh_address = moved (dh_address h) ar (length out), dh_cache = invalidate (dh_cache h)\<rparr>)"
proof -
  let ?d = "bus_devices bus ! rr_device_id (ar_resolved ar)"
  let ?out = "take (length out) (drop (unat (ar_device_offset ar)) (bytes ?d))"
  have "transact ops (of_nat (length out))
      (\<lambda>device offset _ (out, cache).
         let (outcome, device', out') = with_device_transaction ops
               (\<lambda>d out. let (r, out', d') = dev_read ops d offset out in (r, d', out'))
               device out
         in (outcome, device', (out', invalidate cache)))
      bus (dh_address h) (out, dh_cache h) =
    (Inr (), bus\<lparr>bus_devices := (bus_devices bus)[rr_device_id (ar_resolved ar) := ?d]\<rparr>,
     moved (dh_address h) ar (length out), (?out, invalidate (dh_cache h)))"
    unfolding moved_def
    by (rule transact_run [OF act rem did])
       (simp add: with_transaction read_ok [OF fits small])
  with ne show ?thesis by (simp add: dh_read_def)
qed

end

section \<open>Where the code surprises\<close>

definition one_device_bus :: "endianness \<Rightarrow> nat \<Rightarrow> basic_memory device_bus" where
  "one_device_bus e n = snd (register_device memory_ops (empty_bus 8) (basic_memory_new ''m'' n e) 0)"

definition at_zero :: "basic_memory device_bus \<Rightarrow> data_handle \<Rightarrow> data_handle" where
  "at_zero bus h = h\<lparr>dh_address := snd (jump bus (dh_address h) 0)\<rparr>"

lemma index_range_0: "index_range 0 0 = [0]" by (simp add: index_range_def)

lemma one_device_bus_eq:
  assumes "0 < n" "n \<le> 256"
  shows "one_device_bus e n = \<lparr>bucket_bits = 8, bus_devices = [basic_memory_new ''m'' n e],
     name_index = [''m'' \<mapsto> 0],
     buckets = [0 \<mapsto> [\<lparr>br_id = 1, br_start = 0, br_end = of_nat n, br_device_offset = 0,
       br_device_id = 0, br_priority = 0, br_kind = KindDevice\<rparr>]],
     range_index = [1 \<mapsto> [0]], redirect_index = Map.empty, next_range_id = 2\<rparr>"
proof -
  have u: "unat (of_nat n :: u64) = n" using assms by (intro unat_of_nat_u64) simp
  have nz: "(of_nat n :: u64) \<noteq> 0" using u assms by auto
  have "unat (of_nat n - 1 :: u64) < 256"
    using assms u by (simp add: unat_minus_one [OF nz])
  then have "unat (shr (of_nat n - 1 :: u64) 8) = 0" by (simp add: unat_shr)
  then have s: "shr (of_nat n - 1 :: u64) 8 = 0" by (simp add: unat_eq_zero)
  have s0: "shr (0 :: u64) 8 = 0" by (simp add: shr_def)
  show ?thesis
    using assms u nz s s0
    by (simp add: one_device_bus_def register_device_def empty_bus_def checked_add_def
        Let_def add_range_def bucket_index_def bucket_list_def insert_segment_def
        index_range_0 device_priority_def basic_memory_new_def mem_span_def mem_size_def)
qed


lemma replicate_words: "replicate 8 (0::u8) = [0,0,0,0,0,0,0,0]"
  "replicate 16 (0::u8) = [0,0,0,0,0,0,0,0,0,0,0,0,0,0,0,0]"
  "replicate 15 (0::u8) = [0,0,0,0,0,0,0,0,0,0,0,0,0,0,0]"
  "replicate 4 (0::u8) = [0,0,0,0]"
  by (simp_all add: numeral_eq_Suc)

lemma to_le_bytes_unroll: "to_le_bytes v = [ucast v, ucast (drop_bit 8 v), ucast (drop_bit 16 v),
  ucast (drop_bit 24 v), ucast (drop_bit 32 v), ucast (drop_bit 40 v), ucast (drop_bit 48 v),
  ucast (drop_bit 56 v), ucast (drop_bit 64 v), ucast (drop_bit 72 v), ucast (drop_bit 80 v),
  ucast (drop_bit 88 v), ucast (drop_bit 96 v), ucast (drop_bit 104 v), ucast (drop_bit 112 v),
  ucast (drop_bit 120 v)]"
  by (simp add: to_le_bytes_def upt_conv_Cons)

text \<open>Everything a bit access on a small bus unfolds to.\<close>

lemmas run_defs =
  one_device_bus_eq at_zero_def jump_def resolve_find bucket_list_def bucket_index_def
  br_contains_def resolved_of_def Let_def
  write_bits_def read_bits_def dh_read_def transact_def bits_to_bytes_def ar_bytes_remaining_def
  ar_bus_address_def ar_device_offset_def data_handle_new_def address_handle_new_def
  with_device_transaction_def default_start_transact_def default_end_transact_def
  write_bits_body_def read_bits_body_def ensure_slice_def chunk_base_def max_slice_bits_def
  max_slice_bytes_def ensure_loaded_def cache_matches_def slice_cache_default_def mem_read_def
  mem_write_def usize_end_def basic_memory_new_def ensure_chunk_value_def chunk_bits_def
  chunk_byte_len_def decode_bytes_def decode_bits_def encode_bits_def updated_chunk_def
  bytes_for_len_def mask_bits_def shl_def shr_def from_be_bytes_def to_be_bytes_def splice_def
  invalidate_def extract_target_bits_def nth_opt_def replicate_words to_le_bytes_unroll



text \<open>A bit access loads whole eight-byte words, so on a device whose size is not a multiple of
  eight it fails for bytes that a byte access reads.\<close>

theorem short_device_bit_access_fails:
  "(let bus = one_device_bus Little 4
    in (fst (read_bits memory_ops bus (at_zero bus data_handle_new) 0 8),
        fst (dh_read memory_ops bus (at_zero bus data_handle_new) [0]))) =
   (Inl (DeviceFault ''m'' (FaultDevice (DevOutOfRange 0 8 4))), Inr ())"
  by (simp add: run_defs)

end
