(* ===== verification/CoreSpec.thy ===== *)
theory CoreSpec
  imports DataHandle
begin

text \<open>
  Model of \<open>src/soc/core/specification.rs\<close>: the layout of a core's registers as bit slices of one
  snapshot, and the builder that lays them out.  \<open>builder_wf\<close> and \<open>layout_ok\<close> are the invariants of
  the builder; the construction from a machine description is modelled with the machine.
\<close>

section \<open>Specification and builder\<close>

record register_spec =
  rs_name :: string
  rs_bit_offset :: u32
  rs_bit_len :: u32

definition rs_extent :: "register_spec \<Rightarrow> u32" where
  "rs_extent r = rs_bit_offset r + rs_bit_len r"

record core_spec =
  cs_name :: string
  cs_endianness :: endianness
  cs_registers :: "register_spec list"
  cs_index :: "string \<rightharpoonup> nat"
  cs_total_bits :: u32

definition cs_register :: "core_spec \<Rightarrow> string \<Rightarrow> register_spec option" where
  "cs_register spec name = Option.bind (cs_index spec name) (nth_opt (cs_registers spec))"

definition cs_byte_len :: "core_spec \<Rightarrow> nat" where
  "cs_byte_len spec = max ((unat (cs_total_bits spec) + 7) div 8) 1"

datatype core_spec_error = DuplicateRegister string | InvalidWidth string u32

record core_spec_builder =
  sb_name :: string
  sb_endianness :: endianness
  sb_cursor :: u32
  sb_registers :: "register_spec list"
  sb_seen :: "string set"
  sb_errors :: "core_spec_error list"

definition builder_new :: "string \<Rightarrow> endianness \<Rightarrow> core_spec_builder" where
  "builder_new name e = \<lparr>sb_name = name, sb_endianness = e, sb_cursor = 0, sb_registers = [],
     sb_seen = {}, sb_errors = []\<rparr>"

definition push_spec :: "core_spec_builder \<Rightarrow> string \<Rightarrow> u32 \<Rightarrow> u32 \<Rightarrow> core_spec_builder" where
  "push_spec b name bit_offset bit_len =
     (if name \<in> sb_seen b then b\<lparr>sb_errors := sb_errors b @ [DuplicateRegister name]\<rparr>
      else b\<lparr>sb_seen := insert name (sb_seen b),
        sb_registers := sb_registers b @
          [\<lparr>rs_name = name, rs_bit_offset = bit_offset, rs_bit_len = bit_len\<rparr>]\<rparr>)"

definition builder_register :: "core_spec_builder \<Rightarrow> string \<Rightarrow> u32 \<Rightarrow> core_spec_builder" where
  "builder_register b name bit_len =
     (if bit_len = 0 then b\<lparr>sb_errors := sb_errors b @ [InvalidWidth name bit_len]\<rparr>
      else
        let b' = push_spec b name (sb_cursor b) bit_len
        in b'\<lparr>sb_cursor := sb_cursor b' + bit_len\<rparr>)"

definition builder_register_at ::
    "core_spec_builder \<Rightarrow> string \<Rightarrow> u32 \<Rightarrow> u32 \<Rightarrow> core_spec_builder" where
  "builder_register_at b name bit_offset bit_len =
     (if bit_len = 0 then b\<lparr>sb_errors := sb_errors b @ [InvalidWidth name bit_len]\<rparr>
      else
        let b' = push_spec b name bit_offset bit_len
        in b'\<lparr>sb_cursor := max (sb_cursor b') (bit_offset + bit_len)\<rparr>)"

definition index_names :: "register_spec list \<Rightarrow> (string \<rightharpoonup> nat)" where
  "index_names regs = fold (\<lambda>(i, r) m. m(rs_name r \<mapsto> i)) (List.enumerate 0 regs) Map.empty"

definition builder_build :: "core_spec_builder \<Rightarrow> core_spec_error list + core_spec" where
  "builder_build b =
     (if sb_errors b \<noteq> [] then Inl (sb_errors b)
      else
        let regs = sort_key rs_bit_offset (sb_registers b)
        in Inr \<lparr>cs_name = sb_name b, cs_endianness = sb_endianness b, cs_registers = regs,
             cs_index = index_names regs, cs_total_bits = fold max (map rs_extent regs) 0\<rparr>)"

section \<open>The invariants of the builder\<close>

definition builder_wf :: "core_spec_builder \<Rightarrow> bool" where
  "builder_wf b \<longleftrightarrow>
     distinct (map rs_name (sb_registers b)) \<and> set (map rs_name (sb_registers b)) = sb_seen b \<and>
     (\<forall>r \<in> set (sb_registers b). rs_bit_len r \<noteq> 0)"

text \<open>Two registers share no bit of the snapshot.\<close>

definition rs_disjoint :: "register_spec \<Rightarrow> register_spec \<Rightarrow> bool" where
  "rs_disjoint a b \<longleftrightarrow>
     unat (rs_bit_offset a) + unat (rs_bit_len a) \<le> unat (rs_bit_offset b) \<or>
     unat (rs_bit_offset b) + unat (rs_bit_len b) \<le> unat (rs_bit_offset a)"

definition layout_ok :: "core_spec_builder \<Rightarrow> bool" where
  "layout_ok b \<longleftrightarrow>
     (\<forall>r \<in> set (sb_registers b).
        unat (rs_bit_offset r) + unat (rs_bit_len r) \<le> unat (sb_cursor b)) \<and>
     pairwise rs_disjoint (set (sb_registers b))"

lemma builder_wf_new: "builder_wf (builder_new name e)"
  by (simp add: builder_wf_def builder_new_def)

lemma builder_wf_push: "builder_wf b \<Longrightarrow> n \<noteq> 0 \<Longrightarrow> builder_wf (push_spec b name off n)"
  by (auto simp: builder_wf_def push_spec_def)

lemma builder_wf_cursor [simp]: "builder_wf (b\<lparr>sb_cursor := c\<rparr>) = builder_wf b"
  by (simp add: builder_wf_def)

lemma builder_wf_errors [simp]: "builder_wf (b\<lparr>sb_errors := es\<rparr>) = builder_wf b"
  by (simp add: builder_wf_def)

lemma builder_wf_register: "builder_wf b \<Longrightarrow> builder_wf (builder_register b name n)"
  by (simp add: builder_register_def Let_def builder_wf_push)

lemma builder_wf_register_at: "builder_wf b \<Longrightarrow> builder_wf (builder_register_at b name off n)"
  by (simp add: builder_register_at_def Let_def builder_wf_push)

lemma push_spec_cursor [simp]: "sb_cursor (push_spec b name off n) = sb_cursor b"
  by (simp add: push_spec_def)

text \<open>Sequential registers are laid out one after the other.\<close>

lemma layout_ok_register:
  assumes ok: "layout_ok b" and room: "unat (sb_cursor b) + unat n < 2 ^ 32"
  shows "layout_ok (builder_register b name n)"
proof (cases "n = 0")
  case True
  with ok show ?thesis by (simp add: builder_register_def layout_ok_def)
next
  case False
  let ?r = "\<lparr>rs_name = name, rs_bit_offset = sb_cursor b, rs_bit_len = n\<rparr>"
  have c: "unat (sb_cursor b + n) = unat (sb_cursor b) + unat n"
    using room by (simp add: unat_word_ariths)
  have "rs_disjoint ?r r \<and> rs_disjoint r ?r" if "r \<in> set (sb_registers b)" for r
    using ok that by (auto simp: layout_ok_def rs_disjoint_def)
  with ok False c show ?thesis
    by (auto simp: builder_register_def Let_def push_spec_def layout_ok_def pairwise_insert
        intro: trans_le_add1)
qed

lemma fold_max_ge:
  fixes a :: "'a::linorder"
  shows "a \<le> fold max xs a \<and> (\<forall>x \<in> set xs. x \<le> fold max xs a)"
proof (induction xs arbitrary: a)
  case Nil
  then show ?case by simp
next
  case (Cons x xs)
  from Cons.IH [of "max x a"] show ?case by (auto simp: max.coboundedI1 max.coboundedI2)
qed

lemma index_names_fold:
  assumes "distinct (map rs_name regs)"
  shows "fold (\<lambda>(i, r) m. m(rs_name r \<mapsto> i)) (List.enumerate n regs) m name =
    (case position (\<lambda>r. rs_name r = name) regs of Some i \<Rightarrow> Some (n + i) | None \<Rightarrow> m name)"
  using assms
proof (induction regs arbitrary: n m)
  case Nil
  then show ?case by simp
next
  case (Cons r regs)
  then have "position (\<lambda>q. rs_name q = rs_name r) regs = None"
    by (simp add: position_None) (metis image_eqI)
  with Cons show ?case by (auto split: option.splits)
qed

lemma cs_register_iff:
  assumes "distinct (map rs_name (cs_registers spec))"
    and "cs_index spec = index_names (cs_registers spec)"
  shows "cs_register spec name = Some r \<longleftrightarrow> r \<in> set (cs_registers spec) \<and> rs_name r = name"
proof -
  let ?regs = "cs_registers spec"
  have idx: "cs_index spec name = position (\<lambda>r. rs_name r = name) ?regs"
    using index_names_fold [OF assms(1), of 0 Map.empty name]
    by (simp add: assms(2) index_names_def split: option.splits)
  show ?thesis
  proof (cases "position (\<lambda>r. rs_name r = name) ?regs")
    case None
    then have "cs_register spec name = None" by (simp add: cs_register_def idx)
    with None show ?thesis by (auto simp: position_None)
  next
    case (Some i)
    from position_Some [OF Some] have i: "i < length ?regs" "rs_name (?regs ! i) = name" by auto
    have "r = ?regs ! i" if "r \<in> set ?regs" "rs_name r = name"
      using assms(1) i that by (metis distinct_map inj_on_eq_iff nth_mem)
    with i show ?thesis by (auto simp: cs_register_def idx Some nth_opt_Some_iff)
  qed
qed

lemma build_extent:
  assumes lay: "layout_ok b" and build: "builder_build b = Inr spec" and r: "r \<in> set (sb_registers b)"
  shows "unat (rs_bit_offset r) + unat (rs_bit_len r) \<le> unat (cs_total_bits spec)"
proof -
  let ?regs = "sort_key rs_bit_offset (sb_registers b)"
  from build have spec: "cs_total_bits spec = fold max (map rs_extent ?regs) 0"
    by (auto simp: builder_build_def Let_def split: if_splits)
  have "unat (rs_bit_offset r) + unat (rs_bit_len r) \<le> unat (sb_cursor b)"
    using lay r by (simp add: layout_ok_def)
  moreover have "unat (sb_cursor b) < 2 ^ 32"
    using unsigned_less [of "sb_cursor b", where 'a = nat] by simp
  ultimately have "unat (rs_extent r) = unat (rs_bit_offset r) + unat (rs_bit_len r)"
    by (simp add: rs_extent_def unat_word_ariths)
  moreover have "rs_extent r \<le> cs_total_bits spec"
    using fold_max_ge [where xs = "map rs_extent ?regs" and a = 0] r by (simp add: spec)
  ultimately show ?thesis by (simp add: word_le_nat_alt)
qed


definition demo_builder :: core_spec_builder where
  "demo_builder = builder_register (builder_register (builder_new ''demo'' Little) ''pc'' 64) ''cr'' 4"

lemma demo_builder_ok: "builder_wf demo_builder" "layout_ok demo_builder"
  unfolding demo_builder_def
  by (intro builder_wf_register builder_wf_new)
     (intro layout_ok_register; simp add: builder_new_def layout_ok_def builder_register_def push_spec_def)

definition demo_spec :: core_spec where
  "demo_spec = projr (builder_build demo_builder)"

lemma demo_build: "builder_build demo_builder = Inr demo_spec"
  by (simp add: demo_spec_def demo_builder_def builder_build_def builder_register_def builder_new_def
      push_spec_def Let_def)


end
