(* ===== verification/CoreState.thy ===== *)
theory CoreState
  imports CoreSpec
begin

text \<open>
  Model of \<open>src/soc/core/state.rs\<close>: the snapshot of a core, a \<open>BasicMemory\<close> behind a private bus,
  with registers as bit slices of it.  The \<open>Arc\<close>s to the bus and to the memory are the bus field and
  its device 0.  \<open>core_ok\<close> is the invariant: the bus maps exactly the snapshot, whose length is a
  multiple of eight, and the handle's cache is coherent with it.
\<close>

section \<open>State and operations\<close>

record register_layout =
  rl_byte_offset :: u64
  rl_bit_offset :: u8
  rl_bit_len :: u32

definition layout_of :: "register_spec \<Rightarrow> register_layout" where
  "layout_of spec = \<lparr>rl_byte_offset = ucast (rs_bit_offset spec div 8),
     rl_bit_offset = ucast (rs_bit_offset spec mod 8), rl_bit_len = rs_bit_len spec\<rparr>"

datatype state_error =
    StateBus bus_error
  | UnknownRegister string
  | RegisterWidthOverflow string u32

record core_state =
  st_spec :: core_spec
  st_bus :: "basic_memory device_bus"
  st_registers :: "string \<rightharpoonup> register_layout"
  st_handle :: data_handle

definition local_bus_bucket_bits :: nat where
  "local_bus_bucket_bits = 8"

text \<open>\<open>saturating_add\<close> cannot saturate: a snapshot has at most \<open>2 ^ 29\<close> bytes.\<close>

definition align_byte_len :: "nat \<Rightarrow> nat" where
  "align_byte_len n = (if n = 0 then 8 else min (n + 7) (2 ^ 64 - 1) div 8 * 8)"

definition narrow_bit_len :: "string \<Rightarrow> u32 \<Rightarrow> state_error + u16" where
  "narrow_bit_len name bits =
     (if unat bits < 2 ^ 16 then Inr (ucast bits) else Inl (RegisterWidthOverflow name bits))"

definition layout_map :: "register_spec list \<Rightarrow> (string \<rightharpoonup> register_layout)" where
  "layout_map regs = fold (\<lambda>s m. m(rs_name s \<mapsto> layout_of s)) regs Map.empty"

definition core_state_new :: "core_spec \<Rightarrow> state_error + core_state" where
  "core_state_new spec =
     (let memory = basic_memory_new (cs_name spec @ ''_state'') (align_byte_len (cs_byte_len spec))
            (cs_endianness spec)
      in case device_bus_new local_bus_bucket_bits of
           None \<Rightarrow> Inl (StateBus BusPanic)
         | Some bus0 \<Rightarrow>
             (case register_device memory_ops bus0 memory 0 of
                (Inl e, _) \<Rightarrow> Inl (StateBus e)
              | (Inr _, bus) \<Rightarrow>
                  (case jump bus (dh_address data_handle_new) 0 of
                     (Inl e, _) \<Rightarrow> Inl (StateBus e)
                   | (Inr _, ah) \<Rightarrow>
                       Inr \<lparr>st_spec = spec, st_bus = bus,
                         st_registers = layout_map (cs_registers spec),
                         st_handle = data_handle_new\<lparr>dh_address := ah\<rparr>\<rparr>)))"

definition st_memory :: "core_state \<Rightarrow> basic_memory" where
  "st_memory st = hd (bus_devices (st_bus st))"

definition read_bits_at ::
    "core_state \<Rightarrow> u64 \<Rightarrow> u8 \<Rightarrow> u16 \<Rightarrow> (state_error + u128) \<times> core_state" where
  "read_bits_at st byte_offset bit_offset bit_len =
     (case jump (st_bus st) (dh_address (st_handle st)) byte_offset of
        (Inl e, ah) \<Rightarrow> (Inl (StateBus e), st\<lparr>st_handle := (st_handle st)\<lparr>dh_address := ah\<rparr>\<rparr>)
      | (Inr _, ah) \<Rightarrow>
          let (res, bus', h') = read_bits memory_ops (st_bus st)
                ((st_handle st)\<lparr>dh_address := ah\<rparr>) bit_offset bit_len
          in (map_err StateBus res, st\<lparr>st_bus := bus', st_handle := h'\<rparr>))"

definition write_bits_at ::
    "core_state \<Rightarrow> u64 \<Rightarrow> u8 \<Rightarrow> u16 \<Rightarrow> u128 \<Rightarrow> (state_error + unit) \<times> core_state" where
  "write_bits_at st byte_offset bit_offset bit_len v =
     (case jump (st_bus st) (dh_address (st_handle st)) byte_offset of
        (Inl e, ah) \<Rightarrow> (Inl (StateBus e), st\<lparr>st_handle := (st_handle st)\<lparr>dh_address := ah\<rparr>\<rparr>)
      | (Inr _, ah) \<Rightarrow>
          let (res, bus', h') = write_bits memory_ops (st_bus st)
                ((st_handle st)\<lparr>dh_address := ah\<rparr>) bit_offset bit_len v
          in (map_err StateBus res, st\<lparr>st_bus := bus', st_handle := h'\<rparr>))"

definition read_register :: "core_state \<Rightarrow> string \<Rightarrow> (state_error + u128) \<times> core_state" where
  "read_register st name =
     (case st_registers st name of
        None \<Rightarrow> (Inl (UnknownRegister name), st)
      | Some layout \<Rightarrow>
          (case narrow_bit_len name (rl_bit_len layout) of
             Inl e \<Rightarrow> (Inl e, st)
           | Inr bit_len \<Rightarrow>
               read_bits_at st (rl_byte_offset layout) (rl_bit_offset layout) bit_len))"

definition write_register :: "core_state \<Rightarrow> string \<Rightarrow> u128 \<Rightarrow> (state_error + unit) \<times> core_state" where
  "write_register st name v =
     (case st_registers st name of
        None \<Rightarrow> (Inl (UnknownRegister name), st)
      | Some layout \<Rightarrow>
          (case narrow_bit_len name (rl_bit_len layout) of
             Inl e \<Rightarrow> (Inl e, st)
           | Inr bit_len \<Rightarrow>
               write_bits_at st (rl_byte_offset layout) (rl_bit_offset layout) bit_len v))"

definition zeroize :: "core_state \<Rightarrow> (state_error + unit) \<times> core_state" where
  "zeroize st =
     (case jump (st_bus st) (dh_address (st_handle st)) 0 of
        (Inl e, ah) \<Rightarrow> (Inl (StateBus e), st\<lparr>st_handle := (st_handle st)\<lparr>dh_address := ah\<rparr>\<rparr>)
      | (Inr _, ah) \<Rightarrow>
          let (res, bus', h') = dh_write memory_ops (st_bus st)
                ((st_handle st)\<lparr>dh_address := ah\<rparr>) (replicate (unat (mem_size (st_memory st))) 0);
              st' = st\<lparr>st_bus := bus', st_handle := h'\<rparr>
          in case res of
               Inl e \<Rightarrow> (Inl (StateBus e), st')
             | Inr _ \<Rightarrow>
                 let (res2, ah2) = jump bus' (dh_address h') 0
                 in (map_err StateBus res2, st'\<lparr>st_handle := h'\<lparr>dh_address := ah2\<rparr>\<rparr>))"

section \<open>The invariant of a snapshot\<close>

definition snapshot :: "core_state \<Rightarrow> u8 list" where
  "snapshot st = mem_bytes (st_memory st)"

definition core_ok :: "core_state \<Rightarrow> bool" where
  "core_ok st \<longleftrightarrow>
     length (bus_devices (st_bus st)) = 1 \<and> mem_endian (st_memory st) = Little \<and>
     0 < length (snapshot st) \<and> length (snapshot st) < 2 ^ 64 \<and> 8 dvd length (snapshot st) \<and>
     (\<forall>a. resolve (st_bus st) a =
       (if unat a < length (snapshot st)
        then Inr \<lparr>rr_bus_start = 0, rr_bus_end = of_nat (length (snapshot st)),
          rr_device_offset = 0, rr_priority = device_priority, rr_device_id = 0\<rparr>
        else Inl (NotMapped a))) \<and>
     coherent mem_bytes (bus_devices (st_bus st)) (dh_cache (st_handle st))"

text \<open>A window of the snapshot a single bit access can serve: inside the snapshot, and inside the
  sixteen bytes from the eight-byte word it starts in.\<close>

definition window_ok :: "core_state \<Rightarrow> u64 \<Rightarrow> u8 \<Rightarrow> u16 \<Rightarrow> bool" where
  "window_ok st byte_offset bit_offset bit_len \<longleftrightarrow>
     bit_len \<noteq> 0 \<and> intra_bits byte_offset bit_offset + unat bit_len \<le> 128 \<and>
     8 * unat byte_offset + unat bit_offset + unat bit_len \<le> 8 * length (snapshot st)"

lemma core_devices: "core_ok st \<Longrightarrow> bus_devices (st_bus st) = [st_memory st]"
  by (cases "bus_devices (st_bus st)") (auto simp: core_ok_def st_memory_def)

lemma jump_run:
  assumes "resolve bus a = Inr \<lparr>rr_bus_start = 0, rr_bus_end = n, rr_device_offset = 0,
    rr_priority = prio, rr_device_id = i\<rparr>"
  shows "jump bus h a = (Inr (), h\<lparr>ah_jump_address := Some a, ah_jump_device_offset := Some a,
    ah_active := Some \<lparr>ar_resolved = \<lparr>rr_bus_start = 0, rr_bus_end = n, rr_device_offset = 0,
      rr_priority = prio, rr_device_id = i\<rparr>, ar_cursor = a\<rparr>\<rparr>)"
  using assms by (simp add: jump_def Let_def)

lemma jump_core:
  assumes "core_ok st" and "unat a < length (snapshot st)"
  shows "jump (st_bus st) h a = (Inr (), h\<lparr>ah_jump_address := Some a, ah_jump_device_offset := Some a,
    ah_active := Some \<lparr>ar_resolved = \<lparr>rr_bus_start = 0, rr_bus_end = of_nat (length (snapshot st)),
      rr_device_offset = 0, rr_priority = device_priority, rr_device_id = 0\<rparr>, ar_cursor = a\<rparr>\<rparr>)"
proof -
  have "resolve (st_bus st) a = (if unat a < length (snapshot st)
        then Inr \<lparr>rr_bus_start = 0, rr_bus_end = of_nat (length (snapshot st)),
          rr_device_offset = 0, rr_priority = device_priority, rr_device_id = 0\<rparr>
        else Inl (NotMapped a))"
    using assms(1) unfolding core_ok_def by blast
  then have "resolve (st_bus st) a = Inr \<lparr>rr_bus_start = 0, rr_bus_end = of_nat (length (snapshot st)),
      rr_device_offset = 0, rr_priority = device_priority, rr_device_id = 0\<rparr>"
    unfolding if_P [OF assms(2)] .
  then show ?thesis by (rule jump_run)
qed

lemma bytes_le:
  assumes "8 * b + x \<le> 8 * n" shows "(x + 7) div 8 \<le> n - (b::nat)"
proof -
  have "(x + 7) div 8 < Suc (n - b)"
    using assms by (subst div_less_iff_less_mult) simp_all
  then show ?thesis by simp
qed

text \<open>A window of the snapshot is served by the handle after a jump to it.\<close>

lemma window_access:
  assumes ok: "core_ok st" and win: "window_ok st byte_offset bit_offset bit_len"
  shows "unat byte_offset < length (snapshot st)"
    and "bit_access_ok mem_bytes memory_ops (st_bus st)
      ((st_handle st)\<lparr>dh_address := snd (jump (st_bus st) h byte_offset)\<rparr>)
      \<lparr>ar_resolved = \<lparr>rr_bus_start = 0, rr_bus_end = of_nat (length (snapshot st)),
         rr_device_offset = 0, rr_priority = device_priority, rr_device_id = 0\<rparr>,
       ar_cursor = byte_offset\<rparr> bit_offset bit_len"
proof -
  let ?L = "length (snapshot st)"
  have n: "0 < unat bit_len" using win by (simp add: window_ok_def unat_gt_0)
  with win show lt: "unat byte_offset < ?L" by (simp add: window_ok_def)
  from ok obtain q where q: "?L = 8 * q" by (auto simp: core_ok_def)
  have L: "?L < 2 ^ 64" using ok by (simp add: core_ok_def)
  have dev: "bus_devices (st_bus st) ! 0 = st_memory st"
    by (simp add: core_devices [OF ok])
  have span: "bits_to_bytes bit_offset bit_len \<le> ?L - unat byte_offset"
    using win n bytes_le [of "unat byte_offset" "unat bit_offset + unat bit_len" ?L]
    by (simp add: bits_to_bytes_def window_ok_def add.assoc)
  have rem: "unat (of_nat ?L - byte_offset :: u64) = ?L - unat byte_offset"
    using lt L by (simp add: unat_sub word_le_nat_alt unat_of_nat_u64)
  have "unat (of_nat (bits_to_bytes bit_offset bit_len) :: u64) = bits_to_bytes bit_offset bit_len"
    using span L by (intro unat_of_nat_u64) simp
  with span rem have fits: "(of_nat (bits_to_bytes bit_offset bit_len) :: u64) \<le> of_nat ?L - byte_offset"
    by (simp add: word_le_nat_alt)
  have "8 * (unat byte_offset div 8) + 8 * word_count_for byte_offset bit_offset bit_len \<le> ?L"
  proof -
    have p: "8 * (8 * (unat byte_offset div 8)) + intra_bits byte_offset bit_offset + unat bit_len
        \<le> 8 * (8 * q)"
      using win chunk_position [of byte_offset bit_offset] q
      by (simp add: window_ok_def unat_chunk_base)
    have "unat byte_offset div 8 + word_count_for byte_offset bit_offset bit_len \<le> q"
      using p n by (auto simp: word_count_for_def)
    then show ?thesis using q by simp
  qed
  with win L have "slice_fits (mem_bytes (st_memory st)) byte_offset bit_offset bit_len"
    by (simp add: slice_fits_def window_ok_def snapshot_def)
  with ok lt fits dev show "bit_access_ok mem_bytes memory_ops (st_bus st)
      ((st_handle st)\<lparr>dh_address := snd (jump (st_bus st) h byte_offset)\<rparr>)
      \<lparr>ar_resolved = \<lparr>rr_bus_start = 0, rr_bus_end = of_nat ?L,
         rr_device_offset = 0, rr_priority = device_priority, rr_device_id = 0\<rparr>,
       ar_cursor = byte_offset\<rparr> bit_offset bit_len"
    by (simp add: bit_access_ok_def jump_core core_ok_def ar_bytes_remaining_def ar_bus_address_def
        ar_device_offset_def)
qed


section \<open>Reads and writes of a window\<close>

definition window_bit :: "u64 \<Rightarrow> u8 \<Rightarrow> nat" where
  "window_bit byte_offset bit_offset = 8 * unat byte_offset + unat bit_offset"

lemma read_bits_at_ok:
  assumes ok: "core_ok st" and win: "window_ok st byte_offset bit_offset bit_len"
  obtains v st' where "read_bits_at st byte_offset bit_offset bit_len = (Inr v, st')"
    "is_bits_at (snapshot st) (window_bit byte_offset bit_offset) (unat bit_len) v"
    "core_ok st'" "snapshot st' = snapshot st" "st_registers st' = st_registers st"
    "st_bus st' = st_bus st"
proof -
  note acc = window_access [OF ok win]
  have n: "bit_len \<noteq> 0" using win by (simp add: window_ok_def)
  let ?ar = "\<lparr>ar_resolved = \<lparr>rr_bus_start = 0, rr_bus_end = of_nat (length (snapshot st)),
         rr_device_offset = 0, rr_priority = device_priority, rr_device_id = 0\<rparr>,
       ar_cursor = byte_offset\<rparr>"
  let ?ah = "snd (jump (st_bus st) (dh_address (st_handle st)) byte_offset)"
  from mem.read_bits_Little [OF acc(2) [of "dh_address (st_handle st)"] n] obtain v c' where r:
      "read_bits memory_ops (st_bus st) ((st_handle st)\<lparr>dh_address := ?ah\<rparr>) bit_offset bit_len =
        (Inr v, st_bus st, \<lparr>dh_address = moved ?ah ?ar (bits_to_bytes bit_offset bit_len), dh_cache = c'\<rparr>)"
      "is_bits_at (mem_bytes (bus_devices (st_bus st) ! 0)) (access_bit ?ar bit_offset) (unat bit_len) v"
      "coherent mem_bytes (bus_devices (st_bus st)) c'"
    by auto
  let ?st = "st\<lparr>st_bus := st_bus st,
    st_handle := \<lparr>dh_address = moved ?ah ?ar (bits_to_bytes bit_offset bit_len), dh_cache = c'\<rparr>\<rparr>"
  have "read_bits_at st byte_offset bit_offset bit_len = (Inr v, ?st)"
    using r(1) jump_core [OF ok acc(1)] by (simp add: read_bits_at_def)
  moreover have "is_bits_at (snapshot st) (window_bit byte_offset bit_offset) (unat bit_len) v"
    using r(2) by (simp add: core_devices [OF ok] snapshot_def access_bit_def window_bit_def
        ar_device_offset_def)
  moreover have "snapshot ?st = snapshot st" by (simp add: snapshot_def st_memory_def)
  moreover have "core_ok ?st"
    using ok r(3) by (simp add: core_ok_def snapshot_def st_memory_def)
  ultimately show ?thesis using that by simp
qed

lemma write_bits_at_ok:
  assumes ok: "core_ok st" and win: "window_ok st byte_offset bit_offset bit_len"
  obtains st' where "write_bits_at st byte_offset bit_offset bit_len v = (Inr (), st')"
    "set_bits_at (snapshot st) (window_bit byte_offset bit_offset) (unat bit_len) v (snapshot st')"
    "core_ok st'" "st_registers st' = st_registers st"
proof -
  note acc = window_access [OF ok win]
  have n: "bit_len \<noteq> 0" using win by (simp add: window_ok_def)
  let ?ar = "\<lparr>ar_resolved = \<lparr>rr_bus_start = 0, rr_bus_end = of_nat (length (snapshot st)),
         rr_device_offset = 0, rr_priority = device_priority, rr_device_id = 0\<rparr>,
       ar_cursor = byte_offset\<rparr>"
  let ?ah = "snd (jump (st_bus st) (dh_address (st_handle st)) byte_offset)"
  obtain d' c' where w:
      "write_bits memory_ops (st_bus st) ((st_handle st)\<lparr>dh_address := ?ah\<rparr>) bit_offset bit_len v =
        (Inr (), (st_bus st)\<lparr>bus_devices := (bus_devices (st_bus st))[0 := d']\<rparr>,
         \<lparr>dh_address = moved ?ah ?ar (bits_to_bytes bit_offset bit_len), dh_cache = c'\<rparr>)"
      "set_bits_at (mem_bytes (bus_devices (st_bus st) ! 0)) (access_bit ?ar bit_offset)
         (unat bit_len) v (mem_bytes d')"
      "\<And>devs :: basic_memory list. coherent mem_bytes devs c'" "mem_endian d' = Little"
  proof (cases rule: mem.write_bits_Little [OF acc(2) [of "dh_address (st_handle st)"] n, of v])
    case (1 d' c')
    then show ?thesis by (intro that [of d' c']) simp_all
  qed
  let ?bus = "(st_bus st)\<lparr>bus_devices := (bus_devices (st_bus st))[0 := d']\<rparr>"
  define st' where "st' = st\<lparr>st_bus := ?bus,
    st_handle := \<lparr>dh_address = moved ?ah ?ar (bits_to_bytes bit_offset bit_len), dh_cache = c'\<rparr>\<rparr>"
  have run: "write_bits_at st byte_offset bit_offset bit_len v = (Inr (), st')"
    using w(1) jump_core [OF ok acc(1)] by (simp add: write_bits_at_def st'_def)
  obtain m where m: "bus_devices (st_bus st) = [m]" using core_devices [OF ok] by blast
  have mem': "st_memory st' = d'" by (simp add: st_memory_def m st'_def)
  have st': "st_bus st' = ?bus" "dh_cache (st_handle st') = c'" "st_registers st' = st_registers st"
    by (simp_all add: st'_def)
  have set: "set_bits_at (snapshot st) (window_bit byte_offset bit_offset) (unat bit_len) v (snapshot st')"
    using w(2) by (simp add: core_devices [OF ok] snapshot_def access_bit_def window_bit_def
        ar_device_offset_def mem')
  then have len: "length (snapshot st') = length (snapshot st)" by (simp add: set_bits_at_def)
  have "core_ok st'"
    using ok w(3,4) by (simp add: core_ok_def len mem' st' resolve_update_device)
  with run set st' that show ?thesis by blast
qed

section \<open>Construction\<close>

lemma align_byte_len_props:
  assumes "n < 2 ^ 32"
  shows "8 dvd align_byte_len n" and "n \<le> align_byte_len n" and "0 < align_byte_len n"
    and "align_byte_len n < 2 ^ 33"
  using assms by (auto simp: align_byte_len_def min_def)

lemma cs_byte_len_bound: "cs_byte_len spec < 2 ^ 32"
  using unsigned_less [of "cs_total_bits spec", where 'a = nat] by (simp add: cs_byte_len_def)

lemma device_bus_new_empty: "bits < 63 \<Longrightarrow> device_bus_new bits = Some (empty_bus bits)"
  by (simp add: device_bus_new_def empty_bus_def)


lemma add_segments_empty:
  assumes "\<forall>idx \<in> set idxs. bucket_list bks idx = []" and "distinct idxs"
  shows "fst (add_segments ops locked devs segment idxs bks) = Inr ()"
  using assms
proof (induction idxs arbitrary: bks)
  case Nil
  then show ?case by simp
next
  case (Cons i idxs)
  have "insert_segment ops locked devs [] segment = Inr [segment]"
    by (simp add: insert_segment_def)
  moreover have "\<forall>idx \<in> set idxs. bucket_list (bks(i \<mapsto> [segment])) idx = []"
    using Cons.prems unfolding bucket_list_upd by auto
  moreover from this
  have "fst (add_segments ops locked devs segment idxs (bks(i \<mapsto> [segment]))) = Inr ()"
    by (rule Cons.IH) (use Cons.prems(2) in simp)
  ultimately show ?case
    using Cons.prems(1) by (simp add: Let_def)
qed

lemma register_on_empty:
  assumes "0 < n" and "n < 2 ^ 64"
  shows "fst (register_device memory_ops (empty_bus 8) (basic_memory_new name n e) 0) = Inr ()"
proof -
  let ?m = "basic_memory_new name n e" and ?bus = "push_device memory_ops (empty_bus 8) (basic_memory_new name n e)"
  have u: "unat (of_nat n :: u64) = n" using assms(2) by (rule unat_of_nat_u64)
  then have pos: "(0 :: u64) < of_nat n" using assms(1) by (simp add: word_less_nat_alt)
  obtain res bus' where run: "register_device memory_ops (empty_bus 8) ?m 0 = (res, bus')" by fastforce
  have span: "mem_span ?m = (0, of_nat n)"
    by (simp add: mem_span_def mem_size_def basic_memory_new_def)
  from run show ?thesis
  proof (cases rule: register_device_cases)
    case (added stop r)
    have "0 < stop" using added(3) pos span by (simp add: checked_add_Some)
    from this added(5) have "r = Inr (next_range_id ?bus)"
    proof (cases rule: add_range_cases)
      case (err bks err)
      have "fst (add_segments memory_ops True (bus_devices ?bus)
          (new_segment ?bus 0 stop (length (bus_devices (empty_bus 8 :: basic_memory device_bus))) 0
             device_priority KindDevice)
          (covered_buckets ?bus 0 stop) (buckets ?bus)) = Inr ()"
        by (rule add_segments_empty)
           (simp_all add: empty_bus_def bucket_list_def covered_buckets_def distinct_index_range)
      with err(1) show ?thesis by simp
    qed simp
    with added(6) run show ?thesis by simp
  qed (use span pos u assms in \<open>auto simp: checked_add_None empty_bus_def\<close>)
qed

lemma core_state_new_ok:
  assumes "cs_endianness spec = Little"
  obtains st where "core_state_new spec = Inr st" "core_ok st"
    "snapshot st = replicate (align_byte_len (cs_byte_len spec)) 0"
    "st_registers st = layout_map (cs_registers spec)" "st_spec st = spec"
proof -
  let ?L = "align_byte_len (cs_byte_len spec)"
  let ?m = "basic_memory_new (cs_name spec @ ''_state'') ?L (cs_endianness spec)"
  note L = align_byte_len_props [OF cs_byte_len_bound [of spec]]
  then have L64: "?L < 2 ^ 64" by simp
  then have u: "unat (of_nat ?L :: u64) = ?L" by (rule unat_of_nat_u64)
  obtain bus where run: "register_device memory_ops (empty_bus 8) ?m 0 = (Inr (), bus)"
    using register_on_empty [OF L(3) L64] by (metis prod.collapse)
  have span: "mem_span ?m = (0, of_nat ?L)"
    by (simp add: mem_span_def mem_size_def basic_memory_new_def)
  have wf: "bus_wf memory_ops (empty_bus 8)" by (rule empty_bus_wf) simp
  have room: "next_range_id (empty_bus 8) \<noteq> - 1" by (simp add: empty_bus_def)
  note reg = register_device_effect [OF wf room run]
  from reg have devs: "bus_devices bus = [?m]"
    by (simp add: Let_def empty_bus_def)
  have none: "segs_at (empty_bus 8 :: basic_memory device_bus) a = {}"
      "resolve (empty_bus 8 :: basic_memory device_bus) a = Inl (NotMapped a)"
      "length (bus_devices (empty_bus 8 :: basic_memory device_bus)) = 0" for a
    by (simp_all add: empty_bus_def segs_at_def bucket_list_def resolve_def)
  from reg have eff: "resolve bus a = (if a < of_nat ?L then Inr \<lparr>rr_bus_start = 0, rr_bus_end = of_nat ?L,
         rr_device_offset = 0, rr_priority = device_priority, rr_device_id = 0\<rparr>
       else Inl (NotMapped a))" for a
    by (simp add: span none Let_def)
  have lt: "a < of_nat ?L \<longleftrightarrow> unat a < ?L" for a :: u64
    by (simp add: word_less_nat_alt u)
  let ?ah = "\<lparr>ah_active = Some \<lparr>ar_resolved = \<lparr>rr_bus_start = 0, rr_bus_end = of_nat ?L,
         rr_device_offset = 0, rr_priority = device_priority, rr_device_id = 0\<rparr>, ar_cursor = 0\<rparr>,
     ah_jump_address = Some 0, ah_jump_device_offset = Some 0\<rparr>"
  have jump: "jump bus (dh_address data_handle_new) 0 = (Inr (), ?ah)"
    using L(3) lt [of 0] by (simp add: jump_def eff data_handle_new_def address_handle_new_def)
  define st where "st = \<lparr>st_spec = spec, st_bus = bus, st_registers = layout_map (cs_registers spec),
    st_handle = data_handle_new\<lparr>dh_address := ?ah\<rparr>\<rparr>"
  have "core_state_new spec = Inr st"
    using run jump by (simp add: core_state_new_def device_bus_new_empty local_bus_bucket_bits_def st_def)
  moreover have mem: "st_memory st = ?m" by (simp add: st_def st_memory_def devs)
  then have snap: "snapshot st = replicate ?L 0" by (simp add: snapshot_def basic_memory_new_def)
  moreover have "core_ok st"
    unfolding core_ok_def snap mem
    using L(1,3) L64 assms lt coherent_default
    by (simp add: st_def devs eff basic_memory_new_def data_handle_new_def)
  moreover have "st_registers st = layout_map (cs_registers spec)" "st_spec st = spec"
    by (simp_all add: st_def)
  ultimately show ?thesis using that by blast
qed


section \<open>Registers\<close>

definition register_window :: "core_state \<Rightarrow> string \<Rightarrow> (nat \<times> nat) option" where
  "register_window st name =
     map_option (\<lambda>l. (window_bit (rl_byte_offset l) (rl_bit_offset l), unat (rl_bit_len l)))
       (st_registers st name)"

text \<open>A register the bus can serve in one access.\<close>

definition register_ok :: "core_state \<Rightarrow> string \<Rightarrow> bool" where
  "register_ok st name \<longleftrightarrow>
     (\<exists>l. st_registers st name = Some l \<and> unat (rl_bit_len l) < 2 ^ 16 \<and>
        window_ok st (rl_byte_offset l) (rl_bit_offset l) (ucast (rl_bit_len l)))"

lemma narrow_ok:
  assumes "unat bits < 2 ^ 16"
  shows "narrow_bit_len name bits = Inr (ucast bits)" and "unat (ucast bits :: u16) = unat bits"
  using assms by (simp_all add: narrow_bit_len_def unat_ucast)

lemma read_register_ok:
  assumes ok: "core_ok st" and reg: "register_ok st name"
    and win: "register_window st name = Some (p, n)"
  obtains v st' where "read_register st name = (Inr v, st')" "is_bits_at (snapshot st) p n v"
    "core_ok st'" "snapshot st' = snapshot st" "st_registers st' = st_registers st"
proof -
  from reg win obtain l where l: "st_registers st name = Some l" "unat (rl_bit_len l) < 2 ^ 16"
      "window_ok st (rl_byte_offset l) (rl_bit_offset l) (ucast (rl_bit_len l))"
      "p = window_bit (rl_byte_offset l) (rl_bit_offset l)" "n = unat (rl_bit_len l)"
    by (auto simp: register_ok_def register_window_def)
  note narrow = narrow_ok [OF l(2)]
  from read_bits_at_ok [OF ok l(3)] obtain v st' where
      "read_bits_at st (rl_byte_offset l) (rl_bit_offset l) (ucast (rl_bit_len l)) = (Inr v, st')"
      "is_bits_at (snapshot st) p n v" "core_ok st'" "snapshot st' = snapshot st"
      "st_registers st' = st_registers st"
    unfolding l(4,5) narrow(2) by blast
  with l narrow(1) that show ?thesis by (simp add: read_register_def)
qed

lemma write_register_ok:
  assumes ok: "core_ok st" and reg: "register_ok st name"
    and win: "register_window st name = Some (p, n)"
  obtains st' where "write_register st name v = (Inr (), st')"
    "set_bits_at (snapshot st) p n v (snapshot st')" "core_ok st'"
    "st_registers st' = st_registers st" "p + n \<le> 8 * length (snapshot st)" "n \<le> 128"
proof -
  from reg win obtain l where l: "st_registers st name = Some l" "unat (rl_bit_len l) < 2 ^ 16"
      "window_ok st (rl_byte_offset l) (rl_bit_offset l) (ucast (rl_bit_len l))"
      "p = window_bit (rl_byte_offset l) (rl_bit_offset l)" "n = unat (rl_bit_len l)"
    by (auto simp: register_ok_def register_window_def)
  note narrow = narrow_ok [OF l(2)]
  from write_bits_at_ok [OF ok l(3), of v] obtain st' where
      "write_bits_at st (rl_byte_offset l) (rl_bit_offset l) (ucast (rl_bit_len l)) v = (Inr (), st')"
      "set_bits_at (snapshot st) p n v (snapshot st')" "core_ok st'"
      "st_registers st' = st_registers st"
    unfolding l(4,5) narrow(2) by blast
  moreover have "p + n \<le> 8 * length (snapshot st)" "n \<le> 128"
    using l(3) unfolding l(4,5) by (simp_all add: window_ok_def window_bit_def narrow(2))
  ultimately show ?thesis using l narrow(1) that by (simp add: write_register_def)
qed

lemma register_ok_frame:
  assumes "st_registers st' = st_registers st" and "length (snapshot st') = length (snapshot st)"
  shows "register_ok st' name = register_ok st name"
    and "register_window st' name = register_window st name"
  using assms by (simp_all add: register_ok_def register_window_def window_ok_def)

text \<open>C21: Writing a register of a snapshot succeeds, keeps the invariant and changes exactly the bits
  of that register: reading it back returns the value cut to its width, and a register that shares no
  bit with it reads the same as before.\<close>

theorem register_read_after_write:
  assumes ok: "core_ok st" and reg: "register_ok st name" "register_ok st other"
    and win: "register_window st name = Some (p, n)" "register_window st other = Some (q, m)"
    and disj: "q + m \<le> p \<or> p + n \<le> q"
  shows "case write_register st name v of (res, st') \<Rightarrow>
    res = Inr () \<and> core_ok st' \<and> st_registers st' = st_registers st \<and>
    fst (read_register st' name) = Inr (v AND mask_bits n) \<and>
    fst (read_register st' other) = fst (read_register st other)"
proof -
  from write_register_ok [OF ok reg(1) win(1), of v] obtain st' where w:
      "write_register st name v = (Inr (), st')" "set_bits_at (snapshot st) p n v (snapshot st')"
      "core_ok st'" "st_registers st' = st_registers st" "p + n \<le> 8 * length (snapshot st)" "n \<le> 128"
    by blast
  have len: "length (snapshot st') = length (snapshot st)" using w(2) by (simp add: set_bits_at_def)
  note frame = register_ok_frame [OF w(4) len]
  from read_register_ok [OF w(3)] reg(1) win(1) frame obtain v' where r1:
      "fst (read_register st' name) = Inr v'" "is_bits_at (snapshot st') p n v'"
    by (metis fst_conv)
  from read_register_ok [OF w(3)] reg(2) win(2) frame obtain x where r2:
      "fst (read_register st' other) = Inr x" "is_bits_at (snapshot st') q m x"
    by (metis fst_conv)
  from read_register_ok [OF ok reg(2) win(2)] obtain y where r3:
      "fst (read_register st other) = Inr y" "is_bits_at (snapshot st) q m y"
    by (metis fst_conv)
  have "v' = v AND mask_bits n" by (rule read_set_bits [OF w(2,5,6) r1(2)])
  moreover have "q + m \<le> 8 * length (snapshot st)"
    using write_register_ok [OF ok reg(2) win(2)] by blast
  then have "is_bits_at (snapshot st') q m y"
    by (rule read_elsewhere [OF w(2) _ disj r3(2)])
  then have "x = y" by (rule is_bits_at_unique [OF r2(2)])
  ultimately show ?thesis using w r1(1) r2(1) r3(1) by simp
qed


lemma layout_map_fold:
  assumes "distinct (map rs_name regs)"
  shows "fold (\<lambda>s m. m(rs_name s \<mapsto> layout_of s)) regs m name =
    (case find (\<lambda>r. rs_name r = name) regs of Some r \<Rightarrow> Some (layout_of r) | None \<Rightarrow> m name)"
  using assms
proof (induction regs arbitrary: m)
  case Nil
  then show ?case by simp
next
  case (Cons r regs)
  then have "find (\<lambda>q. rs_name q = rs_name r) regs = None"
    by (simp add: find_None_iff) (metis image_eqI)
  with Cons show ?case by (auto split: option.splits)
qed

lemma layout_map_lookup:
  assumes "distinct (map rs_name regs)" and "r \<in> set regs"
  shows "layout_map regs (rs_name r) = Some (layout_of r)"
proof -
  have "find (\<lambda>q. rs_name q = rs_name r) regs \<noteq> None"
    using assms(2) by (auto simp: find_None_iff)
  then obtain q where q: "find (\<lambda>q. rs_name q = rs_name r) regs = Some q" by blast
  then have "q \<in> set regs" "rs_name q = rs_name r"
    by (auto simp: find_Some_iff)
  with assms have "q = r" by (metis distinct_map inj_on_eq_iff)
  with q assms(1) show ?thesis
    unfolding layout_map_def by (subst layout_map_fold) simp_all
qed

text \<open>The layout of a register is its place in the snapshot.\<close>

lemma layout_of_window:
  "window_bit (rl_byte_offset (layout_of r)) (rl_bit_offset (layout_of r)) = unat (rs_bit_offset r)"
  "intra_bits (rl_byte_offset (layout_of r)) (rl_bit_offset (layout_of r)) = unat (rs_bit_offset r) mod 64"
  "rl_bit_len (layout_of r) = rs_bit_len r"
proof -
  let ?o = "unat (rs_bit_offset r)"
  have "?o < 2 ^ 32" using unsigned_less [of "rs_bit_offset r", where 'a = nat] by simp
  then have b: "unat (rl_byte_offset (layout_of r)) = ?o div 8"
    by (simp add: layout_of_def unat_ucast unat_div)
  have o: "unat (rl_bit_offset (layout_of r)) = ?o mod 8"
    by (simp add: layout_of_def unat_ucast unat_mod)
  show "window_bit (rl_byte_offset (layout_of r)) (rl_bit_offset (layout_of r)) = ?o"
    by (simp add: window_bit_def b o)
  have "?o mod 64 = 8 * (?o div 8 mod 8) + ?o mod 8"
    using mod_mult2_eq [of ?o 8 8] by simp
  then show "intra_bits (rl_byte_offset (layout_of r)) (rl_bit_offset (layout_of r)) = ?o mod 64"
    by (simp add: intra_bits_def b o)
  show "rl_bit_len (layout_of r) = rs_bit_len r" by (simp add: layout_of_def)
qed

lemma is_bits_at_zero: "p + n \<le> 8 * L \<Longrightarrow> is_bits_at (replicate L 0) p n 0"
  by (auto simp: is_bits_at_def mem_bit_def less_mult_imp_div_less mult.commute)

text \<open>A register of the specification that fits a bus access is served by a fresh snapshot.\<close>

lemma spec_register:
  assumes dist: "distinct (map rs_name (cs_registers spec))" and r: "r \<in> set (cs_registers spec)"
    and pos: "rs_bit_len r \<noteq> 0"
    and ext: "unat (rs_bit_offset r) + unat (rs_bit_len r) \<le> unat (cs_total_bits spec)"
    and fit: "unat (rs_bit_offset r) mod 64 + unat (rs_bit_len r) \<le> 128"
    and st: "st_registers st = layout_map (cs_registers spec)"
      "length (snapshot st) = align_byte_len (cs_byte_len spec)"
  shows "register_ok st (rs_name r)"
    and "register_window st (rs_name r) = Some (unat (rs_bit_offset r), unat (rs_bit_len r))"
proof -
  from dist r have l: "st_registers st (rs_name r) = Some (layout_of r)"
    unfolding st by (intro layout_map_lookup)
  then show "register_window st (rs_name r) = Some (unat (rs_bit_offset r), unat (rs_bit_len r))"
    by (simp add: register_window_def layout_of_window)
  have n: "0 < unat (rs_bit_len r)" "unat (rs_bit_len r) \<le> 128"
    using pos fit by (auto simp: unat_gt_0)
  then have u: "unat (ucast (rs_bit_len r) :: u16) = unat (rs_bit_len r)" by (simp add: unat_ucast)
  have "unat (rs_bit_offset r) + unat (rs_bit_len r) \<le> 8 * cs_byte_len spec"
    using ext by (simp add: cs_byte_len_def)
  also have "\<dots> \<le> 8 * length (snapshot st)"
    using align_byte_len_props(2) [OF cs_byte_len_bound] by (simp add: st(2))
  finally have le: "unat (rs_bit_offset r) + unat (rs_bit_len r) \<le> 8 * length (snapshot st)" .
  have nz: "(ucast (rs_bit_len r) :: u16) \<noteq> 0" using u n by (metis unat_0 less_irrefl)
  have at: "8 * unat (rl_byte_offset (layout_of r)) + unat (rl_bit_offset (layout_of r)) =
      unat (rs_bit_offset r)"
    using layout_of_window(1) by (simp add: window_bit_def)
  have "window_ok st (rl_byte_offset (layout_of r)) (rl_bit_offset (layout_of r))
      (ucast (rs_bit_len r))"
    unfolding window_ok_def at layout_of_window(2) u using fit le nz by blast
  with l n show "register_ok st (rs_name r)"
    by (simp add: register_ok_def layout_of_window)
qed

lemma fresh_register:
  assumes wf: "builder_wf b" and lay: "layout_ok b" and build: "builder_build b = Inr spec"
    and r: "r \<in> set (sb_registers b)"
    and fit: "unat (rs_bit_offset r) mod 64 + unat (rs_bit_len r) \<le> 128"
    and st: "st_registers st = layout_map (cs_registers spec)"
      "length (snapshot st) = align_byte_len (cs_byte_len spec)"
  shows "register_ok st (rs_name r)"
    and "register_window st (rs_name r) = Some (unat (rs_bit_offset r), unat (rs_bit_len r))"
proof -
  from build have regs: "cs_registers spec = sort_key rs_bit_offset (sb_registers b)"
    by (auto simp: builder_build_def Let_def split: if_splits)
  have "distinct (map rs_name (cs_registers spec))" "r \<in> set (cs_registers spec)" "rs_bit_len r \<noteq> 0"
    using wf r by (auto simp: regs builder_wf_def distinct_map inj_on_def)
  note ok = spec_register [OF this build_extent [OF lay build r] fit st]
  show "register_ok st (rs_name r)"
    and "register_window st (rs_name r) = Some (unat (rs_bit_offset r), unat (rs_bit_len r))"
    by (fact ok)+
qed

text \<open>Whatever register of a fresh snapshot can be served reads zero.\<close>

lemma fresh_reads_zero:
  assumes "core_ok st" and "snapshot st = replicate L 0" and "register_ok st name"
  shows "fst (read_register st name) = Inr 0"
proof -
  obtain p n where win: "register_window st name = Some (p, n)"
    using assms(3) by (auto simp: register_ok_def register_window_def)
  from read_register_ok [OF assms(1,3) win] obtain v where v:
      "fst (read_register st name) = Inr v" "is_bits_at (snapshot st) p n v"
    by (metis fst_conv)
  have "p + n \<le> 8 * length (snapshot st)" using write_register_ok [OF assms(1,3) win] by blast
  then have "is_bits_at (snapshot st) p n 0" unfolding assms(2) by (intro is_bits_at_zero) simp
  with v show ?thesis by (metis is_bits_at_unique)
qed

text \<open>A little-endian core built from a specification starts in a good state with every register
  zero: construction never fails, and each register that fits one bus access is served, at the
  place its layout names, and reads \<open>0\<close>.\<close>

theorem fresh_core_reads_zero:
  assumes wf: "builder_wf b" and lay: "layout_ok b" and build: "builder_build b = Inr spec"
    and le: "cs_endianness spec = Little" and r: "r \<in> set (sb_registers b)"
    and fit: "unat (rs_bit_offset r) mod 64 + unat (rs_bit_len r) \<le> 128"
  shows "\<exists>st. core_state_new spec = Inr st \<and> core_ok st \<and> register_ok st (rs_name r) \<and>
    register_window st (rs_name r) = Some (unat (rs_bit_offset r), unat (rs_bit_len r)) \<and>
    fst (read_register st (rs_name r)) = Inr 0"
proof -
  from core_state_new_ok [OF le] obtain st where st: "core_state_new spec = Inr st" "core_ok st"
      "snapshot st = replicate (align_byte_len (cs_byte_len spec)) 0"
      "st_registers st = layout_map (cs_registers spec)"
    by blast
  have len: "length (snapshot st) = align_byte_len (cs_byte_len spec)" by (simp add: st(3))
  note reg = fresh_register [OF wf lay build r fit st(4) len]
  with fresh_reads_zero [OF st(2,3)] st(1,2) show ?thesis by blast
qed

lemma demo_spec_facts:
  "cs_endianness demo_spec = Little"
  "sb_registers demo_builder =
     [\<lparr>rs_name = ''pc'', rs_bit_offset = 0, rs_bit_len = 64\<rparr>,
      \<lparr>rs_name = ''cr'', rs_bit_offset = 64, rs_bit_len = 4\<rparr>]"
  by (simp_all add: demo_spec_def demo_builder_def builder_build_def builder_register_def
      builder_new_def push_spec_def Let_def)

theorem fresh_core_reads_zero_witness:
  "\<exists>st. core_state_new demo_spec = Inr st \<and> fst (read_register st ''cr'') = Inr 0"
  using fresh_core_reads_zero [OF demo_builder_ok demo_build demo_spec_facts(1),
      of "\<lparr>rs_name = ''cr'', rs_bit_offset = 64, rs_bit_len = 4\<rparr>"]
  by (auto simp: demo_spec_facts)

theorem register_read_after_write_witness:
  "\<exists>st. core_state_new demo_spec = Inr st \<and>
     fst (read_register (snd (write_register st ''cr'' 0x1F)) ''cr'') = Inr 0xF"
proof -
  from core_state_new_ok [OF demo_spec_facts(1)] obtain st where st:
      "core_state_new demo_spec = Inr st" "core_ok st"
      "snapshot st = replicate (align_byte_len (cs_byte_len demo_spec)) 0"
      "st_registers st = layout_map (cs_registers demo_spec)"
    by blast
  have len: "length (snapshot st) = align_byte_len (cs_byte_len demo_spec)" by (simp add: st(3))
  note fresh = fresh_register [OF demo_builder_ok demo_build _ _ st(4) len]
  have cr: "register_ok st ''cr''" "register_window st ''cr'' = Some (64, 4)"
    using fresh [of "\<lparr>rs_name = ''cr'', rs_bit_offset = 64, rs_bit_len = 4\<rparr>"]
    by (simp_all add: demo_spec_facts)
  have pc: "register_ok st ''pc''" "register_window st ''pc'' = Some (0, 64)"
    using fresh [of "\<lparr>rs_name = ''pc'', rs_bit_offset = 0, rs_bit_len = 64\<rparr>"]
    by (simp_all add: demo_spec_facts)
  have m: "(0x1F :: u128) AND mask_bits 4 = 0xF" by (simp add: mask_bits_def shl_def)
  from register_read_after_write [OF st(2) cr(1) pc(1) cr(2) pc(2), of "0x1F"] m st(1)
  show ?thesis by (auto split: prod.splits)
qed


lemma core_ok_memory:
  assumes ok: "core_ok st" and st': "bus_devices (st_bus st') = [m]"
    "\<And>a. resolve (st_bus st') a = resolve (st_bus st) a"
    and m: "length (mem_bytes m) = length (snapshot st)" "mem_endian m = Little"
    and c: "coherent mem_bytes (bus_devices (st_bus st')) (dh_cache (st_handle st'))"
  shows "core_ok st'" and "snapshot st' = mem_bytes m"
proof -
  have mem: "st_memory st' = m" by (simp add: st_memory_def st')
  then show snap: "snapshot st' = mem_bytes m" by (simp add: snapshot_def)
  show "core_ok st'"
    using ok m c unfolding core_ok_def snap mem st' by simp
qed

text \<open>\<open>zeroize\<close> succeeds on every good state, clears the whole snapshot and keeps the invariant, so
  every register that can be read reads \<open>0\<close> afterwards.\<close>

theorem zeroize_clears:
  assumes ok: "core_ok st" and reg: "register_ok st name"
  shows "case zeroize st of (res, st') \<Rightarrow>
    res = Inr () \<and> core_ok st' \<and> snapshot st' = replicate (length (snapshot st)) 0 \<and>
    fst (read_register st' name) = Inr 0"
proof -
  let ?L = "length (snapshot st)"
  let ?ar = "\<lparr>ar_resolved = \<lparr>rr_bus_start = 0, rr_bus_end = of_nat ?L, rr_device_offset = 0,
    rr_priority = device_priority, rr_device_id = 0\<rparr>, ar_cursor = 0\<rparr>"
  have L: "0 < ?L" "?L < 2 ^ 64" using ok by (auto simp: core_ok_def)
  note dev = core_devices [OF ok]
  have size: "unat (mem_size (st_memory st)) = ?L"
    using L by (simp add: mem_size_def snapshot_def [symmetric] unat_of_nat_u64)
  note j = jump_core [OF ok, of 0, unfolded unat_0, OF L(1)]
  let ?ah = "snd (jump (st_bus st) (dh_address (st_handle st)) 0)"
  let ?h = "(st_handle st)\<lparr>dh_address := ?ah\<rparr>"
  have "ah_active (dh_address ?h) = Some ?ar"
    and "rr_device_id (ar_resolved ?ar) < length (bus_devices (st_bus st))"
    and "of_nat (length (replicate ?L (0::u8))) \<le> ar_bytes_remaining ?ar"
    and "unat (ar_device_offset ?ar) + length (replicate ?L (0::u8))
      \<le> length (mem_bytes (bus_devices (st_bus st) ! rr_device_id (ar_resolved ?ar)))"
    and "length (mem_bytes (bus_devices (st_bus st) ! rr_device_id (ar_resolved ?ar))) < 2 ^ 64"
    and "replicate ?L (0::u8) \<noteq> []"
    using L by (simp_all add: j dev snapshot_def ar_bytes_remaining_def ar_bus_address_def
        ar_device_offset_def)
  note pre = this
  obtain d' where w: "dh_write memory_ops (st_bus st) ?h (replicate ?L 0) =
      (Inr (), (st_bus st)\<lparr>bus_devices := (bus_devices (st_bus st))[0 := d']\<rparr>,
       \<lparr>dh_address = moved ?ah ?ar ?L, dh_cache = invalidate (dh_cache (st_handle st))\<rparr>)"
      "mem_bytes d' = splice (snapshot st) 0 (replicate ?L 0)" "mem_endian d' = Little"
  proof (cases rule: mem.dh_write_ok [OF pre])
    case (1 d')
    then show ?thesis
      using ok by (intro that [of d'])
        (simp_all add: dev snapshot_def core_ok_def ar_device_offset_def)
  qed
  let ?bus = "(st_bus st)\<lparr>bus_devices := (bus_devices (st_bus st))[0 := d']\<rparr>"
  have z: "mem_bytes d' = replicate ?L 0" using w(2) by (simp add: splice_def)
  from jump_active [OF j, of "moved ?ah ?ar ?L"] obtain h2 where j2:
      "jump ?bus (moved ?ah ?ar ?L) 0 = (Inr (), h2)"
    unfolding jump_update_device by blast
  define st' where "st' = st\<lparr>st_bus := ?bus,
    st_handle := \<lparr>dh_address = h2, dh_cache = invalidate (dh_cache (st_handle st))\<rparr>\<rparr>"
  have run: "zeroize st = (Inr (), st')"
    using j w(1) j2 by (simp add: zeroize_def size st'_def)
  have "coherent mem_bytes (bus_devices (st_bus st)) (dh_cache (st_handle st))"
    using ok by (simp add: core_ok_def)
  then have c: "coherent mem_bytes (bus_devices (st_bus st')) (dh_cache (st_handle st'))"
    by (simp add: st'_def coherent_invalidate coherent_def invalidate_def)
  have ok': "core_ok st'" and snap: "snapshot st' = mem_bytes d'"
  proof -
    have b: "bus_devices (st_bus st') = [d']" by (simp add: st'_def dev)
    have r: "resolve (st_bus st') a = resolve (st_bus st) a" for a
      by (simp add: st'_def resolve_update_device del: list_update.simps)
    have m: "length (mem_bytes d') = length (snapshot st)" by (simp add: z)
    show "core_ok st'" "snapshot st' = mem_bytes d'"
      using core_ok_memory [OF ok b r m w(3) c] by blast+
  qed
  obtain p n where win: "register_window st name = Some (p, n)"
    using reg by (auto simp: register_ok_def register_window_def)
  have len: "length (snapshot st') = ?L" by (simp add: snap z)
  have regs: "st_registers st' = st_registers st" by (simp add: st'_def)
  note frame = register_ok_frame [OF regs len]
  from read_register_ok [OF ok'] reg win frame obtain v where v:
      "fst (read_register st' name) = Inr v" "is_bits_at (snapshot st') p n v"
    by (metis fst_conv)
  have "p + n \<le> 8 * ?L" using write_register_ok [OF ok reg win] by blast
  then have "is_bits_at (snapshot st') p n 0" unfolding snap z by (rule is_bits_at_zero)
  with v have "v = 0" by (blast intro: is_bits_at_unique)
  with run ok' snap z v show ?thesis by simp
qed

theorem zeroize_clears_witness:
  "\<exists>st. core_state_new demo_spec = Inr st \<and> fst (zeroize st) = Inr ()"
proof -
  from core_state_new_ok [OF demo_spec_facts(1)] obtain st where st:
      "core_state_new demo_spec = Inr st" "core_ok st"
      "snapshot st = replicate (align_byte_len (cs_byte_len demo_spec)) 0"
      "st_registers st = layout_map (cs_registers demo_spec)"
    by blast
  have len: "length (snapshot st) = align_byte_len (cs_byte_len demo_spec)" by (simp add: st(3))
  have "register_ok st ''cr''"
    using fresh_register(1) [OF demo_builder_ok demo_build _ _ st(4) len,
        of "\<lparr>rs_name = ''cr'', rs_bit_offset = 64, rs_bit_len = 4\<rparr>"]
    by (simp add: demo_spec_facts)
  from zeroize_clears [OF st(2) this] st(1) show ?thesis by (auto split: prod.splits)
qed

end
