(* ===== verification/Host.thy ===== *)
theory Host
  imports Prelude
begin

text \<open>
  Model of \<open>src/soc/isa/machine/host.rs\<close>: the arithmetic helpers the semantics language calls.  A
  host is a state and a record of its operations; \<open>SoftwareHost\<close> is the implementation of the
  sources.  The properties compare it with arithmetic on naturals and integers.
\<close>

section \<open>Operations\<close>

record host_arith_result =
  ha_value :: u64
  ha_carry :: bool
  ha_overflow :: bool

record host_mul_result =
  hm_low :: u64
  hm_high :: u64

record 'h host_services =
  hs_add :: "'h \<Rightarrow> u64 \<Rightarrow> u64 \<Rightarrow> bool \<Rightarrow> u32 \<Rightarrow> host_arith_result \<times> 'h"
  hs_sub :: "'h \<Rightarrow> u64 \<Rightarrow> u64 \<Rightarrow> bool \<Rightarrow> u32 \<Rightarrow> host_arith_result \<times> 'h"
  hs_mul :: "'h \<Rightarrow> u64 \<Rightarrow> u64 \<Rightarrow> u32 \<Rightarrow> host_mul_result \<times> 'h"

definition overflowing_add :: "u64 \<Rightarrow> u64 \<Rightarrow> u64 \<times> bool" where
  "overflowing_add a b = (a + b, 2 ^ 64 \<le> unat a + unat b)"

definition mask_and_sign :: "u32 \<Rightarrow> u64 \<times> u32" where
  "mask_and_sign width =
     (if width = 0 then (0, 0)
      else if width < 64 then (shl 1 (unat width) - 1, width)
      else (- 1, 64))"

definition add_core :: "u64 \<Rightarrow> u64 \<Rightarrow> u32 \<Rightarrow> bool \<Rightarrow> host_arith_result" where
  "add_core lhs rhs width carry_in =
     (let (mask, sign_bit) = mask_and_sign width;
          lhs = lhs AND mask;
          rhs = rhs AND mask;
          (sum0, carry0) = overflowing_add lhs rhs;
          (sum, carry1) = overflowing_add sum0 (of_bool carry_in);
          carry_from_width = (sum AND NOT mask \<noteq> 0);
          v = sum AND mask;
          overflow =
            (if sign_bit = 0 then False
             else
               let sign_mask = shl 1 (unat (sign_bit - 1));
                   lhs_sign = (lhs AND sign_mask \<noteq> 0);
                   rhs_sign = (rhs AND sign_mask \<noteq> 0);
                   res_sign = (v AND sign_mask \<noteq> 0)
               in lhs_sign = rhs_sign \<and> lhs_sign \<noteq> res_sign)
      in \<lparr>ha_value = v, ha_carry = carry0 \<or> carry1 \<or> carry_from_width, ha_overflow = overflow\<rparr>)"

definition compute_overflow_sub :: "u64 \<Rightarrow> u64 \<Rightarrow> u64 \<Rightarrow> u32 \<Rightarrow> bool" where
  "compute_overflow_sub lhs rhs v sign_bit =
     (if sign_bit = 0 then False
      else
        let sign_mask = shl 1 (unat (sign_bit - 1));
            lhs_sign = (lhs AND sign_mask \<noteq> 0);
            rhs_sign = (rhs AND sign_mask \<noteq> 0);
            res_sign = (v AND sign_mask \<noteq> 0)
        in lhs_sign \<noteq> rhs_sign \<and> lhs_sign \<noteq> res_sign)"

definition software_add :: "u64 \<Rightarrow> u64 \<Rightarrow> bool \<Rightarrow> u32 \<Rightarrow> host_arith_result" where
  "software_add lhs rhs carry_in width = add_core lhs rhs width carry_in"

definition software_sub :: "u64 \<Rightarrow> u64 \<Rightarrow> bool \<Rightarrow> u32 \<Rightarrow> host_arith_result" where
  "software_sub lhs rhs borrow_in width =
     (let (mask, sign_bit) = mask_and_sign width;
          base = add_core lhs (NOT rhs AND mask) width (\<not> borrow_in);
          overflow = compute_overflow_sub lhs rhs (ha_value base) sign_bit
      in \<lparr>ha_value = ha_value base, ha_carry = \<not> ha_carry base, ha_overflow = overflow\<rparr>)"

definition software_mul :: "u64 \<Rightarrow> u64 \<Rightarrow> u32 \<Rightarrow> host_mul_result" where
  "software_mul lhs rhs width =
     (let (mask, _) = mask_and_sign width;
          product = (ucast lhs * ucast rhs :: u128);
          low = ucast (product AND ucast mask);
          high = ucast (shr product (unat width))
      in \<lparr>hm_low = low, hm_high = high\<rparr>)"

definition software_host :: "unit host_services" where
  "software_host =
     \<lparr>hs_add = (\<lambda>h lhs rhs c w. (software_add lhs rhs c w, h)),
      hs_sub = (\<lambda>h lhs rhs b w. (software_sub lhs rhs b w, h)),
      hs_mul = (\<lambda>h lhs rhs w. (software_mul lhs rhs w, h))\<rparr>"

section \<open>Masks and signs\<close>

text \<open>The value of the low \<open>w\<close> bits, unsigned and in two's complement.\<close>

definition low_bits :: "nat \<Rightarrow> u64 \<Rightarrow> nat" where
  "low_bits w x = unat x mod 2 ^ w"

definition signed_low :: "nat \<Rightarrow> u64 \<Rightarrow> int" where
  "signed_low w x = (if 2 ^ (w - 1) \<le> low_bits w x then int (low_bits w x) - 2 ^ w else int (low_bits w x))"

lemma mask_and_sign_mask:
  assumes "0 < unat width" and "unat width \<le> 64"
  shows "mask_and_sign width = (mask (unat width), width)"
proof (cases "width < 64")
  case True
  with assms show ?thesis
    by (auto simp: mask_and_sign_def shl_eq_push_bit push_bit_one_minus_one word_less_nat_alt
        simp del: push_bit_of_1)
next
  case False
  with assms have "unat width = 64" by (simp add: word_less_nat_alt)
  then have "width = 64" by (simp add: word_unat_eq_iff)
  then show ?thesis by (simp add: mask_and_sign_def minus_one_is_mask)
qed

lemma low_bits_mask: "unat (x AND mask w) = low_bits w x"
  by (simp add: low_bits_def and_mask_unat)

lemma low_bits_less: "low_bits w x < 2 ^ w"
  by (simp add: low_bits_def)

lemma sign_test:
  assumes "0 < unat width" and "unat width \<le> 64"
  shows "x AND shl 1 (unat (width - 1)) \<noteq> 0 \<longleftrightarrow> 2 ^ (unat width - 1) \<le> low_bits (unat width) x"
proof -
  let ?k = "unat width - 1"
  have k: "unat (width - 1) = ?k"
    using assms(1) by (simp add: unat_minus_one unat_gt_0)
  have lt: "?k < 64" using assms by simp
  have "x AND shl 1 ?k \<noteq> 0 \<longleftrightarrow> bit x ?k"
  proof -
    have "x AND push_bit ?k 1 = (if bit x ?k then push_bit ?k 1 else 0)"
      by (rule bit_word_eqI) (auto simp: bit_simps)
    with lt show ?thesis by (auto simp: shl_eq_push_bit)
  qed
  also have "bit x ?k \<longleftrightarrow> odd (unat x div 2 ^ ?k)"
  proof -
    have "bit x ?k \<longleftrightarrow> bit (unat x) ?k" by (simp add: bit_unsigned_iff)
    then show ?thesis by (simp add: bit_iff_odd)
  qed
  also have "\<dots> \<longleftrightarrow> 2 ^ ?k \<le> unat x mod 2 ^ Suc ?k"
  proof -
    have "unat x mod 2 ^ Suc ?k = 2 ^ ?k * (unat x div 2 ^ ?k mod 2) + unat x mod 2 ^ ?k"
      unfolding power_Suc2 by (rule mod_mult2_eq)
    moreover have "unat x mod 2 ^ ?k < 2 ^ ?k" by simp
    ultimately show ?thesis
      by (cases "even (unat x div 2 ^ ?k)") (simp_all add: odd_iff_mod_2_eq_one not_le)
  qed
  finally show ?thesis using k assms(1) by (simp add: low_bits_def)
qed


section \<open>Addition\<close>

lemma sum_and_carry:
  fixes a b lhs rhs :: u64
  assumes w: "0 < unat width" "unat width \<le> 64"
    and a: "a = lhs AND mask (unat width)" and b: "b = rhs AND mask (unat width)"
    and s: "s = unat a + unat b + of_bool c"
  shows "unat ((a + b + of_bool c) AND mask (unat width)) = s mod 2 ^ unat width"
    and "(2 ^ 64 \<le> unat a + unat b \<or> 2 ^ 64 \<le> unat (a + b) + unat (of_bool c :: u64) \<or>
      (a + b + of_bool c) AND NOT (mask (unat width)) \<noteq> 0) \<longleftrightarrow> 2 ^ unat width \<le> s"
proof -
  let ?w = "unat width"
  have la: "unat a < 2 ^ ?w" and lb: "unat b < 2 ^ ?w"
    unfolding a b low_bits_mask by (simp_all only: low_bits_less)
  have c: "unat (of_bool c :: u64) = of_bool c" by simp
  have sum: "unat (a + b + of_bool c) = s mod 2 ^ 64"
    by (simp add: unat_word_ariths c s mod_add_left_eq)
  have dvd: "(2::nat) ^ ?w dvd 2 ^ 64" using w(2) by (rule le_imp_power_dvd)
  show "unat ((a + b + of_bool c) AND mask ?w) = s mod 2 ^ ?w"
    by (simp only: and_mask_unat sum mod_mod_cancel [OF dvd])
  have nz: "x AND NOT (mask ?w) \<noteq> 0 \<longleftrightarrow> 2 ^ ?w \<le> unat x" for x :: u64
  proof -
    have "x AND NOT (mask ?w) = push_bit ?w (drop_bit ?w x)"
      by (rule bit_word_eqI) (auto simp: bit_simps)
    also have "\<dots> \<noteq> 0 \<longleftrightarrow> drop_bit ?w x \<noteq> 0"
    proof (cases "?w < 64")
      case True
      show ?thesis
      proof
        assume "drop_bit ?w x \<noteq> 0"
        then obtain i where "bit x (?w + i)" by (auto simp: bit_eq_iff bit_simps)
        moreover from this have "?w + i < 64" using bit_imp_le_length by fastforce
        ultimately have "bit (push_bit ?w (drop_bit ?w x)) (?w + i)" by (simp add: bit_simps)
        then show "push_bit ?w (drop_bit ?w x) \<noteq> 0" by auto
      qed auto
    next
      case False
      with w have "?w = 64" by simp
      then have "drop_bit ?w x = 0" using unat_u64_less [of x]
        by (simp add: word_unat_eq_iff unat_drop_bit)
      then show ?thesis by simp
    qed
    also have "\<dots> \<longleftrightarrow> unat x div 2 ^ ?w \<noteq> 0"
      by (simp add: word_unat_eq_iff unat_drop_bit)
    also have "\<dots> \<longleftrightarrow> 2 ^ ?w \<le> unat x" by (simp add: div_eq_0_iff not_less)
    finally show ?thesis .
  qed
  show "(2 ^ 64 \<le> unat a + unat b \<or> 2 ^ 64 \<le> unat (a + b) + unat (of_bool c :: u64) \<or>
      (a + b + of_bool c) AND NOT (mask ?w) \<noteq> 0) \<longleftrightarrow> 2 ^ ?w \<le> s"
  proof (cases "?w = 64")
    case True
    then have "\<not> 2 ^ ?w \<le> unat (a + b + of_bool c)" using unat_u64_less by (simp add: not_le)
    moreover have "unat (a + b) = (unat a + unat b) mod 2 ^ 64" by (simp add: unat_word_ariths)
    ultimately show ?thesis
      using True unfolding nz c s by (cases "2 ^ 64 \<le> unat a + unat b") auto
  next
    case False
    with w have "Suc ?w \<le> 64" by simp
    then have "(2::nat) ^ Suc ?w \<le> 2 ^ 64" by (rule power_increasing) simp
    with la lb have "s < 2 ^ 64" "unat a + unat b < 2 ^ 64" unfolding s by auto
    then show ?thesis unfolding nz sum c by (auto simp: unat_word_ariths s)
  qed
qed


text \<open>The sign rule for an overflow, on naturals below twice the half range \<open>h\<close>.\<close>

lemma sign_rule_add:
  fixes A B h :: nat and c :: bool
  assumes "A < 2 * h" and "B < 2 * h"
  defines "s \<equiv> A + B + of_bool c"
    and "sg \<equiv> \<lambda>x. if h \<le> x then int x - 2 * int h else int x"
  shows "((h \<le> A) = (h \<le> B) \<and> (h \<le> A) \<noteq> (h \<le> s mod (2 * h))) \<longleftrightarrow>
    (sg A + sg B + of_bool c < - int h \<or> int h \<le> sg A + sg B + of_bool c)"
proof -
  have m: "s mod (2 * h) = (if s < 2 * h then s else s - 2 * h)"
  proof (cases "s < 2 * h")
    case False
    have "s < 2 * (2 * h)" using assms(1,2) unfolding s_def by (cases c) auto
    with False show ?thesis by (simp add: le_mod_geq)
  qed simp
  show ?thesis
    unfolding m sg_def using assms(1,2) unfolding s_def by (cases c) (auto split: if_splits)
qed

lemma sign_rule_sub:
  fixes A B h :: nat and b :: bool
  assumes "A < 2 * h" and "B < 2 * h"
  defines "s \<equiv> A + (2 * h - 1 - B) + of_bool (\<not> b)"
    and "sg \<equiv> \<lambda>x. if h \<le> x then int x - 2 * int h else int x"
  shows "((h \<le> A) \<noteq> (h \<le> B) \<and> (h \<le> A) \<noteq> (h \<le> s mod (2 * h))) \<longleftrightarrow>
    (sg A - sg B - of_bool b < - int h \<or> int h \<le> sg A - sg B - of_bool b)"
proof -
  have m: "s mod (2 * h) = (if s < 2 * h then s else s - 2 * h)"
  proof (cases "s < 2 * h")
    case False
    have "s < 2 * (2 * h)" using assms(1,2) unfolding s_def by (cases b) auto
    with False show ?thesis by (simp add: le_mod_geq)
  qed simp
  show ?thesis
    unfolding m sg_def using assms(1,2) unfolding s_def by (cases b) (auto split: if_splits)
qed

lemma half_range:
  "0 < w \<Longrightarrow> (2::nat) ^ w = 2 * 2 ^ (w - 1)"
  "0 < w \<Longrightarrow> (2::int) ^ w = 2 * int (2 ^ (w - 1))"
  "(2::int) ^ (w - 1) = int (2 ^ (w - 1))"
  by (cases w; simp)+

lemma add_core_fields:
  fixes lhs rhs :: u64 and width :: u32 and c :: bool
  assumes w: "0 < unat width" "unat width \<le> 64"
  defines "n \<equiv> unat width"
    and "s \<equiv> low_bits (unat width) lhs + low_bits (unat width) rhs + of_bool c"
  shows "unat (ha_value (add_core lhs rhs width c)) = s mod 2 ^ n"
    and "ha_carry (add_core lhs rhs width c) \<longleftrightarrow> 2 ^ n \<le> s"
    and "ha_overflow (add_core lhs rhs width c) \<longleftrightarrow>
      (2 ^ (n - 1) \<le> low_bits n lhs) = (2 ^ (n - 1) \<le> low_bits n rhs) \<and>
      (2 ^ (n - 1) \<le> low_bits n lhs) \<noteq> (2 ^ (n - 1) \<le> s mod 2 ^ n)"
proof -
  let ?a = "lhs AND mask n" and ?b = "rhs AND mask n"
  have s: "s = unat ?a + unat ?b + of_bool c" by (simp add: s_def n_def low_bits_mask)
  have nz: "width \<noteq> 0" using w(1) by auto
  note sc = sum_and_carry [OF w refl refl s [unfolded n_def]]
  have low: "low_bits n (x AND mask n) = low_bits n x" for x
    by (simp add: low_bits_def and_mask_unat)
  have v: "ha_value (add_core lhs rhs width c) = (?a + ?b + of_bool c) AND mask n"
    by (simp add: add_core_def mask_and_sign_mask [OF w] overflowing_add_def Let_def n_def)
  then show val: "unat (ha_value (add_core lhs rhs width c)) = s mod 2 ^ n"
    using sc(1) by (simp add: n_def)
  show "ha_carry (add_core lhs rhs width c) \<longleftrightarrow> 2 ^ n \<le> s"
    using sc(2) by (simp add: add_core_def mask_and_sign_mask [OF w] overflowing_add_def Let_def n_def)
  have "ha_overflow (add_core lhs rhs width c) \<longleftrightarrow>
      (?a AND shl 1 (unat (width - 1)) \<noteq> 0) = (?b AND shl 1 (unat (width - 1)) \<noteq> 0) \<and>
      (?a AND shl 1 (unat (width - 1)) \<noteq> 0) \<noteq>
      (ha_value (add_core lhs rhs width c) AND shl 1 (unat (width - 1)) \<noteq> 0)"
    using nz by (cases c) (auto simp: add_core_def mask_and_sign_mask [OF w] overflowing_add_def Let_def n_def)
  moreover have "low_bits n (ha_value (add_core lhs rhs width c)) = s mod 2 ^ n"
    unfolding low_bits_def val by simp
  ultimately show "ha_overflow (add_core lhs rhs width c) \<longleftrightarrow>
      (2 ^ (n - 1) \<le> low_bits n lhs) = (2 ^ (n - 1) \<le> low_bits n rhs) \<and>
      (2 ^ (n - 1) \<le> low_bits n lhs) \<noteq> (2 ^ (n - 1) \<le> s mod 2 ^ n)"
    unfolding sign_test [OF w] by (simp only: low n_def [symmetric])
qed

lemma software_add_exact:
  assumes "0 < unat width" and "unat width \<le> 64"
  shows "let n = unat width; s = low_bits n lhs + low_bits n rhs + of_bool c;
      t = signed_low n lhs + signed_low n rhs + of_bool c; r = software_add lhs rhs c width
    in unat (ha_value r) = s mod 2 ^ n \<and> (ha_carry r \<longleftrightarrow> 2 ^ n \<le> s) \<and>
      (ha_overflow r \<longleftrightarrow> t < - (2 ^ (n - 1)) \<or> 2 ^ (n - 1) \<le> t)"
proof -
  let ?n = "unat width"
  let ?h = "(2::nat) ^ (?n - 1)"
  note h = half_range(1,2) [OF assms(1)] half_range(3) [of ?n]
  have "low_bits ?n lhs < 2 * ?h" "low_bits ?n rhs < 2 * ?h"
    unfolding h(1) [symmetric] by (simp_all only: low_bits_less)
  from sign_rule_add [OF this, of c] add_core_fields [OF assms, of lhs rhs c]
  show ?thesis unfolding software_add_def Let_def signed_low_def h by simp
qed

text \<open>C33: At every width from 1 to 64 the software host's addition is exact: the value is the sum of
  the two operands (cut to the width) and the carry modulo the width, the carry flag is set exactly
  when that sum does not fit, and the overflow flag exactly when the sum of the two's complement
  operands leaves the signed range.\<close>

theorem software_add_spec:
  assumes "0 < unat width" and "unat width \<le> 64"
  shows "let n = unat width; s = low_bits n lhs + low_bits n rhs + of_bool c;
      t = signed_low n lhs + signed_low n rhs + of_bool c; r = software_add lhs rhs c width
    in unat (ha_value r) = s mod 2 ^ n \<and> (ha_carry r \<longleftrightarrow> 2 ^ n \<le> s) \<and>
      (ha_overflow r \<longleftrightarrow> t < - (2 ^ (n - 1)) \<or> 2 ^ (n - 1) \<le> t)"
  using assms by (rule software_add_exact)

theorem software_add_spec_witness:
  "let r = software_add 0xFF 0x01 False 8
   in unat (ha_value r) = 0 \<and> ha_carry r \<and> \<not> ha_overflow r"
  using software_add_spec [of 8 "0xFF" "0x01" False]
  by (simp add: Let_def low_bits_def signed_low_def)

text \<open>At every width from 1 to 64 the software host's subtraction is exact: the value is the
  difference less the borrow modulo the width, the carry flag reports a borrow exactly when the
  subtrahend and the borrow exceed the minuend, and the overflow flag is set exactly when the signed
  difference leaves the signed range.\<close>

theorem software_sub_spec:
  assumes "0 < unat width" and "unat width \<le> 64"
  shows "let n = unat width; A = low_bits n lhs; B = low_bits n rhs;
      t = signed_low n lhs - signed_low n rhs - of_bool b; r = software_sub lhs rhs b width
    in int (unat (ha_value r)) = (int A - int B - of_bool b) mod 2 ^ n \<and>
      (ha_carry r \<longleftrightarrow> A < B + of_bool b) \<and>
      (ha_overflow r \<longleftrightarrow> t < - (2 ^ (n - 1)) \<or> 2 ^ (n - 1) \<le> t)"
proof -
  let ?n = "unat width"
  let ?h = "(2::nat) ^ (?n - 1)"
  note h = half_range(1,2) [OF assms(1)] half_range(3) [of ?n]
  let ?A = "low_bits ?n lhs" and ?B = "low_bits ?n rhs"
  have less: "?A < 2 * ?h" "?B < 2 * ?h"
    unfolding h(1) [symmetric] by (simp_all only: low_bits_less)
  have nz: "width \<noteq> 0" using assms(1) by auto
  have neg: "low_bits ?n (NOT rhs AND mask ?n) = 2 * ?h - 1 - ?B"
  proof -
    have "NOT rhs AND mask ?n = mask ?n - (rhs AND mask ?n)"
    proof -
      have "NOT rhs AND mask ?n = (mask ?n) XOR (rhs AND mask ?n)"
        by (rule bit_word_eqI) (auto simp: bit_simps)
      moreover have "(rhs AND mask ?n) + (NOT rhs AND mask ?n) = mask ?n"
        by (subst disjunctive_add) (auto simp: bit_simps intro!: bit_word_eqI)
      ultimately show ?thesis by (simp add: algebra_simps)
    qed
    moreover have "rhs AND mask ?n \<le> mask ?n" by (simp add: word_and_le1)
    moreover have "unat (mask ?n :: u64) = 2 * ?h - 1"
    proof -
      have "unat (mask ?n :: u64) = mask ?n"
        by (rule bit_eqI) (use assms(2) in \<open>auto simp: bit_simps\<close>)
      also have "\<dots> = 2 ^ ?n - 1" by (rule mask_eq_exp_minus_1)
      finally show ?thesis unfolding h(1) .
    qed
    ultimately have "unat (NOT rhs AND mask ?n) = 2 * ?h - 1 - ?B"
      by (simp add: unat_sub low_bits_mask)
    moreover have "low_bits ?n (NOT rhs AND mask ?n) = unat (NOT rhs AND mask ?n)"
      unfolding low_bits_def and_mask_unat by simp
    ultimately show ?thesis by simp
  qed
  note f = add_core_fields [OF assms, of lhs "NOT rhs AND mask ?n" "\<not> b", unfolded neg]
  let ?s = "?A + (2 * ?h - 1 - ?B) + of_bool (\<not> b)"
  let ?r = "software_sub lhs rhs b width"
  have r: "ha_value ?r = ha_value (add_core lhs (NOT rhs AND mask ?n) width (\<not> b))"
      "ha_carry ?r \<longleftrightarrow> \<not> ha_carry (add_core lhs (NOT rhs AND mask ?n) width (\<not> b))"
      "ha_overflow ?r \<longleftrightarrow> compute_overflow_sub lhs rhs (ha_value ?r) width"
    by (simp_all add: software_sub_def mask_and_sign_mask [OF assms] Let_def)
  have v: "unat (ha_value ?r) = ?s mod (2 * ?h)" unfolding r(1) f(1) h(1) ..
  have val: "int (unat (ha_value ?r)) = (int ?A - int ?B - of_bool b) mod 2 ^ ?n"
  proof -
    have "int ?s = (int ?A - int ?B - of_bool b) + 2 * int ?h"
      using less by (cases b) (simp_all add: of_nat_diff)
    then have "int ?s mod (2 * int ?h) = (int ?A - int ?B - of_bool b) mod (2 * int ?h)"
      by (simp only: mod_add_self2)
    then show ?thesis unfolding v h(2) by (simp only: zmod_int of_nat_mult of_nat_numeral)
  qed
  have carry: "ha_carry ?r \<longleftrightarrow> ?A < ?B + of_bool b"
    unfolding r(2) f(2) h(1) using less by (cases b) auto
  have "low_bits ?n (ha_value ?r) = ?s mod (2 * ?h)"
    unfolding low_bits_def v h(1) by simp
  then have "ha_overflow ?r \<longleftrightarrow> ((?h \<le> ?A) \<noteq> (?h \<le> ?B) \<and> (?h \<le> ?A) \<noteq> (?h \<le> ?s mod (2 * ?h)))"
    using nz unfolding r(3) compute_overflow_sub_def Let_def sign_test [OF assms] by simp
  with sign_rule_sub [OF less, of b]
  have over: "ha_overflow ?r \<longleftrightarrow>
      (signed_low ?n lhs - signed_low ?n rhs - of_bool b < - (2 ^ (?n - 1)) \<or>
       2 ^ (?n - 1) \<le> signed_low ?n lhs - signed_low ?n rhs - of_bool b)"
    unfolding signed_low_def h by simp
  show ?thesis unfolding Let_def using val carry over by blast
qed

theorem software_sub_spec_witness:
  "let r = software_sub 0x00 0x01 False 8
   in int (unat (ha_value r)) = 255 \<and> ha_carry r \<and> \<not> ha_overflow r"
  using software_sub_spec [of 8 "0x00" "0x01" False]
  by (simp add: Let_def low_bits_def signed_low_def)

text \<open>The software host's product is exact: whenever the product of the operands fits the width
  plus sixty-four bits, the low part is the product modulo the width and the high part the rest.\<close>

theorem software_mul_spec:
  assumes "0 < unat width" and "unat width \<le> 64"
    and "unat lhs * unat rhs < 2 ^ (64 + unat width)"
  shows "let r = software_mul lhs rhs width
    in unat (hm_low r) = (unat lhs * unat rhs) mod 2 ^ unat width \<and>
      unat (hm_high r) * 2 ^ unat width + unat (hm_low r) = unat lhs * unat rhs"
proof -
  let ?n = "unat width" and ?p = "unat lhs * unat rhs"
  let ?w = "ucast lhs * ucast rhs :: u128"
  have "?p < 2 ^ 64 * 2 ^ 64"
    by (intro mult_strict_mono) (use unat_u64_less [of lhs] unat_u64_less [of rhs] in simp_all)
  then have p: "unat ?w = ?p"
    using unat_u64_less [of lhs] unat_u64_less [of rhs] by (simp add: unat_word_ariths unat_ucast)
  have m: "(ucast (mask ?n :: u64) :: u128) = mask ?n"
    using assms(2) by (intro bit_word_eqI) (auto simp: bit_simps)
  have pow: "(2::nat) ^ ?n \<le> 2 ^ 64" using assms(2) by (rule power_increasing) simp
  have "?p mod 2 ^ ?n < 2 ^ 64" using pow by (intro less_le_trans [OF mod_less_divisor]) simp_all
  then have low: "unat (ucast (?w AND mask ?n) :: u64) = ?p mod 2 ^ ?n"
    by (simp add: unat_ucast and_mask_unat p)
  have "?p div 2 ^ ?n < 2 ^ 64"
    using assms(3) by (simp add: div_less_iff_less_mult power_add)
  moreover have "?n mod 128 = ?n" using assms(2) by simp
  ultimately have high: "unat (ucast (shr ?w ?n) :: u64) = ?p div 2 ^ ?n"
    by (simp add: unat_ucast unat_shr p)
  show ?thesis
    by (simp only: software_mul_def mask_and_sign_mask [OF assms(1,2)] Let_def prod.case m
        host_mul_result.simps low high div_mult_mod_eq simp_thms)
qed

theorem software_mul_spec_witness:
  "let r = software_mul 0xFFFFFFFFFFFFFFFF 0x10 64
   in unat (hm_high r) * 2 ^ 64 + unat (hm_low r) = 0xFFFFFFFFFFFFFFFF * 0x10"
  using software_mul_spec [of 64 "0xFFFFFFFFFFFFFFFF" "0x10"]
  by (simp add: Let_def)

section \<open>The contract of an exact host\<close>

text \<open>What a program may expect of its host at the widths 1 to 64: sums and differences with their
  carries, and full products of operands that fit the width, whatever the state of the host.\<close>

locale exact_host =
  fixes services :: "'h host_services"
  assumes add_exact: "0 < unat width \<Longrightarrow> unat width \<le> 64 \<Longrightarrow> hs_add services h a b c width = (r, h') \<Longrightarrow>
      unat (ha_value r) = (low_bits (unat width) a + low_bits (unat width) b + of_bool c) mod 2 ^ unat width \<and>
      (ha_carry r \<longleftrightarrow> 2 ^ unat width \<le> low_bits (unat width) a + low_bits (unat width) b + of_bool c)"
    and sub_exact: "0 < unat width \<Longrightarrow> unat width \<le> 64 \<Longrightarrow> hs_sub services h a b c width = (r, h') \<Longrightarrow>
      int (unat (ha_value r)) =
        (int (low_bits (unat width) a) - int (low_bits (unat width) b) - of_bool c) mod 2 ^ unat width \<and>
      (ha_carry r \<longleftrightarrow> low_bits (unat width) a < low_bits (unat width) b + of_bool c)"
    and mul_exact: "0 < unat width \<Longrightarrow> unat width \<le> 64 \<Longrightarrow> hs_mul services h a b width = (p, h') \<Longrightarrow>
      unat a < 2 ^ unat width \<Longrightarrow> unat b < 2 ^ unat width \<Longrightarrow>
      unat (hm_low p) < 2 ^ unat width \<and>
      unat (hm_high p) * 2 ^ unat width + unat (hm_low p) = unat a * unat b"

interpretation software: exact_host software_host
proof unfold_locales
  fix width :: u32 and a b c r h h'
  assume w: "0 < unat width" "unat width \<le> 64" and "hs_add software_host h a b c width = (r, h')"
  then have "r = software_add a b c width" by (simp add: software_host_def)
  then show "unat (ha_value r) = (low_bits (unat width) a + low_bits (unat width) b + of_bool c) mod 2 ^ unat width \<and>
      (ha_carry r \<longleftrightarrow> 2 ^ unat width \<le> low_bits (unat width) a + low_bits (unat width) b + of_bool c)"
    using software_add_exact [OF w, of a b c] by (simp add: Let_def)
next
  fix width :: u32 and a b c r h h'
  assume w: "0 < unat width" "unat width \<le> 64" and "hs_sub software_host h a b c width = (r, h')"
  then have "r = software_sub a b c width" by (simp add: software_host_def)
  then show "int (unat (ha_value r)) =
        (int (low_bits (unat width) a) - int (low_bits (unat width) b) - of_bool c) mod 2 ^ unat width \<and>
      (ha_carry r \<longleftrightarrow> low_bits (unat width) a < low_bits (unat width) b + of_bool c)"
    using software_sub_spec [OF w, of a b c] by (simp add: Let_def)
next
  fix width :: u32 and a b p h h'
  assume w: "0 < unat width" "unat width \<le> 64" and run: "hs_mul software_host h a b width = (p, h')"
    and fits: "unat a < 2 ^ unat width" "unat b < 2 ^ unat width"
  from run have p: "p = software_mul a b width" by (simp add: software_host_def)
  have "unat a * unat b < 2 ^ unat width * 2 ^ unat width"
    using fits by (intro mult_strict_mono) simp_all
  also have "\<dots> \<le> 2 ^ (64 + unat width)"
    using w(2) by (simp only: power_add [symmetric]) (rule power_increasing; simp)
  finally have "unat a * unat b < 2 ^ (64 + unat width)" .
  from software_mul_spec [OF w this]
  show "unat (hm_low p) < 2 ^ unat width \<and>
      unat (hm_high p) * 2 ^ unat width + unat (hm_low p) = unat a * unat b"
    by (simp add: p Let_def)
qed

end
