(* ===== verification/BitField.thy ===== *)
theory BitField
  imports Strings
begin

text \<open>
  Bit-field specifications (\<open>src/soc/prog/types/bitfield.rs\<close>): an instruction field or a struct
  bit field as a list of segments, each a slice of a 64-bit container or a literal, most
  significant first, with optional zero or sign padding.  The theory models the validated
  constructors, \<open>read_bits\<close>, \<open>read_signed\<close>, \<open>write_bits\<close> and the parser of textual
  specifications such as \<open>@(16..29|0b00)\<close>; its lemmas relate reading and writing to the list
  of segments as a positional number.  A \<open>TypeId\<close> is its index in the type arena.
\<close>

section \<open>Data\<close>

type_synonym type_id = nat

definition max_bitfield_bits :: u16 where
  "max_bitfield_bits = 64"

definition mask_for_width :: "u16 \<Rightarrow> u64" where
  "mask_for_width width =
     (if width = 0 then 0
      else if 64 \<le> width then - 1
      else ucast (shl (1 :: u128) (unat width) - 1))"

record bit_slice =
  bs_offset :: u16
  bs_width :: u8
  bs_mask :: u64

datatype bitfield_segment = Slice bit_slice | Literal u64 u8

datatype pad_kind = Zero | Sign

record pad_spec =
  pad_kind :: pad_kind
  pad_width :: u16

record bitfield_spec =
  bf_container :: type_id
  bf_segments :: "bitfield_segment list"
  bf_pad :: "pad_spec option"
  bf_signed :: bool

datatype bitfield_error =
    EmptySpec
  | InvalidToken string
  | InvalidNumber string
  | InvalidLiteral string
  | LiteralTooWide u16
  | ZeroWidthSlice
  | SliceTooWide u16
  | SliceOutOfRange u16 u16
  | DuplicatePad
  | PadExceedsContainer u16 u16
  | ContainerTooWide u16
  | TotalWidthExceeded u16
  | MissingSegments
  | PadBitsMismatch
  | LiteralMismatch u64 u64 u8
  | ValueTooWide u16 u16

definition bit_slice_new :: "u16 \<Rightarrow> u16 \<Rightarrow> bitfield_error + bit_slice" where
  "bit_slice_new offset width =
     (if width = 0 then Inl ZeroWidthSlice
      else if max_bitfield_bits < width then Inl (SliceTooWide width)
      else if max_bitfield_bits \<le> offset \<or> max_bitfield_bits < offset + width
        then Inl (SliceOutOfRange offset width)
      else Inr \<lparr>bs_offset = offset, bs_width = ucast width,
                bs_mask = shl (mask_for_width width) (unat offset)\<rparr>)"

section \<open>Widths and signs\<close>

text \<open>The widths are summed as \<open>u16\<close>.\<close>

fun segment_width :: "bitfield_segment \<Rightarrow> u16" where
  "segment_width (Slice s) = ucast (bs_width s)"
| "segment_width (Literal value width) = ucast width"

definition data_width :: "bitfield_spec \<Rightarrow> u16" where
  "data_width spec = sum_list (map segment_width (bf_segments spec))"

definition total_width :: "bitfield_spec \<Rightarrow> u16" where
  "total_width spec =
     data_width spec + (case bf_pad spec of Some pad \<Rightarrow> pad_width pad | None \<Rightarrow> 0)"

definition is_signed :: "bitfield_spec \<Rightarrow> bool" where
  "is_signed spec \<longleftrightarrow>
     bf_signed spec \<or>
     (case bf_pad spec of Some pad \<Rightarrow> pad_kind pad = Sign | None \<Rightarrow> False)"

fun bit_span_step ::
    "(u16 \<times> u16) option \<Rightarrow> bitfield_segment \<Rightarrow> (u16 \<times> u16) option" where
  "bit_span_step acc (Slice s) =
     (let lo = bs_offset s; hi = bs_offset s + ucast (bs_width s)
      in case acc of
           Some (l, h) \<Rightarrow> Some (min l lo, max h hi)
         | None \<Rightarrow> Some (lo, hi))"
| "bit_span_step acc (Literal value width) = acc"

definition bit_span :: "bitfield_spec \<Rightarrow> (u16 \<times> u16) option" where
  "bit_span spec = foldl bit_span_step None (bf_segments spec)"

section \<open>Reading\<close>

fun extract_segments :: "u64 \<Rightarrow> bitfield_segment list \<Rightarrow> u128 \<Rightarrow> u16 \<Rightarrow> u128 \<times> u16" where
  "extract_segments bits [] acc acc_width = (acc, acc_width)"
| "extract_segments bits (Slice s # rest) acc acc_width =
     (let part = ucast (shr (bits AND bs_mask s) (unat (bs_offset s))) :: u128
      in extract_segments bits rest (shl acc (unat (bs_width s)) OR part)
           (acc_width + ucast (bs_width s)))"
| "extract_segments bits (Literal value width # rest) acc acc_width =
     (let mask = ucast (mask_for_width (ucast width)) :: u128
      in extract_segments bits rest (shl acc (unat width) OR (ucast value AND mask))
           (acc_width + ucast width))"

definition extract_data :: "bitfield_spec \<Rightarrow> u64 \<Rightarrow> u64 \<times> u16" where
  "extract_data spec bits =
     (let (acc, acc_width) = extract_segments bits (bf_segments spec) 0 0
      in (ucast acc, acc_width))"

definition apply_pad :: "bitfield_spec \<Rightarrow> u64 \<Rightarrow> u16 \<Rightarrow> u64 \<times> u16" where
  "apply_pad spec value width =
     (case bf_pad spec of
        Some pad \<Rightarrow>
          if pad_kind pad = Sign \<and> 0 < width \<and> shr value (unat (width - 1)) AND 1 = 1
          then (value OR shl (mask_for_width (pad_width pad)) (unat width),
                width + pad_width pad)
          else (value, width + pad_width pad)
      | None \<Rightarrow> (value, width))"

definition bf_read_bits :: "bitfield_spec \<Rightarrow> u64 \<Rightarrow> u64 \<times> u16" where
  "bf_read_bits spec bits =
     (let (value, width) = extract_data spec bits in apply_pad spec value width)"

definition read_signed :: "bitfield_spec \<Rightarrow> u64 \<Rightarrow> i64" where
  "read_signed spec bits =
     (let (value, width) = bf_read_bits spec bits
      in if width = 0 then 0
         else if is_signed spec then
           (let effective = min width 64; shift = 64 - unat effective
            in sar (shl value shift) shift)
         else value)"

section \<open>Writing\<close>

fun write_segments ::
    "u16 \<Rightarrow> u16 \<Rightarrow> bitfield_segment list \<Rightarrow> u64 \<Rightarrow> u64 \<Rightarrow> u16 \<Rightarrow> bitfield_error + (u64 \<times> u16)" where
  "write_segments data total_bits [] container value remaining = Inr (container, remaining)"
| "write_segments data total_bits (Slice s # rest) container value remaining =
     (let width = ucast (bs_width s)
      in if remaining < width then Inl (ValueTooWide data total_bits)
         else
           (let remaining' = remaining - width;
                part = shr value (unat remaining') AND mask_for_width width;
                cleared = container AND NOT (bs_mask s);
                shifted = shl part (unat (bs_offset s)) AND bs_mask s
            in write_segments data total_bits rest (cleared OR shifted) value remaining'))"
| "write_segments data total_bits (Literal literal seg_width # rest) container value remaining =
     (let width = ucast seg_width
      in if remaining < width then Inl (ValueTooWide data total_bits)
         else
           (let remaining' = remaining - width;
                mask = mask_for_width width;
                part = shr value (unat remaining') AND mask
            in if part \<noteq> literal AND mask
               then Inl (LiteralMismatch (literal AND mask) part seg_width)
               else write_segments data total_bits rest container value remaining'))"

text \<open>The check of the padding bits, which also drops them from the value.\<close>

definition check_pad :: "bitfield_spec \<Rightarrow> u64 \<Rightarrow> bitfield_error + u64" where
  "check_pad spec value =
     (let data = data_width spec in
      case bf_pad spec of
        None \<Rightarrow> Inr value
      | Some pad \<Rightarrow>
          (let pad_mask = mask_for_width (pad_width pad);
               pad_bits = shr value (unat data);
               mismatch =
                 (case pad_kind pad of
                    Zero \<Rightarrow> pad_bits \<noteq> 0
                  | Sign \<Rightarrow>
                      0 < data \<and>
                      pad_bits \<noteq>
                        (if shr value (unat (data - 1)) AND 1 = 1 then pad_mask else 0))
           in if mismatch then Inl PadBitsMismatch
              else Inr (value AND mask_for_width data)))"

definition bf_write_bits :: "bitfield_spec \<Rightarrow> u64 \<Rightarrow> u64 \<Rightarrow> bitfield_error + u64" where
  "bf_write_bits spec container value =
     (let total_bits = total_width spec; data = data_width spec in
      if total_bits = 0 then Inr container
      else if total_bits < 64 \<and> shr value (unat total_bits) \<noteq> 0 then Inl (ValueTooWide total_bits total_bits)
      else rbind (check_pad spec value) (\<lambda>value'.
        rbind (write_segments data total_bits (bf_segments spec) container value' data)
          (\<lambda>(container', remaining).
             if remaining \<noteq> 0 then Inl (ValueTooWide data total_bits) else Inr container')))"

section \<open>The builder\<close>

text \<open>\<open>range\<close> panics on an invalid slice (\<open>expect\<close>); the model returns the error.\<close>

definition bf_builder :: "type_id \<Rightarrow> bitfield_spec" where
  "bf_builder container =
     \<lparr>bf_container = container, bf_segments = [], bf_pad = None, bf_signed = False\<rparr>"

definition bf_range :: "bitfield_spec \<Rightarrow> u16 \<Rightarrow> u16 \<Rightarrow> bitfield_error + bitfield_spec" where
  "bf_range b offset width =
     rbind (bit_slice_new offset width) (\<lambda>slice.
       Inr (b\<lparr>bf_segments := bf_segments b @ [Slice slice]\<rparr>))"

definition bf_literal :: "bitfield_spec \<Rightarrow> u64 \<Rightarrow> u8 \<Rightarrow> bitfield_spec" where
  "bf_literal b value width =
     b\<lparr>bf_segments := bf_segments b @ [Literal value width]\<rparr>"

definition bf_set_pad :: "bitfield_spec \<Rightarrow> pad_spec \<Rightarrow> bitfield_spec" where
  "bf_set_pad b pad = b\<lparr>bf_pad := Some pad\<rparr>"

definition bf_set_signed :: "bitfield_spec \<Rightarrow> bool \<Rightarrow> bitfield_spec" where
  "bf_set_signed b on = b\<lparr>bf_signed := on\<rparr>"

definition from_range :: "type_id \<Rightarrow> u16 \<Rightarrow> u16 \<Rightarrow> bitfield_error + bitfield_spec" where
  "from_range container offset width = bf_range (bf_builder container) offset width"

section \<open>The parser\<close>

definition extract_spec_body :: "string \<Rightarrow> bitfield_error + string" where
  "extract_spec_body spec =
     (let trimmed = trim spec in
      case strip_prefix ''@('' trimmed of
        Some rest \<Rightarrow> ok_or (strip_suffix '')'' rest) (InvalidToken trimmed)
      | None \<Rightarrow>
          (case strip_prefix ''('' trimmed of
             Some rest \<Rightarrow> ok_or (strip_suffix '')'' rest) (InvalidToken trimmed)
           | None \<Rightarrow> Inr trimmed))"

definition parse_pad :: "string \<Rightarrow> bitfield_error + pad_kind option" where
  "parse_pad token =
     (case strip_prefix ''?'' token of
        Some rest \<Rightarrow>
          if trim rest = ''0'' then Inr (Some Zero)
          else if trim rest = ''1'' then Inr (Some Sign)
          else Inl (InvalidToken token)
      | None \<Rightarrow> Inr None)"

definition bf_parse_literal :: "string \<Rightarrow> bitfield_error + (u64 \<times> u8) option" where
  "bf_parse_literal token =
     (case strip_prefix ''0b'' token of
        Some rest \<Rightarrow>
          (let bits = trim rest; width = length bits in
           if bits = [] then Inl (InvalidLiteral token)
           else if 64 < width then Inl (LiteralTooWide (of_nat width))
           else rbind (ok_or (from_str_radix 2 bits) (InvalidLiteral token))
                  (\<lambda>value. Inr (Some (value, of_nat width))))
      | None \<Rightarrow> Inr None)"

definition parse_number :: "string \<Rightarrow> bitfield_error + u16" where
  "parse_number token =
     (if token = [] then Inl (InvalidNumber token)
      else
        (let value =
           (case strip_prefix ''0x'' token of
              Some rest \<Rightarrow> from_str_radix 16 rest
            | None \<Rightarrow>
                (case strip_prefix ''0o'' token of
                   Some rest \<Rightarrow> from_str_radix 8 rest
                 | None \<Rightarrow>
                     (case strip_prefix ''0b'' token of
                        Some rest \<Rightarrow> from_str_radix 2 rest
                      | None \<Rightarrow> from_str_radix 10 token)))
         in ok_or value (InvalidNumber token)))"

definition parse_range :: "string \<Rightarrow> bitfield_error + (u16 \<times> u16)" where
  "parse_range token =
     (let trimmed = trim token in
      case split_once ''..'' trimmed of
        Some (start_tok, end_tok) \<Rightarrow>
          if trim start_tok = [] \<or> trim end_tok = [] then Inl (InvalidToken trimmed)
          else rbind (parse_number (trim start_tok)) (\<lambda>start.
            rbind (parse_number (trim end_tok)) (\<lambda>stop.
              if stop < start then Inl (InvalidToken trimmed) else Inr (start, stop)))
      | None \<Rightarrow> rbind (parse_number trimmed) (\<lambda>bit. Inr (bit, bit)))"

definition msb_range_to_lsb_offset ::
    "u16 \<Rightarrow> u16 \<Rightarrow> u16 \<Rightarrow> bitfield_error + (u16 \<times> u16)" where
  "msb_range_to_lsb_offset start stop container_bits =
     (if container_bits \<le> start \<or> container_bits \<le> stop
      then Inl (SliceOutOfRange start (stop - start + 1))
      else Inr (container_bits - 1 - stop, stop - start + 1))"

datatype segment_token = LiteralToken u64 u8 | RangeToken u16 u16

text \<open>The loop over the tokens: the pad seen so far and the raw segments in order.\<close>

fun scan_tokens ::
    "string list \<Rightarrow> pad_kind option \<Rightarrow> segment_token list \<Rightarrow>
     bitfield_error + (pad_kind option \<times> segment_token list)" where
  "scan_tokens [] pad raw = Inr (pad, raw)"
| "scan_tokens (t # ts) pad raw =
     (let token = trim t in
      if token = [] then scan_tokens ts pad raw
      else rbind (parse_pad token) (\<lambda>p.
        case p of
          Some kind \<Rightarrow>
            if pad \<noteq> None then Inl DuplicatePad else scan_tokens ts (Some kind) raw
        | None \<Rightarrow>
            rbind (bf_parse_literal token) (\<lambda>l.
              case l of
                Some (value, width) \<Rightarrow> scan_tokens ts pad (raw @ [LiteralToken value width])
              | None \<Rightarrow>
                  rbind (parse_range token) (\<lambda>(start, stop).
                    scan_tokens ts pad (raw @ [RangeToken start stop])))))"

definition lower_token :: "u16 \<Rightarrow> segment_token \<Rightarrow> bitfield_error + bitfield_segment" where
  "lower_token container_bits token =
     (case token of
        LiteralToken value width \<Rightarrow>
          if width = 0 \<or> max_bitfield_bits < ucast width then Inl (LiteralTooWide (ucast width))
          else Inr (Literal value width)
      | RangeToken start stop \<Rightarrow>
          rbind (msb_range_to_lsb_offset start stop container_bits) (\<lambda>(offset, width).
            rbind (bit_slice_new offset width) (\<lambda>slice. Inr (Slice slice))))"

fun lower_tokens ::
    "u16 \<Rightarrow> segment_token list \<Rightarrow> bitfield_error + bitfield_segment list" where
  "lower_tokens container_bits [] = Inr []"
| "lower_tokens container_bits (t # ts) =
     rbind (lower_token container_bits t) (\<lambda>seg.
       rbind (lower_tokens container_bits ts) (\<lambda>segs. Inr (seg # segs)))"

definition finish_pad ::
    "u16 \<Rightarrow> pad_kind option \<Rightarrow> bitfield_spec \<Rightarrow> bitfield_error + bitfield_spec" where
  "finish_pad container_bits pad result =
     (case pad of
        None \<Rightarrow> Inr result
      | Some kind \<Rightarrow>
          (let data_bits = data_width result in
           if container_bits < data_bits then Inl (PadExceedsContainer container_bits data_bits)
           else if 0 < container_bits - data_bits
             then Inr (result\<lparr>bf_pad :=
                         Some \<lparr>pad_kind = kind, pad_width = container_bits - data_bits\<rparr>\<rparr>)
           else Inr result))"

definition from_spec_str :: "type_id \<Rightarrow> u16 \<Rightarrow> string \<Rightarrow> bitfield_error + bitfield_spec" where
  "from_spec_str container container_bits spec =
     (if container_bits = 0 \<or> max_bitfield_bits < container_bits
      then Inl (ContainerTooWide container_bits)
      else rbind (extract_spec_body spec) (\<lambda>body.
        rbind (scan_tokens (split_char (CHR ''|'') body) None []) (\<lambda>(pad, raw).
          if raw = [] then Inl MissingSegments
          else rbind (lower_tokens container_bits raw) (\<lambda>segments.
            rbind (finish_pad container_bits pad
                     \<lparr>bf_container = container, bf_segments = segments,
                      bf_pad = None, bf_signed = False\<rparr>) (\<lambda>result.
              if max_bitfield_bits < total_width result
              then Inl (TotalWidthExceeded (total_width result))
              else Inr result)))))"

section \<open>The segments as a positional number\<close>

definition bit_slice_ok :: "bit_slice \<Rightarrow> bool" where
  "bit_slice_ok s \<longleftrightarrow>
     0 < unat (bs_width s) \<and> unat (bs_offset s) + unat (bs_width s) \<le> 64 \<and>
     bs_mask s = shl (mask_for_width (ucast (bs_width s))) (unat (bs_offset s))"

fun segment_ok :: "bitfield_segment \<Rightarrow> bool" where
  "segment_ok (Slice s) = bit_slice_ok s"
| "segment_ok (Literal value width) = (0 < width \<and> unat width \<le> 64)"

definition nwidth :: "bitfield_segment list \<Rightarrow> nat" where
  "nwidth segs = sum_list (map (unat \<circ> segment_width) segs)"

fun seg_part :: "u64 \<Rightarrow> bitfield_segment \<Rightarrow> u64" where
  "seg_part c (Slice s) = take_bit (unat (bs_width s)) (drop_bit (unat (bs_offset s)) c)"
| "seg_part c (Literal value width) = take_bit (unat width) value"

fun seg_value :: "u64 \<Rightarrow> bitfield_segment list \<Rightarrow> nat" where
  "seg_value c [] = 0"
| "seg_value c (seg # rest) = unat (seg_part c seg) * 2 ^ nwidth rest + seg_value c rest"

lemma bit_mask_for_width [bit_simps]:
  "bit (mask_for_width w) i \<longleftrightarrow> i < unat w \<and> i < 64"
proof -
  have "bit (ucast (shl (1 :: u128) (unat w) - 1) :: u64) i \<longleftrightarrow> i < unat w \<and> i < 64"
    if "\<not> 64 \<le> w"
  proof -
    have "unat w < 64" using that by (simp add: word_le_nat_alt)
    then have "shl (1 :: u128) (unat w) - 1 = mask (unat w)"
      by (simp add: shl_eq_push_bit mask_eq_exp_minus_1)
    then show ?thesis using \<open>unat w < 64\<close> by (auto simp: bit_simps)
  qed
  moreover have "64 \<le> w \<Longrightarrow> 64 \<le> unat w" by (simp add: word_le_nat_alt)
  moreover have "w = 0 \<Longrightarrow> unat w = 0" by simp
  ultimately show ?thesis by (auto simp: mask_for_width_def)
qed

lemma mask_for_width_eq: "mask_for_width w = mask (unat w)"
  by (rule bit_word_eqI) (simp add: bit_simps conj_commute)

lemma unat_segment_width:
  "unat (segment_width (Slice s)) = unat (bs_width s)"
  "unat (segment_width (Literal v w)) = unat w"
  by simp_all

lemma nwidth_simps [simp]:
  "nwidth [] = 0"
  "nwidth (seg # rest) = unat (segment_width seg) + nwidth rest"
  by (simp_all add: nwidth_def)

lemma segment_ok_width: "segment_ok seg \<Longrightarrow> 0 < unat (segment_width seg) \<and> unat (segment_width seg) \<le> 64"
  by (cases seg) (auto simp: bit_slice_ok_def word_neq_0_conv unat_gt_0)

lemma bit_bs_mask:
  "bit_slice_ok s \<Longrightarrow> bit (bs_mask s) i \<longleftrightarrow>
     unat (bs_offset s) \<le> i \<and> i < unat (bs_offset s) + unat (bs_width s)"
  by (auto simp: bit_slice_ok_def bit_simps)

lemma seg_part_less: "segment_ok seg \<Longrightarrow> unat (seg_part c seg) < 2 ^ unat (segment_width seg)"
  by (cases seg) (simp_all add: unsigned_take_bit_eq take_bit_nat_less_exp)

lemma seg_value_less: "list_all segment_ok segs \<Longrightarrow> seg_value c segs < 2 ^ nwidth segs"
proof (induction segs)
  case (Cons seg rest)
  have "unat (seg_part c seg) + 1 \<le> 2 ^ unat (segment_width seg)"
    using seg_part_less [of seg c] Cons.prems by simp
  from mult_le_mono1 [OF this, of "2 ^ nwidth rest"] show ?case
    using Cons by (simp add: power_add algebra_simps)
qed simp

text \<open>Appending a part to the accumulator.\<close>

lemma shl_or_value:
  fixes acc p :: u128
  assumes "unat acc < 2 ^ k" and "unat p < 2 ^ n" and "k + n \<le> 127"
  shows "unat (shl acc n OR p) = unat acc * 2 ^ n + unat p"
proof -
  have small: "i < n" if "bit p i" for i
  proof -
    have "take_bit n p = p"
      using assms(2) by (metis take_bit_eq_mod mod_less unsigned_take_bit_eq word_unat_eq_iff)
    then show ?thesis using that by (metis bit_take_bit_iff)
  qed
  have pow: "(2::nat) ^ k * 2 ^ n \<le> 2 ^ 128"
    using power_increasing [of "k + n" 128 "2::nat"] assms(3) by (simp add: power_add)
  then have "push_bit n acc AND p = 0"
    by (intro bit_word_eqI) (auto simp: bit_simps dest: small)
  then have "shl acc n OR p = push_bit n acc + p"
    using assms(3) by (simp add: shl_eq_push_bit disjunctive_add_eq_or)
  moreover have "unat (push_bit n acc) = unat acc * 2 ^ n"
  proof -
    have "unat acc * 2 ^ n < 2 ^ k * 2 ^ n" using assms(1) by simp
    also have "\<dots> \<le> 2 ^ 128" by (rule pow)
    finally show ?thesis by (intro unat_push_bit) simp
  qed
  moreover have "unat acc * 2 ^ n + unat p < 2 ^ 128"
  proof -
    have "unat acc * 2 ^ n + unat p < (unat acc + 1) * 2 ^ n" using assms(2) by simp
    also have "\<dots> \<le> 2 ^ k * 2 ^ n" using assms(1) by (intro mult_le_mono1) simp
    also have "\<dots> \<le> 2 ^ 128" by (rule pow)
    finally show ?thesis .
  qed
  ultimately show ?thesis by (simp add: unat_word_ariths(1))
qed

lemma extract_segments_value:
  assumes "list_all segment_ok segs" and "unat acc < 2 ^ k" and "k + nwidth segs \<le> 64"
  shows "unat (fst (extract_segments bits segs acc w)) =
           unat acc * 2 ^ nwidth segs + seg_value bits segs \<and>
         snd (extract_segments bits segs acc w) = w + sum_list (map segment_width segs)"
  using assms
proof (induction segs arbitrary: acc w k)
  case Nil
  then show ?case by simp
next
  case (Cons seg rest)
  define n where "n = unat (segment_width seg)"
  define p :: u128 where "p = ucast (seg_part bits seg)"
  have ok: "segment_ok seg" "list_all segment_ok rest" using Cons.prems by simp_all
  have n: "0 < n" "n \<le> 64" using segment_ok_width [OF ok(1)] by (simp_all add: n_def)
  have up: "unat p = unat (seg_part bits seg)"
    using unat_u64_less [of "seg_part bits seg"] by (simp add: p_def unat_ucast)
  have up_less: "unat p < 2 ^ n" using seg_part_less [OF ok(1)] by (simp add: up n_def)
  have step: "extract_segments bits (seg # rest) acc w =
      extract_segments bits rest (shl acc n OR p) (w + segment_width seg)"
  proof (cases seg)
    case (Slice s)
    have "shr (bits AND bs_mask s) (unat (bs_offset s)) = seg_part bits seg"
      using ok(1) Slice
      by (intro bit_word_eqI)
        (auto simp: bit_bs_mask bit_simps bit_slice_ok_def shr_eq_drop_bit)
    then show ?thesis using Slice by (simp add: p_def n_def)
  next
    case (Literal v lw)
    have "(ucast v :: u128) AND ucast (mask_for_width (ucast lw)) = p"
      using ok(1) Literal
      by (intro bit_word_eqI) (auto simp: p_def bit_simps)
    then show ?thesis using Literal by (simp add: n_def)
  qed
  have kn: "k + n + nwidth rest \<le> 64" using Cons.prems by (simp add: n_def)
  have v: "unat (shl acc n OR p) = unat acc * 2 ^ n + unat p"
    using Cons.prems(2) up_less kn by (intro shl_or_value [of _ k]) simp_all
  have "unat (shl acc n OR p) < 2 ^ (k + n)"
  proof -
    have "unat acc * 2 ^ n + unat p < (unat acc + 1) * 2 ^ n" using up_less by simp
    also have "\<dots> \<le> 2 ^ k * 2 ^ n" using Cons.prems(2) by (intro mult_le_mono1) simp
    finally show ?thesis by (simp add: v power_add)
  qed
  from Cons.IH [OF ok(2) this kn, of "w + segment_width seg"] show ?case
    by (simp add: step v up n_def [symmetric] power_add algebra_simps)
qed

lemma unat_sum_widths:
  "nwidth segs < 2 ^ 16 \<Longrightarrow> unat (sum_list (map segment_width segs)) = nwidth segs"
proof (induction segs)
  case (Cons seg rest)
  then show ?case by (simp add: unat_word_ariths(1))
qed simp

lemma extract_data_value:
  assumes "list_all segment_ok (bf_segments spec)" and "nwidth (bf_segments spec) \<le> 64"
  shows "unat (fst (extract_data spec bits)) = seg_value bits (bf_segments spec)"
    and "snd (extract_data spec bits) = data_width spec"
    and "unat (data_width spec) = nwidth (bf_segments spec)"
proof -
  have e: "unat (fst (extract_segments bits (bf_segments spec) 0 0)) =
        seg_value bits (bf_segments spec) \<and>
      snd (extract_segments bits (bf_segments spec) 0 0) =
        sum_list (map segment_width (bf_segments spec))"
    using extract_segments_value [OF assms(1), of 0 0 bits 0] assms(2) by simp
  have "seg_value bits (bf_segments spec) < 2 ^ 64"
    using seg_value_less [OF assms(1), of bits]
    by (rule order_less_le_trans) (use assms(2) power_increasing [of _ 64 "2::nat"] in simp)
  then show "unat (fst (extract_data spec bits)) = seg_value bits (bf_segments spec)"
    using e by (simp add: extract_data_def case_prod_beta unat_ucast)
  show "snd (extract_data spec bits) = data_width spec"
    using e by (simp add: extract_data_def case_prod_beta data_width_def)
  show "unat (data_width spec) = nwidth (bf_segments spec)"
    unfolding data_width_def using assms(2) by (intro unat_sum_widths) simp
qed

text \<open>Writing one slice.\<close>

definition put_slice :: "bit_slice \<Rightarrow> u64 \<Rightarrow> u64 \<Rightarrow> u64" where
  "put_slice s part container =
     ((container AND NOT (bs_mask s)) OR (shl part (unat (bs_offset s)) AND bs_mask s))"

lemma bit_put_slice:
  "bit_slice_ok s \<Longrightarrow> bit (put_slice s part c) i \<longleftrightarrow>
     (if unat (bs_offset s) \<le> i \<and> i < unat (bs_offset s) + unat (bs_width s)
      then bit part (i - unat (bs_offset s)) else bit c i)"
  by (auto simp: put_slice_def bit_bs_mask bit_simps shl_eq_push_bit bit_slice_ok_def
      dest: bit_imp_le_length)

definition slices :: "bitfield_segment list \<Rightarrow> bit_slice list" where
  "slices segs = concat (map (\<lambda>seg. case seg of Slice s \<Rightarrow> [s] | Literal v w \<Rightarrow> []) segs)"

fun disjoint_slices :: "bit_slice list \<Rightarrow> bool" where
  "disjoint_slices [] = True"
| "disjoint_slices (s # ss) =
     (list_all (\<lambda>t. bs_mask s AND bs_mask t = 0) ss \<and> disjoint_slices ss)"

definition slices_mask :: "bitfield_segment list \<Rightarrow> u64" where
  "slices_mask segs = foldr (\<lambda>s m. bs_mask s OR m) (slices segs) 0"

lemma slices_simps [simp]:
  "slices [] = []"
  "slices (Slice s # rest) = s # slices rest"
  "slices (Literal v w # rest) = slices rest"
  by (simp_all add: slices_def)

lemma slices_mask_simps [simp]:
  "slices_mask [] = 0"
  "slices_mask (Slice s # rest) = bs_mask s OR slices_mask rest"
  "slices_mask (Literal v w # rest) = slices_mask rest"
  by (simp_all add: slices_mask_def)

lemma slices_ok: "list_all segment_ok segs \<Longrightarrow> s \<in> set (slices segs) \<Longrightarrow> bit_slice_ok s"
proof (induction segs)
  case (Cons seg rest)
  then show ?case by (cases seg) auto
qed simp

lemma disjoint_slices_mask:
  "list_all (\<lambda>t. m AND bs_mask t = 0) (slices segs) \<Longrightarrow> m AND slices_mask segs = 0"
proof (induction segs)
  case (Cons seg rest)
  then show ?case by (cases seg) (auto simp: bit.conj_disj_distrib)
qed simp

text \<open>One step of the write loop.\<close>

lemma write_segments_step:
  fixes x :: u64
  assumes "segment_ok seg" and "unat rem = unat (segment_width seg) + m" and "m < 64"
  defines "part \<equiv> take_bit (unat (segment_width seg)) (drop_bit m x)"
  shows "write_segments d t (seg # rest) c x rem =
    (case seg of
       Slice s \<Rightarrow> write_segments d t rest (put_slice s part c) x (rem - segment_width seg)
     | Literal v w \<Rightarrow>
         if part \<noteq> seg_part c seg
         then Inl (LiteralMismatch (v AND mask_for_width (ucast w)) part w)
         else write_segments d t rest c x (rem - segment_width seg))"
    and "unat (rem - segment_width seg) = m"
proof -
  have le: "segment_width seg \<le> rem" using assms(2) by (simp add: word_le_nat_alt)
  show m: "unat (rem - segment_width seg) = m"
    using le assms(2) by (simp add: unat_sub)
  have not_less: "\<not> rem < segment_width seg" using le by simp
  have p: "shr x (unat (rem - segment_width seg)) AND mask_for_width (segment_width seg) = part"
    unfolding m part_def using assms(3)
    by (simp add: shr_eq_drop_bit mask_for_width_eq take_bit_eq_mask)
  show "write_segments d t (seg # rest) c x rem =
    (case seg of
       Slice s \<Rightarrow> write_segments d t rest (put_slice s part c) x (rem - segment_width seg)
     | Literal v w \<Rightarrow>
         if part \<noteq> seg_part c seg
         then Inl (LiteralMismatch (v AND mask_for_width (ucast w)) part w)
         else write_segments d t rest c x (rem - segment_width seg))"
  proof (cases seg)
    case (Slice s)
    then show ?thesis using not_less p
      by (simp add: Let_def put_slice_def)
  next
    case (Literal v w)
    have "v AND mask_for_width (ucast w) = take_bit (unat w) v"
      by (simp add: mask_for_width_eq take_bit_eq_mask)
    then show ?thesis using Literal not_less p by (simp add: Let_def)
  qed
qed

lemma field_split:
  fixes x :: u64
  shows "unat (take_bit n (drop_bit m x)) * 2 ^ m + unat x mod 2 ^ m = unat x mod 2 ^ (n + m)"
  using mod_mult2_eq [of "unat x" "2 ^ m" "2 ^ n"]
  by (simp only: unat_field power_add) (simp add: mult.commute)

lemma write_segments_sound:
  assumes "list_all segment_ok segs" and "disjoint_slices (slices segs)"
    and "nwidth segs \<le> 64" and "unat rem = nwidth segs"
    and "write_segments d t segs c x rem = Inr (c', r)"
  shows "r = 0 \<and> seg_value c' segs = unat x mod 2 ^ nwidth segs \<and>
    (\<forall>i. \<not> bit (slices_mask segs) i \<longrightarrow> bit c' i = bit c i)"
  using assms
proof (induction segs arbitrary: c rem)
  case Nil
  then show ?case by (simp add: unat_eq_zero)
next
  case (Cons seg rest)
  define n where "n = unat (segment_width seg)"
  define m where "m = nwidth rest"
  define part where "part = take_bit n (drop_bit m x)"
  have ok: "segment_ok seg" "list_all segment_ok rest" using Cons.prems by simp_all
  have nm: "0 < n" "n + m \<le> 64" "unat rem = n + m"
    using segment_ok_width [OF ok(1)] Cons.prems by (simp_all add: n_def m_def)
  have m64: "m < 64" using nm by simp
  note step = write_segments_step(1) [where x = x, OF ok(1) nm(3) [unfolded n_def] m64,
      folded n_def part_def] write_segments_step(2) [OF ok(1) nm(3) [unfolded n_def] m64]
  have goal: "unat part * 2 ^ m + unat x mod 2 ^ m = unat x mod 2 ^ (n + m)"
    unfolding part_def by (rule field_split)
  show ?case
  proof (cases seg)
    case (Slice s)
    have dis: "disjoint_slices (slices rest)" "bs_mask s AND slices_mask rest = 0"
      using Cons.prems(2) Slice by (simp_all add: disjoint_slices_mask)
    have run: "write_segments d t rest (put_slice s part c) x (rem - segment_width seg) = Inr (c', r)"
      using Cons.prems(5) [unfolded step(1)] by (simp add: Slice part_def)
    have ih: "r = 0" "seg_value c' rest = unat x mod 2 ^ m"
      "\<And>i. \<not> bit (slices_mask rest) i \<Longrightarrow> bit c' i = bit (put_slice s part c) i"
      using Cons.IH [OF ok(2) dis(1) _ _ run] nm(2) step(2) by (simp_all add: m_def)
    have so: "bit_slice_ok s" using ok Slice by simp
    have out: "\<not> bit (slices_mask rest) i" if "bit (bs_mask s) i" for i
      using dis(2) that by (metis bit_and_iff bit_0_eq bot_apply bot_bool_def)
    have "seg_part c' seg = part"
    proof (rule bit_word_eqI)
      fix i assume "i < LENGTH(64)"
      show "bit (seg_part c' seg) i = bit part i"
      proof (cases "i < n")
        case True
        have "bit (bs_mask s) (unat (bs_offset s) + i)"
          using True so Slice by (simp add: bit_bs_mask n_def)
        then have "bit c' (unat (bs_offset s) + i) = bit part i"
          using ih(3) [OF out] so True Slice by (simp add: bit_put_slice n_def)
        then show ?thesis using True Slice by (simp add: bit_simps n_def)
      qed (simp add: Slice part_def bit_simps n_def)
    qed
    moreover have "bit c' i = bit c i" if "\<not> bit (slices_mask (seg # rest)) i" for i
      using that ih(3) [of i] so Slice by (auto simp: bit_simps bit_put_slice bit_bs_mask)
    ultimately show ?thesis
      using ih goal by (simp add: n_def m_def)
  next
    case (Literal v w)
    have run: "write_segments d t rest c x (rem - segment_width seg) = Inr (c', r)"
      and part: "part = seg_part c seg"
      using Cons.prems(5) [unfolded step(1)] by (simp_all add: Literal part_def split: if_splits)
    have "r = 0 \<and> seg_value c' rest = unat x mod 2 ^ m \<and>
       (\<forall>i. \<not> bit (slices_mask rest) i \<longrightarrow> bit c' i = bit c i)"
      using Cons.IH [OF ok(2) _ _ _ run] Cons.prems(2) Literal nm(2) step(2) by (simp add: m_def)
    then show ?thesis
      using goal part by (simp add: Literal n_def m_def)
  qed
qed

lemma write_segments_complete:
  assumes "list_all segment_ok segs" and "nwidth segs \<le> 64" and "unat rem = nwidth segs"
    and "unat x mod 2 ^ nwidth segs = seg_value b segs"
  shows "\<exists>c'. write_segments d t segs c x rem = Inr (c', 0) \<and> (b = c \<longrightarrow> c' = c)"
  using assms
proof (induction segs arbitrary: c rem)
  case Nil
  then show ?case by (simp add: unat_eq_zero)
next
  case (Cons seg rest)
  define n where "n = unat (segment_width seg)"
  define m where "m = nwidth rest"
  define part where "part = take_bit n (drop_bit m x)"
  have ok: "segment_ok seg" "list_all segment_ok rest" using Cons.prems by simp_all
  have nm: "0 < n" "n + m \<le> 64" "unat rem = n + m"
    using segment_ok_width [OF ok(1)] Cons.prems by (simp_all add: n_def m_def)
  have m64: "m < 64" using nm by simp
  note step = write_segments_step(1) [where x = x, OF ok(1) nm(3) [unfolded n_def] m64,
      folded n_def part_def] write_segments_step(2) [OF ok(1) nm(3) [unfolded n_def] m64]
  have eq: "unat part * 2 ^ m + unat x mod 2 ^ m = unat (seg_part b seg) * 2 ^ m + seg_value b rest"
    using field_split [of n m x] Cons.prems(4) by (simp add: part_def n_def m_def)
  have small: "seg_value b rest < 2 ^ m" using seg_value_less [OF ok(2)] by (simp add: m_def)
  have low: "unat x mod 2 ^ m = seg_value b rest"
    using arg_cong [OF eq, of "\<lambda>v. v mod 2 ^ m"] small by simp
  then have "unat part = unat (seg_part b seg)" using eq by simp
  then have part: "part = seg_part b seg" by (simp add: word_unat_eq_iff)
  have ih: "\<exists>c'. write_segments d t rest c1 x (rem - segment_width seg) = Inr (c', 0) \<and>
      (b = c1 \<longrightarrow> c' = c1)" for c1
    using Cons.IH [OF ok(2)] nm(2) step(2) low by (simp add: m_def)
  show ?case
  proof (cases seg)
    case (Slice s)
    have "put_slice s (seg_part c seg) c = c"
      using ok(1) Slice by (intro bit_word_eqI) (auto simp: bit_put_slice bit_simps)
    then show ?thesis
      using ih [of "put_slice s (seg_part b seg) c"]
      unfolding step(1) part_def [symmetric] part by (auto simp: Slice)
  next
    case (Literal v w)
    have "take_bit n (drop_bit m x) = seg_part c seg"
      using part Literal by (simp add: part_def)
    then show ?thesis using ih [of c] unfolding step(1) by (simp add: Literal)
  qed
qed

definition pad_bits :: "bitfield_spec \<Rightarrow> nat" where
  "pad_bits spec = (case bf_pad spec of None \<Rightarrow> 0 | Some pad \<Rightarrow> unat (pad_width pad))"

definition spec_ok :: "bitfield_spec \<Rightarrow> bool" where
  "spec_ok spec \<longleftrightarrow>
     bf_segments spec \<noteq> [] \<and> list_all segment_ok (bf_segments spec) \<and>
     nwidth (bf_segments spec) + pad_bits spec \<le> 64 \<and>
     (bf_pad spec \<noteq> None \<longrightarrow> 0 < pad_bits spec)"

lemma spec_ok_widths:
  assumes "spec_ok spec"
  shows "unat (data_width spec) = nwidth (bf_segments spec)"
    and "0 < nwidth (bf_segments spec)" and "nwidth (bf_segments spec) \<le> 64"
    and "unat (total_width spec) = nwidth (bf_segments spec) + pad_bits spec"
proof -
  show n: "nwidth (bf_segments spec) \<le> 64" using assms by (simp add: spec_ok_def)
  show d: "unat (data_width spec) = nwidth (bf_segments spec)"
    using extract_data_value(3) [of spec] assms n by (simp add: spec_ok_def)
  obtain seg rest where "bf_segments spec = seg # rest"
    using assms by (cases "bf_segments spec") (auto simp: spec_ok_def)
  then show "0 < nwidth (bf_segments spec)"
    using segment_ok_width [of seg] assms by (simp add: spec_ok_def)
  show "unat (total_width spec) = nwidth (bf_segments spec) + pad_bits spec"
    using assms d
    by (auto simp: spec_ok_def total_width_def pad_bits_def unat_word_ariths(1)
        split: option.splits)
qed

text \<open>The padding check is the inverse of the padding a read applies.\<close>

text \<open>The bit-level reading of both sides: the value is the data bits, and above them the
  padding the specification asks for.\<close>

definition padded :: "bitfield_spec \<Rightarrow> nat \<Rightarrow> u64 \<Rightarrow> bool" where
  "padded spec d x \<longleftrightarrow>
     (\<forall>i \<ge> d. bit x i \<longleftrightarrow>
        i < d + pad_bits spec \<and> bit x (d - 1) \<and>
        (case bf_pad spec of None \<Rightarrow> False | Some pad \<Rightarrow> pad_kind pad = Sign))"

lemma check_pad_iff:
  assumes "spec_ok spec" and "d = nwidth (bf_segments spec)"
    and "\<forall>i \<ge> d + pad_bits spec. \<not> bit x i"
  shows "check_pad spec x = (if padded spec d x then Inr (take_bit d x) else Inl PadBitsMismatch)"
proof (cases "bf_pad spec")
  case None
  have "take_bit d x = x"
    using assms(3) None
    by (intro bit_word_eqI) (simp add: bit_simps pad_bits_def, meson not_less)
  then show ?thesis
    using None assms(3) by (auto simp: check_pad_def padded_def pad_bits_def)
next
  case (Some pad)
  have d: "unat (data_width spec) = d" "0 < d" "d + pad_bits spec \<le> 64" "0 < pad_bits spec"
    using spec_ok_widths [OF assms(1)] assms(1,2) Some by (simp_all add: spec_ok_def)
  have pos: "0 < data_width spec" using d by (simp add: word_less_nat_alt)
  have pred: "unat (data_width spec - 1) = d - 1"
    using d(1,2) pos by (metis One_nat_def unat_minus_one word_greater_zero_iff)
  have pad: "unat (pad_width pad) = pad_bits spec" using Some by (simp add: pad_bits_def)
  have masked: "x AND mask_for_width (data_width spec) = take_bit d x"
    by (simp add: mask_for_width_eq d take_bit_eq_mask)
  have zero: "shr x d = 0 \<longleftrightarrow> (\<forall>i \<ge> d. \<not> bit x i)"
    using d by (intro shr_eq_0_iff) simp
  have ones: "shr x d = mask_for_width (pad_width pad) \<longleftrightarrow>
      (\<forall>i \<ge> d. bit x i \<longleftrightarrow> i < d + pad_bits spec)"
  proof
    assume eq: "shr x d = mask_for_width (pad_width pad)"
    have "bit x i = bit (shr x d) (i - d)" if "d \<le> i" for i
      using that d by (simp add: bit_simps)
    then show "\<forall>i \<ge> d. bit x i \<longleftrightarrow> i < d + pad_bits spec"
      using d by (auto simp: eq bit_simps pad)
  next
    assume all: "\<forall>i \<ge> d. bit x i \<longleftrightarrow> i < d + pad_bits spec"
    show "shr x d = mask_for_width (pad_width pad)"
      using d all by (intro bit_word_eqI) (simp add: bit_simps pad)
  qed
  have sign: "shr x (d - 1) AND 1 = 1 \<longleftrightarrow> bit x (d - 1)"
    using d by (simp add: shr_and_one)
  show ?thesis
  proof (cases "pad_kind pad")
    case Zero
    then show ?thesis
      using Some zero masked d(1) by (simp add: check_pad_def padded_def)
  next
    case Sign
    then have "padded spec d x \<longleftrightarrow>
        shr x d = (if bit x (d - 1) then mask_for_width (pad_width pad) else 0)"
      using Some zero ones by (auto simp: padded_def)
    then show ?thesis
      using Some Sign masked d(1) pred pos sign by (simp add: check_pad_def Let_def)
  qed
qed

lemma apply_pad_iff:
  assumes "spec_ok spec" and "d = nwidth (bf_segments spec)" and "take_bit d v = v"
  shows "apply_pad spec v (data_width spec) = (x, t) \<longleftrightarrow>
    t = total_width spec \<and> take_bit d x = v \<and> padded spec d x"
proof -
  have d: "unat (data_width spec) = d" "0 < d" "d + pad_bits spec \<le> 64"
    using spec_ok_widths [OF assms(1)] assms(1,2) by (simp_all add: spec_ok_def)
  have pos: "0 < data_width spec" using d by (simp add: word_less_nat_alt)
  have pred: "unat (data_width spec - 1) = d - 1"
    using d(1,2) pos by (metis One_nat_def unat_minus_one word_greater_zero_iff)
  have sign: "shr v (d - 1) AND 1 = 1 \<longleftrightarrow> bit v (d - 1)"
    using d by (simp add: shr_and_one)
  have vb: "bit v i \<longleftrightarrow> i < d \<and> bit v i" for i
    using assms(3) by (metis bit_take_bit_iff)
  define p where "p = (case bf_pad spec of None \<Rightarrow> False | Some pad \<Rightarrow> pad_kind pad = Sign)"
  have "apply_pad spec v (data_width spec) =
      ((if p \<and> bit v (d - 1) then v OR push_bit d (mask (pad_bits spec)) else v),
       total_width spec)"
  proof (cases "bf_pad spec")
    case None
    then show ?thesis by (simp add: apply_pad_def p_def total_width_def)
  next
    case (Some pad)
    then have "0 < pad_bits spec" and pad: "unat (pad_width pad) = pad_bits spec"
      using assms(1) by (simp_all add: spec_ok_def pad_bits_def)
    then have "shl (mask_for_width (pad_width pad)) d = push_bit d (mask (pad_bits spec))"
      using d(3) by (simp add: shl_eq_push_bit mask_for_width_eq)
    then show ?thesis
      using Some d(1) pos pred sign by (simp add: apply_pad_def p_def total_width_def)
  qed
  moreover have "(if p \<and> bit v (d - 1) then v OR push_bit d (mask (pad_bits spec)) else v) = x
      \<longleftrightarrow> take_bit d x = v \<and> padded spec d x"
    (is "?y = x \<longleftrightarrow> _")
  proof -
  have y: "bit ?y i \<longleftrightarrow> (if i < d then bit v i else i < d + pad_bits spec \<and> p \<and> bit v (d - 1))" for i
    using vb [of i] d by (auto simp: bit_simps)
  show ?thesis
  proof
    assume "?y = x"
    then have x: "bit x i \<longleftrightarrow> (if i < d then bit v i else i < d + pad_bits spec \<and> p \<and> bit v (d - 1))" for i
      using y [of i] by simp
    have "take_bit d x = v"
      using vb by (intro bit_word_eqI) (auto simp: bit_simps x)
    moreover have "padded spec d x" using d(2) by (auto simp: padded_def x p_def)
    ultimately show "take_bit d x = v \<and> padded spec d x" ..
  next
    assume a: "take_bit d x = v \<and> padded spec d x"
    then have low: "i < d \<Longrightarrow> bit v i = bit x i" for i by (auto simp: bit_simps)
    have high: "d \<le> i \<Longrightarrow> bit x i \<longleftrightarrow> i < d + pad_bits spec \<and> p \<and> bit x (d - 1)" for i
      using a by (auto simp: padded_def p_def)
    show "?y = x"
    proof (rule bit_word_eqI)
      fix i assume "i < LENGTH(64)"
      then show "bit ?y i = bit x i"
        unfolding y using high [of i] low [of i] low [of "d - 1"] d(2) by simp
    qed
  qed
  qed
  ultimately show ?thesis by auto
qed

text \<open>What a read returns, and what a write does, in these terms.\<close>

lemma bf_read_bits_iff:
  assumes "spec_ok spec" and "d = nwidth (bf_segments spec)"
  shows "bf_read_bits spec b = (x, t) \<longleftrightarrow>
    t = total_width spec \<and> unat x mod 2 ^ d = seg_value b (bf_segments spec) \<and> padded spec d x"
proof -
  have segs: "list_all segment_ok (bf_segments spec)" and d: "d \<le> 64"
    using assms spec_ok_widths [OF assms(1)] by (simp_all add: spec_ok_def)
  define v where "v = fst (extract_data spec b)"
  have v: "unat v = seg_value b (bf_segments spec)"
    and e: "extract_data spec b = (v, data_width spec)"
    using extract_data_value [OF segs] d assms(2) by (simp_all add: v_def prod_eq_iff)
  have vd: "take_bit d v = v"
  proof -
    have "unat v < 2 ^ d" using seg_value_less [OF segs, of b] by (simp add: v assms(2))
    then show ?thesis by (metis mod_less take_bit_eq_mod unsigned_take_bit_eq word_unat_eq_iff)
  qed
  have "take_bit d x = v \<longleftrightarrow> unat x mod 2 ^ d = seg_value b (bf_segments spec)"
    by (metis v take_bit_eq_mod unsigned_take_bit_eq word_unat_eq_iff)
  then show ?thesis
    using apply_pad_iff [OF assms vd, of x t] by (simp add: bf_read_bits_def e)
qed

lemma fits_iff:
  fixes x :: u64
  assumes "spec_ok spec" and "k = nwidth (bf_segments spec) + pad_bits spec"
  shows "(total_width spec < 64 \<and> shr x (unat (total_width spec)) \<noteq> 0) \<longleftrightarrow> (\<exists>i \<ge> k. bit x i)"
proof -
  have k: "unat (total_width spec) = k" "k \<le> 64"
    using spec_ok_widths [OF assms(1)] assms by (simp_all add: spec_ok_def)
  have "\<not> bit x i" if "64 \<le> i" for i using that bit_imp_le_length [of x i] by auto
  then show ?thesis
    using k by (cases "k < 64") (auto simp: word_less_nat_alt shr_eq_0_iff)
qed

lemma bf_write_bits_eq:
  assumes "spec_ok spec" and "d = nwidth (bf_segments spec)"
  shows "bf_write_bits spec c x =
    (if \<exists>i \<ge> d + pad_bits spec. bit x i then Inl (ValueTooWide (total_width spec) (total_width spec))
     else if \<not> padded spec d x then Inl PadBitsMismatch
     else rbind (write_segments (data_width spec) (total_width spec) (bf_segments spec) c
                   (take_bit d x) (data_width spec))
            (\<lambda>(c', r). if r \<noteq> 0 then Inl (ValueTooWide (data_width spec) (total_width spec))
                     else Inr c'))"
proof -
  have "total_width spec \<noteq> 0"
    using spec_ok_widths [OF assms(1)] by (metis add_is_0 less_irrefl unat_0)
  moreover have fits: "(total_width spec < 64 \<and> shr x (unat (total_width spec)) \<noteq> 0) \<longleftrightarrow>
      (\<exists>i \<ge> d + pad_bits spec. bit x i)"
    using fits_iff [OF assms(1) refl, of x] assms(2) by simp
  ultimately show ?thesis
    unfolding bf_write_bits_def Let_def fits
    by (cases "\<exists>i \<ge> d + pad_bits spec. bit x i")
      (simp_all del: not_ex, simp add: check_pad_iff [OF assms])
qed

lemma bitfield_write_then_read:
  assumes ok: "spec_ok spec" and dis: "disjoint_slices (slices (bf_segments spec))"
    and w: "bf_write_bits spec c x = Inr c'"
  shows "bf_read_bits spec c' = (x, total_width spec)"
    and "\<not> bit (slices_mask (bf_segments spec)) i \<Longrightarrow> bit c' i = bit c i"
proof -
  define d where "d = nwidth (bf_segments spec)"
  note sw = spec_ok_widths [OF ok]
  obtain r where pad: "padded spec d x"
    and run: "write_segments (data_width spec) (total_width spec) (bf_segments spec) c
                (take_bit d x) (data_width spec) = Inr (c', r)"
    using w unfolding bf_write_bits_eq [OF ok d_def]
    by (auto simp: rbind_Inr_iff split: if_splits)
  have "list_all segment_ok (bf_segments spec)" using ok by (simp add: spec_ok_def)
  from write_segments_sound [OF this dis sw(3,1) run]
  have v: "seg_value c' (bf_segments spec) = unat x mod 2 ^ d"
    and frame: "\<not> bit (slices_mask (bf_segments spec)) i \<Longrightarrow> bit c' i = bit c i"
    by (simp_all add: d_def unat_field [where m = 0, simplified])
  show "bf_read_bits spec c' = (x, total_width spec)"
    using v pad by (simp add: bf_read_bits_iff [OF ok d_def])
  show "\<not> bit (slices_mask (bf_segments spec)) i \<Longrightarrow> bit c' i = bit c i" by (rule frame)
qed

lemma bitfield_read_then_write:
  assumes ok: "spec_ok spec"
  shows "\<exists>c'. bf_write_bits spec c (fst (bf_read_bits spec b)) = Inr c' \<and> (b = c \<longrightarrow> c' = c)"
proof -
  define d where "d = nwidth (bf_segments spec)"
  obtain x t where r: "bf_read_bits spec b = (x, t)" by force
  note sw = spec_ok_widths [OF ok]
  have x: "unat x mod 2 ^ d = seg_value b (bf_segments spec)" and pad: "padded spec d x"
    using r by (simp_all add: bf_read_bits_iff [OF ok d_def])
  then have fits: "\<not> (\<exists>i \<ge> d + pad_bits spec. bit x i)" by (auto simp: padded_def)
  have "list_all segment_ok (bf_segments spec)" using ok by (simp add: spec_ok_def)
  from write_segments_complete [OF this sw(3,1), of "take_bit d x" b "data_width spec" "total_width spec" c]
  obtain c' where "write_segments (data_width spec) (total_width spec) (bf_segments spec) c
      (take_bit d x) (data_width spec) = Inr (c', 0)" and "b = c \<longrightarrow> c' = c"
    using x by (auto simp: d_def unat_field [where m = 0, simplified])
  then show ?thesis
    using pad fits r by (auto simp: bf_write_bits_eq [OF ok d_def])
qed

lemma read_signed_value:
  assumes ok: "spec_ok spec" and "d = nwidth (bf_segments spec)" and "is_signed spec"
    and "m = int (seg_value b (bf_segments spec))"
  shows "sint (read_signed spec b) =
    (if m < 2 ^ (d - 1) \<or> (\<exists>pad. bf_pad spec = Some pad \<and> pad_kind pad = Zero) then m
     else m - 2 ^ d)"
proof -
  obtain x t where r: "bf_read_bits spec b = (x, t)" by force
  define sx where "sx = (\<forall>pad. bf_pad spec = Some pad \<longrightarrow> pad_kind pad = Sign)"
  note sw = spec_ok_widths [OF ok]
  have t: "unat t = d + pad_bits spec" "0 < d" "d + pad_bits spec \<le> 64"
    and x: "unat x mod 2 ^ d = seg_value b (bf_segments spec)" and pad: "padded spec d x"
    using r sw ok assms(2) by (simp_all add: bf_read_bits_iff [OF ok assms(2)] spec_ok_def)
  have tw: "t \<noteq> 0" "min t 64 = t" using t by (auto simp: min_def word_le_nat_alt)
  have rs: "read_signed spec b = signed_take_bit (d + pad_bits spec - 1) x"
    using t tw assms(3) by (simp add: read_signed_def r Let_def sar_shl)
  have mx: "m = take_bit d (uint x)"
    by (simp add: assms(4) x [symmetric] take_bit_eq_mod zmod_int)
  have md: "m < 2 ^ d" "0 \<le> m" by (simp_all add: mx)
  have top: "m < 2 ^ (d - 1) \<longleftrightarrow> \<not> bit m (d - 1)"
    using md t(2) by (intro int_top_bit) simp_all
  have mbit: "i < d \<Longrightarrow> bit m i = bit x i" "d \<le> i \<Longrightarrow> \<not> bit m i" for i
    by (auto simp: mx bit_simps)
  have hi: "d \<le> i \<Longrightarrow> bit x i \<longleftrightarrow> i < d + pad_bits spec \<and> bit x (d - 1) \<and>
      (case bf_pad spec of None \<Rightarrow> False | Some pad \<Rightarrow> pad_kind pad = Sign)" for i
    using pad by (auto simp: padded_def)
  define k where "k = d + pad_bits spec - 1"
  have s: "sint (read_signed spec b) = signed_take_bit k (uint x)"
    using t by (simp add: rs sint_signed_take_bit k_def)
  have sb: "bit (signed_take_bit k (uint x)) i = bit x (min i k)" for i
    by (auto simp: bit_simps min_def)
  show ?thesis
  proof (cases sx)
    case True
    have "signed_take_bit k (uint x) = signed_take_bit (d - 1) m"
    proof (rule bit_eqI)
      fix i
      have xk: "bit x (min i k) = bit x (min i (d - 1))"
      proof (cases "d \<le> min i k")
        case dk: True
        then have "bf_pad spec \<noteq> None"
          using t(2) by (cases "bf_pad spec") (auto simp: k_def pad_bits_def)
        moreover have "min i k < d + pad_bits spec" using t(2) by (auto simp: k_def min_def)
        ultimately have "bf_pad spec \<noteq> None" and "min i k < d + pad_bits spec" by simp_all
        moreover have "min i (d - 1) = d - 1" using dk t(2) by (auto simp: min_def split: if_splits)
        ultimately show ?thesis using hi [OF dk] True by (auto simp: sx_def)
      next
        case False
        then have "min i k = min i (d - 1)" using t(2) by (auto simp: k_def)
        then show ?thesis by simp
      qed
      have "bit (signed_take_bit (d - 1) m) i = bit m (min i (d - 1))"
        by (simp add: bit_signed_take_bit_iff min.commute)
      also have "\<dots> = bit x (min i (d - 1))" using t(2) by (intro mbit(1)) simp
      finally show "bit (signed_take_bit k (uint x)) i = bit (signed_take_bit (d - 1) m) i"
        by (simp only: sb xk)
    qed
    also have "\<dots> = m - 2 ^ d * of_bool (bit m (d - 1))"
      using t(2) md by (simp add: signed_take_bit_eq_take_bit_minus take_bit_int_eq_self)
    finally show ?thesis using True top s by (auto simp: sx_def)
  next
    case False
    then obtain p where p: "bf_pad spec = Some p" "pad_kind p = Zero"
      by (metis pad_kind.exhaust sx_def)
    then have dk: "d \<le> k" using ok t(2) by (auto simp: spec_ok_def k_def)
    have "signed_take_bit k (uint x) = m"
    proof (rule bit_eqI)
      fix i
      show "bit (signed_take_bit k (uint x)) i = bit m i"
        using hi [of "min i k"] dk p mbit [of i]
        by (cases "i < d") (simp_all add: sb)
    qed
    then show ?thesis using s p by auto
  qed
qed

section \<open>What the parser accepts\<close>

text \<open>Constructors and the parser establish the invariant.\<close>

lemma bit_slice_new_ok:
  assumes "bit_slice_new offset width = Inr s"
  shows "bit_slice_ok s" and "bs_offset s = offset" and "unat (bs_width s) = unat width"
proof -
  have w: "width \<noteq> 0" "\<not> 64 < width" "\<not> 64 \<le> offset" "\<not> 64 < offset + width"
    and s: "s = \<lparr>bs_offset = offset, bs_width = ucast width,
                 bs_mask = shl (mask_for_width width) (unat offset)\<rparr>"
    using assms by (auto simp: bit_slice_new_def max_bitfield_bits_def split: if_splits)
  have wn: "0 < unat width" "unat width \<le> 64" "unat offset < 64"
    using w by (simp_all add: word_less_nat_alt word_le_nat_alt unat_gt_0)
  then have "unat (offset + width) = unat offset + unat width"
    by (simp add: unat_word_ariths(1))
  then have fit: "unat offset + unat width \<le> 64" using w(4) by (simp add: word_less_nat_alt)
  have u8: "unat (ucast width :: u8) = unat width" using wn by (simp add: unat_ucast)
  then have "(ucast (ucast width :: u8) :: u16) = width" by (simp add: word_unat_eq_iff)
  then show "bit_slice_ok s" using wn fit u8 by (simp add: bit_slice_ok_def s)
  show "bs_offset s = offset" and "unat (bs_width s) = unat width" by (simp_all add: s u8)
qed

lemma bit_slice_new_total:
  assumes "0 < unat width" and "unat offset + unat width \<le> 64"
  shows "\<exists>s. bit_slice_new offset width = Inr s"
proof -
  have "unat (offset + width) = unat offset + unat width"
    using assms by (simp add: unat_word_ariths(1))
  then have "width \<noteq> 0" "\<not> 64 < width" "\<not> 64 \<le> offset" "\<not> 64 < offset + width"
    using assms by (auto simp: word_less_nat_alt word_le_nat_alt)
  then show ?thesis by (simp add: bit_slice_new_def max_bitfield_bits_def)
qed

definition segment_within :: "nat \<Rightarrow> bitfield_segment \<Rightarrow> bool" where
  "segment_within n seg =
     (case seg of Slice s \<Rightarrow> unat (bs_offset s) + unat (bs_width s) \<le> n | Literal v w \<Rightarrow> True)"

lemma msb_range_ok:
  assumes "msb_range_to_lsb_offset start stop n = Inr (offset, width)" and "start \<le> stop"
  shows "unat offset = unat n - 1 - unat stop" and "unat width = unat stop - unat start + 1"
    and "unat stop < unat n"
proof -
  have lt: "start < n" "stop < n" and o: "offset = n - 1 - stop" and w: "width = stop - start + 1"
    using assms by (auto simp: msb_range_to_lsb_offset_def not_le split: if_splits)
  show s: "unat stop < unat n" using lt by (simp add: word_less_nat_alt)
  have n1: "unat (n - 1) = unat n - 1"
    using s by (metis One_nat_def gr_implies_not0 unat_0 unat_minus_one)
  have "stop \<le> n - 1" using lt by (simp add: word_less_le_minus_one)
  then show "unat offset = unat n - 1 - unat stop" by (simp add: o unat_sub n1)
  have d: "unat (stop - start) = unat stop - unat start" using assms(2) by (simp add: unat_sub)
  have "unat stop - unat start + 1 < 2 ^ 16"
    using s unsigned_less [of n, where 'a = nat] by simp
  then show "unat width = unat stop - unat start + 1"
    by (simp add: w unat_word_ariths(1) d)
qed

fun token_ok :: "segment_token \<Rightarrow> bool" where
  "token_ok (LiteralToken v w) = True"
| "token_ok (RangeToken a b) = (a \<le> b)"

lemma lower_token_ok:
  assumes "lower_token n t = Inr seg" and "token_ok t"
  shows "segment_ok seg" and "segment_within (unat n) seg"
proof -
  have "segment_ok seg \<and> segment_within (unat n) seg"
  proof (cases t)
    case (LiteralToken v w)
    then have "seg = Literal v w" "w \<noteq> 0" "\<not> 64 < (ucast w :: u16)"
      using assms by (auto simp: lower_token_def max_bitfield_bits_def split: if_splits)
    then show ?thesis
      by (simp add: segment_within_def word_less_nat_alt word_le_nat_alt unat_gt_0)
  next
    case (RangeToken a b)
    then obtain off w s where m: "msb_range_to_lsb_offset a b n = Inr (off, w)"
      and s: "bit_slice_new off w = Inr s" and seg: "seg = Slice s"
      using assms by (auto simp: lower_token_def rbind_Inr_iff)
    have "a \<le> b" using RangeToken assms(2) by simp
    note mr = msb_range_ok [OF m this]
    show ?thesis
      using bit_slice_new_ok [OF s] mr by (simp add: seg segment_within_def)
  qed
  then show "segment_ok seg" and "segment_within (unat n) seg" by simp_all
qed

lemma lower_tokens_ok:
  "lower_tokens n ts = Inr segs \<Longrightarrow> list_all token_ok ts \<Longrightarrow>
     list_all segment_ok segs \<and> list_all (segment_within (unat n)) segs \<and>
     length segs = length ts"
proof (induction ts arbitrary: segs)
  case (Cons t ts)
  then show ?case by (auto simp: rbind_Inr_iff lower_token_ok)
qed simp

lemma parse_range_ordered: "parse_range t = Inr (a, b) \<Longrightarrow> a \<le> b"
  by (auto simp: parse_range_def Let_def rbind_Inr_iff not_less
      split: option.splits if_splits)

lemma scan_tokens_ok:
  "scan_tokens ts pad raw = Inr (pad', raw') \<Longrightarrow> list_all token_ok raw \<Longrightarrow>
     list_all token_ok raw' \<and> length raw' \<le> length raw + length ts"
proof (induction ts arbitrary: pad raw)
  case Nil
  then show ?case by simp
next
  case (Cons t ts)
  consider pad2 where "scan_tokens ts pad2 raw = Inr (pad', raw')"
    | tok where "scan_tokens ts pad (raw @ [tok]) = Inr (pad', raw')" and "token_ok tok"
    using Cons.prems(1)
    by (auto simp: Let_def rbind_Inr_iff dest!: parse_range_ordered
        split: if_splits option.splits)
  then show ?case
  proof cases
    case (1 pad2)
    from Cons.IH [OF this Cons.prems(2)] show ?thesis by simp
  next
    case (2 tok)
    then have "list_all token_ok (raw @ [tok])" using Cons.prems(2) by simp
    from Cons.IH [OF 2(1) this] show ?thesis by simp
  qed
qed

lemma nwidth_bound: "list_all segment_ok segs \<Longrightarrow> nwidth segs \<le> 64 * length segs"
proof (induction segs)
  case (Cons seg rest)
  then show ?case using segment_ok_width [of seg] by simp
qed simp

lemma length_extract_spec_body: "extract_spec_body s = Inr body \<Longrightarrow> length body \<le> length s"
  using length_trim [of s]
  by (auto simp: extract_spec_body_def Let_def strip_prefix_def strip_suffix_def
      split: option.splits if_splits)

lemma finish_pad_ok:
  assumes "finish_pad n pad spec = Inr result" and "bf_pad spec = None"
    and "unat (data_width spec) = nwidth (bf_segments spec)"
  shows "bf_segments result = bf_segments spec"
    and "bf_pad result \<noteq> None \<longrightarrow>
       0 < pad_bits result \<and> nwidth (bf_segments spec) + pad_bits result = unat n"
  using assms
  by (auto simp: finish_pad_def Let_def pad_bits_def not_less word_le_nat_alt unat_sub
      word_less_nat_alt split: option.splits if_splits)

lemma from_spec_str_ok:
  assumes "from_spec_str container n s = Inr spec" and "length s < 1023"
  shows "spec_ok spec" and "list_all (segment_within (unat n)) (bf_segments spec)"
    and "bf_pad spec \<noteq> None \<longrightarrow> unat (total_width spec) = unat n"
proof -
  obtain body pad raw segs base where n: "n \<noteq> 0" "\<not> 64 < n"
    and body: "extract_spec_body s = Inr body"
    and scan: "scan_tokens (split_char CHR ''|'' body) None [] = Inr (pad, raw)"
    and raw: "raw \<noteq> []" and lower: "lower_tokens n raw = Inr segs"
    and base: "base = \<lparr>bf_container = container, bf_segments = segs, bf_pad = None,
                      bf_signed = False\<rparr>"
    and fin: "finish_pad n pad base = Inr spec" and tot: "\<not> 64 < total_width spec"
    using assms(1)
    by (auto simp: from_spec_str_def rbind_Inr_iff max_bitfield_bits_def split: if_splits)
  have "list_all token_ok raw" and "length raw \<le> 1023"
    using scan_tokens_ok [OF scan] length_split_char [of "CHR ''|''" body]
      length_extract_spec_body [OF body] assms(2) by simp_all
  then have segs: "list_all segment_ok segs" "list_all (segment_within (unat n)) segs"
    "length segs \<le> 1023" "segs \<noteq> []"
    using lower_tokens_ok [OF lower] raw by auto
  then have "nwidth segs < 2 ^ 16" using nwidth_bound [of segs] by simp
  then have d: "unat (data_width base) = nwidth (bf_segments base)"
    unfolding data_width_def by (simp add: base unat_sum_widths)
  note fp = finish_pad_ok [OF fin _ d]
  have bs: "bf_segments spec = segs" using fp(1) by (simp add: base)
  have n64: "unat n \<le> 64" using n by (simp add: word_less_nat_alt)
  have dw: "data_width spec = data_width base" by (simp add: data_width_def bs base)
  have pd: "bf_pad spec \<noteq> None \<Longrightarrow> 0 < pad_bits spec \<and> nwidth segs + pad_bits spec = unat n"
    using fp(2) by (simp add: base)
  have t: "unat (total_width spec) = nwidth segs + pad_bits spec"
  proof (cases "bf_pad spec")
    case None
    then show ?thesis using d by (simp add: total_width_def dw base pad_bits_def)
  next
    case (Some p)
    then have "nwidth segs + pad_bits spec \<le> 64" using pd n64 by simp
    then show ?thesis
      using Some d by (simp add: total_width_def dw base pad_bits_def unat_word_ariths(1))
  qed
  then have "nwidth segs + pad_bits spec \<le> 64" using tot by (simp add: word_less_nat_alt)
  then show "spec_ok spec" using segs pd by (simp add: spec_ok_def bs)
  show "list_all (segment_within (unat n)) (bf_segments spec)" using segs by (simp add: bs)
  show "bf_pad spec \<noteq> None \<longrightarrow> unat (total_width spec) = unat n"
    using pd t by simp
qed

text \<open>Parsing a printed specification.\<close>

lemma parse_number_decimal:
  assumes "n < 2 ^ 16"
  shows "parse_number (to_radix 10 n) = Inr (of_nat n)"
proof -
  have "strip_prefix [CHR ''0'', q] (to_radix 10 n) = None"
    if "q = CHR ''b'' \<or> q = CHR ''o'' \<or> q = CHR ''x''" for q
    using no_radix_prefix [of "to_radix 10 n" q "[]"] decimal_no_letters that by fastforce
  moreover have "from_str_radix 10 (to_radix 10 n) = Some (of_nat n :: u16)"
    using assms by (intro from_str_radix_to_radix) simp_all
  ultimately show ?thesis by (simp add: parse_number_def)
qed

definition range_text :: "nat \<Rightarrow> nat \<Rightarrow> string" where
  "range_text a b = to_radix 10 a @ ''..'' @ to_radix 10 b"

lemma range_text_chars:
  "c \<in> set (range_text a b) \<Longrightarrow> is_alnum c \<or> c = CHR ''.''"
  using to_radix_alnum [of 10 c] by (auto simp: range_text_def)

lemma parse_range_text:
  assumes "a \<le> b" and "b < 2 ^ 16"
  shows "parse_range (range_text a b) = Inr (of_nat a, of_nat b)"
proof -
  have t: "trim (range_text a b) = range_text a b"
    by (rule trim_id) (auto dest!: range_text_chars is_alnum_not_whitespace simp: is_whitespace_def)
  have "CHR ''.'' \<notin> set (to_radix 10 a)"
    using to_radix_alnum [of 10 "CHR ''.''" a] by (auto simp: is_alnum_def)
  then have "split_once ''..'' (range_text a b) = Some (to_radix 10 a, to_radix 10 b)"
    unfolding range_text_def by (intro split_once_append) simp_all
  moreover have "\<not> (of_nat b :: u16) < of_nat a"
    using assms by (simp add: word_less_nat_alt unat_of_nat_fits)
  ultimately show ?thesis
    using assms by (simp add: parse_range_def t decimal_trim parse_number_decimal)
qed

lemma parse_literal_binary:
  assumes "0 < k" and "k \<le> 64" and "v < 2 ^ k"
  shows "bf_parse_literal (''0b'' @ to_binary k v) = Inr (Some (of_nat v, of_nat k))"
proof -
  have t: "trim (to_binary k v) = to_binary k v"
    by (rule trim_id) (auto dest: to_binary_alnum is_alnum_not_whitespace)
  have ne: "to_binary k v \<noteq> []" using assms by (metis length_to_binary less_irrefl list.size(3))
  then have "is_alnum (hd (to_binary k v))" using to_binary_alnum hd_in_set by blast
  then have "hd (to_binary k v) \<noteq> CHR ''+'' \<and> hd (to_binary k v) \<noteq> CHR ''-''"
    using is_alnum_not_punct by blast
  then have "hd (to_binary k v) \<noteq> CHR ''+''" "to_binary k v \<noteq> ''-''" by (blast, metis list.sel(1))
  then have "from_str_radix 2 (to_binary k v) = (radix_digits 2 0 (to_binary k v) :: u64 option)"
    using ne by (intro from_str_radix_no_sign)
  moreover have "v < 2 ^ 64" using assms power_increasing [of k 64 "2::nat"] by simp
  then have "radix_digits 2 (0 :: u64) (to_binary k v) = Some (of_nat v)"
    using assms(3) by (simp add: radix_digits_eq digits_value_to_binary)
  ultimately show ?thesis using assms ne by (simp add: bf_parse_literal_def t)
qed

lemma scan_range_literal:
  assumes "a \<le> b" and "b < 2 ^ 16" and "0 < k" and "k \<le> 64" and "v < 2 ^ k"
  shows "scan_tokens [range_text a b, ''0b'' @ to_binary k v] None [] =
    Inr (None, [RangeToken (of_nat a) (of_nat b), LiteralToken (of_nat v) (of_nat k)])"
proof -
  have t: "trim (range_text a b) = range_text a b"
    by (rule trim_id) (auto dest!: range_text_chars is_alnum_not_whitespace simp: is_whitespace_def)
  have tl: "trim (''0b'' @ to_binary k v) = ''0b'' @ to_binary k v"
    using is_alnum_not_whitespace [OF to_binary_alnum]
    by (intro trim_id) (auto simp: is_whitespace_def [of "CHR ''0''"] is_whitespace_def [of "CHR ''b''"])
  have ne: "range_text a b \<noteq> []" by (simp add: range_text_def)
  have "is_alnum (hd (range_text a b))"
    using to_radix_alnum [of 10 "hd (to_radix 10 a)" a] by (simp add: range_text_def)
  then have pad: "parse_pad (range_text a b) = Inr None"
    using ne by (cases "range_text a b") (auto simp: parse_pad_def is_alnum_def)
  have lit: "bf_parse_literal (range_text a b) = Inr None"
    using no_radix_prefix [of "to_radix 10 a" "CHR ''b''" "''..'' @ to_radix 10 b" "CHR ''0''"]
      decimal_no_letters [of "CHR ''b''" a]
    by (fastforce simp: bf_parse_literal_def range_text_def)
  have padl: "parse_pad (''0b'' @ to_binary k v) = Inr None" by (simp add: parse_pad_def)
  show ?thesis
    using parse_range_text [OF assms(1,2)] parse_literal_binary [OF assms(3,4,5)] ne
    by (simp add: t tl [simplified] pad lit padl [simplified])
qed

definition spec_text :: "nat \<Rightarrow> nat \<Rightarrow> nat \<Rightarrow> nat \<Rightarrow> string" where
  "spec_text a b k v = ''@('' @ range_text a b @ ''|0b'' @ to_binary k v @ '')''"

lemma extract_spec_text:
  "extract_spec_body (spec_text a b k v) = Inr (range_text a b @ ''|0b'' @ to_binary k v)"
proof -
  have "trim ([] @ spec_text a b k v @ []) = spec_text a b k v"
    by (rule trim_surround) (simp_all add: spec_text_def is_whitespace_def)
  moreover have "strip_suffix '')'' (range_text a b @ ''|0b'' @ to_binary k v @ '')'') =
      Some (range_text a b @ ''|0b'' @ to_binary k v)"
    using strip_suffix_append [of "'')''" "range_text a b @ ''|0b'' @ to_binary k v"] by simp
  ultimately show ?thesis
    by (simp add: extract_spec_body_def spec_text_def)
qed

lemma split_spec_text:
  "split_char (CHR ''|'') (range_text a b @ ''|0b'' @ to_binary k v) =
     [range_text a b, ''0b'' @ to_binary k v]"
proof -
  have "CHR ''|'' \<notin> set (range_text a b)"
    using range_text_chars [of "CHR ''|''" a b] by (auto simp: is_alnum_def)
  moreover have "CHR ''|'' \<notin> set (''0b'' @ to_binary k v)"
    using to_binary_alnum [of "CHR ''|''" k v] by (auto simp: is_alnum_def)
  ultimately show ?thesis
    using split_char_append [of "CHR ''|''" "range_text a b" "''0b'' @ to_binary k v"]
      split_char_none [of "CHR ''|''" "''0b'' @ to_binary k v"] by simp
qed

lemma parsed_range_literal:
  assumes "a \<le> b" and "b < n" and "n \<le> 64" and "0 < k" and "b - a + 1 + k \<le> 64" and "v < 2 ^ k"
  obtains spec where "from_spec_str c (of_nat n) (spec_text a b k v) = Inr spec" and "spec_ok spec"
    and "bf_pad spec = None" and "bf_signed spec = False"
    and "nwidth (bf_segments spec) = b - a + 1 + k"
    and "\<And>bits. seg_value bits (bf_segments spec) =
      unat bits div 2 ^ (n - 1 - b) mod 2 ^ (b - a + 1) * 2 ^ k + v"
proof -
  have un: "unat (of_nat n :: u16) = n" "unat (of_nat a :: u16) = a" "unat (of_nat b :: u16) = b"
    "unat (of_nat k :: u8) = k"
    using assms by (simp_all add: unat_of_nat_fits)
  have "k \<le> 64" using assms by simp
  then have "v < 2 ^ 64" using assms(6) power_increasing [of k 64 "2::nat"] by simp
  then have uv: "unat (of_nat v :: u64) = v" by (rule unat_of_nat_u64)
  have ab: "(of_nat a :: u16) \<le> of_nat b" using assms un by (simp add: word_le_nat_alt)
  obtain off w where m: "msb_range_to_lsb_offset (of_nat a) (of_nat b) (of_nat n) = Inr (off, w)"
    using assms un by (simp add: msb_range_to_lsb_offset_def word_le_nat_alt)
  have off: "unat off = n - 1 - b" and w: "unat w = b - a + 1"
    using msb_range_ok [OF m ab] by (simp_all add: un)
  have "unat off + unat w \<le> 64" unfolding off w using assms(1,2,3) by linarith
  then obtain s where s: "bit_slice_new off w = Inr s"
    using bit_slice_new_total [of w off] w by auto
  note sn = bit_slice_new_ok [OF s]
  define segs where "segs = [Slice s, Literal (of_nat v) (of_nat k)]"
  have k8: "(of_nat k :: u8) \<noteq> 0" "\<not> 64 < (ucast (of_nat k :: u8) :: u16)"
    using assms un by (auto simp: word_less_nat_alt dest: arg_cong [of _ 0 unat])
  have lower: "lower_tokens (of_nat n) [RangeToken (of_nat a) (of_nat b), LiteralToken (of_nat v) (of_nat k)]
      = Inr segs"
    using k8 by (simp add: lower_token_def m s segs_def max_bitfield_bits_def)
  define spec where "spec = \<lparr>bf_container = c, bf_segments = segs, bf_pad = None, bf_signed = False\<rparr>"
  have segs_ok: "list_all segment_ok segs"
    using sn(1) assms un k8 by (simp add: segs_def word_neq_0_conv)
  have nw: "nwidth segs = b - a + 1 + k" using sn(3) w un by (simp add: segs_def)
  then have ok: "spec_ok spec" 
    using segs_ok assms by (simp add: spec_ok_def spec_def pad_bits_def segs_def)
  have tot: "unat (total_width spec) = b - a + 1 + k"
    using spec_ok_widths(4) [OF ok] nw by (simp add: spec_def pad_bits_def)
  have n: "(of_nat n :: u16) \<noteq> 0" "\<not> 64 < (of_nat n :: u16)"
    using assms un by (auto simp: word_less_nat_alt dest: arg_cong [of _ 0 unat])
  have t64: "\<not> 64 < total_width spec" using tot assms by (simp add: word_less_nat_alt)
  have scan: "scan_tokens [range_text a b, ''0b'' @ to_binary k v] None [] =
    Inr (None, [RangeToken (of_nat a) (of_nat b), LiteralToken (of_nat v) (of_nat k)])"
    using assms by (intro scan_range_literal) simp_all
  have "from_spec_str c (of_nat n) (spec_text a b k v) = Inr spec"
    unfolding from_spec_str_def extract_spec_text rbind_simps split_spec_text scan
    using n lower t64 by (simp add: max_bitfield_bits_def finish_pad_def spec_def)
  moreover have "seg_value bits segs = unat bits div 2 ^ (n - 1 - b) mod 2 ^ (b - a + 1) * 2 ^ k + v"
    for bits
    using sn assms un uv off w by (simp add: segs_def unat_drop_bit unat_field unat_field [where m = 0, simplified])
  ultimately show ?thesis
    using that [of spec] ok nw by (simp add: spec_def)
qed

section \<open>Properties\<close>

text \<open>C23: On a well-formed specification whose slices do not overlap, a successful \<open>write_bits\<close> is
  read back exactly, with the total width, and leaves every container bit outside the slices as
  it was.\<close>

theorem bitfield_write_read:
  assumes "spec_ok spec" and "disjoint_slices (slices (bf_segments spec))"
    and "bf_write_bits spec c x = Inr c'"
  shows "bf_read_bits spec c' = (x, total_width spec) \<and>
    (\<forall>i. \<not> bit (slices_mask (bf_segments spec)) i \<longrightarrow> bit c' i = bit c i)"
  using bitfield_write_then_read [OF assms] by blast

definition demo_field :: bitfield_spec where
  "demo_field =
     \<lparr>bf_container = 0,
      bf_segments = [Slice \<lparr>bs_offset = 4, bs_width = 4, bs_mask = 0xF0\<rparr>, Literal 1 2,
                     Slice \<lparr>bs_offset = 12, bs_width = 2, bs_mask = 0x3000\<rparr>],
      bf_pad = Some \<lparr>pad_kind = Sign, pad_width = 8\<rparr>, bf_signed = False\<rparr>"

lemma demo_field_masks:
  "shl (mask_for_width 4) 4 = 0xF0" "shl (mask_for_width 2) 12 = 0x3000"
  by (simp_all add: mask_for_width_def shl_def)

lemma demo_field_ok:
  "spec_ok demo_field" "disjoint_slices (slices (bf_segments demo_field))"
  by (simp_all add: demo_field_def spec_ok_def pad_bits_def bit_slice_ok_def demo_field_masks)

lemma demo_field_write: "bf_write_bits demo_field 0xFFFF 0xFFC5 = Inr 0xDFCF"
  by code_simp

lemma bitfield_write_read_witness:
  "bf_read_bits demo_field 0xDFCF = (0xFFC5, 16) \<and>
   bit (0xDFCF :: u64) 14 = bit (0xFFFF :: u64) 14"
proof -
  have "total_width demo_field = 16" by code_simp
  moreover have "\<not> bit (slices_mask (bf_segments demo_field)) 14" by code_simp
  ultimately show ?thesis
    using bitfield_write_read [OF demo_field_ok demo_field_write] by simp
qed

text \<open>C24: \<open>write_bits\<close> accepts every value \<open>read_bits\<close> can return, whatever the container it was read
  from and the one it is written to, and writing back what was read changes nothing.\<close>

theorem bitfield_read_write:
  assumes "spec_ok spec"
  shows "(\<exists>c'. bf_write_bits spec c (fst (bf_read_bits spec b)) = Inr c') \<and>
    bf_write_bits spec b (fst (bf_read_bits spec b)) = Inr b"
  using bitfield_read_then_write [OF assms] by blast

lemma bitfield_read_write_witness:
  "bf_write_bits demo_field 0xDFCF (fst (bf_read_bits demo_field 0xDFCF)) = Inr 0xDFCF"
  using bitfield_read_write [OF demo_field_ok(1)] by blast

text \<open>C25: \<open>read_signed\<close> of a signed field is the two's complement reading of the segments put side by
  side, most significant first; zero padding makes it the unsigned reading.\<close>

theorem read_signed_spec:
  assumes "spec_ok spec" and "is_signed spec" and "d = nwidth (bf_segments spec)"
    and "m = int (seg_value b (bf_segments spec))"
  shows "sint (read_signed spec b) =
    (if m < 2 ^ (d - 1) \<or> (\<exists>pad. bf_pad spec = Some pad \<and> pad_kind pad = Zero) then m
     else m - 2 ^ d)"
  by (rule read_signed_value [OF assms(1,3,2,4)])

lemma read_signed_spec_witness: "sint (read_signed demo_field 0xDFCF) = - 59"
proof -
  have "is_signed demo_field" by code_simp
  have d: "nwidth (bf_segments demo_field) = 8"
    by (simp add: demo_field_def)
  have m: "seg_value 0xDFCF (bf_segments demo_field) = 197" by code_simp
  show ?thesis
    using read_signed_spec [OF demo_field_ok(1) \<open>is_signed demo_field\<close> refl refl, of "0xDFCF"]
    by (simp add: d m) (simp add: demo_field_def)
qed

text \<open>C26: Every specification \<open>from_spec_str\<close> accepts is well formed: its slices lie in the container,
  its total width is at most 64, and padding fills it up to the container width.  (The bound on
  the length of the text keeps the 16-bit sum of the widths from wrapping.)\<close>

theorem parsed_spec_ok:
  assumes "from_spec_str container n text = Inr spec" and "length text < 1023"
  shows "spec_ok spec \<and> list_all (segment_within (unat n)) (bf_segments spec) \<and>
    unat (total_width spec) \<le> 64 \<and>
    (bf_pad spec \<noteq> None \<longrightarrow> unat (total_width spec) = unat n)"
  using from_spec_str_ok [OF assms] spec_ok_widths [of spec] by (simp add: spec_ok_def)

lemma parsed_spec_ok_witness:
  "\<exists>spec. from_spec_str 0 32 (spec_text 16 29 2 0) = Inr spec \<and> spec_ok spec \<and>
     list_all (segment_within 32) (bf_segments spec)"
proof -
  have "(16::nat) \<le> 29" "(29::nat) < 32" "(32::nat) \<le> 64" "(0::nat) < 2"
    "(29::nat) - 16 + 1 + 2 \<le> 64" "(0::nat) < 2 ^ 2" by simp_all
  from parsed_range_literal [OF this, of 0] obtain spec
    where spec: "from_spec_str 0 32 (spec_text 16 29 2 0) = Inr spec" by auto
  have "length (spec_text 16 29 2 0) < 1023" by code_simp
  from parsed_spec_ok [OF spec this] spec show ?thesis by auto
qed

text \<open>The textual form \<open>@(a..b|0bvvv)\<close> of a container of \<open>n\<close> bits parses to the field that the
  most-significant-bit-first numbering means: bits \<open>a\<close> to \<open>b\<close> counted from the top, followed by the
  literal.\<close>

theorem parse_msb_range:
  assumes "a \<le> b" and "b < n" and "n \<le> 64" and "0 < k" and "b - a + 1 + k \<le> 64" and "v < 2 ^ k"
  shows "\<exists>spec. from_spec_str c (of_nat n) (spec_text a b k v) = Inr spec \<and>
    (\<forall>bits. unat (fst (bf_read_bits spec bits)) =
       unat bits div 2 ^ (n - 1 - b) mod 2 ^ (b - a + 1) * 2 ^ k + v \<and>
     unat (snd (bf_read_bits spec bits)) = b - a + 1 + k)"
proof -
  obtain spec where spec: "from_spec_str c (of_nat n) (spec_text a b k v) = Inr spec" "spec_ok spec"
    "bf_pad spec = None" "nwidth (bf_segments spec) = b - a + 1 + k"
    and val: "\<And>bits. seg_value bits (bf_segments spec) =
      unat bits div 2 ^ (n - 1 - b) mod 2 ^ (b - a + 1) * 2 ^ k + v"
    using parsed_range_literal [OF assms] by metis
  have segs: "list_all segment_ok (bf_segments spec)" and w: "nwidth (bf_segments spec) \<le> 64"
    using spec(2) spec_ok_widths(3) by (auto simp: spec_ok_def)
  note e = extract_data_value [OF segs w]
  have "bf_read_bits spec bits = extract_data spec bits" for bits
    using spec(3) by (simp add: bf_read_bits_def apply_pad_def case_prod_beta)
  then show ?thesis using spec e val by (intro exI [of _ spec]) simp
qed

lemma parse_msb_range_witness:
  "spec_text 16 29 2 0 = ''@(16..29|0b00)'' \<and>
   (\<exists>spec. from_spec_str 0 32 ''@(16..29|0b00)'' = Inr spec \<and>
      unat (fst (bf_read_bits spec 0x48000101)) = 0x100)"
proof -
  have t: "spec_text 16 29 2 0 = ''@(16..29|0b00)''" by code_simp
  have "(16::nat) \<le> 29" "(29::nat) < 32" "(32::nat) \<le> 64" "(0::nat) < 2"
    "(29::nat) - 16 + 1 + 2 \<le> 64" "(0::nat) < 2 ^ 2" by simp_all
  from parse_msb_range [OF this, of 0] show ?thesis by (auto simp: t)
qed

end
