(* ===== verification/LiteralParser.thy ===== *)
theory LiteralParser
  imports Strings
begin

text \<open>
  The numeric literals of the ISA language and the symbol tools
  (\<open>src/soc/prog/types/literal.rs\<close>): binary, octal, hexadecimal and decimal, with \<open>_\<close> separators
  and surrounding white space; the width of a binary literal is its digit count.
\<close>

section \<open>Data and parsers\<close>

datatype literal_kind = Decimal | Hex | Octal | Binary

record literal =
  lit_value :: u64
  lit_kind :: literal_kind
  lit_bit_width :: "u16 option"

datatype literal_error =
    Empty
  | InvalidFormat string
  | TooWide u16
  | NegativeNotSupported
  | OutOfRange string

text \<open>\<open>src.replace('_', "")\<close>.\<close>

definition strip_separators :: "string \<Rightarrow> string" where
  "strip_separators s = filter (\<lambda>c. c \<noteq> CHR ''_'') s"

definition strip_prefix_ignore_case :: "string \<Rightarrow> string \<Rightarrow> string option" where
  "strip_prefix_ignore_case s p =
     (case strip_prefix p s of
        Some rest \<Rightarrow> Some rest
      | None \<Rightarrow> strip_prefix (map ascii_upper p) s)"

definition parse_binary :: "string \<Rightarrow> literal_error + literal" where
  "parse_binary src =
     (let digits = strip_separators src in
      if digits = [] then Inl (InvalidFormat ''0b'')
      else if 64 < length digits then Inl (TooWide (of_nat (length digits)))
      else rbind (ok_or (from_str_radix 2 digits) (InvalidFormat (''0b'' @ src)))
             (\<lambda>value. Inr \<lparr>lit_value = value, lit_kind = Binary,
                           lit_bit_width = Some (of_nat (length digits))\<rparr>))"

definition parse_radix :: "string \<Rightarrow> nat \<Rightarrow> literal_kind \<Rightarrow> literal_error + literal" where
  "parse_radix src radix kind =
     (let digits = strip_separators src in
      if digits = [] then Inl (InvalidFormat src)
      else rbind (ok_or (from_str_radix radix digits) (InvalidFormat src))
             (\<lambda>value. Inr \<lparr>lit_value = value, lit_kind = kind, lit_bit_width = None\<rparr>))"

definition parse :: "string \<Rightarrow> literal_error + literal" where
  "parse input =
     (let trimmed = trim input in
      if trimmed = [] then Inl Empty
      else case strip_prefix_ignore_case trimmed ''0b'' of
        Some rest \<Rightarrow> parse_binary rest
      | None \<Rightarrow>
          (case strip_prefix_ignore_case trimmed ''0o'' of
             Some rest \<Rightarrow> parse_radix rest 8 Octal
           | None \<Rightarrow>
               (case strip_prefix_ignore_case trimmed ''0x'' of
                  Some rest \<Rightarrow> parse_radix rest 16 Hex
                | None \<Rightarrow> parse_radix trimmed 10 Decimal)))"

definition parse_u64_literal :: "string \<Rightarrow> literal_error + u64" where
  "parse_u64_literal input =
     (let trimmed = trim input in
      if prefix ''-'' trimmed then Inl NegativeNotSupported
      else rbind (parse trimmed) (\<lambda>l. Inr (lit_value l)))"

definition parse_u32_literal :: "string \<Rightarrow> literal_error + u32" where
  "parse_u32_literal input =
     rbind (parse_u64_literal input) (\<lambda>value.
       if 2 ^ 32 \<le> unat value then Inl (OutOfRange (trim input)) else Inr (ucast value))"

definition parse_index_suffix :: "string \<Rightarrow> literal_error + u32" where
  "parse_index_suffix input = parse_u32_literal input"

section \<open>What the parser accepts\<close>

fun kind_prefix :: "literal_kind \<Rightarrow> string" where
  "kind_prefix Decimal = []"
| "kind_prefix Hex = ''0x''"
| "kind_prefix Octal = ''0o''"
| "kind_prefix Binary = ''0b''"

fun kind_radix :: "literal_kind \<Rightarrow> nat" where
  "kind_radix Decimal = 10"
| "kind_radix Hex = 16"
| "kind_radix Octal = 8"
| "kind_radix Binary = 2"

text \<open>\<open>ds\<close> writes the number \<open>n\<close> in the notation: its digits, separators taken out, have that
  value.\<close>

definition writes :: "literal_kind \<Rightarrow> string \<Rightarrow> nat \<Rightarrow> bool" where
  "writes kind ds n \<longleftrightarrow>
     strip_separators ds \<noteq> [] \<and>
     digits_value (kind_radix kind) 0 (strip_separators ds) = Some n \<and>
     (kind = Binary \<longrightarrow> length (strip_separators ds) \<le> 64)"

definition declared_width :: "literal_kind \<Rightarrow> string \<Rightarrow> u16 option" where
  "declared_width kind ds =
     (if kind = Binary then Some (of_nat (length (strip_separators ds))) else None)"

definition literal_of :: "literal_kind \<Rightarrow> string \<Rightarrow> nat \<Rightarrow> literal_error + literal" where
  "literal_of kind ds n =
     (if n < 2 ^ 64
      then Inr \<lparr>lit_value = of_nat n, lit_kind = kind, lit_bit_width = declared_width kind ds\<rparr>
      else Inl (InvalidFormat ds))"

lemma writes_chars:
  assumes "writes kind ds n" and "c \<in> set (kind_prefix kind @ ds)"
  shows "c = CHR ''_'' \<or> is_alnum c"
proof (cases "c \<in> set ds \<and> c \<noteq> CHR ''_''")
  case True
  then have "c \<in> set (strip_separators ds)" by (simp add: strip_separators_def)
  then show ?thesis using assms(1) digits_value_alnum by (auto simp: writes_def)
next
  case False
  then show ?thesis using assms(2) by (cases kind) (auto simp: is_alnum_def)
qed

lemma writes_not_Nil: "writes kind ds n \<Longrightarrow> ds \<noteq> []"
  by (auto simp: writes_def strip_separators_def)

lemma ascii_upper_letters:
  "ascii_upper CHR ''0'' = CHR ''0''" "ascii_upper CHR ''b'' = CHR ''B''"
  "ascii_upper CHR ''o'' = CHR ''O''" "ascii_upper CHR ''x'' = CHR ''X''"
  by code_simp+

text \<open>The three prefixes are told apart by their second character, which no decimal has.\<close>

lemma prefix_dispatch:
  assumes "writes kind ds n" and "q \<in> {CHR ''b'', CHR ''o'', CHR ''x''}"
  shows "strip_prefix_ignore_case (kind_prefix kind @ ds) [CHR ''0'', q] =
    (if kind_prefix kind = [CHR ''0'', q] then Some ds else None)"
proof (cases "kind = Decimal")
  case True
  have no: "p \<notin> set ds" if "p \<in> {q, ascii_upper q}" for p
  proof
    assume "p \<in> set ds"
    then have "p = CHR ''_'' \<or> p \<in> set (strip_separators ds)" by (simp add: strip_separators_def)
    then have "(of_char p :: nat) = 95 \<or> (of_char p :: nat) < 58"
      using digits_value_decimal [of 0 "strip_separators ds" n p] assms(1) True
      by (auto simp: writes_def)
    moreover have "(of_char p :: nat) \<in> {98, 111, 120, 66, 79, 88}"
      using that assms(2) by (auto simp: ascii_upper_def)
    ultimately show False by auto
  qed
  have "strip_prefix [CHR ''0'', p] (ds @ []) = None" if "p \<in> {q, ascii_upper q}" for p
    using no [OF that] writes_not_Nil [OF assms(1)] by (intro no_radix_prefix) auto
  from this [of q] this [of "ascii_upper q"] show ?thesis
    by (simp add: strip_prefix_ignore_case_def True ascii_upper_letters)
next
  case False
  then show ?thesis
    using assms(2) by (cases kind) (auto simp: strip_prefix_ignore_case_def ascii_upper_letters)
qed

lemma parse_binary_writes:
  assumes "writes Binary ds n"
  shows "parse_binary ds = literal_of Binary ds n"
proof -
  have w: "strip_separators ds \<noteq> []" "digits_value 2 0 (strip_separators ds) = Some n"
    "\<not> 64 < length (strip_separators ds)"
    using assms by (auto simp: writes_def)
  have "n < 2 ^ length (strip_separators ds)" using digits_value_bound [OF w(2)] by simp
  also have "\<dots> \<le> 2 ^ 64" using w(3) by (intro power_increasing) simp_all
  finally have "n < 2 ^ 64" .
  moreover have "from_str_radix 2 (strip_separators ds) =
      (if n < 2 ^ 64 then Some (of_nat n :: u64) else None)"
    using from_str_radix_digits [OF _ _ w(1,2), where 'a = 64] by simp
  ultimately show ?thesis
    using w by (simp add: parse_binary_def literal_of_def declared_width_def Let_def)
qed

lemma parse_radix_writes:
  assumes "writes kind ds n" and "kind \<noteq> Binary"
  shows "parse_radix ds (kind_radix kind) kind = literal_of kind ds n"
proof -
  have w: "strip_separators ds \<noteq> []" "digits_value (kind_radix kind) 0 (strip_separators ds) = Some n"
    and r: "0 < kind_radix kind" "kind_radix kind < 2 ^ 64"
    using assms by (auto simp: writes_def) (cases kind; simp)+
  have "from_str_radix (kind_radix kind) (strip_separators ds) =
      (if n < 2 ^ 64 then Some (of_nat n :: u64) else None)"
    using from_str_radix_digits [OF r(1) _ w, where 'a = 64] r(2) by simp
  then show ?thesis
    using w assms(2) by (simp add: parse_radix_def literal_of_def declared_width_def Let_def)
qed

lemma parse_writes:
  assumes "writes kind ds n"
    and "\<forall>c \<in> set l. is_whitespace c" and "\<forall>c \<in> set r. is_whitespace c"
  shows "trim (l @ (kind_prefix kind @ ds) @ r) = kind_prefix kind @ ds"
    and "parse (l @ (kind_prefix kind @ ds) @ r) = literal_of kind ds n"
proof -
  have ne: "ds \<noteq> []" using assms(1) by (rule writes_not_Nil)
  have nw: "\<not> is_whitespace c" if "c \<in> set (kind_prefix kind @ ds)" for c
    using writes_chars [OF assms(1) that] is_alnum_not_whitespace
    by (auto simp: is_whitespace_def)
  show t: "trim (l @ (kind_prefix kind @ ds) @ r) = kind_prefix kind @ ds"
    using assms(2,3) ne by (intro trim_surround nw hd_in_set last_in_set) simp_all
  note pd = prefix_dispatch [OF assms(1)]
  show "parse (l @ (kind_prefix kind @ ds) @ r) = literal_of kind ds n"
    using parse_binary_writes [of ds n] parse_radix_writes [of kind ds n] assms(1) ne
      pd [of "CHR ''b''"] pd [of "CHR ''o''"] pd [of "CHR ''x''"]
    unfolding parse_def t Let_def
    by (cases kind) (simp_all del: append_Cons)
qed

section \<open>Properties\<close>



end
