(* ===== verification/IsaError.thy ===== *)
theory IsaError
  imports Strings
begin

text \<open>
  Errors and diagnostics of the ISA tool chain (\<open>src/soc/isa/error.rs\<close>,
  \<open>src/soc/isa/diagnostic.rs\<close>).  A message is the string the Rust code formats.
\<close>

datatype diagnostic_phase = LexerPhase | ParserPhase | ValidationPhase

datatype diagnostic_level = ErrorLevel | WarningLevel

record source_position =
  pos_line :: nat
  pos_column :: nat

record source_span =
  span_path :: string
  span_start :: source_position
  span_end :: source_position

definition span_point :: "string \<Rightarrow> source_position \<Rightarrow> source_span" where
  "span_point path pos =
     \<lparr>span_path = path, span_start = pos, span_end = pos\<rparr>"

record isa_diagnostic =
  diag_phase :: diagnostic_phase
  diag_level :: diagnostic_level
  diag_code :: string
  diag_message :: string
  diag_span :: "source_span option"

definition level_name :: "diagnostic_level \<Rightarrow> string" where
  "level_name l = (case l of ErrorLevel \<Rightarrow> ''Error'' | WarningLevel \<Rightarrow> ''Warning'')"

definition format_human :: "isa_diagnostic \<Rightarrow> string" where
  "format_human d =
     (let location =
        (case diag_span d of
           Some span \<Rightarrow>
             fmt ''{}:{}:{}'' [span_path span, dec (pos_line (span_start span)),
                             dec (pos_column (span_start span))]
         | None \<Rightarrow> ''<unknown>'')
      in fmt ''{} {}: {} @ {}'' [level_name (diag_level d), diag_code d, diag_message d, location])"

text \<open>An I/O error carries the operating system's description.\<close>

datatype isa_error =
    Io string
  | Parser string
  | Validation string
  | IncludeLoop "string list"
  | Machine string
  | Diagnostics diagnostic_phase "isa_diagnostic list"

end
