(* ===== verification/SemanticValue.thy ===== *)
theory SemanticValue
  imports IsaError
begin

text \<open>
  The values semantic programs compute with (\<open>src/soc/isa/semantics/value.rs\<close>) and the scratch
  context that binds names to them (\<open>src/soc/isa/semantics/context.rs\<close>).
\<close>

section \<open>Values\<close>

datatype semantic_value = IntV i64 | BoolV bool | WordV string | TupleV "semantic_value list"

fun as_int :: "semantic_value \<Rightarrow> isa_error + i64" where
  "as_int (IntV v) = Inr v"
| "as_int (BoolV b) = Inr (if b then 1 else 0)"
| "as_int (WordV w) = Inl (Machine ''word value cannot be coerced to integer'')"
| "as_int (TupleV vs) = Inl (Machine ''tuple value cannot be coerced to integer'')"

fun as_bool :: "semantic_value \<Rightarrow> isa_error + bool" where
  "as_bool (BoolV b) = Inr b"
| "as_bool (IntV v) = Inr (v \<noteq> 0)"
| "as_bool (WordV w) = Inl (Machine ''word value cannot be coerced to boolean'')"
| "as_bool (TupleV vs) = Inl (Machine ''tuple value cannot be coerced to boolean'')"

fun as_word :: "semantic_value \<Rightarrow> string option" where
  "as_word (WordV w) = Some w"
| "as_word v = None"

text \<open>A \<open>TupleValue\<close> is its list of items.\<close>

fun try_into_tuple :: "semantic_value \<Rightarrow> isa_error + semantic_value list" where
  "try_into_tuple (TupleV vs) = Inr vs"
| "try_into_tuple v = Inl (Machine ''expected tuple value in assignment'')"

definition ensure_len :: "semantic_value list \<Rightarrow> nat \<Rightarrow> isa_error + unit" where
  "ensure_len items expected =
     (if length items = expected then Inr ()
      else Inl (Machine (fmt ''tuple length mismatch: expected {}, got {}''
                           [dec expected, dec (length items)])))"

text \<open>The scalars are the values both coercions accept.\<close>

definition is_scalar :: "semantic_value \<Rightarrow> bool" where
  "is_scalar v = (case v of IntV i \<Rightarrow> True | BoolV b \<Rightarrow> True | WordV w \<Rightarrow> False | TupleV vs \<Rightarrow> False)"

definition scalar_int :: "semantic_value \<Rightarrow> i64" where
  "scalar_int v = (case v of IntV i \<Rightarrow> i | BoolV b \<Rightarrow> (if b then 1 else 0) | _ \<Rightarrow> 0)"

lemma is_scalar_simps [simp]:
  "is_scalar (IntV i)" "is_scalar (BoolV b)" "\<not> is_scalar (WordV w)" "\<not> is_scalar (TupleV vs)"
  by (simp_all add: is_scalar_def)

lemma scalar_int_simps [simp]:
  "scalar_int (IntV i) = i" "scalar_int (BoolV b) = (if b then 1 else 0)"
  by (simp_all add: scalar_int_def)

lemma as_int_scalar: "is_scalar v \<Longrightarrow> as_int v = Inr (scalar_int v)"
  by (cases v) simp_all

lemma as_bool_scalar: "is_scalar v \<Longrightarrow> as_bool v = Inr (scalar_int v \<noteq> 0)"
  by (cases v) simp_all

lemma as_int_Inr_iff: "as_int v = Inr i \<longleftrightarrow> is_scalar v \<and> scalar_int v = i"
  by (cases v) auto

section \<open>The execution context\<close>

type_synonym bindings = "string \<rightharpoonup> semantic_value"

record execution_context =
  ctx_params :: bindings
  ctx_locals :: bindings

definition context_new :: "bindings \<Rightarrow> execution_context" where
  "context_new params = \<lparr>ctx_params = params, ctx_locals = Map.empty\<rparr>"

definition set_local :: "execution_context \<Rightarrow> string \<Rightarrow> semantic_value \<Rightarrow> execution_context" where
  "set_local c name v = c\<lparr>ctx_locals := (ctx_locals c)(name \<mapsto> v)\<rparr>"

definition ctx_get :: "execution_context \<Rightarrow> string \<Rightarrow> semantic_value option" where
  "ctx_get c name =
     (case ctx_locals c name of Some v \<Rightarrow> Some v | None \<Rightarrow> ctx_params c name)"

definition take_local ::
    "execution_context \<Rightarrow> string \<Rightarrow> semantic_value option \<times> execution_context" where
  "take_local c name =
     (ctx_locals c name, c\<lparr>ctx_locals := (ctx_locals c)(name := None)\<rparr>)"

lemma ctx_get_set_local [simp]:
  "ctx_get (set_local c n v) m = (if m = n then Some v else ctx_get c m)"
  by (simp add: ctx_get_def set_local_def split: option.split)

lemma ctx_get_new [simp]: "ctx_get (context_new ps) n = ps n"
  by (simp add: ctx_get_def context_new_def)

lemma ctx_get_take_local:
  "ctx_get (snd (take_local c n)) m = (if m = n then ctx_params c n else ctx_get c m)"
  by (simp add: ctx_get_def take_local_def split: option.split)

end
