(* ===== verification/SemanticProgram.thy ===== *)
theory SemanticProgram
  imports SemanticValue
begin

text \<open>
  The abstract syntax of semantic blocks (\<open>src/soc/isa/semantics/program.rs\<close>): statements,
  assignment targets and expressions with their \<open>$space::name\<close> context calls.
\<close>

datatype context_kind = RegisterCall | MacroCall | InstructionCall | HostCall

datatype expr_binary_op =
    LogicalOr | LogicalAnd | BitOr | BitXor | BitAnd | Eq | Ne | Lt | Gt | Add | Sub

record sem_bit_slice =
  sl_start :: u32
  sl_end :: u32

datatype expr =
    Number u64
  | Variable string source_span
  | Parameter string source_span
  | Call context_call
  | TupleExpr "expr list"
  | BinaryOp expr_binary_op expr expr
  | BitSlice expr sem_bit_slice
and context_call =
    ContextCall (cc_kind: context_kind) (cc_space: string) (cc_name: string)
      (cc_subpath: "string list") (cc_args: "expr list") (cc_span: source_span)

record register_ref =
  rr_space :: string
  rr_name :: string
  rr_subfield :: "string option"
  rr_index :: "expr option"
  rr_span :: "source_span option"

datatype assign_target =
    VariableTarget string
  | TupleTarget "string list"
  | RegisterTarget register_ref

datatype semantic_stmt =
    Assign assign_target expr
  | ExprStmt expr
  | Return expr

type_synonym semantic_program = "semantic_stmt list"

end
