(* ===== verification/Expression.thy ===== *)
theory Expression
  imports SemanticProgram
begin

text \<open>
  The expression evaluator (\<open>src/soc/isa/semantics/expression.rs\<close>).  A context call is resolved by
  a resolver the evaluator is given; the resolver may change a state, which the evaluator passes
  on, in the order of evaluation of the code.
\<close>

section \<open>The evaluator\<close>

type_synonym 's computation = "'s \<Rightarrow> (isa_error + semantic_value) \<times> 's"
type_synonym 's resolver = "context_call \<Rightarrow> semantic_value list \<Rightarrow> 's computation"

definition no_context_resolver :: "'s resolver" where
  "no_context_resolver call args s =
     (Inl (Machine (fmt ''context call {} requires runtime dispatch''
        [quoted (fmt ''{}::{}'' [cc_space call, cc_name call])])), s)"

definition lookup_variable :: "execution_context \<Rightarrow> string \<Rightarrow> isa_error + semantic_value" where
  "lookup_variable ctx name =
     ok_or (ctx_get ctx name) (Machine (fmt ''unknown variable {}'' [quoted name]))"

definition lookup_parameter :: "execution_context \<Rightarrow> string \<Rightarrow> isa_error + semantic_value" where
  "lookup_parameter ctx name =
     ok_or (ctx_get ctx name) (Machine (fmt ''unknown parameter {}'' [quoted (CHR ''#'' # name)]))"

definition eval_literal :: "u64 \<Rightarrow> isa_error + semantic_value" where
  "eval_literal value =
     (if unat value < 2 ^ 63 then Inr (IntV value)
      else Inl (Machine (fmt ''literal value {} exceeds 64-bit signed range''
                           [dec (unat value)])))"

definition mask_for_bits :: "u32 \<Rightarrow> u64" where
  "mask_for_bits width =
     (if 64 \<le> width then - 1 else if width = 0 then 0 else shl 1 (unat width) - 1)"

definition int_binary ::
    "(i64 \<Rightarrow> i64 \<Rightarrow> i64) \<Rightarrow> 's computation \<Rightarrow> 's computation \<Rightarrow> 's computation" where
  "int_binary f lhs rhs =
     se_bind lhs (\<lambda>left. se_bind (se_lift (as_int left)) (\<lambda>l.
       se_bind rhs (\<lambda>right. se_bind (se_lift (as_int right)) (\<lambda>r.
         se_lift (Inr (IntV (f l r)))))))"

definition int_compare ::
    "(i64 \<Rightarrow> i64 \<Rightarrow> bool) \<Rightarrow> 's computation \<Rightarrow> 's computation \<Rightarrow> 's computation" where
  "int_compare f lhs rhs =
     se_bind lhs (\<lambda>left. se_bind (se_lift (as_int left)) (\<lambda>l.
       se_bind rhs (\<lambda>right. se_bind (se_lift (as_int right)) (\<lambda>r.
         se_lift (Inr (BoolV (f l r)))))))"

text \<open>Equality compares two booleans as such and coerces everything else to integers.\<close>

definition values_equal :: "semantic_value \<Rightarrow> semantic_value \<Rightarrow> isa_error + bool" where
  "values_equal left right =
     (case (left, right) of
        (BoolV a, BoolV b) \<Rightarrow> Inr (a = b)
      | _ \<Rightarrow> rbind (as_int left) (\<lambda>l. rbind (as_int right) (\<lambda>r. Inr (l = r))))"

definition eval_equality ::
    "bool \<Rightarrow> 's computation \<Rightarrow> 's computation \<Rightarrow> 's computation" where
  "eval_equality negated lhs rhs =
     se_bind lhs (\<lambda>left. se_bind rhs (\<lambda>right.
       se_bind (se_lift (values_equal left right)) (\<lambda>same.
         se_lift (Inr (BoolV (same \<noteq> negated))))))"

definition eval_logical ::
    "bool \<Rightarrow> 's computation \<Rightarrow> 's computation \<Rightarrow> 's computation" where
  "eval_logical short lhs rhs =
     se_bind lhs (\<lambda>left. se_bind (se_lift (as_bool left)) (\<lambda>l.
       if l = short then se_lift (Inr (BoolV short))
       else se_bind rhs (\<lambda>right. se_bind (se_lift (as_bool right)) (\<lambda>r.
         se_lift (Inr (BoolV r))))))"

fun evaluate_binary ::
    "expr_binary_op \<Rightarrow> 's computation \<Rightarrow> 's computation \<Rightarrow> 's computation" where
  "evaluate_binary LogicalOr lhs rhs = eval_logical True lhs rhs"
| "evaluate_binary LogicalAnd lhs rhs = eval_logical False lhs rhs"
| "evaluate_binary BitOr lhs rhs = int_binary (OR) lhs rhs"
| "evaluate_binary BitXor lhs rhs = int_binary (XOR) lhs rhs"
| "evaluate_binary BitAnd lhs rhs = int_binary (AND) lhs rhs"
| "evaluate_binary Add lhs rhs = int_binary (+) lhs rhs"
| "evaluate_binary Sub lhs rhs = int_binary (-) lhs rhs"
| "evaluate_binary Eq lhs rhs = eval_equality False lhs rhs"
| "evaluate_binary Ne lhs rhs = eval_equality True lhs rhs"
| "evaluate_binary Lt lhs rhs = int_compare (<s) lhs rhs"
| "evaluate_binary Gt lhs rhs = int_compare (\<lambda>l r. r <s l) lhs rhs"

definition slice_value :: "sem_bit_slice \<Rightarrow> i64 \<Rightarrow> i64" where
  "slice_value sl value =
     shr value (unat (sl_start sl)) AND mask_for_bits (sl_end sl - sl_start sl + 1)"

definition evaluate_bit_slice :: "sem_bit_slice \<Rightarrow> 's computation \<Rightarrow> 's computation" where
  "evaluate_bit_slice sl e =
     (if sl_end sl < sl_start sl then
        se_lift (Inl (Machine (fmt ''bit slice end {} precedes start {}''
          [dec (unat (sl_end sl)), dec (unat (sl_start sl))])))
      else if 64 \<le> sl_end sl then
        se_lift (Inl (Machine (fmt ''bit slice @({}..{}) exceeds 64-bit width''
          [dec (unat (sl_start sl)), dec (unat (sl_end sl))])))
      else se_bind e (\<lambda>v. se_bind (se_lift (as_int v)) (\<lambda>value.
        se_lift (Inr (IntV (slice_value sl value))))))"

fun eval :: "'s resolver \<Rightarrow> execution_context \<Rightarrow> expr \<Rightarrow> 's computation"
  and eval_list ::
    "'s resolver \<Rightarrow> execution_context \<Rightarrow> expr list \<Rightarrow>
     's \<Rightarrow> (isa_error + semantic_value list) \<times> 's" where
  "eval resolver ctx (Number n) = se_lift (eval_literal n)"
| "eval resolver ctx (Variable name span) = se_lift (lookup_variable ctx name)"
| "eval resolver ctx (Parameter name span) = se_lift (lookup_parameter ctx name)"
| "eval resolver ctx (Call (ContextCall kind space name subpath args span)) =
     se_bind (eval_list resolver ctx args)
       (resolver (ContextCall kind space name subpath args span))"
| "eval resolver ctx (TupleExpr items) =
     se_bind (eval_list resolver ctx items) (\<lambda>values. se_lift (Inr (TupleV values)))"
| "eval resolver ctx (BinaryOp bop lhs rhs) =
     evaluate_binary bop (eval resolver ctx lhs) (eval resolver ctx rhs)"
| "eval resolver ctx (BitSlice e sl) = evaluate_bit_slice sl (eval resolver ctx e)"
| "eval_list resolver ctx [] = se_lift (Inr [])"
| "eval_list resolver ctx (e # es) =
     se_bind (eval resolver ctx e) (\<lambda>v.
       se_bind (eval_list resolver ctx es) (\<lambda>vs. se_lift (Inr (v # vs))))"

end
