(* ===== verification/ExprTyping.thy ===== *)
theory ExprTyping
  imports Expression
begin

text \<open>
  A checker for semantic expressions and the contract of a context-call resolver.  \<open>infer\<close>
  computes the type of an expression from the types of the names in scope and a signature of the
  context calls; a value type records what the evaluator needs to know to succeed: that a value
  is a scalar, that it lies in a range (a width or a register index), or the shape of a tuple.
  The locale \<open>call_contract\<close> states what a resolver must promise for that signature; inside it,
  evaluation of an expression that \<open>infer\<close> accepts is total, returns a value of the inferred type
  and keeps the resolver's invariant.
\<close>

section \<open>Types\<close>

datatype sem_type = Bounded nat | Scalar | Opaque | Product "sem_type list"

text \<open>\<open>Bounded n\<close>: a scalar between 0 and \<open>n - 1\<close>; \<open>Opaque\<close>: any value.\<close>

fun has_type :: "semantic_value \<Rightarrow> sem_type \<Rightarrow> bool" where
  "has_type v (Bounded n) = (is_scalar v \<and> 0 \<le> sint (scalar_int v) \<and> sint (scalar_int v) < int n)"
| "has_type v Scalar = is_scalar v"
| "has_type v Opaque = True"
| "has_type v (Product ts) =
     (case v of TupleV vs \<Rightarrow> list_all2 has_type vs ts
      | IntV i \<Rightarrow> False | BoolV b \<Rightarrow> False | WordV w \<Rightarrow> False)"

definition scalar_sort :: "sem_type \<Rightarrow> bool" where
  "scalar_sort t = (case t of Bounded n \<Rightarrow> True | Scalar \<Rightarrow> True | Opaque \<Rightarrow> False | Product ts \<Rightarrow> False)"

type_synonym type_env = "string \<rightharpoonup> sem_type"
type_synonym signature = "context_call \<Rightarrow> sem_type list \<Rightarrow> sem_type option"

definition boolean_op :: "expr_binary_op \<Rightarrow> bool" where
  "boolean_op b = (b \<in> {LogicalOr, LogicalAnd, Eq, Ne, Lt, Gt})"

definition slice_type :: "sem_bit_slice \<Rightarrow> sem_type option" where
  "slice_type sl =
     (let width = unat (sl_end sl) - unat (sl_start sl) + 1
      in if sl_end sl < sl_start sl \<or> 64 \<le> sl_end sl then None
         else if width \<le> 63 then Some (Bounded (2 ^ width)) else Some Scalar)"

fun infer :: "type_env \<Rightarrow> signature \<Rightarrow> expr \<Rightarrow> sem_type option"
  and infer_list :: "type_env \<Rightarrow> signature \<Rightarrow> expr list \<Rightarrow> sem_type list option" where
  "infer env sg (Number n) = (if unat n < 2 ^ 63 then Some (Bounded (unat n + 1)) else None)"
| "infer env sg (Variable name span) = env name"
| "infer env sg (Parameter name span) = env name"
| "infer env sg (Call (ContextCall kind space name subpath args span)) =
     (case infer_list env sg args of
        None \<Rightarrow> None
      | Some ts \<Rightarrow> sg (ContextCall kind space name subpath args span) ts)"
| "infer env sg (TupleExpr items) = map_option Product (infer_list env sg items)"
| "infer env sg (BinaryOp b lhs rhs) =
     (case (infer env sg lhs, infer env sg rhs) of
        (Some t, Some u) \<Rightarrow>
          if scalar_sort t \<and> scalar_sort u
          then Some (if boolean_op b then Bounded 2 else Scalar) else None
      | _ \<Rightarrow> None)"
| "infer env sg (BitSlice e sl) =
     (case infer env sg e of
        Some t \<Rightarrow> if scalar_sort t then slice_type sl else None
      | None \<Rightarrow> None)"
| "infer_list env sg [] = Some []"
| "infer_list env sg (e # es) =
     (case (infer env sg e, infer_list env sg es) of
        (Some t, Some ts) \<Rightarrow> Some (t # ts)
      | _ \<Rightarrow> None)"

definition ctx_typed :: "type_env \<Rightarrow> execution_context \<Rightarrow> bool" where
  "ctx_typed env ctx \<longleftrightarrow> (\<forall>x t. env x = Some t \<longrightarrow> (\<exists>v. ctx_get ctx x = Some v \<and> has_type v t))"

lemma has_type_scalar: "has_type v t \<Longrightarrow> scalar_sort t \<Longrightarrow> is_scalar v"
  by (cases t) (auto simp: scalar_sort_def)

lemma ctx_typed_get: "ctx_typed env ctx \<Longrightarrow> env x = Some t \<Longrightarrow> \<exists>v. ctx_get ctx x = Some v \<and> has_type v t"
  by (simp add: ctx_typed_def)

lemma ctx_typed_set_local:
  "ctx_typed env ctx \<Longrightarrow> has_type v t \<Longrightarrow> ctx_typed (env(x \<mapsto> t)) (set_local ctx x v)"
  by (auto simp: ctx_typed_def)

lemma ctx_typed_set_local_opaque:
  "ctx_typed env ctx \<Longrightarrow> env x = None \<Longrightarrow> ctx_typed env (set_local ctx x v)"
  by (auto simp: ctx_typed_def)

section \<open>The values of the operators\<close>

lemma mask_for_bits_eq: "mask_for_bits w = mask (unat w)"
proof -
  consider "64 \<le> w" | "w = 0" | "w \<noteq> 0" "\<not> 64 \<le> w" by blast
  then show ?thesis
  proof cases
    case 1
    then have "64 \<le> unat w" by (simp add: word_le_nat_alt)
    then show ?thesis
      using 1 by (intro bit_word_eqI) (simp add: mask_for_bits_def bit_simps)
  next
    case 2
    then show ?thesis by (simp add: mask_for_bits_def)
  next
    case 3
    then have "unat w < 64" by (simp add: word_le_nat_alt)
    then show ?thesis
      using 3 by (simp add: mask_for_bits_def shl_eq_push_bit mask_eq_exp_minus_1)
  qed
qed

lemma slice_width:
  assumes "\<not> sl_end sl < sl_start sl" and "\<not> 64 \<le> sl_end sl"
  shows "unat (sl_end sl - sl_start sl + 1) = unat (sl_end sl) - unat (sl_start sl) + 1"
    and "unat (sl_start sl) \<le> unat (sl_end sl)" and "unat (sl_end sl) < 64"
proof -
  show le: "unat (sl_start sl) \<le> unat (sl_end sl)" and lt: "unat (sl_end sl) < 64"
    using assms by (simp_all add: word_less_nat_alt word_le_nat_alt)
  have "unat (sl_end sl - sl_start sl) = unat (sl_end sl) - unat (sl_start sl)"
    using assms(1) by (simp add: unat_sub not_less)
  then show "unat (sl_end sl - sl_start sl + 1) = unat (sl_end sl) - unat (sl_start sl) + 1"
    using le lt by (simp add: unat_word_ariths(1))
qed

lemma slice_value_eq:
  assumes "\<not> sl_end sl < sl_start sl" and "\<not> 64 \<le> sl_end sl"
  shows "unat (slice_value sl x) =
    unat x div 2 ^ unat (sl_start sl) mod 2 ^ (unat (sl_end sl) - unat (sl_start sl) + 1)"
  using slice_width [OF assms]
  by (simp add: slice_value_def mask_for_bits_eq and_mask_unat unat_shr)

lemma uint_less_iff: "uint (x :: 'a::len word) < int n \<longleftrightarrow> unat x < n"
  by (metis of_nat_less_iff uint_nat)

lemma sint_small:
  assumes "unat (x :: u64) < 2 ^ 63"
  shows "sint x = uint x"
proof -
  have "uint x < int (2 ^ 63)" using assms by (simp only: uint_less_iff)
  then have "uint x < 2 ^ 63" by simp
  moreover have "- (2 ^ 63) \<le> uint x" by (rule order_trans [of _ 0]) simp_all
  ultimately have "signed_take_bit 63 (uint x) = uint x" by (intro signed_take_bit_int_eq_self)
  then show ?thesis by (simp add: sint_uint)
qed

lemma has_type_slice:
  assumes "slice_type sl = Some t"
  shows "has_type (IntV (slice_value sl x)) t"
proof -
  define w where "w = unat (sl_end sl) - unat (sl_start sl) + 1"
  have rng: "\<not> sl_end sl < sl_start sl" "\<not> 64 \<le> sl_end sl"
    and t: "t = (if w \<le> 63 then Bounded (2 ^ w) else Scalar)"
    using assms by (auto simp: slice_type_def Let_def w_def split: if_splits)
  have v: "unat (slice_value sl x) < 2 ^ w"
    using slice_value_eq [OF rng, of x] by (simp add: w_def)
  show ?thesis
  proof (cases "w \<le> 63")
    case True
    then have "unat (slice_value sl x) < 2 ^ 63"
      using v power_increasing [of w 63 "2::nat"] by simp
    then show ?thesis using v True by (simp add: t sint_small uint_less_iff [symmetric])
  qed (simp add: t)
qed

lemma has_type_bool [simp]: "has_type (BoolV b) (Bounded 2)"
  by simp

section \<open>Computations that succeed\<close>

text \<open>\<open>succeeds ok m P s\<close>: from the state \<open>s\<close> the computation returns a value that satisfies \<open>P\<close>
  in a state that satisfies \<open>ok\<close>.\<close>

definition succeeds :: "('s \<Rightarrow> bool) \<Rightarrow> ('s \<Rightarrow> ('e + 'a) \<times> 's) \<Rightarrow> ('a \<Rightarrow> bool) \<Rightarrow> 's \<Rightarrow> bool" where
  "succeeds ok m P s \<longleftrightarrow> (\<exists>v s'. m s = (Inr v, s') \<and> P v \<and> ok s')"

lemma succeeds_lift: "P v \<Longrightarrow> ok s \<Longrightarrow> succeeds ok (se_lift (Inr v)) P s"
  by (simp add: succeeds_def)

lemma succeeds_bind:
  assumes "succeeds ok m P s" and "\<And>v s'. P v \<Longrightarrow> ok s' \<Longrightarrow> succeeds ok (f v) Q s'"
  shows "succeeds ok (se_bind m f) Q s"
proof -
  obtain v s' where m: "m s = (Inr v, s')" "P v" "ok s'" using assms(1) by (auto simp: succeeds_def)
  from assms(2) [OF m(2,3)] show ?thesis by (simp add: succeeds_def m(1))
qed

lemma succeeds_mono: "succeeds ok m P s \<Longrightarrow> (\<And>v. P v \<Longrightarrow> Q v) \<Longrightarrow> succeeds ok m Q s"
  by (auto simp: succeeds_def)

lemma succeeds_as_int: "is_scalar v \<Longrightarrow> ok s \<Longrightarrow> succeeds ok (se_lift (as_int v)) (\<lambda>i. True) s"
  by (simp add: as_int_scalar succeeds_lift)

lemma succeeds_as_bool: "is_scalar v \<Longrightarrow> ok s \<Longrightarrow> succeeds ok (se_lift (as_bool v)) (\<lambda>b. True) s"
  by (simp add: as_bool_scalar succeeds_lift)

lemma succeeds_int_binary:
  assumes "succeeds ok m1 is_scalar s" and "\<And>s. ok s \<Longrightarrow> succeeds ok m2 is_scalar s"
  shows "succeeds ok (int_binary f m1 m2) is_scalar s"
  unfolding int_binary_def
  by (intro succeeds_bind [OF assms(1)] succeeds_bind [OF succeeds_as_int]
      succeeds_bind [OF assms(2)] succeeds_lift) simp_all

lemma succeeds_int_compare:
  assumes "succeeds ok m1 is_scalar s" and "\<And>s. ok s \<Longrightarrow> succeeds ok m2 is_scalar s"
  shows "succeeds ok (int_compare f m1 m2) (\<lambda>v. has_type v (Bounded 2)) s"
  unfolding int_compare_def
  by (intro succeeds_bind [OF assms(1)] succeeds_bind [OF succeeds_as_int]
      succeeds_bind [OF assms(2)] succeeds_lift has_type_bool) simp_all

lemma succeeds_equality:
  assumes "succeeds ok m1 is_scalar s" and "\<And>s. ok s \<Longrightarrow> succeeds ok m2 is_scalar s"
  shows "succeeds ok (eval_equality n m1 m2) (\<lambda>v. has_type v (Bounded 2)) s"
proof -
  have eq: "\<exists>b. values_equal v w = Inr b" if "is_scalar v" "is_scalar w" for v w
    using that by (cases v; cases w) (auto simp: values_equal_def)
  have "succeeds ok (se_lift (values_equal v w)) (\<lambda>b. True) s'" if "is_scalar v" "is_scalar w" "ok s'"
    for v w s' using eq [OF that(1,2)] that(3) by (auto simp: succeeds_def)
  note step = succeeds_bind [OF this]
  show ?thesis
    unfolding eval_equality_def
    by (intro succeeds_bind [OF assms(1)] succeeds_bind [OF assms(2)] step succeeds_lift has_type_bool)
qed

lemma succeeds_logical:
  assumes "succeeds ok m1 is_scalar s" and "\<And>s. ok s \<Longrightarrow> succeeds ok m2 is_scalar s"
  shows "succeeds ok (eval_logical b m1 m2) (\<lambda>v. has_type v (Bounded 2)) s"
proof -
  have rest: "succeeds ok (se_bind m2 (\<lambda>v. se_bind (se_lift (as_bool v)) (\<lambda>r. se_lift (Inr (BoolV r)))))
      (\<lambda>v. has_type v (Bounded 2)) s'" if "ok s'" for s'
    by (intro succeeds_bind [OF assms(2)] succeeds_bind [OF succeeds_as_bool] succeeds_lift
        has_type_bool that)
  show ?thesis
    unfolding eval_logical_def
    by (rule succeeds_bind [OF assms(1)], rule succeeds_bind [OF succeeds_as_bool])
      (auto simp del: has_type.simps intro: rest succeeds_lift has_type_bool)
qed

lemma succeeds_binary:
  assumes "succeeds ok m1 is_scalar s" and "\<And>s. ok s \<Longrightarrow> succeeds ok m2 is_scalar s"
  shows "succeeds ok (evaluate_binary b m1 m2)
    (\<lambda>v. has_type v (if boolean_op b then Bounded 2 else Scalar)) s"
  using succeeds_int_binary [OF assms] succeeds_int_compare [OF assms]
    succeeds_equality [OF assms] succeeds_logical [OF assms]
  by (cases b) (simp_all add: boolean_op_def)

lemma succeeds_slice:
  assumes "succeeds ok m is_scalar s" and "slice_type sl = Some t"
  shows "succeeds ok (evaluate_bit_slice sl m) (\<lambda>v. has_type v t) s"
proof -
  have "\<not> sl_end sl < sl_start sl" "\<not> 64 \<le> sl_end sl"
    using assms(2) by (auto simp: slice_type_def Let_def split: if_splits)
  then show ?thesis
    unfolding evaluate_bit_slice_def
    by (simp del: has_type.simps)
      (intro succeeds_bind [OF assms(1)] succeeds_bind [OF succeeds_as_int] succeeds_lift
        has_type_slice [OF assms(2)]; assumption)
qed

section \<open>The contract of a resolver\<close>

locale call_contract =
  fixes res :: "'s resolver" and sg :: signature and ok :: "'s \<Rightarrow> bool"
  assumes call_ok: "ok s \<Longrightarrow> list_all2 has_type vs ts \<Longrightarrow> sg call ts = Some t \<Longrightarrow>
    succeeds ok (res call vs) (\<lambda>v. has_type v t) s"
begin

lemma eval_list_ok:
  assumes "\<And>e t s. e \<in> set es \<Longrightarrow> infer env sg e = Some t \<Longrightarrow> ok s \<Longrightarrow>
      succeeds ok (eval res ctx e) (\<lambda>v. has_type v t) s"
    and "infer_list env sg es = Some ts" and "ok s"
  shows "succeeds ok (eval_list res ctx es) (\<lambda>vs. list_all2 has_type vs ts) s"
  using assms
proof (induction es arbitrary: ts s)
  case Nil
  then show ?case by (simp add: succeeds_def)
next
  case (Cons e es)
  then obtain t us where e: "infer env sg e = Some t" and es: "infer_list env sg es = Some us"
    and ts: "ts = t # us"
    by (auto split: option.splits)
  show ?case
    unfolding eval_list.simps ts
  proof (rule succeeds_bind)
    show "succeeds ok (eval res ctx e) (\<lambda>v. has_type v t) s" using Cons.prems e by simp
    show "succeeds ok (se_bind (eval_list res ctx es) (\<lambda>vs. se_lift (Inr (v # vs))))
        (\<lambda>vs. list_all2 has_type vs (t # us)) s'" if "has_type v t" and "ok s'" for v s'
      by (rule succeeds_bind [OF Cons.IH [OF Cons.prems(1) es that(2)]])
        (simp_all add: succeeds_lift that)
  qed
qed

theorem eval_ok:
  assumes "ctx_typed env ctx"
  shows "infer env sg e = Some t \<Longrightarrow> ok s \<Longrightarrow> succeeds ok (eval res ctx e) (\<lambda>v. has_type v t) s"
    and "e' \<in> set (cc_args c) \<Longrightarrow> infer env sg e' = Some t \<Longrightarrow> ok s \<Longrightarrow>
      succeeds ok (eval res ctx e') (\<lambda>v. has_type v t) s"
proof (induction e and c arbitrary: t s and e' t s rule: expr.induct context_call.induct)
  case (Number n)
  then show ?case
    by (auto simp: eval_literal_def sint_small succeeds_def split: if_splits)
next
  case (Variable name span)
  then show ?case
    using ctx_typed_get [OF assms] by (fastforce simp: lookup_variable_def succeeds_def)
next
  case (Parameter name span)
  then show ?case
    using ctx_typed_get [OF assms] by (fastforce simp: lookup_parameter_def succeeds_def)
next
  case (Call call)
  obtain k sp n sub args span where c: "call = ContextCall k sp n sub args span" by (cases call)
  then obtain ts where ts: "infer_list env sg args = Some ts" and t: "sg call ts = Some t"
    using Call.prems(1) by (auto split: option.splits)
  have "succeeds ok (eval_list res ctx args) (\<lambda>vs. list_all2 has_type vs ts) s"
    using Call ts by (intro eval_list_ok) (simp_all add: c)
  then show ?case
    unfolding c eval.simps
  proof (rule succeeds_bind)
    fix vs s'
    assume "list_all2 has_type vs ts" and "ok s'"
    then show "succeeds ok (res (ContextCall k sp n sub args span) vs) (\<lambda>v. has_type v t) s'"
      using t by (intro call_ok) (simp_all add: c)
  qed
next
  case (TupleExpr es)
  then obtain ts where ts: "infer_list env sg es = Some ts" and t: "t = Product ts" by auto
  have "succeeds ok (eval_list res ctx es) (\<lambda>vs. list_all2 has_type vs ts) s"
    using TupleExpr ts by (intro eval_list_ok) simp_all
  then show ?case
    unfolding eval.simps t by (rule succeeds_bind) (simp add: succeeds_lift)
next
  case (BinaryOp b e1 e2)
  then obtain t1 t2 where e: "infer env sg e1 = Some t1" "infer env sg e2 = Some t2"
    and sc: "scalar_sort t1" "scalar_sort t2" and t: "t = (if boolean_op b then Bounded 2 else Scalar)"
    by (auto split: option.splits if_splits)
  show ?case
    unfolding eval.simps t
    by (intro succeeds_binary succeeds_mono [OF BinaryOp.IH(1) [OF e(1)]]
        succeeds_mono [OF BinaryOp.IH(2) [OF e(2)]] has_type_scalar [OF _ sc(1)]
        has_type_scalar [OF _ sc(2)] BinaryOp.prems(2))
next
  case (BitSlice e sl)
  then obtain u where e: "infer env sg e = Some u" and sc: "scalar_sort u"
    and t: "slice_type sl = Some t"
    by (auto split: option.splits if_splits)
  show ?case
    unfolding eval.simps
    by (intro succeeds_slice [OF _ t] succeeds_mono [OF BitSlice.IH [OF e BitSlice.prems(2)]]
        has_type_scalar [OF _ sc])
next
  case (ContextCall k sp n sub args span)
  then show ?case by auto
qed

end

end
