(* ===== verification/Lexer.thy ===== *)
theory Lexer
  imports IsaError
begin

text \<open>
  The tokenizer of the \<open>.isa\<close> language (\<open>src/loader/isa/lexer.rs\<close>).  The lexer state keeps the
  input that is left in place of a byte offset, and the line and column of the last character
  read; a slice \<open>src[start..end]\<close> is what the input lost between two states.  A method that can
  fail returns its error and the state it stopped in.
\<close>

section \<open>Tokens and state\<close>

datatype token_kind =
    Colon | DoubleColon | DoublePeriod | DirectTo | BitExpr | Range | Identifier | NumberTok
  | StringTok | LBrace | RBrace | LParen | RParen | LessThan | GreaterThan | Pipe | DoublePipe
  | Equals | DoubleEquals | Comma | Semicolon | Question | Dash | Plus | Bang | BangEquals
  | Percent | Caret | Ampersand | DoubleAmpersand | Asterisk | Slash | Tilde | Backtick
  | Apostrophe | EOF

record token =
  tok_kind :: token_kind
  tok_lexeme :: string
  tok_line :: nat
  tok_column :: nat

record captured_block =
  cb_body :: string
  cb_end_line :: nat
  cb_end_column :: nat

datatype radix = RBinary | ROctal | RDecimal | RHex

fun radix_accepts :: "radix \<Rightarrow> char \<Rightarrow> bool" where
  "radix_accepts RBinary c = (to_digit 2 c \<noteq> None)"
| "radix_accepts ROctal c = (to_digit 8 c \<noteq> None)"
| "radix_accepts RDecimal c = is_ascii_digit c"
| "radix_accepts RHex c = (to_digit 16 c \<noteq> None)"

record lexer =
  lx_rest :: string
  lx_path :: string
  lx_line :: nat
  lx_column :: nat

definition lexer_with_origin :: "string \<Rightarrow> string \<Rightarrow> nat \<Rightarrow> nat \<Rightarrow> lexer" where
  "lexer_with_origin src path start_line start_column =
     \<lparr>lx_rest = src, lx_path = path, lx_line = start_line, lx_column = start_column\<rparr>"

definition lexer_new :: "string \<Rightarrow> string \<Rightarrow> lexer" where
  "lexer_new src path = lexer_with_origin src path 1 0"

definition peek_char :: "lexer \<Rightarrow> char option" where
  "peek_char lx = (case lx_rest lx of [] \<Rightarrow> None | c # cs \<Rightarrow> Some c)"

definition peek_next_char :: "lexer \<Rightarrow> char option" where
  "peek_next_char lx = (case lx_rest lx of c # d # cs \<Rightarrow> Some d | _ \<Rightarrow> None)"

definition newline :: char where
  "newline = CHR 0x0A"

definition advance_char :: "lexer \<Rightarrow> lexer" where
  "advance_char lx =
     (case lx_rest lx of
        [] \<Rightarrow> lx
      | c # cs \<Rightarrow>
          if c = newline then lx\<lparr>lx_rest := cs, lx_line := lx_line lx + 1, lx_column := 0\<rparr>
          else lx\<lparr>lx_rest := cs, lx_column := lx_column lx + 1\<rparr>)"

definition lx_position :: "lexer \<Rightarrow> nat \<times> nat" where
  "lx_position lx = (lx_line lx, lx_column lx + 1)"

definition make_token :: "token_kind \<Rightarrow> string \<Rightarrow> nat \<times> nat \<Rightarrow> token" where
  "make_token kind lexeme pos =
     \<lparr>tok_kind = kind, tok_lexeme = lexeme, tok_line = fst pos, tok_column = snd pos\<rparr>"

text \<open>\<open>src[start.offset..self.offset]\<close>.\<close>

definition lexed :: "lexer \<Rightarrow> lexer \<Rightarrow> string" where
  "lexed start lx = take (length (lx_rest start) - length (lx_rest lx)) (lx_rest start)"

definition token_from :: "token_kind \<Rightarrow> lexer \<Rightarrow> lexer \<Rightarrow> token" where
  "token_from kind start lx = make_token kind (lexed start lx) (lx_position start)"

definition lexer_diagnostic :: "lexer \<Rightarrow> string \<Rightarrow> string \<Rightarrow> nat \<times> nat \<Rightarrow> isa_error" where
  "lexer_diagnostic lx code message pos =
     Diagnostics LexerPhase
       [\<lparr>diag_phase = LexerPhase, diag_level = ErrorLevel, diag_code = code,
         diag_message = message,
         diag_span = Some (span_point (lx_path lx)
                             \<lparr>pos_line = fst pos, pos_column = snd pos\<rparr>)\<rparr>]"

definition is_ident_start :: "char \<Rightarrow> bool" where
  "is_ident_start c \<longleftrightarrow> is_ascii_alphabetic c \<or> c = CHR ''_'' \<or> c = CHR ''$'' \<or> c = CHR ''#''"

definition is_ident_part :: "char \<Rightarrow> bool" where
  "is_ident_part c \<longleftrightarrow> is_ident_start c \<or> is_ascii_digit c \<or> c = CHR ''.''"

section \<open>Loops over characters\<close>

lemma advance_rest [simp]: "lx_rest (advance_char lx) = tl (lx_rest lx)"
  by (cases "lx_rest lx") (auto simp: advance_char_def)

lemma advance_path [simp]: "lx_path (advance_char lx) = lx_path lx"
  by (cases "lx_rest lx") (auto simp: advance_char_def)

lemma length_advance: "lx_rest lx \<noteq> [] \<Longrightarrow> length (lx_rest (advance_char lx)) < length (lx_rest lx)"
  by (cases "lx_rest lx") auto

text \<open>\<open>while let Some(ch) = self.peek_char() { if p(ch) { advance } else { break } }\<close>.\<close>

function advance_while :: "(char \<Rightarrow> bool) \<Rightarrow> lexer \<Rightarrow> lexer" where
  "advance_while p lx =
     (case lx_rest lx of
        [] \<Rightarrow> lx
      | c # cs \<Rightarrow> if p c then advance_while p (advance_char lx) else lx)"
  by pat_completeness auto
termination
  by (relation "measure (\<lambda>(p, lx). length (lx_rest lx))") auto

declare advance_while.simps [simp del]

definition skip_whitespace :: "lexer \<Rightarrow> lexer" where
  "skip_whitespace lx = advance_while is_whitespace lx"

text \<open>Blanks other than the line feed.\<close>

definition skip_inline_whitespace :: "lexer \<Rightarrow> lexer" where
  "skip_inline_whitespace lx = advance_while (\<lambda>c. is_whitespace c \<and> c \<noteq> newline) lx"

text \<open>The rest of the line, line feed included.\<close>

definition consume_line_comment :: "lexer \<Rightarrow> lexer" where
  "consume_line_comment lx = advance_char (advance_while (\<lambda>c. c \<noteq> newline) lx)"

lemma advance_while_length: "length (lx_rest (advance_while p lx)) \<le> length (lx_rest lx)"
proof (induction p lx rule: advance_while.induct)
  case (1 p lx)
  show ?case
  proof (cases "lx_rest lx")
    case (Cons c cs)
    then show ?thesis
      using 1 [of c cs] length_advance [of lx] by (auto simp: advance_while.simps [of p lx])
  qed (simp add: advance_while.simps)
qed

lemma advance_length_le: "length (lx_rest (advance_char lx)) \<le> length (lx_rest lx)"
  by (cases "lx_rest lx") (auto simp: advance_char_def)

lemma consume_line_comment_length: "length (lx_rest (consume_line_comment lx)) \<le> length (lx_rest lx)"
  unfolding consume_line_comment_def
  by (rule order_trans [OF advance_length_le advance_while_length])

definition at_comment :: "lexer \<Rightarrow> bool" where
  "at_comment lx \<longleftrightarrow> peek_char lx = Some CHR ''/'' \<and> peek_next_char lx = Some CHR ''/''"

lemma at_comment_rest: "at_comment lx \<Longrightarrow> lx_rest lx \<noteq> []"
  by (auto simp: at_comment_def peek_char_def)

function skip_ignorable :: "lexer \<Rightarrow> lexer" where
  "skip_ignorable lx =
     (let lx1 = skip_whitespace lx in
      if at_comment lx1
      then skip_ignorable (consume_line_comment (advance_char (advance_char lx1)))
      else lx1)"
  by pat_completeness auto
termination
proof (relation "measure (\<lambda>lx. length (lx_rest lx))")
  fix lx lx1 :: lexer
  assume lx1: "lx1 = skip_whitespace lx" and "at_comment lx1"
  have "length (lx_rest (consume_line_comment (advance_char (advance_char lx1)))) \<le>
      length (lx_rest (advance_char lx1))"
    by (rule order_trans [OF consume_line_comment_length advance_length_le])
  also have "\<dots> < length (lx_rest lx1)"
    using at_comment_rest [OF \<open>at_comment lx1\<close>] by (rule length_advance)
  also have "\<dots> \<le> length (lx_rest lx)"
    by (simp add: lx1 skip_whitespace_def advance_while_length)
  finally show "(consume_line_comment (advance_char (advance_char lx1)), lx) \<in>
      measure (\<lambda>lx. length (lx_rest lx))"
    by simp
qed simp

declare skip_ignorable.simps [simp del]

section \<open>Tokens of fixed text\<close>

definition consume_single :: "token_kind \<Rightarrow> lexer \<Rightarrow> token \<times> lexer" where
  "consume_single kind lx =
     (let lx1 = advance_char lx in (token_from kind lx lx1, lx1))"

text \<open>\<open>consume_double_period\<close> and \<open>consume_direct_to\<close>.\<close>

definition consume_two :: "token_kind \<Rightarrow> lexer \<Rightarrow> token \<times> lexer" where
  "consume_two kind lx =
     (let lx1 = advance_char (advance_char lx) in (token_from kind lx lx1, lx1))"

text \<open>\<open>consume_colon\<close>, \<open>consume_pipe\<close>, \<open>consume_ampersand\<close>, \<open>consume_equals\<close> and \<open>consume_bang\<close>: a
  second character makes another token.\<close>

definition consume_one_or_two ::
    "token_kind \<Rightarrow> char \<Rightarrow> token_kind \<Rightarrow> lexer \<Rightarrow> token \<times> lexer" where
  "consume_one_or_two kind second kind2 lx =
     (let lx1 = advance_char lx in
      if peek_char lx1 = Some second
      then (let lx2 = advance_char lx1 in (token_from kind2 lx lx2, lx2))
      else (token_from kind lx lx1, lx1))"

definition consume_colon :: "lexer \<Rightarrow> token \<times> lexer" where
  "consume_colon = consume_one_or_two Colon (CHR '':'') DoubleColon"

definition consume_pipe :: "lexer \<Rightarrow> token \<times> lexer" where
  "consume_pipe = consume_one_or_two Pipe (CHR ''|'') DoublePipe"

definition consume_ampersand :: "lexer \<Rightarrow> token \<times> lexer" where
  "consume_ampersand = consume_one_or_two Ampersand (CHR ''&'') DoubleAmpersand"

definition consume_equals :: "lexer \<Rightarrow> token \<times> lexer" where
  "consume_equals = consume_one_or_two Equals (CHR ''='') DoubleEquals"

definition consume_bang :: "lexer \<Rightarrow> token \<times> lexer" where
  "consume_bang = consume_one_or_two Bang (CHR ''='') BangEquals"

definition consume_double_period :: "lexer \<Rightarrow> token \<times> lexer" where
  "consume_double_period = consume_two DoublePeriod"

definition consume_direct_to :: "lexer \<Rightarrow> token \<times> lexer" where
  "consume_direct_to = consume_two DirectTo"

section \<open>Identifiers and numbers\<close>

definition consume_identifier :: "lexer \<Rightarrow> (isa_error + token) \<times> lexer" where
  "consume_identifier lx =
     (let lx1 = advance_while is_ident_part (advance_char lx)
      in (Inr (token_from Identifier lx lx1), lx1))"

text \<open>The digit loop: separators are skipped, digits counted.\<close>

function consume_digits :: "radix \<Rightarrow> nat \<Rightarrow> lexer \<Rightarrow> nat \<times> lexer" where
  "consume_digits radix n lx =
     (case lx_rest lx of
        [] \<Rightarrow> (n, lx)
      | c # cs \<Rightarrow>
          if c = CHR ''_'' then consume_digits radix n (advance_char lx)
          else if radix_accepts radix c then consume_digits radix (n + 1) (advance_char lx)
          else (n, lx))"
  by pat_completeness auto
termination
  by (relation "measure (\<lambda>(r, n, lx). length (lx_rest lx))") auto

declare consume_digits.simps [simp del]

text \<open>The radix prefix after a leading zero: the radix, the digits counted so far and whether a
  digit must follow.\<close>

definition consume_prefix :: "lexer \<Rightarrow> radix \<times> nat \<times> bool \<times> lexer" where
  "consume_prefix lx =
     (let lx1 = advance_char lx in
      case peek_char lx1 of
        None \<Rightarrow> (RDecimal, 1, False, lx1)
      | Some c \<Rightarrow>
          if c = CHR ''x'' \<or> c = CHR ''X'' then (RHex, 0, True, advance_char lx1)
          else if c = CHR ''b'' \<or> c = CHR ''B'' then (RBinary, 0, True, advance_char lx1)
          else if c = CHR ''o'' \<or> c = CHR ''O'' then (ROctal, 0, True, advance_char lx1)
          else (RDecimal, 1, False, lx1))"

definition peek_digit :: "lexer \<Rightarrow> bool" where
  "peek_digit lx = (case peek_char lx of Some c \<Rightarrow> is_ascii_digit c | None \<Rightarrow> False)"

definition consume_number :: "lexer \<Rightarrow> (isa_error + token) \<times> lexer" where
  "consume_number lx =
     (let pos = lx_position lx;
          negative = (peek_char lx = Some CHR ''-'');
          lx1 = (if negative then advance_char lx else lx)
      in if negative \<and> \<not> peek_digit lx1 then
           (Inl (lexer_diagnostic lx1 ''lexer.number.missing-digits''
                   (''numeric literal requires digits after '' @ quoted ''-'') pos), lx1)
         else
           (let (radix, n, require_digit, lx2) =
              (if peek_char lx1 = Some CHR ''0'' then consume_prefix lx1
               else (RDecimal, 1, False, advance_char lx1));
              (n', lx3) = consume_digits radix n lx2
            in if require_digit \<and> n' = 0 then
                 (Inl (lexer_diagnostic lx3 ''lexer.number.missing-digits''
                         ''numeric literal requires digits after prefix'' pos), lx3)
               else (Inr (token_from NumberTok lx lx3), lx3)))"

section \<open>Bit expressions, ranges and strings\<close>

text \<open>The scan to the parenthesis that closes depth \<open>depth\<close>; the depth left is returned.\<close>

function scan_parens :: "nat \<Rightarrow> lexer \<Rightarrow> nat \<times> lexer" where
  "scan_parens depth lx =
     (case lx_rest lx of
        [] \<Rightarrow> (depth, lx)
      | c # cs \<Rightarrow>
          (let lx1 = advance_char lx in
           if c = CHR ''('' then scan_parens (depth + 1) lx1
           else if c = CHR '')'' then
             (if depth - 1 = 0 then (0, lx1) else scan_parens (depth - 1) lx1)
           else scan_parens depth lx1))"
  by pat_completeness auto
termination
  by (relation "measure (\<lambda>(d, lx). length (lx_rest lx))") auto

declare scan_parens.simps [simp del]

definition consume_bit_expr :: "lexer \<Rightarrow> (isa_error + token) \<times> lexer" where
  "consume_bit_expr lx =
     (let pos = lx_position lx; lx1 = advance_char lx in
      if peek_char lx1 \<noteq> Some CHR ''('' then
        (Inl (lexer_diagnostic lx1 ''lexer.bitexpr.syntax''
                (''bit expression must start with '' @ quoted ''@('') pos), lx1)
      else
        (let (depth, lx2) = scan_parens 1 (advance_char lx1) in
         if depth \<noteq> 0 then
           (Inl (lexer_diagnostic lx2 ''lexer.bitexpr.unterminated''
                   ''unterminated bit expression'' pos), lx2)
         else (Inr (token_from BitExpr lx lx2), lx2)))"

definition consume_range_literal :: "lexer \<Rightarrow> (isa_error + unit) \<times> lexer" where
  "consume_range_literal lx =
     (let pos = lx_position lx;
          lx1 = (if peek_char lx = Some CHR ''+'' \<or> peek_char lx = Some CHR ''-''
                 then advance_char lx else lx)
      in if \<not> peek_digit lx1 then
           (Inl (lexer_diagnostic lx1 ''lexer.range.literal''
                   ''expected numeric literal in range'' pos), lx1)
         else
           (let (radix, n, require_digit, lx2) =
              (if peek_char lx1 = Some CHR ''0'' then consume_prefix lx1
               else (RDecimal, 1, False, advance_char lx1));
              (n', lx3) = consume_digits radix n lx2
            in if require_digit \<and> n' = 0 then
                 (Inl (lexer_diagnostic lx3 ''lexer.range.literal-missing-digits''
                         ''range literal missing digits after radix prefix'' pos), lx3)
               else (Inr (), lx3)))"

definition consume_optional_size_unit :: "lexer \<Rightarrow> (isa_error + unit) \<times> lexer" where
  "consume_optional_size_unit lx =
     (let pos = lx_position lx;
          lx1 = advance_while is_ascii_alphabetic lx;
          unit = lexed lx lx1;
          normalized = map ascii_lower unit
      in if unit = [] then (Inr (), lx1)
         else if normalized \<in> {''kb'', ''mb'', ''gb'', ''tb'', ''pb''} then (Inr (), lx1)
         else (Inl (lexer_diagnostic lx1 ''lexer.range.size-unit''
                      (fmt ''unknown range size unit {}: expected kB/MB/GB/TB/PB'' [quoted unit])
                      pos), lx1))"

text \<open>The operator of a range: \<open>Some True\<close> for the size form, \<open>Some False\<close> for the inclusive one.\<close>

definition consume_range_operator :: "lexer \<Rightarrow> (isa_error + bool) \<times> lexer" where
  "consume_range_operator lx =
     (if peek_char lx = Some CHR ''+'' then (Inr True, advance_char lx)
      else if peek_char lx = Some CHR ''.'' \<and> peek_next_char lx = Some CHR ''.''
      then (Inr False, advance_char (advance_char lx))
      else (Inl (lexer_diagnostic lx ''lexer.range.operator''
                   (fmt ''range must use {} or {} after the starting literal''
                      [quoted ''+'', quoted ''..'']) (lx_position lx)), lx))"

definition consume_range_close :: "lexer \<Rightarrow> (isa_error + unit) \<times> lexer" where
  "consume_range_close lx =
     (if peek_char lx \<noteq> Some CHR '']'' then
        (Inl (lexer_diagnostic lx ''lexer.range.unclosed''
                (''range missing closing '' @ quoted '']'') (lx_position lx)), lx)
      else (Inr (), advance_char lx))"

definition consume_range_token :: "lexer \<Rightarrow> (isa_error + token) \<times> lexer" where
  "consume_range_token lx =
     se_bind consume_range_literal (\<lambda>_ lx1.
       se_bind consume_range_operator (\<lambda>size lx2.
         se_bind consume_range_literal (\<lambda>_ lx3.
           se_bind (if size then consume_optional_size_unit else se_lift (Inr ())) (\<lambda>_ lx4.
             se_bind consume_range_close (\<lambda>_ lx5. (Inr (token_from Range lx lx5), lx5))
               (skip_inline_whitespace lx4)) lx3)
           (skip_inline_whitespace lx2))
         (skip_inline_whitespace lx1))
       (skip_inline_whitespace (advance_char lx))"

definition unescape :: "char \<Rightarrow> char" where
  "unescape c = (if c = CHR ''n'' then newline else if c = CHR ''t'' then CHR 0x09 else c)"

text \<open>The body of a string literal up to its closing quote; \<open>start\<close> is the position of the opening
  quote.\<close>

function scan_string :: "nat \<times> nat \<Rightarrow> string \<Rightarrow> lexer \<Rightarrow> (isa_error + string) \<times> lexer" where
  "scan_string start acc lx =
     (case lx_rest lx of
        [] \<Rightarrow> (Inl (lexer_diagnostic lx ''lexer.string.unterminated''
                 ''unterminated string literal'' start), lx)
      | c # cs \<Rightarrow>
          if c = CHR 0x22 then (Inr acc, advance_char lx)
          else if c = CHR 0x5C then
            (let lx1 = advance_char lx in
             case lx_rest lx1 of
               [] \<Rightarrow> (Inl (lexer_diagnostic lx1 ''lexer.string.escape''
                        ''unterminated escape sequence'' (lx_position lx1)), lx1)
             | d # ds \<Rightarrow> scan_string start (acc @ [unescape d]) (advance_char lx1))
          else if c = newline then
            (Inl (lexer_diagnostic lx ''lexer.string.unterminated''
                    ''unterminated string literal'' (lx_position lx)), lx)
          else scan_string start (acc @ [c]) (advance_char lx))"
  by pat_completeness auto
termination
  by (relation "measure (\<lambda>(s, a, lx). length (lx_rest lx))") auto

declare scan_string.simps [simp del]

definition consume_string :: "lexer \<Rightarrow> (isa_error + token) \<times> lexer" where
  "consume_string lx =
     (let start = lx_position lx in
      se_bind (scan_string start []) (\<lambda>body lx1. (Inr (make_token StringTok body start), lx1))
        (advance_char lx))"

section \<open>Blocks and the next token\<close>

function scan_block :: "nat \<Rightarrow> string \<Rightarrow> lexer \<Rightarrow> (isa_error + captured_block) \<times> lexer" where
  "scan_block depth body lx =
     (case lx_rest lx of
        [] \<Rightarrow> (Inl (lexer_diagnostic lx ''lexer.block.unterminated''
                 (''unterminated block; missing '' @ quoted ''}'') (lx_position lx)), lx)
      | c # cs \<Rightarrow>
          (let pos = lx_position lx; lx1 = advance_char lx in
           if c = CHR ''{'' then scan_block (depth + 1) (body @ [c]) lx1
           else if c = CHR ''}'' then
             (if depth - 1 = 0
              then (Inr \<lparr>cb_body = body, cb_end_line = fst pos, cb_end_column = snd pos\<rparr>, lx1)
              else scan_block (depth - 1) (body @ [c]) lx1)
           else scan_block depth (body @ [c]) lx1))"
  by pat_completeness auto
termination
  by (relation "measure (\<lambda>(d, b, lx). length (lx_rest lx))") auto

declare scan_block.simps [simp del]

definition capture_braced_block :: "lexer \<Rightarrow> (isa_error + captured_block) \<times> lexer" where
  "capture_braced_block lx = scan_block 1 [] lx"

definition ok_token :: "token \<times> lexer \<Rightarrow> (isa_error + token) \<times> lexer" where
  "ok_token r = (Inr (fst r), snd r)"

definition single_kinds :: "(char \<times> token_kind) list" where
  "single_kinds =
     [(CHR ''{'', LBrace), (CHR ''}'', RBrace), (CHR ''('', LParen), (CHR '')'', RParen),
      (CHR ''<'', LessThan), (CHR ''>'', GreaterThan), (CHR '','', Comma),
      (CHR '';'', Semicolon), (CHR ''?'', Question), (CHR ''+'', Plus), (CHR ''%'', Percent),
      (CHR ''^'', Caret), (CHR ''*'', Asterisk), (CHR ''/'', Slash), (CHR ''~'', Tilde),
      (CHR 0x60, Backtick), (CHR 0x27, Apostrophe)]"

text \<open>The dispatch on the first character of a token.  A comment cannot be the first: it was
  skipped.\<close>

definition lex_from :: "char \<Rightarrow> lexer \<Rightarrow> (isa_error + token) \<times> lexer" where
  "lex_from c lx =
     (if c = CHR ''.'' \<and> peek_next_char lx = Some CHR ''.'' then ok_token (consume_double_period lx)
      else if c = CHR '':'' then ok_token (consume_colon lx)
      else if c = CHR ''['' then consume_range_token lx
      else if c = CHR ''|'' then ok_token (consume_pipe lx)
      else if c = CHR ''='' then ok_token (consume_equals lx)
      else if c = CHR ''@'' then consume_bit_expr lx
      else if c = CHR ''-'' then
        (if peek_next_char lx = Some CHR ''>'' then ok_token (consume_direct_to lx)
         else if peek_digit (advance_char lx) then consume_number lx
         else ok_token (consume_single Dash lx))
      else if c = CHR ''!'' then ok_token (consume_bang lx)
      else if c = CHR ''&'' then ok_token (consume_ampersand lx)
      else if c = CHR 0x22 then consume_string lx
      else case map_of single_kinds c of
             Some kind \<Rightarrow> ok_token (consume_single kind lx)
           | None \<Rightarrow>
               if is_ascii_digit c then consume_number lx
               else if is_ident_start c then consume_identifier lx
               else (Inl (lexer_diagnostic lx ''lexer.unexpected-char''
                            (''unexpected character '' @ quoted [c]) (lx_position lx)),
                     advance_char lx))"

definition next_token :: "lexer \<Rightarrow> (isa_error + token) \<times> lexer" where
  "next_token lx =
     (let lx1 = skip_ignorable lx in
      case peek_char lx1 of
        None \<Rightarrow> (Inr (make_token EOF [] (lx_position lx1)), lx1)
      | Some c \<Rightarrow> lex_from c lx1)"

end
