(* ===== verification/LexerFacts.thy ===== *)
theory LexerFacts
  imports Lexer
begin

text \<open>
  What every token of the lexer satisfies: the input left is a proper suffix of the input, and a
  token's lexeme is exactly the text consumed, so the tokenizer loses nothing but blanks and
  comments.
\<close>

section \<open>Moving forward\<close>

definition advances :: "lexer \<Rightarrow> lexer \<Rightarrow> bool" where
  "advances lx lx' \<longleftrightarrow> suffix (lx_rest lx') (lx_rest lx) \<and> lx_path lx' = lx_path lx"

definition strictly :: "lexer \<Rightarrow> lexer \<Rightarrow> bool" where
  "strictly lx lx' \<longleftrightarrow> advances lx lx' \<and> length (lx_rest lx') < length (lx_rest lx)"

lemma advances_refl [simp]: "advances lx lx"
  by (simp add: advances_def)

lemma advances_trans [trans]: "advances a b \<Longrightarrow> advances b c \<Longrightarrow> advances a c"
  by (metis advances_def suffix_order.trans)

lemma advances_length: "advances a b \<Longrightarrow> length (lx_rest b) \<le> length (lx_rest a)"
  by (auto simp: advances_def dest: suffix_length_le)

lemma strictly_advances: "strictly a b \<Longrightarrow> advances a b"
  by (simp add: strictly_def)

lemma strictly_trans1 [trans]: "strictly a b \<Longrightarrow> advances b c \<Longrightarrow> strictly a c"
  using advances_trans [of a b c] advances_length [of b c] by (auto simp: strictly_def)

lemma strictly_trans2 [trans]: "advances a b \<Longrightarrow> strictly b c \<Longrightarrow> strictly a c"
  using advances_trans [of a b c] advances_length [of a b] by (auto simp: strictly_def)

lemma advances_advance [simp]: "advances lx (advance_char lx)"
  by (simp add: advances_def suffix_tl)

lemma strictly_advance: "lx_rest lx \<noteq> [] \<Longrightarrow> strictly lx (advance_char lx)"
  by (simp add: strictly_def length_advance del: advance_rest)

lemma advances_while [simp]: "advances lx (advance_while p lx)"
proof (induction p lx rule: advance_while.induct)
  case (1 p lx)
  then show ?case
    using advances_trans [OF advances_advance [of lx]]
    by (cases "lx_rest lx") (auto simp: advance_while.simps [of p lx])
qed

lemma advances_skip [simp]: "advances lx (skip_ignorable lx)"
proof (induction lx rule: skip_ignorable.induct)
  case (1 lx)
  let ?l1 = "skip_whitespace lx"
  let ?l2 = "consume_line_comment (advance_char (advance_char ?l1))"
  have "advances lx ?l1" by (simp add: skip_whitespace_def)
  moreover have "advances ?l1 ?l2"
    unfolding consume_line_comment_def
    by (meson advances_advance advances_trans advances_while)
  ultimately show ?case
    using 1 [OF refl] advances_trans
    by (subst skip_ignorable.simps) (auto simp: Let_def)
qed

lemma not_at_comment_skip: "\<not> at_comment (skip_ignorable lx)"
proof (induction lx rule: skip_ignorable.induct)
  case (1 lx)
  then show ?case by (subst skip_ignorable.simps) (auto simp: Let_def)
qed

lemma advances_digits: "advances lx (snd (consume_digits r n lx))"
proof (induction r n lx rule: consume_digits.induct)
  case (1 r n lx)
  then show ?case
    using advances_trans [OF advances_advance [of lx]]
    by (cases "lx_rest lx") (auto simp: consume_digits.simps [of r n lx])
qed

lemma advances_parens: "advances lx (snd (scan_parens d lx))"
proof (induction d lx rule: scan_parens.induct)
  case (1 d lx)
  then show ?case
    using advances_trans [OF advances_advance [of lx]]
    by (cases "lx_rest lx") (auto simp: scan_parens.simps [of d lx] Let_def)
qed

lemma advances_string: "advances lx (snd (scan_string p acc lx))"
proof (induction p acc lx rule: scan_string.induct)
  case (1 p acc lx)
  show ?case
  proof (cases "lx_rest lx")
    case (Cons c cs)
    have a2: "advances lx (advance_char (advance_char lx))"
      by (meson advances_advance advances_trans)
    show ?thesis
      using 1 Cons advances_trans [OF advances_advance [of lx]] advances_trans [OF a2]
      by (auto simp: scan_string.simps [of p acc lx] Let_def split: list.splits)
  qed (simp add: scan_string.simps)
qed

lemma peek_char_Some: "peek_char lx = Some c \<longleftrightarrow> (\<exists>cs. lx_rest lx = c # cs)"
  by (auto simp: peek_char_def split: list.splits)

lemma peek_char_None: "peek_char lx = None \<longleftrightarrow> lx_rest lx = []"
  by (auto simp: peek_char_def split: list.splits)

lemma peek_digit_rest: "peek_digit lx \<Longrightarrow> lx_rest lx \<noteq> []"
  by (auto simp: peek_digit_def peek_char_def split: list.splits)

lemma consume_prefix_strictly:
  "lx_rest lx \<noteq> [] \<Longrightarrow> consume_prefix lx = (r, n, b, lx') \<Longrightarrow> strictly lx lx'"
  using strictly_advance [of lx] strictly_trans1 [of lx "advance_char lx" "advance_char (advance_char lx)"]
  by (auto simp: consume_prefix_def Let_def split: option.splits if_splits)

text \<open>The digits of a number, after the optional sign.\<close>

lemma number_body_strictly:
  assumes "lx_rest lx \<noteq> []"
    and "(if peek_char lx = Some CHR ''0'' then consume_prefix lx
          else (RDecimal, 1, False, advance_char lx)) = (r, n, b, lx2)"
    and "consume_digits r n lx2 = (n', lx3)"
  shows "strictly lx lx3"
proof -
  have "strictly lx lx2"
    using assms(1,2) consume_prefix_strictly strictly_advance [of lx] by (auto split: if_splits)
  moreover have "advances lx2 lx3" using advances_digits [of lx2 r n] assms(3) by simp
  ultimately show ?thesis by (rule strictly_trans1)
qed

section \<open>Every consumer moves forward and reports what it consumed\<close>

text \<open>\<open>lossless lx r\<close>: on success the token was made of a non-empty piece of the input of \<open>lx\<close>, which
  is its lexeme unless it is a string.\<close>

definition lossless :: "lexer \<Rightarrow> (isa_error + token) \<times> lexer \<Rightarrow> bool" where
  "lossless lx r \<longleftrightarrow>
     (\<forall>t lx'. r = (Inr t, lx') \<longrightarrow>
        strictly lx lx' \<and> tok_kind t \<noteq> EOF \<and> (tok_line t, tok_column t) = lx_position lx \<and>
        (tok_kind t \<noteq> StringTok \<longrightarrow> lx_rest lx = tok_lexeme t @ lx_rest lx'))"

lemma lexed_append: "advances lx lx' \<Longrightarrow> lexed lx lx' @ lx_rest lx' = lx_rest lx"
  by (auto simp: advances_def suffix_def lexed_def)

lemma lossless_token_from:
  "strictly lx lx' \<Longrightarrow> kind \<noteq> EOF \<Longrightarrow> lossless lx (Inr (token_from kind lx lx'), lx')"
  by (auto simp: lossless_def token_from_def make_token_def lexed_append strictly_advances)

lemma lossless_Inl [simp]: "lossless lx (Inl e, lx')"
  by (simp add: lossless_def)

lemma lossless_single:
  "lx_rest lx \<noteq> [] \<Longrightarrow> kind \<noteq> EOF \<Longrightarrow> lossless lx (ok_token (consume_single kind lx))"
  by (simp add: ok_token_def consume_single_def Let_def lossless_token_from strictly_advance)

lemma strictly_two: "lx_rest lx \<noteq> [] \<Longrightarrow> strictly lx (advance_char (advance_char lx))"
  by (rule strictly_trans1 [OF strictly_advance advances_advance])

lemma lossless_two:
  "lx_rest lx \<noteq> [] \<Longrightarrow> kind \<noteq> EOF \<Longrightarrow> lossless lx (ok_token (consume_two kind lx))"
  by (simp add: ok_token_def consume_two_def Let_def lossless_token_from strictly_two)

lemma lossless_one_or_two:
  "lx_rest lx \<noteq> [] \<Longrightarrow> k1 \<noteq> EOF \<Longrightarrow> k2 \<noteq> EOF \<Longrightarrow>
     lossless lx (ok_token (consume_one_or_two k1 c k2 lx))"
  by (simp add: ok_token_def consume_one_or_two_def Let_def lossless_token_from strictly_two
      strictly_advance)

lemma lossless_identifier: "lx_rest lx \<noteq> [] \<Longrightarrow> lossless lx (consume_identifier lx)"
  by (simp add: consume_identifier_def Let_def lossless_token_from
      strictly_trans1 [OF strictly_advance])

lemma lossless_number:
  assumes "lx_rest lx \<noteq> []"
  shows "lossless lx (consume_number lx)"
proof -
  define lx1 where "lx1 = (if peek_char lx = Some CHR ''-'' then advance_char lx else lx)"
  have a: "advances lx lx1" by (simp add: lx1_def)
  obtain r n b lx2 where pre: "(if peek_char lx1 = Some CHR ''0'' then consume_prefix lx1
      else (RDecimal, 1, False, advance_char lx1)) = (r, n, b, lx2)"
    by (metis prod_cases4)
  obtain n' lx3 where dig: "consume_digits r n lx2 = (n', lx3)" by force
  have "strictly lx lx3" if "lx_rest lx1 \<noteq> []"
    using strictly_trans2 [OF a number_body_strictly [OF that pre dig]] .
  moreover have "lx_rest lx1 \<noteq> []" if "\<not> (peek_char lx = Some CHR ''-'' \<and> \<not> peek_digit lx1)"
    using that assms peek_digit_rest [of lx1] by (auto simp: lx1_def)
  ultimately show ?thesis
    unfolding consume_number_def Let_def lx1_def [symmetric]
    by (simp add: pre dig lossless_token_from)
qed

lemma lossless_bit_expr: "lx_rest lx \<noteq> [] \<Longrightarrow> lossless lx (consume_bit_expr lx)"
proof -
  assume ne: "lx_rest lx \<noteq> []"
  obtain d lx2 where scan: "scan_parens (Suc 0) (advance_char (advance_char lx)) = (d, lx2)"
    by force
  have "advances (advance_char (advance_char lx)) lx2"
    using advances_parens [of "advance_char (advance_char lx)" "Suc 0"] scan by simp
  then have "strictly lx lx2" by (rule strictly_trans1 [OF strictly_two [OF ne]])
  then show ?thesis
    by (simp add: consume_bit_expr_def Let_def scan lossless_token_from)
qed

lemma lossless_string: "lx_rest lx \<noteq> [] \<Longrightarrow> lossless lx (consume_string lx)"
  using advances_string [of "advance_char lx" "lx_position lx" "[]"]
    strictly_trans1 [OF strictly_advance [of lx]]
  by (auto simp: lossless_def consume_string_def Let_def se_bind_def make_token_def
      split: prod.splits sum.splits)

text \<open>A range token runs through its parts, each of which only moves forward.\<close>

definition forward :: "(lexer \<Rightarrow> (isa_error + 'a) \<times> lexer) \<Rightarrow> bool" where
  "forward m \<longleftrightarrow> (\<forall>lx. advances lx (snd (m lx)))"

lemma forward_range_literal: "forward consume_range_literal"
proof -
  have "advances lx (snd (consume_range_literal lx))" for lx
  proof -
    define lx1 where "lx1 = (if peek_char lx = Some CHR ''+'' \<or> peek_char lx = Some CHR ''-''
                 then advance_char lx else lx)"
    have a: "advances lx lx1" by (simp add: lx1_def)
    obtain r n b lx2 where pre: "(if peek_char lx1 = Some CHR ''0'' then consume_prefix lx1
        else (RDecimal, 1, False, advance_char lx1)) = (r, n, b, lx2)"
      by (metis prod_cases4)
    obtain n' lx3 where dig: "consume_digits r n lx2 = (n', lx3)" by force
    have "advances lx lx3" if "peek_digit lx1"
      using strictly_trans2 [OF a number_body_strictly [OF peek_digit_rest [OF that] pre dig]]
      by (rule strictly_advances)
    then show ?thesis
      using a unfolding consume_range_literal_def Let_def lx1_def [symmetric]
      by (simp add: pre dig)
  qed
  then show ?thesis by (simp add: forward_def)
qed

lemma forward_operator: "forward consume_range_operator"
  using advances_trans [OF advances_advance advances_advance]
  by (auto simp: forward_def consume_range_operator_def)

lemma forward_size_unit: "forward consume_optional_size_unit"
  by (auto simp: forward_def consume_optional_size_unit_def Let_def)

lemma forward_close: "forward consume_range_close"
  by (auto simp: forward_def consume_range_close_def)

lemma forward_lift: "forward (se_lift r)"
  by (simp add: forward_def)

lemma bind_forward:
  assumes "forward m" and "se_bind m f lx = (Inr t, lx')" and "strictly lx0 lx"
  obtains a lx1 where "f a lx1 = (Inr t, lx')" and "strictly lx0 lx1"
proof -
  obtain a lx1 where m: "m lx = (Inr a, lx1)" "f a lx1 = (Inr t, lx')"
    using assms(2) by (auto simp: se_bind_Inr_iff)
  have "advances lx lx1" using assms(1) m(1) by (auto simp: forward_def dest: spec [of _ lx])
  from that [OF m(2) strictly_trans1 [OF assms(3) this]] show ?thesis .
qed

lemma strictly_skip_inline: "strictly lx lx1 \<Longrightarrow> strictly lx (skip_inline_whitespace lx1)"
  unfolding skip_inline_whitespace_def by (rule strictly_trans1 [OF _ advances_while])

lemma lossless_range:
  assumes "lx_rest lx \<noteq> []"
  shows "lossless lx (consume_range_token lx)"
proof -
  have "lossless lx (Inr t, lx')" if run: "consume_range_token lx = (Inr t, lx')" for t lx'
  proof -
    note s0 = strictly_skip_inline [OF strictly_advance [OF assms]]
    from bind_forward [OF forward_range_literal run [unfolded consume_range_token_def] s0]
    obtain u lx1 where r1: "se_bind consume_range_operator (\<lambda>size lx2.
         se_bind consume_range_literal (\<lambda>_ lx3.
           se_bind (if size then consume_optional_size_unit else se_lift (Inr ())) (\<lambda>_ lx4.
             se_bind consume_range_close (\<lambda>_ lx5. (Inr (token_from Range lx lx5), lx5))
               (skip_inline_whitespace lx4)) lx3)
           (skip_inline_whitespace lx2)) (skip_inline_whitespace lx1) = (Inr t, lx')"
      and s1: "strictly lx lx1" by blast
    from bind_forward [OF forward_operator r1 strictly_skip_inline [OF s1]]
    obtain size lx2 where r2: "se_bind consume_range_literal (\<lambda>_ lx3.
           se_bind (if size then consume_optional_size_unit else se_lift (Inr ())) (\<lambda>_ lx4.
             se_bind consume_range_close (\<lambda>_ lx5. (Inr (token_from Range lx lx5), lx5))
               (skip_inline_whitespace lx4)) lx3) (skip_inline_whitespace lx2) = (Inr t, lx')"
      and s2: "strictly lx lx2" by blast
    from bind_forward [OF forward_range_literal r2 strictly_skip_inline [OF s2]]
    obtain v lx3 where r3: "se_bind (if size then consume_optional_size_unit else se_lift (Inr ()))
        (\<lambda>_ lx4. se_bind consume_range_close (\<lambda>_ lx5. (Inr (token_from Range lx lx5), lx5))
           (skip_inline_whitespace lx4)) lx3 = (Inr t, lx')"
      and s3: "strictly lx lx3" by blast
    have "forward (if size then consume_optional_size_unit else se_lift (Inr ()))"
      by (simp add: forward_size_unit forward_lift)
    from bind_forward [OF this r3 s3]
    obtain w lx4 where r4: "se_bind consume_range_close
        (\<lambda>_ lx5. (Inr (token_from Range lx lx5), lx5)) (skip_inline_whitespace lx4) = (Inr t, lx')"
      and s4: "strictly lx lx4" by blast
    from bind_forward [OF forward_close r4 strictly_skip_inline [OF s4]]
    obtain x lx5 where "(Inr (token_from Range lx lx5), lx5) = (Inr t, lx')" "strictly lx lx5"
      by blast
    then show ?thesis using lossless_token_from [of lx lx5 Range] by auto
  qed
  then show ?thesis by (auto simp: lossless_def)
qed

lemma single_kinds_not_EOF: "map_of single_kinds c = Some k \<Longrightarrow> k \<noteq> EOF"
  by (auto simp: single_kinds_def split: if_splits)

lemma lossless_lex_from: "lx_rest lx \<noteq> [] \<Longrightarrow> lossless lx (lex_from c lx)"
  unfolding lex_from_def
  by (auto simp: consume_double_period_def consume_direct_to_def consume_colon_def consume_pipe_def
      consume_equals_def consume_bang_def consume_ampersand_def lossless_two lossless_one_or_two
      lossless_single lossless_number lossless_identifier lossless_string lossless_range
      lossless_bit_expr dest: single_kinds_not_EOF split: option.splits)

lemma next_token_cases:
  assumes "next_token lx = (Inr t, lx')"
  obtains (eof) "tok_kind t = EOF" "tok_lexeme t = []" "lx_rest lx' = []" "advances lx lx'"
  | (tok) "lossless (skip_ignorable lx) (Inr t, lx')" "tok_kind t \<noteq> EOF" "strictly lx lx'"
proof (cases "peek_char (skip_ignorable lx)")
  case None
  then show ?thesis
    using assms eof
    by (auto simp: next_token_def make_token_def Let_def peek_char_None [symmetric])
next
  case (Some c)
  then have ne: "lx_rest (skip_ignorable lx) \<noteq> []" by (auto simp: peek_char_Some)
  have r: "lossless (skip_ignorable lx) (Inr t, lx')"
    using lossless_lex_from [OF ne, of c] assms Some by (simp add: next_token_def)
  then have "strictly (skip_ignorable lx) lx'" "tok_kind t \<noteq> EOF"
    by (auto simp: lossless_def)
  then show ?thesis using tok [OF r] strictly_trans2 [OF advances_skip] by blast
qed

text \<open>C28: A successful \<open>Lexer::next_token\<close> returns EOF exactly when only blanks and comments are left;
  any other token consumes at least one character, starts where the blanks end, is reported at that
  line and column, and (string literals apart, whose quotes and escapes are decoded) its lexeme is
  exactly the text consumed: the tokenizer drops nothing but blanks and comments.\<close>
theorem next_token_lossless:
  assumes "next_token lx = (Inr t, lx')"
  shows "if tok_kind t = EOF then lx_rest (skip_ignorable lx) = [] \<and> lx' = skip_ignorable lx
         else strict_suffix (lx_rest lx') (lx_rest lx)
            \<and> (tok_line t, tok_column t) = lx_position (skip_ignorable lx)
            \<and> (tok_kind t = StringTok \<or> lx_rest (skip_ignorable lx) = tok_lexeme t @ lx_rest lx')"
  using assms
proof (cases rule: next_token_cases)
  case eof
  have "lx_rest (skip_ignorable lx) = []"
    using assms eof(1) lossless_lex_from [of "skip_ignorable lx"]
    by (cases "peek_char (skip_ignorable lx)")
      (auto simp: next_token_def lossless_def peek_char_None peek_char_Some Let_def)
  moreover from this have "lx' = skip_ignorable lx"
    using assms by (simp add: next_token_def Let_def peek_char_def)
  ultimately show ?thesis using eof(1) by simp
next
  case tok
  then show ?thesis
    by (auto simp: lossless_def strictly_def advances_def strict_suffix_def)
qed

theorem next_token_lossless_witness:
  "\<exists>t lx'. next_token (lexer_new '' r0+1'' ''p'') = (Inr t, lx') \<and> tok_lexeme t = ''r0''
     \<and> strict_suffix (lx_rest lx') '' r0+1''"
proof -
  have run: "next_token (lexer_new '' r0+1'' ''p'')
      = (Inr \<lparr>tok_kind = Identifier, tok_lexeme = ''r0'', tok_line = 1, tok_column = 2\<rparr>,
         \<lparr>lx_rest = ''+1'', lx_path = ''p'', lx_line = 1, lx_column = 3\<rparr>)"
    by code_simp
  show ?thesis
    using next_token_lossless [OF run] run by (simp add: lexer_new_def lexer_with_origin_def)
qed

end
