(* ===== verification/ProgramParser.thy ===== *)
theory ProgramParser
  imports LexerFacts SemanticProgram LiteralParser
begin

text \<open>
  The recursive-descent parser of semantic programs (\<open>src/soc/isa/semantics/program.rs\<close>): one
  token of lookahead over the lexer, a precedence level per function, statements and bit slices.
  The source's recursion (an expression inside parentheses or an argument list) and its loops take
  fuel; \<open>None\<close> is running out of it, and \<open>parse_with_span_total\<close> shows that one unit per input
  character and one more are enough.
\<close>

section \<open>The parser's state\<close>

record parser =
  ps_lexer :: lexer
  ps_peeked :: "token option"

text \<open>Steps that may run out of fuel, over any state.\<close>

type_synonym ('s, 'a) fuelled = "'s \<Rightarrow> ((isa_error + 'a) \<times> 's) option"
type_synonym 'a parse = "(parser, 'a) fuelled"

text \<open>\<open>?\<close> on a parsing step; a step that returns at once; a stateful operation as a step.\<close>

definition pbind :: "('s, 'a) fuelled \<Rightarrow> ('a \<Rightarrow> ('s, 'b) fuelled) \<Rightarrow> ('s, 'b) fuelled" where
  "pbind m f p =
     (case m p of
        None \<Rightarrow> None
      | Some (Inl e, p') \<Rightarrow> Some (Inl e, p')
      | Some (Inr a, p') \<Rightarrow> f a p')"

definition pstep :: "('s \<Rightarrow> (isa_error + 'a) \<times> 's) \<Rightarrow> ('s, 'a) fuelled" where
  "pstep m p = Some (m p)"

definition presult :: "isa_error + 'a \<Rightarrow> ('s, 'a) fuelled" where
  "presult r p = Some (r, p)"

definition parser_with_span :: "string \<Rightarrow> source_span option \<Rightarrow> parser" where
  "parser_with_span src span =
     (let (path, line, column) =
        (case span of
           Some s \<Rightarrow> (span_path s, pos_line (span_start s), pos_column (span_start s))
         | None \<Rightarrow> (''<semantics>'', 1, 0))
      in \<lparr>ps_lexer = lexer_with_origin src path line column, ps_peeked = None\<rparr>)"

section \<open>Tokens\<close>

definition peek :: "parser \<Rightarrow> (isa_error + token) \<times> parser" where
  "peek p =
     (case ps_peeked p of
        Some t \<Rightarrow> (Inr t, p)
      | None \<Rightarrow>
          (case next_token (ps_lexer p) of
             (Inl e, lx) \<Rightarrow> (Inl e, p\<lparr>ps_lexer := lx\<rparr>)
           | (Inr t, lx) \<Rightarrow> (Inr t, p\<lparr>ps_lexer := lx, ps_peeked := Some t\<rparr>)))"

definition consume :: "parser \<Rightarrow> (isa_error + token) \<times> parser" where
  "consume p =
     (case ps_peeked p of
        Some t \<Rightarrow> (Inr t, p\<lparr>ps_peeked := None\<rparr>)
      | None \<Rightarrow> (let (r, lx) = next_token (ps_lexer p) in (r, p\<lparr>ps_lexer := lx\<rparr>)))"

definition check_token :: "token_kind \<Rightarrow> parser \<Rightarrow> (isa_error + bool) \<times> parser" where
  "check_token kind = se_bind peek (\<lambda>t p. (Inr (tok_kind t = kind), p))"

definition match_token :: "token_kind \<Rightarrow> parser \<Rightarrow> (isa_error + bool) \<times> parser" where
  "match_token kind =
     se_bind (check_token kind) (\<lambda>b.
       if b then se_bind consume (\<lambda>t p. (Inr True, p)) else (\<lambda>p. (Inr False, p)))"

definition expect_token :: "token_kind \<Rightarrow> string \<Rightarrow> parser \<Rightarrow> (isa_error + token) \<times> parser" where
  "expect_token kind context =
     se_bind consume (\<lambda>t p.
       (if tok_kind t = kind then Inr t else Inl (Parser (fmt ''expected {}'' [context])), p))"

definition expect_identifier :: "string \<Rightarrow> parser \<Rightarrow> (isa_error + string) \<times> parser" where
  "expect_identifier context =
     se_bind (expect_token Identifier context) (\<lambda>t p. (Inr (tok_lexeme t), p))"

definition point_span :: "token \<Rightarrow> parser \<Rightarrow> source_span" where
  "point_span t p =
     span_point (lx_path (ps_lexer p)) \<lparr>pos_line = tok_line t, pos_column = tok_column t\<rparr>"

section \<open>Bit slices, context kinds and assignment targets\<close>

definition literal_error_text :: "literal_error \<Rightarrow> string" where
  "literal_error_text e =
     (case e of
        Empty \<Rightarrow> ''literal is empty''
      | InvalidFormat t \<Rightarrow> fmt ''invalid literal format: {}'' [t]
      | TooWide bits \<Rightarrow> fmt ''binary literal width {} exceeds 64 bits'' [dec (unat bits)]
      | NegativeNotSupported \<Rightarrow> ''negative literals are not supported''
      | OutOfRange t \<Rightarrow> fmt ''literal {} exceeds the allowed range'' [quoted t])"

definition slice_literal :: "string \<Rightarrow> string \<Rightarrow> isa_error + u64" where
  "slice_literal which s =
     map_err (\<lambda>err. Parser (fmt ''invalid bit slice {} {}: {}''
         [which, quoted s, literal_error_text err])) (parse_u64_literal s)"

definition parse_bit_slice :: "string \<Rightarrow> isa_error + sem_bit_slice" where
  "parse_bit_slice spec =
     rbind (ok_or (Option.bind (strip_prefix ''@('' spec) (strip_suffix '')''))
              (Parser (fmt ''invalid bit slice {}'' [quoted spec]))) (\<lambda>inner.
       let (start, end_part) = split_two ''..'' inner in
       rbind (slice_literal ''start'' start) (\<lambda>start_val.
       rbind (case end_part of Some e \<Rightarrow> slice_literal ''end'' e | None \<Rightarrow> Inr start_val)
         (\<lambda>end_val.
            if end_val < start_val then
              Inl (Parser (fmt ''bit slice end {} before start {}''
                     [dec (unat end_val), dec (unat start_val)]))
            else Inr \<lparr>sl_start = ucast start_val, sl_end = ucast end_val\<rparr>)))"

definition from_prefix :: "string \<Rightarrow> isa_error + context_kind" where
  "from_prefix pre =
     (let lower = map ascii_lower pre in
      if lower = ''reg'' then Inr RegisterCall
      else if lower = ''macro'' then Inr MacroCall
      else if lower = ''insn'' then Inr InstructionCall
      else if lower = ''host'' then Inr HostCall
      else Inl (Parser (fmt ''unknown context prefix {}'' [quoted (''$'' @ lower)])))"

fun variable_names :: "expr list \<Rightarrow> string list option" where
  "variable_names [] = Some []"
| "variable_names (Variable name span # es) = map_option ((#) name) (variable_names es)"
| "variable_names (e # es) = None"

definition head_option :: "'a list \<Rightarrow> 'a option" where
  "head_option xs = (case xs of [] \<Rightarrow> None | x # ys \<Rightarrow> Some x)"

definition try_from_expr :: "expr \<Rightarrow> isa_error + assign_target" where
  "try_from_expr e =
     (case e of
        Variable name span \<Rightarrow> Inr (VariableTarget name)
      | TupleExpr items \<Rightarrow>
          (case variable_names items of
             Some names \<Rightarrow> Inr (TupleTarget names)
           | None \<Rightarrow> Inl (Parser ''tuple assignment only supports identifier members''))
      | Call call \<Rightarrow>
          if cc_kind call = RegisterCall then
            Inr (RegisterTarget \<lparr>rr_space = cc_space call, rr_name = cc_name call,
                   rr_subfield = head_option (cc_subpath call),
                   rr_index = head_option (cc_args call), rr_span = Some (cc_span call)\<rparr>)
          else Inl (Parser ''unsupported assignment target in semantics block'')
      | _ \<Rightarrow> Inl (Parser ''unsupported assignment target in semantics block''))"

definition is_assignment_target :: "expr \<Rightarrow> parser \<Rightarrow> (isa_error + bool) \<times> parser" where
  "is_assignment_target e =
     se_bind (check_token Equals) (\<lambda>b p.
       (Inr (b \<and> (case e of Variable name span \<Rightarrow> True | TupleExpr items \<Rightarrow> True
                    | Call call \<Rightarrow> cc_kind call = RegisterCall | _ \<Rightarrow> False)), p))"

section \<open>Expressions\<close>

text \<open>A left-associative level: an operand, then as long as one of the level's operators follows,
  that operator and another operand.  \<open>match_operator\<close> tries them in the source's order.\<close>

fun match_operator ::
    "(token_kind \<times> expr_binary_op) list \<Rightarrow> parser \<Rightarrow> (isa_error + expr_binary_op option) \<times> parser"
where
  "match_operator [] p = (Inr None, p)"
| "match_operator ((kind, b) # ops) p =
     se_bind (match_token kind)
       (\<lambda>m. if m then (\<lambda>p'. (Inr (Some b), p')) else match_operator ops) p"

primrec chain_loop ::
    "nat \<Rightarrow> (token_kind \<times> expr_binary_op) list \<Rightarrow> expr parse \<Rightarrow> expr \<Rightarrow> expr parse" where
  "chain_loop 0 ops operand e = (\<lambda>p. None)"
| "chain_loop (Suc n) ops operand e =
     pbind (pstep (match_operator ops)) (\<lambda>m.
       case m of
         None \<Rightarrow> presult (Inr e)
       | Some b \<Rightarrow> pbind operand (\<lambda>rhs. chain_loop n ops operand (BinaryOp b e rhs)))"

definition parse_chain ::
    "nat \<Rightarrow> (token_kind \<times> expr_binary_op) list \<Rightarrow> expr parse \<Rightarrow> expr parse" where
  "parse_chain n ops operand = pbind operand (chain_loop n ops operand)"

primrec segments_loop :: "nat \<Rightarrow> string list \<Rightarrow> string list parse" where
  "segments_loop 0 segments = (\<lambda>p. None)"
| "segments_loop (Suc n) segments =
     pbind (pstep (match_token DoubleColon)) (\<lambda>m.
       if m then pbind (pstep (expect_identifier ''context segment''))
                   (\<lambda>seg. segments_loop n (segments @ [seg]))
       else presult (Inr segments))"

text \<open>Comma-separated expressions up to the first token that is not a comma.\<close>

primrec comma_loop :: "nat \<Rightarrow> expr parse \<Rightarrow> expr list \<Rightarrow> expr list parse" where
  "comma_loop 0 expression items = (\<lambda>p. None)"
| "comma_loop (Suc n) expression items =
     pbind (pstep (match_token Comma)) (\<lambda>m.
       if m then pbind expression (\<lambda>e. comma_loop n expression (items @ [e]))
       else presult (Inr items))"

definition parse_argument_list :: "nat \<Rightarrow> expr parse \<Rightarrow> expr list parse" where
  "parse_argument_list n expression =
     pbind (pstep (check_token RParen)) (\<lambda>b.
       if b then pbind (pstep consume) (\<lambda>t. presult (Inr []))
       else
         pbind expression (\<lambda>e.
         pbind (comma_loop n expression [e]) (\<lambda>args.
         pbind (pstep (expect_token RParen (quoted '')'' @ '' to close argument list'')))
           (\<lambda>t. presult (Inr args)))))"

definition parse_parenthesised :: "nat \<Rightarrow> expr parse \<Rightarrow> expr parse" where
  "parse_parenthesised n expression =
     pbind expression (\<lambda>first.
     pbind (pstep (match_token Comma)) (\<lambda>m.
       if m then
         pbind expression (\<lambda>second.
         pbind (comma_loop n expression [first, second]) (\<lambda>items.
         pbind (pstep (expect_token RParen (quoted '')'' @ '' to close tuple'')))
           (\<lambda>t. presult (Inr (TupleExpr items)))))
       else
         pbind (pstep (expect_token RParen (quoted '')'' @ '' to close expression'')))
           (\<lambda>t. presult (Inr first))))"

definition parse_number_token :: "token \<Rightarrow> isa_error + expr" where
  "parse_number_token t =
     rbind (map_err (\<lambda>err. Parser (fmt ''invalid numeric literal {}: {}''
               [quoted (tok_lexeme t), literal_error_text err]))
             (parse_u64_literal (tok_lexeme t)))
       (\<lambda>v. Inr (Number v))"

text \<open>\<open>$space::name::sub(args)\<close>, after its first token.\<close>

definition parse_context_call :: "nat \<Rightarrow> expr parse \<Rightarrow> string \<Rightarrow> source_span \<Rightarrow> expr parse" where
  "parse_context_call n expression stripped span =
     pbind (segments_loop n [stripped]) (\<lambda>segments.
     pbind (pbind (pstep (match_token LParen)) (\<lambda>m.
              if m then parse_argument_list n expression else presult (Inr []))) (\<lambda>args.
     presult
       (rbind (from_prefix (hd segments)) (\<lambda>kind.
        rbind (ok_or (head_option (tl segments)) (Parser ''context reference missing name''))
          (\<lambda>name. Inr (Call (ContextCall kind (hd segments) name (drop 2 segments) args span)))))))"

definition parse_identifier :: "nat \<Rightarrow> expr parse \<Rightarrow> token \<Rightarrow> expr parse" where
  "parse_identifier n expression t p =
     (let span = point_span t p; lexeme = tok_lexeme t in
      case strip_prefix ''#'' lexeme of
        Some stripped \<Rightarrow> Some (Inr (Parameter stripped span), p)
      | None \<Rightarrow>
          (case strip_prefix ''$'' lexeme of
             Some stripped \<Rightarrow> parse_context_call n expression stripped span p
           | None \<Rightarrow> Some (Inr (Variable lexeme span), p)))"

definition parse_primary :: "nat \<Rightarrow> expr parse \<Rightarrow> expr parse" where
  "parse_primary n expression =
     pbind (pstep (match_token LParen)) (\<lambda>m.
       if m then parse_parenthesised n expression
       else pbind (pstep (check_token NumberTok)) (\<lambda>num.
         if num then pbind (pstep consume) (\<lambda>t. presult (parse_number_token t))
         else pbind (pstep (check_token Identifier)) (\<lambda>ident.
           if ident then pbind (pstep consume) (parse_identifier n expression)
           else presult (Inl (Parser ''unexpected token in semantic expression'')))))"

primrec postfix_loop :: "nat \<Rightarrow> expr \<Rightarrow> expr parse" where
  "postfix_loop 0 e = (\<lambda>p. None)"
| "postfix_loop (Suc n) e =
     pbind (pstep (check_token BitExpr)) (\<lambda>m.
       if m then
         pbind (pstep consume) (\<lambda>t.
         pbind (presult (parse_bit_slice (tok_lexeme t))) (\<lambda>sl. postfix_loop n (BitSlice e sl)))
       else presult (Inr e))"

definition parse_postfix :: "nat \<Rightarrow> expr parse \<Rightarrow> expr parse" where
  "parse_postfix n expression = pbind (parse_primary n expression) (postfix_loop n)"

definition parse_factor :: "nat \<Rightarrow> expr parse \<Rightarrow> expr parse" where
  "parse_factor n expression = parse_postfix n expression"

definition parse_term :: "nat \<Rightarrow> expr parse \<Rightarrow> expr parse" where
  "parse_term n expression = parse_chain n [(Plus, Add), (Dash, Sub)] (parse_factor n expression)"

definition parse_relational :: "nat \<Rightarrow> expr parse \<Rightarrow> expr parse" where
  "parse_relational n expression =
     parse_chain n [(LessThan, Lt), (GreaterThan, Gt)] (parse_term n expression)"

definition parse_equality :: "nat \<Rightarrow> expr parse \<Rightarrow> expr parse" where
  "parse_equality n expression =
     parse_chain n [(DoubleEquals, Eq), (BangEquals, Ne)] (parse_relational n expression)"

definition parse_bit_and :: "nat \<Rightarrow> expr parse \<Rightarrow> expr parse" where
  "parse_bit_and n expression =
     parse_chain n [(Ampersand, BitAnd)] (parse_equality n expression)"

definition parse_bit_xor :: "nat \<Rightarrow> expr parse \<Rightarrow> expr parse" where
  "parse_bit_xor n expression = parse_chain n [(Caret, BitXor)] (parse_bit_and n expression)"

definition parse_bit_or :: "nat \<Rightarrow> expr parse \<Rightarrow> expr parse" where
  "parse_bit_or n expression = parse_chain n [(Pipe, BitOr)] (parse_bit_xor n expression)"

definition parse_logical_and :: "nat \<Rightarrow> expr parse \<Rightarrow> expr parse" where
  "parse_logical_and n expression =
     parse_chain n [(DoubleAmpersand, LogicalAnd)] (parse_bit_or n expression)"

definition parse_logical_or :: "nat \<Rightarrow> expr parse \<Rightarrow> expr parse" where
  "parse_logical_or n expression =
     parse_chain n [(DoublePipe, LogicalOr)] (parse_logical_and n expression)"

primrec parse_expression :: "nat \<Rightarrow> expr parse" where
  "parse_expression 0 = (\<lambda>p. None)"
| "parse_expression (Suc n) = parse_logical_or (Suc n) (parse_expression n)"

section \<open>Statements and programs\<close>

definition parse_statement :: "nat \<Rightarrow> semantic_stmt parse" where
  "parse_statement n =
     pbind (parse_expression n) (\<lambda>e.
     pbind (pstep (is_assignment_target e)) (\<lambda>m.
       if m then
         pbind (pstep (expect_token Equals (quoted ''='' @ '' in assignment''))) (\<lambda>t.
         pbind (parse_expression n) (\<lambda>rhs.
         pbind (presult (try_from_expr e)) (\<lambda>target. presult (Inr (Assign target rhs)))))
       else
         presult (Inr (case e of TupleExpr items \<Rightarrow> Return e | _ \<Rightarrow> ExprStmt e))))"

primrec program_loop :: "nat \<Rightarrow> nat \<Rightarrow> semantic_program \<Rightarrow> semantic_program parse" where
  "program_loop 0 n statements = (\<lambda>p. None)"
| "program_loop (Suc k) n statements =
     pbind (pstep (check_token EOF)) (\<lambda>eof.
       if eof then presult (Inr statements)
       else pbind (pstep (check_token RBrace)) (\<lambda>brace.
         if brace then presult (Inr statements)
         else pbind (pstep (match_token Semicolon)) (\<lambda>semi.
           if semi then program_loop k n statements
           else pbind (parse_statement n) (\<lambda>stmt. program_loop k n (statements @ [stmt])))))"

definition parse_program :: "nat \<Rightarrow> semantic_program parse" where
  "parse_program n = program_loop n n []"

text \<open>\<open>SemanticProgram::parse_with_span\<close>.\<close>

definition parse_with_span :: "string \<Rightarrow> source_span option \<Rightarrow> isa_error + semantic_program" where
  "parse_with_span src span =
     fst (the (parse_program (length src + 1) (parser_with_span src span)))"

definition semantic_parse :: "string \<Rightarrow> isa_error + semantic_program" where
  "semantic_parse src = parse_with_span src None"

end
