(* ===== verification/ProgramParserFacts.thy ===== *)
theory ProgramParserFacts
  imports ProgramParser
begin

text \<open>
  The parser of semantic programs always returns: every token is a non-empty piece of the input,
  so fuel for one step per character is never used up.
\<close>

section \<open>A calculus of steps that return\<close>

text \<open>\<open>runs m p Q\<close>: the step returns, and if it succeeds its value and state satisfy \<open>Q\<close>.\<close>

definition runs :: "('s, 'a) fuelled \<Rightarrow> 's \<Rightarrow> ('a \<Rightarrow> 's \<Rightarrow> bool) \<Rightarrow> bool" where
  "runs m p Q \<longleftrightarrow> (\<exists>r p'. m p = Some (r, p') \<and> (\<forall>a. r = Inr a \<longrightarrow> Q a p'))"

lemma runs_pbind:
  "runs m p (\<lambda>a p'. runs (f a) p' Q) \<Longrightarrow> runs (pbind m f) p Q"
  by (auto simp: runs_def pbind_def split: sum.splits prod.splits)

lemma runs_pstep: "(\<And>a p'. m p = (Inr a, p') \<Longrightarrow> Q a p') \<Longrightarrow> runs (pstep m) p Q"
  by (cases "m p") (auto simp: runs_def pstep_def)

lemma runs_presult: "(\<And>a. r = Inr a \<Longrightarrow> Q a p) \<Longrightarrow> runs (presult r) p Q"
  by (auto simp: runs_def presult_def)

lemma runs_mono: "runs m p Q \<Longrightarrow> (\<And>a p'. Q a p' \<Longrightarrow> R a p') \<Longrightarrow> runs m p R"
  by (auto simp: runs_def)

section \<open>The input left\<close>

definition psize :: "parser \<Rightarrow> nat" where
  "psize p = length (lx_rest (ps_lexer p)) +
     (case ps_peeked p of None \<Rightarrow> 0 | Some t \<Rightarrow> if tok_kind t = EOF then 0 else 1)"

lemma next_token_size:
  assumes "next_token lx = (Inr t, lx')"
  shows "length (lx_rest lx') + (if tok_kind t = EOF then 0 else 1) \<le> length (lx_rest lx)"
  using assms
  by (cases rule: next_token_cases) (auto simp: strictly_def dest: advances_length)

lemma peek_size: "peek p = (Inr t, p') \<Longrightarrow> psize p' \<le> psize p \<and> ps_peeked p' = Some t"
  using next_token_size [of "ps_lexer p" t]
  by (auto simp: peek_def psize_def split: option.splits prod.splits sum.splits)

lemma consume_size:
  "consume p = (Inr t, p') \<Longrightarrow> psize p' \<le> psize p \<and> (tok_kind t \<noteq> EOF \<longrightarrow> psize p' < psize p)"
  using next_token_size [of "ps_lexer p" t]
  by (auto simp: consume_def psize_def split: option.splits prod.splits if_splits)

lemma consume_peeked: "ps_peeked p = Some t \<Longrightarrow> consume p = (Inr t, p\<lparr>ps_peeked := None\<rparr>)"
  by (simp add: consume_def)

lemma check_size:
  "check_token kind p = (Inr b, p') \<Longrightarrow>
     psize p' \<le> psize p \<and> (\<exists>t. ps_peeked p' = Some t \<and> b = (tok_kind t = kind))"
  by (auto simp: check_token_def se_bind_Inr_iff dest: peek_size)

lemma consume_checked:
  assumes "check_token kind p = (Inr True, p1)" and "consume p1 = (Inr t, p2)" and "kind \<noteq> EOF"
  shows "tok_kind t = kind" and "psize p2 < psize p"
proof -
  from check_size [OF assms(1)] obtain u where u: "psize p1 \<le> psize p" "ps_peeked p1 = Some u"
    "tok_kind u = kind" by auto
  with assms(2) show k: "tok_kind t = kind" by (simp add: consume_peeked)
  show "psize p2 < psize p" using consume_size [OF assms(2)] k u assms(3) by auto
qed

lemma match_size:
  assumes "match_token kind p = (Inr b, p')" and "kind \<noteq> EOF"
  shows "psize p' \<le> psize p \<and> (b \<longrightarrow> psize p' < psize p)"
proof -
  obtain c p1 where c: "check_token kind p = (Inr c, p1)"
    and r: "(if c then se_bind consume (\<lambda>t p. (Inr True, p)) else (\<lambda>p. (Inr False, p))) p1 = (Inr b, p')"
    using assms(1) by (auto simp: match_token_def se_bind_Inr_iff)
  from check_size [OF c] obtain t where t: "psize p1 \<le> psize p" "ps_peeked p1 = Some t"
    "c = (tok_kind t = kind)" by auto
  show ?thesis
  proof (cases c)
    case True
    with r consume_peeked [OF t(2)] have "consume p1 = (Inr t, p')" "b"
      by (auto simp: se_bind_Inr_iff)
    then show ?thesis using consume_size [of p1 t p'] t True assms(2) by auto
  next
    case False
    then show ?thesis using r t by auto
  qed
qed

lemma expect_size: "expect_token kind c p = (Inr t, p') \<Longrightarrow> psize p' \<le> psize p"
  by (auto simp: expect_token_def se_bind_Inr_iff dest: consume_size split: if_splits)

lemma expect_identifier_size: "expect_identifier c p = (Inr s, p') \<Longrightarrow> psize p' \<le> psize p"
  by (auto simp: expect_identifier_def se_bind_Inr_iff dest: expect_size)

lemma match_operator_size:
  assumes "match_operator ops p = (Inr m, p')" and "EOF \<notin> fst ` set ops"
  shows "psize p' \<le> psize p \<and> (m \<noteq> None \<longrightarrow> psize p' < psize p)"
  using assms
proof (induction ops p arbitrary: m p' rule: match_operator.induct)
  case (2 kind b ops p)
  then obtain c p1 where c: "match_token kind p = (Inr c, p1)"
    and r: "(if c then (\<lambda>p'. (Inr (Some b), p')) else match_operator ops) p1 = (Inr m, p')"
    by (auto simp: se_bind_Inr_iff)
  note s = match_size [OF c]
  show ?case
  proof (cases c)
    case False
    with r have rest: "match_operator ops p1 = (Inr m, p')" by simp
    have "psize p' \<le> psize p1 \<and> (m \<noteq> None \<longrightarrow> psize p' < psize p1)"
      by (rule "2.IH" [OF _ rest]) (use "2.prems"(2) False in auto)
    then show ?thesis using s "2.prems"(2) by auto
  qed (use s r "2.prems"(2) in auto)
qed auto

lemma assignment_size: "is_assignment_target e p = (Inr b, p') \<Longrightarrow> psize p' \<le> psize p"
  by (auto simp: is_assignment_target_def se_bind_Inr_iff dest: check_size)

section \<open>Every level returns and consumes\<close>

definition shrinking :: "nat \<Rightarrow> 'a parse \<Rightarrow> bool" where
  "shrinking N m \<longleftrightarrow> (\<forall>p. psize p < N \<longrightarrow> runs m p (\<lambda>a p'. psize p' < psize p))"

lemma shrinking_runs:
  "shrinking N m \<Longrightarrow> psize p < N \<Longrightarrow> (\<And>a p'. psize p' < psize p \<Longrightarrow> Q a p') \<Longrightarrow> runs m p Q"
  by (auto simp: shrinking_def intro: runs_mono)

lemma runs_chain_loop:
  assumes "shrinking N operand" and "EOF \<notin> fst ` set ops" and "psize p < N" and "psize p < n"
  shows "runs (chain_loop n ops operand e) p (\<lambda>a p'. psize p' \<le> psize p)"
  using assms(3,4)
proof (induction n arbitrary: e p)
  case (Suc n)
  have "runs (case m of None \<Rightarrow> presult (Inr e)
        | Some b \<Rightarrow> pbind operand (\<lambda>rhs. chain_loop n ops operand (BinaryOp b e rhs))) p1
        (\<lambda>a p'. psize p' \<le> psize p)" if "match_operator ops p = (Inr m, p1)" for m p1
  proof (cases m)
    case None
    then show ?thesis using match_operator_size [OF that assms(2)] by (auto intro: runs_presult)
  next
    case (Some b)
    have "runs (chain_loop n ops operand (BinaryOp b e rhs)) p2 (\<lambda>a p'. psize p' \<le> psize p)"
      if "psize p2 < psize p1" for rhs p2
      using that match_operator_size [OF \<open>match_operator ops p = _\<close> assms(2)] Suc.prems Some
      by (intro runs_mono [OF Suc.IH]) auto
    then show ?thesis
      using match_operator_size [OF that assms(2)] Some Suc.prems
      by (auto intro!: runs_pbind shrinking_runs [OF assms(1)])
  qed
  then show ?case by (auto intro!: runs_pbind runs_pstep)
qed simp

lemma shrinking_chain:
  assumes "shrinking N operand" and "EOF \<notin> fst ` set ops" and "N \<le> n"
  shows "shrinking N (parse_chain n ops operand)"
proof -
  have "runs (parse_chain n ops operand) p (\<lambda>a p'. psize p' < psize p)" if "psize p < N" for p
    unfolding parse_chain_def
    using that assms
    by (intro runs_pbind shrinking_runs [OF assms(1)] runs_mono [OF runs_chain_loop [OF assms(1,2)]]) auto
  then show ?thesis by (simp add: shrinking_def)
qed

lemma runs_segments_loop:
  "psize p < n \<Longrightarrow> runs (segments_loop n segments) p (\<lambda>a p'. psize p' \<le> psize p)"
proof (induction n arbitrary: segments p)
  case (Suc n)
  have "runs (if m then pbind (pstep (expect_identifier ''context segment''))
                   (\<lambda>seg. segments_loop n (segments @ [seg])) else presult (Inr segments)) p1
        (\<lambda>a p'. psize p' \<le> psize p)"
    if "match_token DoubleColon p = (Inr m, p1)" for m p1
  proof (cases m)
    case True
    have "runs (segments_loop n (segments @ [seg])) p2
        (\<lambda>a p'. psize p' \<le> psize p)"
      if "expect_identifier ''context segment'' p1 = (Inr seg, p2)" for seg p2
      using expect_identifier_size [OF that] match_size [OF \<open>match_token _ p = _\<close>] Suc.prems True
      by (intro runs_mono [OF Suc.IH]) auto
    then show ?thesis using True by (auto intro!: runs_pbind runs_pstep)
  next
    case False
    then show ?thesis using match_size [OF that] by (auto intro!: runs_presult)
  qed
  then show ?case by (auto intro!: runs_pbind runs_pstep)
qed simp

lemma runs_comma_loop:
  assumes "shrinking N expression" and "psize p < N" and "psize p < n"
  shows "runs (comma_loop n expression items) p (\<lambda>a p'. psize p' \<le> psize p)"
  using assms(2,3)
proof (induction n arbitrary: items p)
  case (Suc n)
  have "runs (if m then pbind expression (\<lambda>e. comma_loop n expression (items @ [e]))
       else presult (Inr items)) p1 (\<lambda>a p'. psize p' \<le> psize p)"
    if "match_token Comma p = (Inr m, p1)" for m p1
  proof (cases m)
    case True
    have "runs (comma_loop n expression (items @ [e])) p2 (\<lambda>a p'. psize p' \<le> psize p)"
      if "psize p2 < psize p1" for e p2
      using that match_size [OF \<open>match_token _ p = _\<close>] Suc.prems True
      by (intro runs_mono [OF Suc.IH]) auto
    then show ?thesis
      using True match_size [OF that] Suc.prems
      by (auto intro!: runs_pbind shrinking_runs [OF assms(1)])
  next
    case False
    then show ?thesis using match_size [OF that] by (auto intro!: runs_presult)
  qed
  then show ?case by (auto intro!: runs_pbind runs_pstep)
qed simp

lemma runs_argument_list:
  assumes "shrinking N expression" and "psize p < N" and "psize p < n"
  shows "runs (parse_argument_list n expression) p (\<lambda>a p'. psize p' \<le> psize p)"
proof -
  have args: "runs (pbind expression (\<lambda>e.
         pbind (comma_loop n expression [e]) (\<lambda>args.
         pbind (pstep (expect_token RParen (quoted '')'' @ '' to close argument list'')))
           (\<lambda>t. presult (Inr args))))) p1 (\<lambda>a p'. psize p' \<le> psize p)"
    if "psize p1 \<le> psize p" for p1
    using that assms(2,3)
    by (intro runs_pbind shrinking_runs [OF assms(1)] runs_mono [OF runs_comma_loop [OF assms(1)]]
        runs_pstep runs_presult) (auto dest: expect_size)
  have none: "runs (pbind (pstep consume) (\<lambda>t. presult (Inr []))) p1 (\<lambda>a p'. psize p' \<le> psize p)"
    if "psize p1 \<le> psize p" for p1
    using that by (intro runs_pbind runs_pstep runs_presult) (auto dest!: consume_size)
  show ?thesis
    unfolding parse_argument_list_def
    by (intro runs_pbind runs_pstep) (auto dest!: check_size intro: args none)
qed

lemma runs_parenthesised:
  assumes "shrinking N expression" and "psize p < N" and "psize p < n"
  shows "runs (parse_parenthesised n expression) p (\<lambda>a p'. psize p' \<le> psize p)"
proof -
  have tuple: "runs (pbind expression (\<lambda>second.
         pbind (comma_loop n expression [first, second]) (\<lambda>items.
         pbind (pstep (expect_token RParen (quoted '')'' @ '' to close tuple'')))
           (\<lambda>t. presult (Inr (TupleExpr items)))))) p1 (\<lambda>a p'. psize p' \<le> psize p)"
    if "psize p1 \<le> psize p" for p1 first
    using that assms(2,3)
    by (intro runs_pbind shrinking_runs [OF assms(1)] runs_mono [OF runs_comma_loop [OF assms(1)]]
        runs_pstep runs_presult) (auto dest: expect_size)
  have one: "runs (pbind (pstep (expect_token RParen (quoted '')'' @ '' to close expression'')))
           (\<lambda>t. presult (Inr first))) p1 (\<lambda>a p'. psize p' \<le> psize p)"
    if "psize p1 \<le> psize p" for p1 first
    using that by (intro runs_pbind runs_pstep runs_presult) (auto dest!: expect_size)
  show ?thesis
    unfolding parse_parenthesised_def
    using assms(2)
    by (intro runs_pbind shrinking_runs [OF assms(1)] runs_pstep)
      (auto dest!: match_size intro: tuple one)
qed

lemma runs_context_call:
  assumes "shrinking N expression" and "psize p < N" and "psize p < n"
  shows "runs (parse_context_call n expression stripped span) p (\<lambda>a p'. psize p' \<le> psize p)"
proof -
  have args: "runs (pbind (pstep (match_token LParen)) (\<lambda>m.
              if m then parse_argument_list n expression else presult (Inr []))) p1
       (\<lambda>a p'. psize p' \<le> psize p)" if "psize p1 \<le> psize p" for p1
  proof -
    have "runs (if m then parse_argument_list n expression else presult (Inr [])) p2
       (\<lambda>a p'. psize p' \<le> psize p)" if "match_token LParen p1 = (Inr m, p2)" for m p2
      using match_size [OF that] \<open>psize p1 \<le> psize p\<close> assms(2,3)
      by (auto intro!: runs_presult runs_mono [OF runs_argument_list [OF assms(1)]])
    then show ?thesis by (intro runs_pbind runs_pstep)
  qed
  show ?thesis
    unfolding parse_context_call_def
    using assms(3)
    by (intro runs_pbind runs_mono [OF runs_segments_loop] runs_mono [OF args] runs_presult)
qed

lemma runs_identifier:
  assumes "shrinking N expression" and "psize p < N" and "psize p < n"
  shows "runs (parse_identifier n expression t) p (\<lambda>a p'. psize p' \<le> psize p)"
  using runs_context_call [OF assms]
  by (auto simp: runs_def parse_identifier_def Let_def split: option.splits)

lemma shrinking_primary:
  assumes "shrinking n expression"
  shows "shrinking (Suc n) (parse_primary (Suc n) expression)"
proof -
  have "runs (parse_primary (Suc n) expression) p (\<lambda>a p'. psize p' < psize p)"
    if "psize p < Suc n" for p
  proof -
    have paren: "runs (parse_parenthesised (Suc n) expression) p1 (\<lambda>a p'. psize p' < psize p)"
      if "psize p1 < psize p" for p1
      using that \<open>psize p < Suc n\<close>
      by (intro runs_mono [OF runs_parenthesised [OF assms]]) auto
    have num: "runs (pbind (pstep consume) (\<lambda>t. presult (parse_number_token t))) p1
        (\<lambda>a p'. psize p' < psize p)"
      if "check_token NumberTok p0 = (Inr True, p1)" "psize p0 \<le> psize p" for p0 p1
      using consume_checked(2) [OF that(1)] that(2)
      by (intro runs_pbind runs_pstep runs_presult) fastforce
    have ident: "runs (pbind (pstep consume) (parse_identifier (Suc n) expression)) p1
        (\<lambda>a p'. psize p' < psize p)"
      if "check_token Identifier p0 = (Inr True, p1)" "psize p0 \<le> psize p" for p0 p1
    proof -
      have "psize p2 < psize p" if "consume p1 = (Inr t, p2)" for t p2
        using consume_checked(2) [OF \<open>check_token _ p0 = _\<close> that] \<open>psize p0 \<le> psize p\<close> by simp
      then show ?thesis
        using \<open>psize p < Suc n\<close>
        by (intro runs_pbind runs_pstep runs_mono [OF runs_identifier [OF assms]]) fastforce+
    qed
    have le: "psize p2 \<le> psize p" if "check_token k p1 = (Inr b, p2)" "psize p1 \<le> psize p"
      for k b p1 p2
      using check_size [OF that(1)] that(2) by auto
    have ident_case: "runs (if ident then pbind (pstep consume) (parse_identifier (Suc n) expression)
           else presult (Inl (Parser ''unexpected token in semantic expression''))) p2
        (\<lambda>a p'. psize p' < psize p)"
      if "check_token Identifier p1 = (Inr ident, p2)" "psize p1 \<le> psize p" for ident p1 p2
      using that by (cases ident) (auto intro: ident runs_presult)
    have num_case: "runs (if num then pbind (pstep consume) (\<lambda>t. presult (parse_number_token t))
         else pbind (pstep (check_token Identifier)) (\<lambda>ident.
           if ident then pbind (pstep consume) (parse_identifier (Suc n) expression)
           else presult (Inl (Parser ''unexpected token in semantic expression'')))) p2
        (\<lambda>a p'. psize p' < psize p)"
      if "check_token NumberTok p1 = (Inr num, p2)" "psize p1 \<le> psize p" for num p1 p2
    proof (cases num)
      case True
      then show ?thesis using that by (auto intro: num)
    next
      case False
      have "psize p2 \<le> psize p" using le [OF that] .
      then show ?thesis
        using False by (auto intro!: runs_pbind [of "pstep (check_token Identifier)"] runs_pstep ident_case)
    qed
    have atom: "runs (pbind (pstep (check_token NumberTok)) (\<lambda>num.
         if num then pbind (pstep consume) (\<lambda>t. presult (parse_number_token t))
         else pbind (pstep (check_token Identifier)) (\<lambda>ident.
           if ident then pbind (pstep consume) (parse_identifier (Suc n) expression)
           else presult (Inl (Parser ''unexpected token in semantic expression''))))) p1
        (\<lambda>a p'. psize p' < psize p)" if "psize p1 \<le> psize p" for p1
      by (rule runs_pbind, rule runs_pstep, rule num_case [OF _ that])
    show ?thesis
      unfolding parse_primary_def
      by (intro runs_pbind runs_pstep) (auto dest!: match_size intro: paren atom)
  qed
  then show ?thesis by (simp add: shrinking_def)
qed

lemma shrinking_expression: "shrinking n (parse_expression n)"
proof (induction n)
  case 0
  then show ?case by (simp add: shrinking_def)
next
  case (Suc n)
  have "shrinking (Suc n) (parse_postfix (Suc n) (parse_expression n))"
  proof -
    have "runs (postfix_loop k e) p (\<lambda>a p'. psize p' \<le> psize p)" if "psize p < k" for k e p
      using that
    proof (induction k arbitrary: e p)
      case (Suc k)
      have "runs (if m then pbind (pstep consume) (\<lambda>t.
          pbind (presult (parse_bit_slice (tok_lexeme t))) (\<lambda>sl. postfix_loop k (BitSlice e sl)))
        else presult (Inr e)) p1 (\<lambda>a p'. psize p' \<le> psize p)"
        if c: "check_token BitExpr p = (Inr m, p1)" for m p1
      proof (cases m)
        case True
        have "runs (postfix_loop k (BitSlice e sl)) p2 (\<lambda>a p'. psize p' \<le> psize p)"
          if "consume p1 = (Inr t, p2)" for t p2 sl
          using consume_checked(2) [OF _ that, of BitExpr p] c True Suc.prems
          by (intro runs_mono [OF Suc.IH]) auto
        then show ?thesis using True by (auto intro!: runs_pbind runs_pstep runs_presult)
      next
        case False
        then show ?thesis using check_size [OF c] by (auto intro!: runs_presult)
      qed
      then show ?case by (auto intro!: runs_pbind runs_pstep)
    qed simp
    note loop = this
    have "runs (parse_postfix (Suc n) (parse_expression n)) p (\<lambda>a p'. psize p' < psize p)"
      if "psize p < Suc n" for p
      unfolding parse_postfix_def
      using that by (intro runs_pbind shrinking_runs [OF shrinking_primary [OF Suc]]
          runs_mono [OF loop]) auto
    then show ?thesis by (simp add: shrinking_def)
  qed
  then show ?case
    by (simp add: parse_logical_or_def parse_logical_and_def parse_bit_or_def parse_bit_xor_def
        parse_bit_and_def parse_equality_def parse_relational_def parse_term_def parse_factor_def
        shrinking_chain)
qed

lemma shrinking_statement: "shrinking n (parse_statement n)"
proof -
  have "runs (parse_statement n) p (\<lambda>a p'. psize p' < psize p)" if "psize p < n" for p
  proof -
    have assign: "runs (pbind (pstep (expect_token Equals (quoted ''='' @ '' in assignment''))) (\<lambda>t.
         pbind (parse_expression n) (\<lambda>rhs.
         pbind (presult (try_from_expr e)) (\<lambda>target. presult (Inr (Assign target rhs))))))
         p1 (\<lambda>a p'. psize p' < psize p)" if "psize p1 < psize p" for e p1
      using that \<open>psize p < n\<close>
      by (intro runs_pbind runs_pstep shrinking_runs [OF shrinking_expression] runs_presult)
        (auto dest!: expect_size)
    have rest: "runs (if m then pbind (pstep (expect_token Equals (quoted ''='' @ '' in assignment''))) (\<lambda>t.
         pbind (parse_expression n) (\<lambda>rhs.
         pbind (presult (try_from_expr e)) (\<lambda>target. presult (Inr (Assign target rhs)))))
       else presult (Inr (case e of TupleExpr items \<Rightarrow> Return e | _ \<Rightarrow> ExprStmt e)))
         p2 (\<lambda>a p'. psize p' < psize p)"
      if "is_assignment_target e p1 = (Inr m, p2)" "psize p1 < psize p" for e m p1 p2
      using assignment_size [OF that(1)] that(2) assign by (auto intro!: runs_presult)
    show ?thesis
      unfolding parse_statement_def
      by (rule runs_pbind, rule shrinking_runs [OF shrinking_expression \<open>psize p < n\<close>],
          rule runs_pbind, rule runs_pstep, rule rest)
  qed
  then show ?thesis by (simp add: shrinking_def)
qed

lemma runs_program_loop:
  assumes "psize p < n" and "psize p < k"
  shows "runs (program_loop k n statements) p (\<lambda>a p'. True)"
  using assms
proof (induction k arbitrary: statements p)
  case (Suc k)
  have semi: "runs (if semi then program_loop k n statements
           else pbind (parse_statement n) (\<lambda>stmt. program_loop k n (statements @ [stmt]))) p2
        (\<lambda>a p'. True)"
    if m: "match_token Semicolon p1 = (Inr semi, p2)" "psize p1 \<le> psize p" for semi p1 p2
  proof (cases semi)
    case True
    then show ?thesis using match_size [OF m(1)] m(2) Suc.prems by (auto intro!: Suc.IH)
  next
    case False
    then show ?thesis
      using match_size [OF m(1)] m(2) Suc.prems
      by (auto intro!: runs_pbind shrinking_runs [OF shrinking_statement] Suc.IH)
  qed
  have brace: "runs (if brace then presult (Inr statements)
         else pbind (pstep (match_token Semicolon)) (\<lambda>semi.
           if semi then program_loop k n statements
           else pbind (parse_statement n) (\<lambda>stmt. program_loop k n (statements @ [stmt])))) p2
        (\<lambda>a p'. True)"
    if c: "check_token RBrace p1 = (Inr brace, p2)" "psize p1 \<le> psize p" for brace p1 p2
    using check_size [OF c(1)] c(2) semi
    by (auto intro!: runs_presult runs_pbind [of "pstep (match_token Semicolon)"] runs_pstep)
  have eof: "runs (if eof then presult (Inr statements)
       else pbind (pstep (check_token RBrace)) (\<lambda>brace.
         if brace then presult (Inr statements)
         else pbind (pstep (match_token Semicolon)) (\<lambda>semi.
           if semi then program_loop k n statements
           else pbind (parse_statement n) (\<lambda>stmt. program_loop k n (statements @ [stmt]))))) p1
        (\<lambda>a p'. True)"
    if c: "check_token EOF p = (Inr eof, p1)" for eof p1
    using check_size [OF c] brace
    by (auto intro!: runs_presult runs_pbind [of "pstep (check_token RBrace)"] runs_pstep)
  show ?case by (simp add: runs_pbind runs_pstep eof)
qed simp

text \<open>C29: Parsing a semantic program always returns: with one unit of fuel per input character and
  one more, neither the statement loop, nor the operator, argument and postfix loops, nor the
  recursion into parentheses runs out, whatever the text, and \<open>parse_with_span\<close> is the result.\<close>
theorem parse_with_span_total:
  "\<exists>p'. parse_program (length src + 1) (parser_with_span src span)
        = Some (parse_with_span src span, p')"
proof -
  have "psize (parser_with_span src span) < length src + 1"
    by (simp add: psize_def parser_with_span_def lexer_with_origin_def split: option.split prod.split)
  then have "runs (parse_program (length src + 1)) (parser_with_span src span) (\<lambda>a p'. True)"
    unfolding parse_program_def by (intro runs_program_loop)
  then show ?thesis by (auto simp: runs_def parse_with_span_def)
qed

section \<open>Two surprises of the front end\<close>

text \<open>Without a blank before it, a minus sign and a literal are one number token, which the parser
  then rejects as a negative literal; and a slice bound beyond 32 bits is cut to its low bits.\<close>

lemma minus_literal_is_one_token:
  "next_token (lexer_new ''-1'' path) =
     (Inr \<lparr>tok_kind = NumberTok, tok_lexeme = ''-1'', tok_line = 1, tok_column = 1\<rparr>,
      \<lparr>lx_rest = [], lx_path = path, lx_line = 1, lx_column = 2\<rparr>)
   \<and> parse_u64_literal ''-1'' = Inl NegativeNotSupported"
  by code_simp

end
