(* ===== verification/TypeArena.thy ===== *)
theory TypeArena
  imports BitField
begin

text \<open>
  The type descriptions shared by the register schema, the symbol table and the debugger
  (\<open>src/soc/prog/types/\<close>): the record shapes, the arena that owns them with its interned strings
  and its side table of members, the builders, the expression machine of dynamic layouts and the
  member walker.  A \<open>TypeId\<close> or \<open>StringId\<close> is the index it wraps; the arena stays below the
  \<open>2^32\<close> entries the Rust type can number.
\<close>

type_synonym string_id = nat

section \<open>Record shapes\<close>

datatype scalar_encoding = UnsignedEnc | SignedEnc | FloatingEnc | Utf8StringEnc

datatype display_format = DefaultFormat | DecimalFormat | HexFormat | DotNotation

record scalar_type =
  st_name :: "string_id option"
  st_byte_size :: u32
  st_encoding :: scalar_encoding
  st_display :: display_format

record enum_variant =
  ev_label :: string_id
  ev_value :: i64

record enum_type =
  et_base :: scalar_type
  et_variants :: "enum_variant list"

definition push_variant :: "enum_type \<Rightarrow> enum_variant \<Rightarrow> enum_type" where
  "push_variant e v = e\<lparr>et_variants := et_variants e @ [v]\<rparr>"

definition label_for :: "enum_type \<Rightarrow> i64 \<Rightarrow> string_id option" where
  "label_for e v = map_option ev_label (find (\<lambda>entry. ev_value entry = v) (et_variants e))"

text \<open>The scale and offset of a fixed-point scalar are \<open>f64\<close> values, kept as their bit patterns;
  applying them is floating-point arithmetic and is not modelled.\<close>

record fixed_scalar =
  fx_base :: scalar_type
  fx_scale :: u64
  fx_offset :: u64

datatype op_code =
    PushConst u64
  | ReadMember u32
  | ReadVariable i64
  | SizeOf type_id
  | CountOf type_id
  | OpAdd
  | OpSub
  | OpMul
  | OpDiv
  | OpNeg
  | OpDeref

type_synonym expr_program = "op_code list"

datatype count_source = ExpressionCount expr_program | MemberPath "string_id list"

datatype sequence_count = StaticCount u32 | DynamicCount count_source

record sequence_type =
  sq_element :: type_id
  sq_stride_bytes :: u32
  sq_count :: sequence_count

definition element_count :: "sequence_type \<Rightarrow> u32 option" where
  "element_count s = (case sq_count s of StaticCount n \<Rightarrow> Some n | DynamicCount c \<Rightarrow> None)"

datatype pointer_kind = DataPointer | ReferencePointer | FunctionPointer

datatype address_space = DefaultSpace | Segmented u16

record pointer_type =
  pt_target :: type_id
  pt_kind :: pointer_kind
  pt_const :: bool
  pt_volatile :: bool
  pt_space :: address_space
  pt_byte_size :: u32

definition pointer_new :: "type_id \<Rightarrow> pointer_kind \<Rightarrow> pointer_type" where
  "pointer_new target kind =
     \<lparr>pt_target = target, pt_kind = kind, pt_const = False, pt_volatile = False,
      pt_space = DefaultSpace, pt_byte_size = 8\<rparr>"

definition with_byte_size :: "pointer_type \<Rightarrow> u32 \<Rightarrow> pointer_type" where
  "with_byte_size p n = p\<lparr>pt_byte_size := max n 1\<rparr>"

datatype aggregate_kind = StructKind | ClassKind | UnionKind | VariantKind

record layout_size =
  ls_bytes :: u32
  ls_trailing_bits :: u16

definition total_bits :: "layout_size \<Rightarrow> u32" where
  "total_bits l = push_bit 3 (ls_bytes l) + ucast (ls_trailing_bits l)"

text \<open>A span of the member table; \<open>MemberSpan::new\<close> stores \<open>start as u32\<close> and \<open>len as u32\<close>.\<close>

record member_span =
  ms_start :: u32
  ms_len :: u32

definition member_span_new :: "nat \<Rightarrow> nat \<Rightarrow> member_span" where
  "member_span_new start len = \<lparr>ms_start = of_nat start, ms_len = of_nat len\<rparr>"

definition member_span_empty :: member_span where
  "member_span_empty = \<lparr>ms_start = 0, ms_len = 0\<rparr>"

record member_record =
  mr_name :: "string_id option"
  mr_ty :: type_id
  mr_offset_bits :: u32
  mr_bit_size :: "u16 option"

definition member_new :: "string_id option \<Rightarrow> type_id \<Rightarrow> u32 \<Rightarrow> member_record" where
  "member_new name ty offset =
     \<lparr>mr_name = name, mr_ty = ty, mr_offset_bits = offset, mr_bit_size = None\<rparr>"

definition with_bitfield :: "member_record \<Rightarrow> u16 \<Rightarrow> member_record" where
  "with_bitfield m n = m\<lparr>mr_bit_size := Some n\<rparr>"

record static_member =
  sm_label :: string_id
  sm_variable_id :: i64

record aggregate_type =
  ag_kind :: aggregate_kind
  ag_members :: member_span
  ag_static_members :: "static_member list"
  ag_byte_size :: layout_size
  ag_has_dynamic :: bool

definition aggregate_new :: "aggregate_kind \<Rightarrow> member_span \<Rightarrow> layout_size \<Rightarrow> aggregate_type" where
  "aggregate_new kind members bytes =
     \<lparr>ag_kind = kind, ag_members = members, ag_static_members = [], ag_byte_size = bytes,
      ag_has_dynamic = False\<rparr>"

definition is_union :: "aggregate_type \<Rightarrow> bool" where
  "is_union a \<longleftrightarrow> ag_kind a = UnionKind"

definition push_static_member :: "aggregate_type \<Rightarrow> string_id \<Rightarrow> i64 \<Rightarrow> aggregate_type" where
  "push_static_member a label v =
     a\<lparr>ag_static_members := ag_static_members a @ [\<lparr>sm_label = label, sm_variable_id = v\<rparr>]\<rparr>"

record callable_type =
  ct_name :: "string_id option"
  ct_returns :: "type_id list"
  ct_params :: "type_id list"

record dynamic_field =
  df_label :: "string_id option"
  df_ty :: type_id
  df_size_expr :: "expr_program option"
  df_count_expr :: "expr_program option"

record dynamic_aggregate =
  da_name :: "string_id option"
  da_fields :: "dynamic_field list"

record opaque_type =
  oq_name :: "string_id option"
  oq_byte_size :: u32

datatype type_record =
    ScalarRec scalar_type
  | EnumRec enum_type
  | BitFieldRec bitfield_spec
  | FixedRec fixed_scalar
  | SequenceRec sequence_type
  | PointerRec pointer_type
  | AggregateRec aggregate_type
  | CallableRec callable_type
  | DynamicRec dynamic_aggregate
  | OpaqueRec opaque_type

definition as_scalar :: "type_record \<Rightarrow> scalar_type option" where
  "as_scalar r = (case r of ScalarRec s \<Rightarrow> Some s | _ \<Rightarrow> None)"

section \<open>The arena\<close>

record string_pool =
  sp_values :: "string list"
  sp_lookup :: "string \<rightharpoonup> string_id"

record type_arena =
  ta_records :: "type_record list"
  ta_members :: "member_record list"
  ta_strings :: string_pool

definition arena_new :: type_arena where
  "arena_new = \<lparr>ta_records = [], ta_members = [],
     ta_strings = \<lparr>sp_values = [], sp_lookup = (\<lambda>s. None)\<rparr>\<rparr>"

definition pool_intern :: "string_pool \<Rightarrow> string \<Rightarrow> string_id \<times> string_pool" where
  "pool_intern p s =
     (case sp_lookup p s of
        Some i \<Rightarrow> (i, p)
      | None \<Rightarrow>
          (let i = length (sp_values p)
           in (i, \<lparr>sp_values = sp_values p @ [s], sp_lookup = (sp_lookup p)(s \<mapsto> i)\<rparr>)))"

text \<open>\<open>resolve\<close> and \<open>get\<close> index their table; \<open>None\<close> stands for the panic of an index out of
  range.\<close>

definition pool_resolve :: "string_pool \<Rightarrow> string_id \<Rightarrow> string option" where
  "pool_resolve p i = (if i < length (sp_values p) then Some (sp_values p ! i) else None)"

definition push_record :: "type_record \<Rightarrow> type_arena \<Rightarrow> type_id \<times> type_arena" where
  "push_record r a = (length (ta_records a), a\<lparr>ta_records := ta_records a @ [r]\<rparr>)"

definition arena_get :: "type_arena \<Rightarrow> type_id \<Rightarrow> type_record option" where
  "arena_get a i = (if i < length (ta_records a) then Some (ta_records a ! i) else None)"

definition alloc_members :: "member_record list \<Rightarrow> type_arena \<Rightarrow> member_span \<times> type_arena" where
  "alloc_members ms a =
     (member_span_new (length (ta_members a)) (length ms),
      a\<lparr>ta_members := ta_members a @ ms\<rparr>)"

definition arena_members :: "type_arena \<Rightarrow> member_span \<Rightarrow> member_record list option" where
  "arena_members a span =
     (let start = unat (ms_start span); stop = start + unat (ms_len span)
      in if stop \<le> length (ta_members a)
         then Some (take (unat (ms_len span)) (drop start (ta_members a))) else None)"

definition intern_string :: "string \<Rightarrow> type_arena \<Rightarrow> string_id \<times> type_arena" where
  "intern_string s a =
     (let (i, p) = pool_intern (ta_strings a) s in (i, a\<lparr>ta_strings := p\<rparr>))"

definition resolve_string :: "type_arena \<Rightarrow> string_id \<Rightarrow> string option" where
  "resolve_string a i = pool_resolve (ta_strings a) i"

section \<open>Builders\<close>

definition declare_scalar ::
    "string_id option \<Rightarrow> u32 \<Rightarrow> scalar_encoding \<Rightarrow> display_format \<Rightarrow> type_arena \<Rightarrow>
     type_id \<times> type_arena" where
  "declare_scalar name bytes enc disp a =
     push_record (ScalarRec \<lparr>st_name = name, st_byte_size = bytes, st_encoding = enc,
       st_display = disp\<rparr>) a"

definition build_scalar ::
    "string option \<Rightarrow> u32 \<Rightarrow> scalar_encoding \<Rightarrow> display_format \<Rightarrow> type_arena \<Rightarrow>
     type_id \<times> type_arena" where
  "build_scalar name bytes enc disp a =
     (let (name_id, a1) =
        (case name of
           None \<Rightarrow> (None, a)
         | Some s \<Rightarrow> (let (i, a1) = intern_string s a in (Some i, a1)))
      in declare_scalar name_id bytes enc disp a1)"

definition build_pointer :: "type_id \<Rightarrow> pointer_kind \<Rightarrow> u32 \<Rightarrow> type_arena \<Rightarrow> type_id \<times> type_arena" where
  "build_pointer target kind bytes a =
     push_record (PointerRec (with_byte_size (pointer_new target kind) bytes)) a"

definition build_sequence :: "type_id \<Rightarrow> u32 \<Rightarrow> sequence_count \<Rightarrow> type_arena \<Rightarrow> type_id \<times> type_arena" where
  "build_sequence element stride count a =
     push_record (SequenceRec \<lparr>sq_element = element, sq_stride_bytes = stride,
       sq_count = count\<rparr>) a"

definition sequence_static :: "type_id \<Rightarrow> u32 \<Rightarrow> u32 \<Rightarrow> type_arena \<Rightarrow> type_id \<times> type_arena" where
  "sequence_static element stride count a = build_sequence element stride (StaticCount count) a"

definition build_bitfield :: "bitfield_spec \<Rightarrow> type_arena \<Rightarrow> type_id \<times> type_arena" where
  "build_bitfield spec a = push_record (BitFieldRec spec) a"

text \<open>The aggregate builder keeps its parts until \<open>finish\<close>; it holds the arena it interns into.\<close>

record aggregate_builder =
  ab_arena :: type_arena
  ab_kind :: aggregate_kind
  ab_members :: "member_record list"
  ab_static_members :: "static_member list"
  ab_layout :: layout_size
  ab_has_dynamic :: bool

definition aggregate_builder_new :: "type_arena \<Rightarrow> aggregate_kind \<Rightarrow> aggregate_builder" where
  "aggregate_builder_new a kind =
     \<lparr>ab_arena = a, ab_kind = kind, ab_members = [], ab_static_members = [],
      ab_layout = \<lparr>ls_bytes = 0, ls_trailing_bits = 0\<rparr>, ab_has_dynamic = False\<rparr>"

definition ab_set_layout :: "u32 \<Rightarrow> u16 \<Rightarrow> aggregate_builder \<Rightarrow> aggregate_builder" where
  "ab_set_layout bytes trailing b =
     b\<lparr>ab_layout := \<lparr>ls_bytes = bytes, ls_trailing_bits = trailing\<rparr>\<rparr>"

definition ab_mark_dynamic :: "aggregate_builder \<Rightarrow> aggregate_builder" where
  "ab_mark_dynamic b = b\<lparr>ab_has_dynamic := True\<rparr>"

definition ab_member_record :: "member_record \<Rightarrow> aggregate_builder \<Rightarrow> aggregate_builder" where
  "ab_member_record m b = b\<lparr>ab_members := ab_members b @ [m]\<rparr>"

definition ab_member :: "string \<Rightarrow> type_id \<Rightarrow> u32 \<Rightarrow> aggregate_builder \<Rightarrow> aggregate_builder" where
  "ab_member name ty byte_offset b =
     (let (i, a) = intern_string name (ab_arena b)
      in ab_member_record (member_new (Some i) ty (byte_offset * 8)) (b\<lparr>ab_arena := a\<rparr>))"

definition ab_member_bits ::
    "string \<Rightarrow> type_id \<Rightarrow> u32 \<Rightarrow> u16 \<Rightarrow> aggregate_builder \<Rightarrow> aggregate_builder" where
  "ab_member_bits name ty offset_bits bit_size b =
     (let (i, a) = intern_string name (ab_arena b)
      in ab_member_record (with_bitfield (member_new (Some i) ty offset_bits) bit_size)
           (b\<lparr>ab_arena := a\<rparr>))"

definition ab_static_member :: "string \<Rightarrow> i64 \<Rightarrow> aggregate_builder \<Rightarrow> aggregate_builder" where
  "ab_static_member label v b =
     (let (i, a) = intern_string label (ab_arena b)
      in b\<lparr>ab_arena := a,
           ab_static_members := ab_static_members b @ [\<lparr>sm_label = i, sm_variable_id = v\<rparr>]\<rparr>)"

definition ab_finish :: "aggregate_builder \<Rightarrow> type_id \<times> type_arena" where
  "ab_finish b =
     (let (span, a) =
        (if ab_members b = [] then (member_span_empty, ab_arena b)
         else alloc_members (ab_members b) (ab_arena b))
      in push_record (AggregateRec
           ((aggregate_new (ab_kind b) span (ab_layout b))
              \<lparr>ag_static_members := ab_static_members b, ag_has_dynamic := ab_has_dynamic b\<rparr>)) a)"

record enum_builder =
  eb_arena :: type_arena
  eb_ty :: enum_type

definition enum_builder_new :: "type_arena \<Rightarrow> scalar_type \<Rightarrow> enum_builder" where
  "enum_builder_new a base = \<lparr>eb_arena = a, eb_ty = \<lparr>et_base = base, et_variants = []\<rparr>\<rparr>"

definition eb_variant :: "string \<Rightarrow> i64 \<Rightarrow> enum_builder \<Rightarrow> enum_builder" where
  "eb_variant label v b =
     (let (i, a) = intern_string label (eb_arena b)
      in \<lparr>eb_arena = a, eb_ty = push_variant (eb_ty b) \<lparr>ev_label = i, ev_value = v\<rparr>\<rparr>)"

definition eb_finish :: "enum_builder \<Rightarrow> type_id \<times> type_arena" where
  "eb_finish b = push_record (EnumRec (eb_ty b)) (eb_arena b)"

end
