(* ===== verification/TypeLayout.thy ===== *)
theory TypeLayout
  imports TypeArena
begin

text \<open>
  Layouts over the type arena: the stack machine of dynamic sizes, the materialisation of dynamic
  aggregates and the member walker, with the invariant the builders keep (every type refers to
  types declared before it) and the walker's equivalence with a recursive listing of the members.
\<close>

section \<open>Dynamic layouts\<close>

text \<open>The \<open>EvalContext\<close> trait as a table of functions over its state.\<close>

record 's eval_context =
  ec_read_member :: "u32 \<Rightarrow> 's \<Rightarrow> u64 \<times> 's"
  ec_read_variable :: "i64 \<Rightarrow> 's \<Rightarrow> u64 \<times> 's"
  ec_sizeof :: "'s \<Rightarrow> type_id \<Rightarrow> u64"
  ec_count_of :: "'s \<Rightarrow> type_id \<Rightarrow> u64"
  ec_deref :: "u64 \<Rightarrow> 's \<Rightarrow> u64 \<times> 's"

text \<open>The stack has its top at the head; an operator without its operands leaves it alone.\<close>

fun apply_binary :: "(u64 \<Rightarrow> u64 \<Rightarrow> u64) \<Rightarrow> u64 list \<Rightarrow> u64 list" where
  "apply_binary f (r # l # st) = f l r # st"
| "apply_binary f st = st"

definition push_read :: "u64 \<times> 's \<Rightarrow> u64 list \<Rightarrow> u64 list \<times> 's" where
  "push_read r st = (fst r # st, snd r)"

fun run_op :: "'s eval_context \<Rightarrow> op_code \<Rightarrow> u64 list \<times> 's \<Rightarrow> u64 list \<times> 's" where
  "run_op c (PushConst v) (st, s) = (v # st, s)"
| "run_op c (ReadMember h) (st, s) = push_read (ec_read_member c h s) st"
| "run_op c (ReadVariable i) (st, s) = push_read (ec_read_variable c i s) st"
| "run_op c (SizeOf ty) (st, s) = (ec_sizeof c s ty # st, s)"
| "run_op c (CountOf ty) (st, s) = (ec_count_of c s ty # st, s)"
| "run_op c OpAdd (st, s) = (apply_binary (+) st, s)"
| "run_op c OpSub (st, s) = (apply_binary (-) st, s)"
| "run_op c OpMul (st, s) = (apply_binary (*) st, s)"
| "run_op c OpDiv (st, s) = (apply_binary (\<lambda>a b. if b = 0 then 0 else a div b) st, s)"
| "run_op c OpNeg (st, s) = (case st of [] \<Rightarrow> [] | v # st' \<Rightarrow> - v # st', s)"
| "run_op c OpDeref (st, s) =
     (case st of [] \<Rightarrow> ([], s) | v # st' \<Rightarrow> push_read (ec_deref c v s) st')"

definition evaluate_program :: "'s eval_context \<Rightarrow> expr_program \<Rightarrow> 's \<Rightarrow> u64 \<times> 's" where
  "evaluate_program c ops s =
     (let (st, s') = fold (run_op c) ops ([], s)
      in (case st of [] \<Rightarrow> 0 | v # st' \<Rightarrow> v, s'))"

definition evaluate_optional ::
    "'s eval_context \<Rightarrow> u32 \<Rightarrow> expr_program option \<Rightarrow> 's \<Rightarrow> u32 \<times> 's" where
  "evaluate_optional c dflt e s =
     (case e of
        None \<Rightarrow> (dflt, s)
      | Some p \<Rightarrow> (let (v, s') = evaluate_program c p s in (ucast v, s')))"

text \<open>One field of \<open>materialize\<close>: its member at the running offset.\<close>

definition materialize_field ::
    "'s eval_context \<Rightarrow> dynamic_field \<Rightarrow> member_record list \<times> u32 \<times> 's \<Rightarrow>
     member_record list \<times> u32 \<times> 's" where
  "materialize_field c f r =
     (case r of (members, offset, s) \<Rightarrow>
       let (byte_size, s1) = evaluate_optional c 0 (df_size_expr f) s;
           (count, s2) = evaluate_optional c 1 (df_count_expr f) s1;
           bits = max byte_size 1 * 8 * count
       in (members @ [(member_new (df_label f) (df_ty f) offset)\<lparr>mr_bit_size := Some (ucast bits)\<rparr>],
           offset + bits, s2))"

definition materialize ::
    "'s eval_context \<Rightarrow> dynamic_aggregate \<Rightarrow> 's \<Rightarrow> (aggregate_type \<times> member_record list) \<times> 's" where
  "materialize c d s =
     (let (members, offset, s') = fold (materialize_field c) (da_fields d) ([], 0, s);
          layout = \<lparr>ls_bytes = offset div 8, ls_trailing_bits = ucast (offset mod 8)\<rparr>
      in (((aggregate_new StructKind (member_span_new 0 (length members)) layout)
             \<lparr>ag_has_dynamic := True\<rparr>, members), s'))"

section \<open>The member walker\<close>

record resolved_member =
  rm_record :: member_record
  rm_offset :: u32

record cursor_frame =
  cf_members :: "member_record list"
  cf_index :: nat
  cf_base :: u32

text \<open>The stack of frames, innermost first; \<open>None\<close> is the panic of an index out of range.\<close>

definition push_type ::
    "type_arena \<Rightarrow> type_id \<Rightarrow> u32 \<Rightarrow> cursor_frame list \<Rightarrow> cursor_frame list option" where
  "push_type a ty base st =
     (case arena_get a ty of
        None \<Rightarrow> None
      | Some (AggregateRec ag) \<Rightarrow>
          map_option (\<lambda>ms. \<lparr>cf_members = ms, cf_index = 0, cf_base = base\<rparr> # st)
            (arena_members a (ag_members ag))
      | Some r \<Rightarrow> Some st)"

definition member_cursor :: "type_arena \<Rightarrow> type_id \<Rightarrow> cursor_frame list option" where
  "member_cursor a root = push_type a root 0 []"

fun cursor_next ::
    "type_arena \<Rightarrow> cursor_frame list \<Rightarrow> (resolved_member option \<times> cursor_frame list) option" where
  "cursor_next a [] = Some (None, [])"
| "cursor_next a (f # fs) =
     (if length (cf_members f) \<le> cf_index f then cursor_next a fs
      else
        (let m = cf_members f ! cf_index f; offset = cf_base f + mr_offset_bits m
         in map_option (\<lambda>st. (Some \<lparr>rm_record = m, rm_offset = offset\<rparr>, st))
              (push_type a (mr_ty m) offset (f\<lparr>cf_index := cf_index f + 1\<rparr> # fs))))"

text \<open>The items a caller sees who iterates at most \<open>n\<close> times; \<open>None\<close> if the walk has not ended.\<close>

primrec drain :: "nat \<Rightarrow> type_arena \<Rightarrow> cursor_frame list \<Rightarrow> resolved_member list option" where
  "drain 0 a st = None"
| "drain (Suc n) a st =
     (case cursor_next a st of
        None \<Rightarrow> None
      | Some (None, st') \<Rightarrow> Some []
      | Some (Some m, st') \<Rightarrow> map_option ((#) m) (drain n a st'))"

section \<open>Interned strings\<close>

definition pool_ok :: "string_pool \<Rightarrow> bool" where
  "pool_ok p \<longleftrightarrow>
     (\<forall>s i. sp_lookup p s = Some i \<longleftrightarrow> i < length (sp_values p) \<and> sp_values p ! i = s)"

lemma pool_ok_empty: "pool_ok (ta_strings arena_new)"
  by (simp add: pool_ok_def arena_new_def)

lemma pool_ok_lookup:
  "pool_ok p \<Longrightarrow> sp_lookup p s = Some i \<longleftrightarrow> i < length (sp_values p) \<and> sp_values p ! i = s"
  by (simp add: pool_ok_def)

lemma pool_ok_None: "pool_ok p \<Longrightarrow> sp_lookup p s = None \<longleftrightarrow> s \<notin> set (sp_values p)"
  by (metis in_set_conv_nth not_None_eq pool_ok_lookup)

lemma intern_ok:
  assumes "pool_ok p"
  shows "pool_ok (snd (pool_intern p s))"
    and "sp_lookup (snd (pool_intern p s)) s = Some (fst (pool_intern p s))"
    and "sp_lookup p t = Some i \<Longrightarrow> sp_lookup (snd (pool_intern p s)) t = Some i"
    and "t \<noteq> s \<Longrightarrow> sp_lookup (snd (pool_intern p s)) t = sp_lookup p t"
    and "pool_resolve p i = Some t \<Longrightarrow> pool_resolve (snd (pool_intern p s)) i = Some t"
    and "pool_resolve (snd (pool_intern p s)) (fst (pool_intern p s)) = Some s"
proof -
  show "pool_ok (snd (pool_intern p s))"
  proof (cases "sp_lookup p s")
    case None
    have "sp_lookup p t = Some j \<longleftrightarrow> j < length (sp_values p) \<and> sp_values p ! j = t" for t j
      using assms by (rule pool_ok_lookup)
    then show ?thesis
      using None pool_ok_None [OF assms, of s] nth_mem
      by (auto simp: pool_ok_def pool_intern_def Let_def nth_append less_Suc_eq)
  qed (simp add: pool_intern_def assms)
qed (use assms in \<open>auto simp: pool_intern_def pool_resolve_def nth_append pool_ok_lookup Let_def
      split: option.splits if_splits\<close>)

section \<open>Ranked arenas\<close>

text \<open>Every aggregate's members lie in the member table and have types declared before it.\<close>

definition record_ok :: "type_arena \<Rightarrow> type_id \<Rightarrow> type_record \<Rightarrow> bool" where
  "record_ok a i r =
     (case r of
        AggregateRec ag \<Rightarrow>
          (case arena_members a (ag_members ag) of
             None \<Rightarrow> False
           | Some ms \<Rightarrow> list_all (\<lambda>m. mr_ty m < i) ms)
      | _ \<Rightarrow> True)"

definition arena_ok :: "type_arena \<Rightarrow> bool" where
  "arena_ok a \<longleftrightarrow>
     pool_ok (ta_strings a) \<and>
     (\<forall>i < length (ta_records a). record_ok a i (ta_records a ! i))"

text \<open>\<open>a'\<close> extends \<open>a\<close>: nothing that was declared has changed.\<close>

definition arena_extends :: "type_arena \<Rightarrow> type_arena \<Rightarrow> bool" where
  "arena_extends a a' \<longleftrightarrow>
     prefix (ta_records a) (ta_records a') \<and> prefix (ta_members a) (ta_members a') \<and>
     (\<forall>i t. resolve_string a i = Some t \<longrightarrow> resolve_string a' i = Some t)"

lemma arena_extends_refl [simp]: "arena_extends a a"
  by (simp add: arena_extends_def)

lemma arena_extends_trans [trans]:
  "arena_extends a b \<Longrightarrow> arena_extends b c \<Longrightarrow> arena_extends a c"
  by (auto simp: arena_extends_def)

lemma arena_extends_get: "arena_extends a a' \<Longrightarrow> arena_get a i = Some r \<Longrightarrow> arena_get a' i = Some r"
  by (auto simp: arena_extends_def arena_get_def prefix_def nth_append split: if_splits)

lemma arena_extends_members:
  "arena_extends a a' \<Longrightarrow> arena_members a sp = Some ms \<Longrightarrow> arena_members a' sp = Some ms"
  by (auto simp: arena_extends_def arena_members_def prefix_def Let_def split: if_splits)

lemma record_ok_extends: "arena_extends a a' \<Longrightarrow> record_ok a i r \<Longrightarrow> record_ok a' i r"
  by (auto simp: record_ok_def arena_extends_members split: type_record.splits option.splits)

lemma arena_ok_new: "arena_ok arena_new"
  by (simp add: arena_ok_def pool_ok_empty) (simp add: arena_new_def)

lemma push_record_ok:
  assumes "arena_ok a" and "record_ok a (length (ta_records a)) r" and "push_record r a = (i, a')"
  shows "arena_ok a'" and "arena_extends a a'" and "arena_get a' i = Some r"
    and "i = length (ta_records a)"
proof -
  have a': "a' = a\<lparr>ta_records := ta_records a @ [r]\<rparr>" and i: "i = length (ta_records a)"
    using assms(3) by (simp_all add: push_record_def)
  show ext: "arena_extends a a'" by (simp add: a' arena_extends_def resolve_string_def)
  show "arena_ok a'"
    using assms(1,2) record_ok_extends [OF ext]
    by (auto simp: arena_ok_def a' nth_append less_Suc_eq)
  show "arena_get a' i = Some r" by (simp add: a' i arena_get_def)
  show "i = length (ta_records a)" by (rule i)
qed

lemma intern_string_ok:
  assumes "arena_ok a" and "intern_string s a = (i, a')"
  shows "arena_ok a'" and "arena_extends a a'" and "resolve_string a' i = Some s"
    and "ta_records a' = ta_records a" and "ta_members a' = ta_members a"
proof -
  have a': "a' = a\<lparr>ta_strings := snd (pool_intern (ta_strings a) s)\<rparr>"
    and i: "i = fst (pool_intern (ta_strings a) s)"
    using assms(2) by (auto simp: intern_string_def split: prod.splits)
  have p: "pool_ok (ta_strings a)" using assms(1) by (simp add: arena_ok_def)
  show ext: "arena_extends a a'"
    by (simp add: arena_extends_def a' resolve_string_def intern_ok [OF p])
  show "arena_ok a'"
    using assms(1) record_ok_extends [OF ext] intern_ok(1) [OF p] by (simp add: arena_ok_def a')
  show "resolve_string a' i = Some s"
    by (simp add: a' i resolve_string_def intern_ok [OF p])
qed (use assms(2) in \<open>auto simp: intern_string_def split: prod.splits\<close>)

lemma alloc_members_ok:
  assumes "arena_ok a" and "alloc_members ms a = (sp, a')"
    and "length (ta_members a) + length ms < 2 ^ 32"
  shows "arena_ok a'" and "arena_extends a a'" and "arena_members a' sp = Some ms"
    and "ta_records a' = ta_records a"
proof -
  have a': "a' = a\<lparr>ta_members := ta_members a @ ms\<rparr>"
    and sp: "sp = member_span_new (length (ta_members a)) (length ms)"
    using assms(2) by (simp_all add: alloc_members_def)
  show ext: "arena_extends a a'" by (simp add: a' arena_extends_def resolve_string_def)
  show "arena_ok a'"
    using assms(1) record_ok_extends [OF ext] by (simp add: arena_ok_def a')
  have "unat (of_nat (length (ta_members a)) :: u32) = length (ta_members a)"
    "unat (of_nat (length ms) :: u32) = length ms"
    using assms(3) by (simp_all add: unat_of_nat)
  then show "arena_members a' sp = Some ms"
    by (simp add: arena_members_def a' sp member_span_new_def)
qed (use assms(2) in \<open>auto simp: alloc_members_def\<close>)

text \<open>C30: Finishing an aggregate builder whose members have declared types returns an identifier
  under which the arena holds an aggregate of the builder's kind, size and flags with exactly the
  members added, in order; the arena stays well formed (every type refers to earlier types only,
  every string identifier means one string) and nothing declared before has changed.\<close>
theorem aggregate_finish_spec:
  assumes "arena_ok (ab_arena b)"
    and "\<forall>m \<in> set (ab_members b). mr_ty m < length (ta_records (ab_arena b))"
    and "length (ta_members (ab_arena b)) + length (ab_members b) < 2 ^ 32"
    and "ab_finish b = (i, a)"
  shows "arena_ok a \<and> arena_extends (ab_arena b) a \<and> i = length (ta_records (ab_arena b)) \<and>
    (\<exists>ag. arena_get a i = Some (AggregateRec ag) \<and> ag_kind ag = ab_kind b \<and>
       ag_byte_size ag = ab_layout b \<and> ag_has_dynamic ag = ab_has_dynamic b \<and>
       ag_static_members ag = ab_static_members b \<and>
       arena_members a (ag_members ag) = Some (ab_members b))"
proof -
  obtain sp a1 where alloc: "(if ab_members b = [] then (member_span_empty, ab_arena b)
      else alloc_members (ab_members b) (ab_arena b)) = (sp, a1)" by force
  have a1: "arena_ok a1 \<and> arena_extends (ab_arena b) a1 \<and> ta_records a1 = ta_records (ab_arena b)
    \<and> arena_members a1 sp = Some (ab_members b)"
  proof (cases "ab_members b = []")
    case True
    then show ?thesis
      using alloc assms(1) by (auto simp: arena_members_def member_span_empty_def)
  next
    case False
    then have "alloc_members (ab_members b) (ab_arena b) = (sp, a1)" using alloc by simp
    then show ?thesis using alloc_members_ok [OF assms(1) _ assms(3)] by blast
  qed
  define ag where "ag = (aggregate_new (ab_kind b) sp (ab_layout b))
              \<lparr>ag_static_members := ab_static_members b, ag_has_dynamic := ab_has_dynamic b\<rparr>"
  have push: "push_record (AggregateRec ag) a1 = (i, a)"
    using assms(4) alloc by (simp add: ab_finish_def ag_def)
  have ok: "record_ok a1 (length (ta_records a1)) (AggregateRec ag)"
    using a1 assms(2) by (simp add: record_ok_def ag_def aggregate_new_def list_all_iff)
  note p = push_record_ok [OF _ ok push]
  have ext: "arena_extends (ab_arena b) a" using a1 p(2) by (blast intro: arena_extends_trans)
  have "arena_members a (ag_members ag) = Some (ab_members b)"
    using arena_extends_members [OF p(2)] a1 by (simp add: ag_def aggregate_new_def)
  moreover have "ag_kind ag = ab_kind b \<and> ag_byte_size ag = ab_layout b \<and>
      ag_has_dynamic ag = ab_has_dynamic b \<and> ag_static_members ag = ab_static_members b"
    by (simp add: ag_def aggregate_new_def)
  moreover have "i = length (ta_records (ab_arena b))" using p(4) a1 by simp
  ultimately show ?thesis using p(1,3) ext a1 by (intro conjI exI [of _ ag]) simp_all
qed

theorem aggregate_finish_spec_witness:
  "arena_ok (snd (ab_finish (ab_member ''x'' 0 2
     (aggregate_builder_new (snd (build_scalar None 4 UnsignedEnc HexFormat arena_new)) StructKind))))"
proof -
  define b where "b = ab_member ''x'' 0 2
     (aggregate_builder_new (snd (build_scalar None 4 UnsignedEnc HexFormat arena_new)) StructKind)"
  have "arena_ok (snd (build_scalar None 4 UnsignedEnc HexFormat arena_new))"
    by (rule push_record_ok(1) [OF arena_ok_new])
      (simp_all add: build_scalar_def declare_scalar_def push_record_def record_ok_def)
  then have ok: "arena_ok (ab_arena b)"
    by (auto simp: b_def ab_member_def ab_member_record_def aggregate_builder_new_def
        intro: intern_string_ok(1) split: prod.split)
  obtain i a where f: "ab_finish b = (i, a)" by force
  have "arena_ok a"
    using aggregate_finish_spec [OF ok _ _ f]
    by (simp add: b_def ab_member_def ab_member_record_def aggregate_builder_new_def build_scalar_def
        declare_scalar_def push_record_def arena_new_def intern_string_def pool_intern_def Let_def
        member_new_def)
  then show ?thesis by (simp add: b_def [symmetric] f)
qed

section \<open>What the walker yields\<close>

text \<open>The members of an aggregate, each followed by those of its own type, with the bit offset from
  the root.\<close>

function layout_members :: "type_arena \<Rightarrow> type_id \<Rightarrow> u32 \<Rightarrow> resolved_member list" where
  "layout_members a ty base =
     (case arena_get a ty of
        Some (AggregateRec ag) \<Rightarrow>
          (case arena_members a (ag_members ag) of
             None \<Rightarrow> []
           | Some ms \<Rightarrow>
               concat (map (\<lambda>m. \<lparr>rm_record = m, rm_offset = base + mr_offset_bits m\<rparr> #
                   (if mr_ty m < ty then layout_members a (mr_ty m) (base + mr_offset_bits m) else []))
                 ms))
      | _ \<Rightarrow> [])"
  by pat_completeness auto
termination
  by (relation "measure (\<lambda>(a, ty, b). ty)") auto

declare layout_members.simps [simp del]

definition expand :: "type_arena \<Rightarrow> u32 \<Rightarrow> member_record \<Rightarrow> resolved_member list" where
  "expand a base m = \<lparr>rm_record = m, rm_offset = base + mr_offset_bits m\<rparr> #
     layout_members a (mr_ty m) (base + mr_offset_bits m)"

definition frame_members :: "type_arena \<Rightarrow> cursor_frame \<Rightarrow> resolved_member list" where
  "frame_members a f = concat (map (expand a (cf_base f)) (drop (cf_index f) (cf_members f)))"

definition frame_ok :: "type_arena \<Rightarrow> cursor_frame \<Rightarrow> bool" where
  "frame_ok a f \<longleftrightarrow> (\<forall>m \<in> set (cf_members f). mr_ty m < length (ta_records a))"

lemma push_type_members:
  assumes "arena_ok a" and "ty < length (ta_records a)" and "\<forall>f \<in> set st. frame_ok a f"
  shows "\<exists>st'. push_type a ty base st = Some st' \<and> (\<forall>f \<in> set st'. frame_ok a f) \<and>
    concat (map (frame_members a) st') = layout_members a ty base @ concat (map (frame_members a) st)"
proof -
  define r where "r = ta_records a ! ty"
  have r: "arena_get a ty = Some r" "record_ok a ty r"
    using assms(1,2) by (simp_all add: arena_get_def r_def arena_ok_def)
  show ?thesis
  proof (cases r)
    case (AggregateRec ag)
    then obtain ms where ms: "arena_members a (ag_members ag) = Some ms"
      and lt: "\<And>m. m \<in> set ms \<Longrightarrow> mr_ty m < ty"
      using r(2) by (auto simp: record_ok_def list_all_iff split: option.splits)
    have "layout_members a ty base = concat (map (expand a base) ms)"
      using r(1) AggregateRec ms lt
      by (simp add: layout_members.simps [of a ty] expand_def cong: map_cong)
    then show ?thesis
      using r(1) AggregateRec ms lt assms(2,3)
      by (force simp: push_type_def frame_members_def frame_ok_def)
  qed (use r assms(3) in \<open>simp_all add: push_type_def layout_members.simps [of a ty]\<close>)
qed

lemma cursor_next_members:
  assumes "arena_ok a" and "\<forall>f \<in> set st. frame_ok a f"
  shows "\<exists>st'. cursor_next a st =
      Some (case concat (map (frame_members a) st) of [] \<Rightarrow> (None, []) | m # ms \<Rightarrow> (Some m, st')) \<and>
    (\<forall>f \<in> set st'. frame_ok a f) \<and>
    concat (map (frame_members a) st') = tl (concat (map (frame_members a) st))"
  using assms(2)
proof (induction st)
  case Nil
  then show ?case by (intro exI [of _ "[]"]) simp
next
  case (Cons f fs)
  show ?case
  proof (cases "length (cf_members f) \<le> cf_index f")
    case True
    then show ?thesis using Cons by (simp add: frame_members_def)
  next
    case False
    define m where "m = cf_members f ! cf_index f"
    define f' where "f' = f\<lparr>cf_index := cf_index f + 1\<rparr>"
    have d: "drop (cf_index f) (cf_members f) = m # drop (Suc (cf_index f)) (cf_members f)"
      using False by (simp add: m_def Cons_nth_drop_Suc)
    have ty: "mr_ty m < length (ta_records a)" and f': "frame_ok a f'"
      using Cons.prems False by (auto simp: frame_ok_def m_def f'_def)
    have fs': "\<forall>f \<in> set (f' # fs). frame_ok a f" using Cons.prems f' by simp
    obtain st' where st': "push_type a (mr_ty m) (cf_base f + mr_offset_bits m) (f' # fs) = Some st'"
      "\<forall>f \<in> set st'. frame_ok a f"
      "concat (map (frame_members a) st') = layout_members a (mr_ty m) (cf_base f + mr_offset_bits m)
         @ concat (map (frame_members a) (f' # fs))"
      using push_type_members [OF assms(1) ty fs'] by blast
    have "frame_members a f = expand a (cf_base f) m @ frame_members a f'"
      by (simp add: frame_members_def d f'_def)
    then show ?thesis
      using False st' by (intro exI [of _ st']) (simp add: m_def f'_def expand_def Let_def)
  qed
qed

lemma drain_members:
  assumes "arena_ok a" and "\<forall>f \<in> set st. frame_ok a f"
    and "length (concat (map (frame_members a) st)) < n"
  shows "drain n a st = Some (concat (map (frame_members a) st))"
  using assms(2,3)
proof (induction n arbitrary: st)
  case (Suc n)
  then obtain st' where st': "cursor_next a st =
      Some (case concat (map (frame_members a) st) of [] \<Rightarrow> (None, []) | m # ms \<Rightarrow> (Some m, st'))"
    "\<forall>f \<in> set st'. frame_ok a f"
    "concat (map (frame_members a) st') = tl (concat (map (frame_members a) st))"
    using cursor_next_members [OF assms(1)] by blast
  then show ?case
    using Suc.IH [OF st'(2)] Suc.prems(2)
    by (cases "concat (map (frame_members a) st)") auto
qed simp

text \<open>C31: In a well-formed arena, iterating a \<open>MemberCursor\<close> from any declared type ends and yields
  exactly the members of the type in declaration order, each followed by the members of its own
  type, with the bit offset accumulated from the root.\<close>
theorem member_cursor_lists_members:
  assumes "arena_ok a" and "root < length (ta_records a)"
    and "length (layout_members a root 0) < n"
  shows "Option.bind (member_cursor a root) (drain n a) = Some (layout_members a root 0)"
proof -
  obtain st where st: "member_cursor a root = Some st" "\<forall>f \<in> set st. frame_ok a f"
    "concat (map (frame_members a) st) = layout_members a root 0"
    using push_type_members [OF assms(1,2), of "[]" 0] by (auto simp: member_cursor_def)
  show ?thesis
    using drain_members [OF assms(1) st(2), of n] assms(3) st(1,3) by simp
qed

text \<open>An arena with a four-byte scalar and a structure of one such member.\<close>

definition demo_arena :: type_arena where
  "demo_arena =
     \<lparr>ta_records =
        [ScalarRec \<lparr>st_name = None, st_byte_size = 4, st_encoding = UnsignedEnc, st_display = HexFormat\<rparr>,
         AggregateRec (aggregate_new StructKind \<lparr>ms_start = 0, ms_len = 1\<rparr>
           \<lparr>ls_bytes = 8, ls_trailing_bits = 0\<rparr>)],
      ta_members = [member_new None 0 32],
      ta_strings = \<lparr>sp_values = [], sp_lookup = (\<lambda>s. None)\<rparr>\<rparr>"

lemma demo_arena_ok: "arena_ok demo_arena"
  by (auto simp: arena_ok_def demo_arena_def pool_ok_def record_ok_def arena_members_def
      aggregate_new_def member_new_def less_Suc_eq)

theorem member_cursor_lists_members_witness:
  "Option.bind (member_cursor demo_arena 1) (drain 2 demo_arena)
     = Some [\<lparr>rm_record = member_new None 0 32, rm_offset = 32\<rparr>]"
proof -
  have l: "layout_members demo_arena 1 0 = [\<lparr>rm_record = member_new None 0 32, rm_offset = 32\<rparr>]"
    by (simp add: layout_members.simps demo_arena_def arena_get_def arena_members_def
        aggregate_new_def member_new_def)
  have declared: "1 < length (ta_records demo_arena)" by (simp add: demo_arena_def)
  show ?thesis
    using member_cursor_lists_members [OF demo_arena_ok declared, of 2] unfolding l by simp
qed

end
