(* ===== verification/SymbolTable.thy ===== *)
theory SymbolTable
  imports TypeLayout Endian
begin

text \<open>
  The symbol table (\<open>src/soc/prog/symbols/\<close>): symbol records with their provenance, the dense table
  with its label and identifier indices, the fluent builder and the filtering query.  A handle or
  label identifier is the index it wraps; a \<open>SymbolId\<close> is a non-zero \<open>u64\<close>.
\<close>

unbundle bit_operations_syntax

type_synonym label_id = nat
type_synonym symbol_handle = nat
type_synonym symbol_id = u64

section \<open>Provenance\<close>

text \<open>The bit flags \<open>SymbolSource\<close>, \<open>StorageClass\<close> and \<open>ToolFlags\<close> are their bit patterns.\<close>

type_synonym symbol_source = u32
type_synonym storage_class = u16
type_synonym tool_flags = u16

definition storage_metadata :: storage_class where
  "storage_metadata = 4"

definition flag_calibratable :: tool_flags where
  "flag_calibratable = 1"

datatype source_trust = UnknownTrust | Trusted | Suspicious

record symbol_provenance =
  prov_sources :: symbol_source
  prov_trust :: source_trust

definition from_source :: "symbol_source \<Rightarrow> symbol_provenance" where
  "from_source s = \<lparr>prov_sources = s, prov_trust = UnknownTrust\<rparr>"

definition with_trust :: "symbol_provenance \<Rightarrow> source_trust \<Rightarrow> symbol_provenance" where
  "with_trust p t = p\<lparr>prov_trust := t\<rparr>"

fun merge_trust :: "source_trust \<Rightarrow> source_trust \<Rightarrow> source_trust" where
  "merge_trust Suspicious t = Suspicious"
| "merge_trust t Suspicious = Suspicious"
| "merge_trust Trusted Trusted = Trusted"
| "merge_trust Trusted UnknownTrust = Trusted"
| "merge_trust UnknownTrust Trusted = Trusted"
| "merge_trust UnknownTrust UnknownTrust = UnknownTrust"

definition merge_provenance :: "symbol_provenance \<Rightarrow> symbol_provenance \<Rightarrow> symbol_provenance" where
  "merge_provenance p q =
     \<lparr>prov_sources = prov_sources p OR prov_sources q,
      prov_trust = merge_trust (prov_trust p) (prov_trust q)\<rparr>"

section \<open>Symbol records\<close>

datatype symbol_state = Declared | Defined | Imported
datatype symbol_kind = ObjectSymbol | FunctionSymbol | SectionSymbol | MetadataSymbol
datatype symbol_binding = LocalBinding | GlobalBinding | WeakBinding
datatype symbol_visibility = DefaultVisibility | HiddenVisibility | ProtectedVisibility

record symbol_info =
  si_description :: "label_id option"
  si_units :: "label_id option"
  si_tool_flags :: tool_flags
  si_index_table :: "u32 option"

definition symbol_info_default :: symbol_info where
  "symbol_info_default =
     \<lparr>si_description = None, si_units = None, si_tool_flags = 0, si_index_table = None\<rparr>"

definition calibratable :: "u32 \<Rightarrow> symbol_info" where
  "calibratable index_table =
     symbol_info_default\<lparr>si_index_table := Some index_table, si_tool_flags := flag_calibratable\<rparr>"

text \<open>What a record and a builder have in common.\<close>

record symbol_fields =
  sym_id :: "symbol_id option"
  sym_type :: "type_id option"
  sym_state :: symbol_state
  sym_binding :: symbol_binding
  sym_visibility :: symbol_visibility
  sym_provenance :: symbol_provenance
  sym_kind :: symbol_kind
  sym_storage :: storage_class
  sym_runtime_addr :: "u64 option"
  sym_file_addr :: "u64 option"
  sym_size :: "u32 option"
  sym_section :: "label_id option"
  sym_info :: symbol_info
  sym_byte_order :: endianness

record symbol_record = symbol_fields +
  sym_label :: label_id

definition symbol_fields_default :: symbol_fields where
  "symbol_fields_default =
     \<lparr>sym_id = None, sym_type = None, sym_state = Declared, sym_binding = LocalBinding,
      sym_visibility = DefaultVisibility,
      sym_provenance = \<lparr>prov_sources = 0, prov_trust = UnknownTrust\<rparr>,
      sym_kind = ObjectSymbol, sym_storage = 0, sym_runtime_addr = None, sym_file_addr = None,
      sym_size = None, sym_section = None, sym_info = symbol_info_default,
      sym_byte_order = Little\<rparr>"

definition symbol_record_new :: "label_id \<Rightarrow> symbol_record" where
  "symbol_record_new label =
     symbol_fields.extend symbol_fields_default (symbol_record.fields label)"

section \<open>The table\<close>

record symbol_table =
  tb_types :: type_arena
  tb_records :: "symbol_record list"
  tb_by_label :: "label_id \<rightharpoonup> symbol_handle list"
  tb_by_symbol_id :: "symbol_id \<rightharpoonup> symbol_handle"
  tb_labels :: string_pool

definition symbol_table_new :: "type_arena \<Rightarrow> symbol_table" where
  "symbol_table_new types =
     \<lparr>tb_types = types, tb_records = [], tb_by_label = (\<lambda>l. None),
      tb_by_symbol_id = (\<lambda>i. None), tb_labels = \<lparr>sp_values = [], sp_lookup = (\<lambda>s. None)\<rparr>\<rparr>"

definition table_get :: "symbol_table \<Rightarrow> symbol_handle \<Rightarrow> symbol_record option" where
  "table_get t h = (if h < length (tb_records t) then Some (tb_records t ! h) else None)"

definition resolve_label :: "symbol_table \<Rightarrow> label_id \<Rightarrow> string option" where
  "resolve_label t l = pool_resolve (tb_labels t) l"

definition handles_by_label :: "symbol_table \<Rightarrow> label_id \<Rightarrow> symbol_handle list option" where
  "handles_by_label t l = tb_by_label t l"

definition lookup_label :: "symbol_table \<Rightarrow> string \<Rightarrow> label_id option" where
  "lookup_label t s = sp_lookup (tb_labels t) s"

definition handle_by_symbol_id :: "symbol_table \<Rightarrow> symbol_id \<Rightarrow> symbol_handle option" where
  "handle_by_symbol_id t i = tb_by_symbol_id t i"

definition intern_label :: "string \<Rightarrow> symbol_table \<Rightarrow> label_id \<times> symbol_table" where
  "intern_label s t =
     (let (i, p) = pool_intern (tb_labels t) s in (i, t\<lparr>tb_labels := p\<rparr>))"

definition commit :: "symbol_record \<Rightarrow> symbol_table \<Rightarrow> symbol_handle \<times> symbol_table" where
  "commit r t =
     (let h = length (tb_records t);
          ids = (case sym_id r of None \<Rightarrow> tb_by_symbol_id t
                 | Some i \<Rightarrow> (tb_by_symbol_id t)(i \<mapsto> h));
          hs = (case tb_by_label t (sym_label r) of None \<Rightarrow> [] | Some hs \<Rightarrow> hs)
      in (h, t\<lparr>tb_by_symbol_id := ids,
              tb_by_label := (tb_by_label t)(sym_label r \<mapsto> hs @ [h]),
              tb_records := tb_records t @ [r]\<rparr>))"

section \<open>The builder\<close>

record symbol_builder = symbol_fields +
  sb_table :: symbol_table
  sb_label :: "label_id option"

definition symbol_builder_new :: "symbol_table \<Rightarrow> symbol_builder" where
  "symbol_builder_new t =
     symbol_fields.extend symbol_fields_default (symbol_builder.fields t None)"

definition sb_intern :: "string \<Rightarrow> symbol_builder \<Rightarrow> label_id \<times> symbol_builder" where
  "sb_intern s b = (let (i, t) = intern_label s (sb_table b) in (i, b\<lparr>sb_table := t\<rparr>))"

definition sb_set_label :: "string \<Rightarrow> symbol_builder \<Rightarrow> symbol_builder" where
  "sb_set_label s b = (let (i, b1) = sb_intern s b in b1\<lparr>sb_label := Some i\<rparr>)"

definition sb_label_id :: "label_id \<Rightarrow> symbol_builder \<Rightarrow> symbol_builder" where
  "sb_label_id l b = b\<lparr>sb_label := Some l\<rparr>"

definition sb_symbol_id :: "symbol_id \<Rightarrow> symbol_builder \<Rightarrow> symbol_builder" where
  "sb_symbol_id i b = b\<lparr>sym_id := Some i\<rparr>"

definition sb_type_id :: "type_id \<Rightarrow> symbol_builder \<Rightarrow> symbol_builder" where
  "sb_type_id i b = b\<lparr>sym_type := Some i\<rparr>"

definition sb_state :: "symbol_state \<Rightarrow> symbol_builder \<Rightarrow> symbol_builder" where
  "sb_state s b = b\<lparr>sym_state := s\<rparr>"

definition sb_binding :: "symbol_binding \<Rightarrow> symbol_builder \<Rightarrow> symbol_builder" where
  "sb_binding s b = b\<lparr>sym_binding := s\<rparr>"

definition sb_visibility :: "symbol_visibility \<Rightarrow> symbol_builder \<Rightarrow> symbol_builder" where
  "sb_visibility s b = b\<lparr>sym_visibility := s\<rparr>"

definition sb_source :: "symbol_source \<Rightarrow> symbol_builder \<Rightarrow> symbol_builder" where
  "sb_source s b =
     b\<lparr>sym_provenance := (sym_provenance b)\<lparr>prov_sources := prov_sources (sym_provenance b) OR s\<rparr>\<rparr>"

definition sb_trust :: "source_trust \<Rightarrow> symbol_builder \<Rightarrow> symbol_builder" where
  "sb_trust t b = b\<lparr>sym_provenance := with_trust (sym_provenance b) t\<rparr>"

definition sb_kind :: "symbol_kind \<Rightarrow> symbol_builder \<Rightarrow> symbol_builder" where
  "sb_kind k b = b\<lparr>sym_kind := k\<rparr>"

definition sb_storage :: "storage_class \<Rightarrow> symbol_builder \<Rightarrow> symbol_builder" where
  "sb_storage s b = b\<lparr>sym_storage := s\<rparr>"

definition sb_runtime_addr :: "u64 \<Rightarrow> symbol_builder \<Rightarrow> symbol_builder" where
  "sb_runtime_addr a b = b\<lparr>sym_runtime_addr := Some a\<rparr>"

definition sb_file_addr :: "u64 \<Rightarrow> symbol_builder \<Rightarrow> symbol_builder" where
  "sb_file_addr a b = b\<lparr>sym_file_addr := Some a\<rparr>"

definition sb_size :: "u32 \<Rightarrow> symbol_builder \<Rightarrow> symbol_builder" where
  "sb_size n b = b\<lparr>sym_size := Some n\<rparr>"

definition sb_section :: "string \<Rightarrow> symbol_builder \<Rightarrow> symbol_builder" where
  "sb_section s b = (let (i, b1) = sb_intern s b in b1\<lparr>sym_section := Some i\<rparr>)"

definition sb_description :: "string \<Rightarrow> symbol_builder \<Rightarrow> symbol_builder" where
  "sb_description s b =
     (let (i, b1) = sb_intern s b in b1\<lparr>sym_info := (sym_info b1)\<lparr>si_description := Some i\<rparr>\<rparr>)"

definition sb_units :: "string \<Rightarrow> symbol_builder \<Rightarrow> symbol_builder" where
  "sb_units s b =
     (let (i, b1) = sb_intern s b in b1\<lparr>sym_info := (sym_info b1)\<lparr>si_units := Some i\<rparr>\<rparr>)"

definition sb_tool_flags :: "tool_flags \<Rightarrow> symbol_builder \<Rightarrow> symbol_builder" where
  "sb_tool_flags f b = b\<lparr>sym_info := (sym_info b)\<lparr>si_tool_flags := f\<rparr>\<rparr>"

definition sb_byte_order :: "endianness \<Rightarrow> symbol_builder \<Rightarrow> symbol_builder" where
  "sb_byte_order ord b = b\<lparr>sym_byte_order := ord\<rparr>"

text \<open>\<open>None\<close> is the panic of a builder without a label.\<close>

definition sb_finish :: "symbol_builder \<Rightarrow> (symbol_handle \<times> symbol_table) option" where
  "sb_finish b =
     (case sb_label b of
        None \<Rightarrow> None
      | Some l \<Rightarrow>
          Some (commit (symbol_fields.extend (symbol_fields.truncate b) (symbol_record.fields l))
                  (sb_table b)))"

section \<open>Queries\<close>

record symbol_query =
  sq_table :: symbol_table
  sq_binding :: "symbol_binding option"
  sq_label :: "label_id option"
  sq_source :: "symbol_source option"
  sq_runtime_addr :: "u64 option"
  sq_file_addr :: "u64 option"

definition query_new :: "symbol_table \<Rightarrow> symbol_query" where
  "query_new t = \<lparr>sq_table = t, sq_binding = None, sq_label = None, sq_source = None,
     sq_runtime_addr = None, sq_file_addr = None\<rparr>"

definition query_matches :: "symbol_query \<Rightarrow> symbol_record \<Rightarrow> bool" where
  "query_matches q r \<longleftrightarrow>
     (case sq_binding q of None \<Rightarrow> True | Some b \<Rightarrow> sym_binding r = b) \<and>
     (case sq_label q of None \<Rightarrow> True | Some l \<Rightarrow> sym_label r = l) \<and>
     (case sq_source q of None \<Rightarrow> True
      | Some s \<Rightarrow> prov_sources (sym_provenance r) AND s = s) \<and>
     (case sq_runtime_addr q of None \<Rightarrow> True | Some a \<Rightarrow> sym_runtime_addr r = Some a) \<and>
     (case sq_file_addr q of None \<Rightarrow> True | Some a \<Rightarrow> sym_file_addr r = Some a)"

text \<open>\<open>SymbolQueryIter::next\<close> from an index: the next matching record and the index after it.\<close>

function query_next ::
    "symbol_query \<Rightarrow> nat \<Rightarrow> (symbol_handle \<times> symbol_record) option \<times> nat" where
  "query_next q i =
     (if length (tb_records (sq_table q)) \<le> i then (None, i)
      else
        (let r = tb_records (sq_table q) ! i
         in if query_matches q r then (Some (i, r), i + 1) else query_next q (i + 1)))"
  by pat_completeness auto
termination
  by (relation "measure (\<lambda>(q, i). length (tb_records (sq_table q)) - i)") auto

declare query_next.simps [simp del]

definition query_first :: "symbol_query \<Rightarrow> (symbol_handle \<times> symbol_record) option" where
  "query_first q = fst (query_next q 0)"

section \<open>The indices are complete\<close>

text \<open>The label index lists exactly the handles of the records with that label, in insertion order;
  the identifier index names the last record committed with an identifier.\<close>

definition handles_of :: "symbol_record list \<Rightarrow> label_id \<Rightarrow> symbol_handle list" where
  "handles_of rs l = filter (\<lambda>h. sym_label (rs ! h) = l) [0..<length rs]"

definition last_with_id :: "symbol_record list \<Rightarrow> symbol_id \<Rightarrow> symbol_handle option" where
  "last_with_id rs i = find (\<lambda>h. sym_id (rs ! h) = Some i) (rev [0..<length rs])"

definition table_ok :: "symbol_table \<Rightarrow> bool" where
  "table_ok t \<longleftrightarrow>
     pool_ok (tb_labels t) \<and>
     (\<forall>l. tb_by_label t l =
        (if handles_of (tb_records t) l = [] then None else Some (handles_of (tb_records t) l))) \<and>
     (\<forall>i. tb_by_symbol_id t i = last_with_id (tb_records t) i)"

lemma table_ok_new: "table_ok (symbol_table_new types)"
  by (simp add: table_ok_def symbol_table_new_def handles_of_def last_with_id_def pool_ok_def)

lemma handles_of_snoc:
  "handles_of (rs @ [r]) l = handles_of rs l @ (if sym_label r = l then [length rs] else [])"
proof -
  have "filter (\<lambda>h. sym_label ((rs @ [r]) ! h) = l) [0..<length rs] = handles_of rs l"
    unfolding handles_of_def by (rule filter_cong) (simp_all add: nth_append)
  then show ?thesis by (simp add: handles_of_def)
qed

lemma last_with_id_snoc:
  "last_with_id (rs @ [r]) i = (if sym_id r = Some i then Some (length rs) else last_with_id rs i)"
proof -
  have "find (\<lambda>h. sym_id ((rs @ [r]) ! h) = Some i) (rev [0..<length rs]) = last_with_id rs i"
    unfolding last_with_id_def by (rule find_cong) (simp_all add: nth_append)
  then show ?thesis by (simp add: last_with_id_def)
qed

lemma commit_ok:
  assumes "table_ok t" and "commit r t = (h, t')"
  shows "table_ok t'" and "table_get t' h = Some r" and "h = length (tb_records t)"
    and "tb_records t' = tb_records t @ [r]" and "tb_labels t' = tb_labels t"
    and "tb_types t' = tb_types t"
  using assms
  by (auto simp: table_ok_def commit_def Let_def table_get_def handles_of_snoc last_with_id_snoc
      split: option.splits if_splits)

lemma intern_label_ok:
  assumes "table_ok t" and "intern_label s t = (l, t')"
  shows "table_ok t'" and "resolve_label t' l = Some s" and "tb_records t' = tb_records t"
    and "tb_types t' = tb_types t"
    and "resolve_label t k = Some u \<Longrightarrow> resolve_label t' k = Some u"
    and "lookup_label t' s = Some l"
proof -
  have p: "pool_ok (tb_labels t)" using assms(1) by (simp add: table_ok_def)
  have t': "t' = t\<lparr>tb_labels := snd (pool_intern (tb_labels t) s)\<rparr>"
    and l: "l = fst (pool_intern (tb_labels t) s)"
    using assms(2) by (auto simp: intern_label_def split: prod.splits)
  show "table_ok t'" using assms(1) intern_ok(1) [OF p] by (simp add: table_ok_def t')
  show "resolve_label t' l = Some s" by (simp add: t' l resolve_label_def intern_ok [OF p])
  show "lookup_label t' s = Some l" by (simp add: t' l lookup_label_def intern_ok [OF p])
  show "resolve_label t k = Some u \<Longrightarrow> resolve_label t' k = Some u"
    by (simp add: t' resolve_label_def intern_ok [OF p])
qed (use assms(2) in \<open>auto simp: intern_label_def split: prod.splits\<close>)

lemma query_next_from:
  assumes "query_next q i = (Some (h, r), j)"
  shows "i \<le> h" and "table_get (sq_table q) h = Some r" and "query_matches q r" and "j = h + 1"
    and "\<forall>k. i \<le> k \<and> k < h \<longrightarrow> \<not> query_matches q (tb_records (sq_table q) ! k)"
proof -
  have "i \<le> h \<and> table_get (sq_table q) h = Some r \<and> query_matches q r \<and> j = h + 1
      \<and> (\<forall>k. i \<le> k \<and> k < h \<longrightarrow> \<not> query_matches q (tb_records (sq_table q) ! k))"
    using assms
  proof (induction q i rule: query_next.induct)
    case (1 q i)
    show ?case
    proof (cases "length (tb_records (sq_table q)) \<le> i")
      case False
      show ?thesis
      proof (cases "query_matches q (tb_records (sq_table q) ! i)")
        case True
        then show ?thesis
          using False "1.prems" by (auto simp: query_next.simps [of q i] table_get_def Let_def)
      next
        case nomatch: False
        then have "query_next q (i + 1) = (Some (h, r), j)"
          using False "1.prems" by (simp add: query_next.simps [of q i] Let_def)
        from "1.IH" [OF False refl nomatch this] nomatch show ?thesis
          by (metis Suc_eq_plus1 Suc_leD Suc_leI le_neq_implies_less)
      qed
    qed (use "1.prems" in \<open>simp add: query_next.simps [of q i]\<close>)
  qed
  then show "i \<le> h" and "table_get (sq_table q) h = Some r" and "query_matches q r" and "j = h + 1"
    and "\<forall>k. i \<le> k \<and> k < h \<longrightarrow> \<not> query_matches q (tb_records (sq_table q) ! k)" by blast+
qed

text \<open>Finishing a labelled builder on a well-formed table appends one record with the builder's
  attributes and returns its handle; the label index then lists exactly the handles that carry each
  label, in insertion order, and the identifier index names the last record committed with each
  identifier (a second symbol with the same identifier takes it over).\<close>
theorem symbol_finish_spec:
  assumes "table_ok (sb_table b)" and "sb_finish b = Some (h, t)"
  shows "table_ok t \<and> h = length (tb_records (sb_table b)) \<and>
    (\<exists>r. table_get t h = Some r \<and> symbol_fields.truncate r = symbol_fields.truncate b \<and>
       sb_label b = Some (sym_label r) \<and>
       handles_by_label t (sym_label r) = Some (handles_of (tb_records (sb_table b)) (sym_label r) @ [h]) \<and>
       (\<forall>i. handle_by_symbol_id t i =
          (if sym_id b = Some i then Some h else handle_by_symbol_id (sb_table b) i)))"
proof -
  obtain l where l: "sb_label b = Some l" using assms(2) by (auto simp: sb_finish_def split: option.splits)
  define r where "r = symbol_fields.extend (symbol_fields.truncate b) (symbol_record.fields l)"
  have c: "commit r (sb_table b) = (h, t)"
    using assms(2) by (simp add: sb_finish_def l r_def)
  note k = commit_ok [OF assms(1) c]
  have r: "symbol_fields.truncate r = symbol_fields.truncate b" "sym_label r = l" "sym_id r = sym_id b"
    by (simp_all add: r_def symbol_fields.defs symbol_record.defs)
  have "handles_by_label t l = Some (handles_of (tb_records (sb_table b)) l @ [h])"
    using k(1,3,4) r(2) by (auto simp: handles_by_label_def table_ok_def handles_of_snoc)
  moreover have "handle_by_symbol_id t i =
      (if sym_id b = Some i then Some h else handle_by_symbol_id (sb_table b) i)" for i
    using k(1,3,4) r(3) assms(1) by (auto simp: handle_by_symbol_id_def table_ok_def last_with_id_snoc)
  ultimately show ?thesis using k(1,2,3) r l by (intro conjI exI [of _ r]) simp_all
qed

theorem symbol_finish_spec_witness:
  "\<exists>h t. sb_finish (sb_set_label ''RPM'' (symbol_builder_new (symbol_table_new arena_new))) = Some (h, t)
     \<and> table_ok t"
proof -
  define b where "b = sb_set_label ''RPM'' (symbol_builder_new (symbol_table_new arena_new))"
  have ok: "table_ok (sb_table b)"
    using intern_label_ok(1) [OF table_ok_new, of "''RPM''" arena_new]
    by (auto simp: b_def sb_set_label_def sb_intern_def symbol_builder_new_def symbol_fields.defs
        symbol_builder.defs symbol_fields_default_def split: prod.splits)
  have "sb_label b \<noteq> None"
    by (simp add: b_def sb_set_label_def split: prod.split)
  then obtain h t where f: "sb_finish b = Some (h, t)"
    by (cases "sb_finish b") (auto simp: sb_finish_def split: option.splits)
  show ?thesis using symbol_finish_spec [OF ok f] f by (simp add: b_def [symmetric])
qed

end
