(* ===== verification/IsaAst.thy ===== *)
theory IsaAst
  imports ProgramParserFacts SymbolTable
begin

text \<open>
  The abstract syntax of \<open>.isa\<close> documents (\<open>src/soc/isa/ast.rs\<close>) and the semantic blocks they carry
  (\<open>src/soc/isa/semantics.rs\<close>): source text compiled to a program on first use.
\<close>

section \<open>Semantic blocks\<close>

datatype binary_operator =
    OperatorAdd | OperatorSub | OperatorAnd | OperatorOr | OperatorXor | OperatorShl | OperatorShr
  | OperatorEq | OperatorNe | OperatorLogicalAnd | OperatorLogicalOr

datatype semantic_expr =
    LiteralExpr u64
  | IdentifierExpr string
  | BitExprExpr string
  | BinaryOpExpr binary_operator semantic_expr semantic_expr

record semantic_block =
  blk_source :: string
  blk_span :: "source_span option"
  blk_compiled :: "semantic_program option"

definition block_with_span :: "string \<Rightarrow> source_span option \<Rightarrow> semantic_block" where
  "block_with_span src span = \<lparr>blk_source = src, blk_span = span, blk_compiled = None\<rparr>"

definition block_new :: "string \<Rightarrow> semantic_block" where
  "block_new src = block_with_span src None"

definition block_empty :: semantic_block where
  "block_empty = block_new []"

text \<open>A \<open>OnceLock\<close> keeps the first program it was given.\<close>

definition set_program :: "semantic_program \<Rightarrow> semantic_block \<Rightarrow> semantic_block" where
  "set_program program b =
     (case blk_compiled b of None \<Rightarrow> b\<lparr>blk_compiled := Some program\<rparr> | Some p \<Rightarrow> b)"

definition decorate_error :: "semantic_block \<Rightarrow> isa_error \<Rightarrow> isa_error" where
  "decorate_error b err =
     (case (err, blk_span b) of
        (Parser message, Some span) \<Rightarrow>
          Diagnostics ParserPhase
            [\<lparr>diag_phase = ParserPhase, diag_level = ErrorLevel, diag_code = ''semantics.syntax'',
              diag_message = message, diag_span = Some span\<rparr>]
      | (other, s) \<Rightarrow> other)"

definition ensure_program :: "semantic_block \<Rightarrow> (isa_error + semantic_program) \<times> semantic_block" where
  "ensure_program b =
     (case blk_compiled b of
        Some p \<Rightarrow> (Inr p, b)
      | None \<Rightarrow>
          (case map_err (decorate_error b) (parse_with_span (blk_source b) (blk_span b)) of
             Inl e \<Rightarrow> (Inl e, b)
           | Inr p \<Rightarrow>
               (let b' = set_program p b
                in (ok_or (blk_compiled b') (Machine ''failed to store compiled program''), b'))))"

text \<open>The program a block stands for, however often it is asked for: \<open>ensure_program\<close> stores what it
  returns, so the evaluation through a shared reference need not thread the block.\<close>

definition block_program :: "semantic_block \<Rightarrow> isa_error + semantic_program" where
  "block_program b = fst (ensure_program b)"

lemma ensure_program_stable:
  assumes "ensure_program b = (r, b')"
  shows "fst (ensure_program b') = r" and "blk_source b' = blk_source b"
    and "blk_span b' = blk_span b"
  using assms
  by (auto simp: ensure_program_def set_program_def decorate_error_def Let_def
      split: option.splits sum.splits)

section \<open>Declarations\<close>

datatype parameter_value = ParamWord string | ParamNumber u64

record parameter_decl =
  pd_name :: string
  pd_value :: parameter_value

datatype space_kind =
    ReadWriteSpace | ReadOnlySpace | MemoryMappedIoSpace | RegisterSpace | LogicSpace

datatype space_attribute =
    AddressBits u32
  | WordSize u32
  | Alignment u32
  | EndiannessAttr endianness

record space_decl =
  sd_name :: string
  sd_kind :: space_kind
  sd_attributes :: "space_attribute list"
  sd_span :: source_span
  sd_enable :: "semantic_expr option"

record field_index_range =
  fr_start :: u32
  fr_end :: u32

record context_reference =
  cr_segments :: "string list"

record sub_field_op =
  so_kind :: string
  so_subtype :: "string option"

record sub_field_decl =
  sf_name :: string
  sf_bit_spec :: string
  sf_operations :: "sub_field_op list"
  sf_description :: "string option"

record field_decl =
  fd_space :: string
  fd_name :: string
  fd_range :: "field_index_range option"
  fd_offset :: "u64 option"
  fd_size :: "u32 option"
  fd_reset :: "u64 option"
  fd_description :: "string option"
  fd_redirect :: "context_reference option"
  fd_subfields :: "sub_field_decl list"
  fd_span :: source_span
  fd_display :: "string option"

record form_decl =
  fm_space :: string
  fm_name :: string
  fm_parent :: "string option"
  fm_description :: "string option"
  fm_display :: "string option"
  fm_subfields :: "sub_field_decl list"
  fm_span :: source_span

datatype mask_selector = SelectField string | SelectBitExpr string

record mask_field =
  mf_selector :: mask_selector
  mf_value :: u64

record mask_spec =
  msk_fields :: "mask_field list"

record instruction_decl =
  id_space :: string
  id_form :: "string option"
  id_name :: string
  id_description :: "string option"
  id_operands :: "string list"
  id_mask :: "mask_spec option"
  id_encoding :: "bitfield_spec option"
  id_semantics :: "semantic_block option"
  id_display :: "string option"
  id_operator :: "string option"
  id_span :: source_span

record macro_decl =
  md_name :: string
  md_parameters :: "string list"
  md_semantics :: semantic_block
  md_span :: source_span

record include_decl =
  inc_path :: string
  inc_optional :: bool

datatype space_member =
    FieldMember field_decl
  | FormMember form_decl
  | InstructionMember instruction_decl

record space_member_decl =
  smd_space :: string
  smd_member :: space_member

datatype isa_item =
    ParameterItem parameter_decl
  | SpaceItem space_decl
  | SpaceMemberItem space_member_decl
  | InstructionItem instruction_decl
  | MacroItem macro_decl
  | IncludeItem include_decl

record isa_specification =
  is_path :: string
  is_items :: "isa_item list"

end
