(* ===== verification/StringMap.thy ===== *)
theory StringMap
  imports Strings "HOL-Library.List_Lexorder" "HOL-Library.Char_ord" "HOL-Library.Product_Lexorder"
begin

text \<open>
  A \<open>BTreeMap\<close> as an association list in the order of its keys; strings are ordered by their bytes,
  lexicographically, and pairs by their components.  Iteration follows the list; a lookup is
  \<open>map_of\<close>.
\<close>

type_synonym 'v string_map = "(string \<times> 'v) list"

fun map_insert :: "'k::linorder \<Rightarrow> 'v \<Rightarrow> ('k \<times> 'v) list \<Rightarrow> ('k \<times> 'v) list" where
  "map_insert k v [] = [(k, v)]"
| "map_insert k v ((k', v') # m) =
     (if k = k' then (k, v) # m
      else if k < k' then (k, v) # (k', v') # m
      else (k', v') # map_insert k v m)"

definition map_ok :: "('k::linorder \<times> 'v) list \<Rightarrow> bool" where
  "map_ok m \<longleftrightarrow> sorted_wrt (<) (map fst m)"

lemma map_ok_Nil [simp]: "map_ok []"
  by (simp add: map_ok_def)

lemma map_ok_Cons [simp]: "map_ok ((k, v) # m) \<longleftrightarrow> (\<forall>k' \<in> fst ` set m. k < k') \<and> map_ok m"
  by (auto simp: map_ok_def)

lemma fst_set_map_insert [simp]: "fst ` set (map_insert k v m) = insert k (fst ` set m)"
  by (induction k v m rule: map_insert.induct) auto

lemma map_ok_insert [simp]: "map_ok m \<Longrightarrow> map_ok (map_insert k v m)"
  by (induction k v m rule: map_insert.induct) (auto dest: less_trans)

lemma map_of_insert [simp]: "map_ok m \<Longrightarrow> map_of (map_insert k v m) = (map_of m)(k \<mapsto> v)"
proof (induction k v m rule: map_insert.induct)
  case (2 k v k' v' m)
  then show ?case
    by (auto simp: fun_eq_iff map_of_eq_None_iff [symmetric])
qed simp

lemma map_ok_distinct: "map_ok m \<Longrightarrow> distinct (map fst m)"
  by (auto simp: map_ok_def strict_sorted_iff)

text \<open>Replacing the values in place, as a loop over \<open>values_mut\<close> does.\<close>

lemma map_ok_map_values [simp]: "map_ok (map (\<lambda>(k, v). (k, f k v)) m) = map_ok m"
  by (simp add: map_ok_def comp_def case_prod_unfold)

end
