(* ===== verification/MachineSpace.thy ===== *)
theory MachineSpace
  imports IsaAst StringMap
begin

text \<open>
  Spaces of a machine (\<open>src/soc/isa/machine/space.rs\<close>), the registers declared in them
  (\<open>src/soc/isa/machine/register.rs\<close>, declarations and display) and the instruction and macro
  records (\<open>instruction.rs\<close>, \<open>macros.rs\<close>).
\<close>

section \<open>Register declarations\<close>

record register_type_handles =
  rh_structure :: type_id
  rh_array :: type_id

record register_info =
  ri_name :: string
  ri_range :: "field_index_range option"
  ri_size_bits :: "u32 option"
  ri_offset :: "u64 option"
  ri_description :: "string option"
  ri_redirect :: "context_reference option"
  ri_subfields :: "sub_field_decl list"
  ri_display :: "string option"
  ri_type_handles :: "register_type_handles option"

definition register_from_decl :: "field_decl \<Rightarrow> register_info" where
  "register_from_decl d =
     \<lparr>ri_name = fd_name d, ri_range = fd_range d, ri_size_bits = fd_size d, ri_offset = fd_offset d,
      ri_description = fd_description d, ri_redirect = fd_redirect d,
      ri_subfields = fd_subfields d, ri_display = fd_display d, ri_type_handles = None\<rparr>"

definition register_with_size :: "string \<Rightarrow> u32 option \<Rightarrow> register_info" where
  "register_with_size name bits =
     \<lparr>ri_name = name, ri_range = None, ri_size_bits = bits, ri_offset = None,
      ri_description = None, ri_redirect = None, ri_subfields = [], ri_display = None,
      ri_type_handles = None\<rparr>"

definition set_type_handles :: "register_type_handles \<Rightarrow> register_info \<Rightarrow> register_info" where
  "set_type_handles h info = info\<lparr>ri_type_handles := Some h\<rparr>"

subsection \<open>Display patterns\<close>

datatype number_format = Decimal | HexLower | HexUpper

text \<open>The optional zero flag and width after a percent sign.\<close>

fun scan_width :: "bool \<Rightarrow> string \<Rightarrow> string \<Rightarrow> bool \<times> string \<times> string" where
  "scan_width zero_pad digits [] = (zero_pad, digits, [])"
| "scan_width zero_pad digits (c # cs) =
     (if c = CHR ''0'' \<and> digits = [] then scan_width True digits cs
      else if is_ascii_digit c then scan_width zero_pad (digits @ [c]) cs
      else (zero_pad, digits, c # cs))"

definition format_number :: "u64 \<Rightarrow> nat option \<Rightarrow> bool \<Rightarrow> number_format \<Rightarrow> string" where
  "format_number v width zero_pad format =
     (let digits =
        (case format of
           Decimal \<Rightarrow> dec (unat v)
         | HexLower \<Rightarrow> lower_hex (unat v)
         | HexUpper \<Rightarrow> upper_hex (unat v))
      in case width of
           None \<Rightarrow> digits
         | Some w \<Rightarrow> pad_left (if zero_pad then CHR ''0'' else CHR '' '') w digits)"

text \<open>\<open>width_digits.parse::<usize>().ok()\<close>.\<close>

definition parse_width_digits :: "string \<Rightarrow> nat option" where
  "parse_width_digits digits =
     (if digits = [] then None
      else map_option unat (from_str_radix 10 digits :: u64 option))"

definition next_display_fragment :: "string \<Rightarrow> u64 \<Rightarrow> string option \<times> string" where
  "next_display_fragment cs v =
     (let (zero_pad, digits, rest) = scan_width False [] cs;
          width = parse_width_digits digits
      in case rest of
           [] \<Rightarrow> (None, [])
         | c # cs' \<Rightarrow>
             (Some
                (if c = CHR ''d'' \<or> c = CHR ''u'' then format_number v width zero_pad Decimal
                 else if c = CHR ''x'' then format_number v width zero_pad HexLower
                 else if c = CHR ''X'' then format_number v width zero_pad HexUpper
                 else if c = CHR ''%'' then ''%''
                 else ''%'' @ (if zero_pad then ''0'' else [])
                   @ (case width of None \<Rightarrow> [] | Some w \<Rightarrow> dec w) @ [c]), cs'))"

lemma length_scan_width:
  "scan_width z ds cs = (z', ds', rest) \<Longrightarrow> length rest \<le> length cs"
  by (induction z ds cs rule: scan_width.induct) (auto split: if_splits)

lemma length_display_fragment: "length (snd (next_display_fragment cs v)) \<le> length cs"
  by (auto simp: next_display_fragment_def Let_def split: prod.split list.split
      dest!: length_scan_width)

function format_register_display :: "string \<Rightarrow> u64 \<Rightarrow> string" where
  "format_register_display pattern v =
     (case pattern of
        [] \<Rightarrow> []
      | c # cs \<Rightarrow>
          if c \<noteq> CHR ''%'' then c # format_register_display cs v
          else if take 1 cs = ''%'' then CHR ''%'' # format_register_display (tl cs) v
          else
            (case fst (next_display_fragment cs v) of
               Some fragment \<Rightarrow> fragment
             | None \<Rightarrow> ''%'') @ format_register_display (snd (next_display_fragment cs v)) v)"
  by pat_completeness auto
termination
  by (relation "measure (\<lambda>(p, v). length p)")
    (auto simp: length_display_fragment le_imp_less_Suc less_Suc_eq_le)

declare format_register_display.simps [simp del]

definition register_format :: "register_info \<Rightarrow> u64 \<Rightarrow> string" where
  "register_format info v =
     (case ri_display info of
        Some pattern \<Rightarrow> format_register_display pattern v
      | None \<Rightarrow> (if ri_range info \<noteq> None then ri_name info @ dec (unat v) else ri_name info))"

subsection \<open>Register bindings of subfields\<close>

record register_binding =
  rb_space :: string
  rb_field :: string

definition parse_context_style_register :: "sub_field_op \<Rightarrow> register_binding option" where
  "parse_context_style_register op =
     (if \<not> prefix ''$'' (so_kind op) then None
      else
        case split_two ''::'' (so_kind op) of
          (first, None) \<Rightarrow> None
        | (first, Some field) \<Rightarrow>
            (let space = dropWhile (\<lambda>c. c = CHR ''$'') first
             in if space = [] \<or> field = [] then None
                else Some \<lparr>rb_space = space, rb_field = field\<rparr>))"

definition parse_register_op :: "sub_field_op \<Rightarrow> register_binding option" where
  "parse_register_op op =
     (case parse_context_style_register op of
        Some b \<Rightarrow> Some b
      | None \<Rightarrow>
          if eq_ignore_ascii_case (so_kind op) ''reg'' then
            map_option (\<lambda>field. \<lparr>rb_space = ''reg'', rb_field = field\<rparr>) (so_subtype op)
          else None)"

fun derive_register_binding :: "sub_field_op list \<Rightarrow> register_binding option" where
  "derive_register_binding [] = None"
| "derive_register_binding (op # ops) =
     (case parse_register_op op of Some b \<Rightarrow> Some b | None \<Rightarrow> derive_register_binding ops)"

section \<open>Bit specifications of form fields\<close>

definition bitfield_error_text :: "bitfield_error \<Rightarrow> string" where
  "bitfield_error_text e =
     (case e of
        EmptySpec \<Rightarrow> ''bitfield spec is empty''
      | InvalidToken tok \<Rightarrow> fmt ''invalid token {} in bitfield spec'' [quoted tok]
      | InvalidNumber tok \<Rightarrow> fmt ''invalid number {} in bitfield spec'' [quoted tok]
      | InvalidLiteral tok \<Rightarrow> fmt ''invalid literal {} in bitfield spec'' [quoted tok]
      | LiteralTooWide w \<Rightarrow> fmt ''literal width {} exceeds u64'' [dec (unat w)]
      | ZeroWidthSlice \<Rightarrow> ''slice width must be non-zero''
      | SliceTooWide w \<Rightarrow> fmt ''slice width {} exceeds limit'' [dec (unat w)]
      | SliceOutOfRange off w \<Rightarrow>
          fmt ''slice at offset {} width {} exceeds 64-bit container'' [dec (unat off), dec (unat w)]
      | DuplicatePad \<Rightarrow> ''multiple pad directives in bitfield spec''
      | PadExceedsContainer c d \<Rightarrow>
          fmt ''pad directive exceeds container size (container={}, data={})''
            [dec (unat c), dec (unat d)]
      | ContainerTooWide b \<Rightarrow> fmt ''container width {} exceeds supported 64-bit limit'' [dec (unat b)]
      | TotalWidthExceeded b \<Rightarrow>
          fmt ''bitfield total width {} exceeds 64-bit accumulator'' [dec (unat b)]
      | MissingSegments \<Rightarrow> ''bitfield spec does not contain any segments''
      | PadBitsMismatch \<Rightarrow> ''pad bits do not match the requested padding''
      | LiteralMismatch expected actual w \<Rightarrow>
          fmt ''literal segment mismatch: expected {} != provided {} (width {})''
            [hex (unat expected), hex (unat actual), dec (unat w)]
      | ValueTooWide bits whole \<Rightarrow>
          fmt ''value does not fit within {} bits (requires {} bits)''
            [dec (unat whole), dec (unat bits)])"

datatype spec_parse_error = TooWideSpec | SpecError bitfield_error

definition spec_parse_error_text :: "spec_parse_error \<Rightarrow> string" where
  "spec_parse_error_text e =
     (case e of
        TooWideSpec \<Rightarrow> ''bit spec exceeds 64-bit container''
      | SpecError err \<Rightarrow> bitfield_error_text err)"

definition parse_bit_spec :: "u32 \<Rightarrow> string \<Rightarrow> spec_parse_error + bitfield_spec" where
  "parse_bit_spec word_bits spec =
     (if 2 ^ 16 \<le> unat word_bits then Inl TooWideSpec
      else map_err SpecError (from_spec_str 0 (ucast word_bits) spec))"

definition encode_constant :: "bitfield_spec \<Rightarrow> u64 \<Rightarrow> spec_parse_error + (u64 \<times> u64)" where
  "encode_constant spec v =
     (let m = fold (\<lambda>seg acc. case seg of Slice sl \<Rightarrow> acc OR bs_mask sl | Literal l w \<Rightarrow> acc)
                (bf_segments spec) 0
      in rbind (map_err SpecError (bf_write_bits spec 0 v)) (\<lambda>encoded. Inr (m, encoded AND m)))"

definition ensure_byte_aligned :: "u32 \<Rightarrow> string \<Rightarrow> isa_error + nat" where
  "ensure_byte_aligned word_bits instr =
     (if word_bits mod 8 \<noteq> 0 then
        Inl (Machine (fmt ''instruction {} width ({} bits) is not byte-aligned''
               [quoted instr, dec (unat word_bits)]))
      else Inr (unat (word_bits div 8)))"

definition space_mask_for_bits :: "u32 \<Rightarrow> u64" where
  "space_mask_for_bits bits = (if 64 \<le> bits then - 1 else push_bit (unat bits) 1 - 1)"

section \<open>Forms and spaces\<close>

datatype operand_kind = RegisterOperand | ImmediateOperand | OtherOperand

record field_encoding =
  fe_name :: string
  fe_spec :: bitfield_spec
  fe_operations :: "sub_field_op list"
  fe_register :: "register_binding option"
  fe_kind :: operand_kind

definition is_function_only :: "field_encoding \<Rightarrow> bool" where
  "is_function_only f \<longleftrightarrow>
     \<not> (\<exists>op \<in> set (fe_operations f). \<not> eq_ignore_ascii_case (so_kind op) ''func'')"

definition classify_operand_kind :: "register_binding option \<Rightarrow> sub_field_op list \<Rightarrow> operand_kind" where
  "classify_operand_kind register ops =
     (if register \<noteq> None then RegisterOperand
      else if \<exists>op \<in> set ops. prefix ''imm'' (map ascii_lower (so_kind op)) then ImmediateOperand
      else OtherOperand)"

text \<open>The source also tests for \<open>immediate\<close> itself, which starts with \<open>imm\<close>.\<close>

record form_info =
  fi_fields :: "field_encoding list"
  fi_field_index :: "string \<rightharpoonup> nat"
  fi_operand_order :: "string list"
  fi_display :: "string option"

definition form_new :: form_info where
  "form_new = \<lparr>fi_fields = [], fi_field_index = (\<lambda>n. None), fi_operand_order = [],
     fi_display = None\<rparr>"

definition form_contains :: "form_info \<Rightarrow> string \<Rightarrow> bool" where
  "form_contains f name \<longleftrightarrow> fi_field_index f name \<noteq> None"

definition push_field :: "field_encoding \<Rightarrow> form_info \<Rightarrow> form_info" where
  "push_field field f =
     f\<lparr>fi_operand_order :=
          (if is_function_only field then fi_operand_order f
           else fi_operand_order f @ [fe_name field]),
       fi_field_index := (fi_field_index f)(fe_name field \<mapsto> length (fi_fields f)),
       fi_fields := fi_fields f @ [field]\<rparr>"

definition form_subfield :: "form_info \<Rightarrow> string \<Rightarrow> field_encoding option" where
  "form_subfield f name = Option.bind (fi_field_index f name) (nth_opt (fi_fields f))"

record space_info =
  sp_name :: string
  sp_kind :: space_kind
  sp_size_bits :: "u32 option"
  sp_endianness :: endianness
  sp_forms :: "form_info string_map"
  sp_registers :: "register_info string_map"
  sp_enable :: "semantic_expr option"

definition apply_attribute :: "space_attribute \<Rightarrow> u32 option \<times> endianness \<Rightarrow> u32 option \<times> endianness" where
  "apply_attribute attr r =
     (case attr of
        WordSize bits \<Rightarrow> (Some bits, snd r)
      | EndiannessAttr e \<Rightarrow> (fst r, e)
      | AddressBits n \<Rightarrow> r
      | Alignment n \<Rightarrow> r)"

definition space_from_decl :: "space_decl \<Rightarrow> space_info" where
  "space_from_decl d =
     (let (bits, e) = fold apply_attribute (sd_attributes d) (None, Big)
      in \<lparr>sp_name = sd_name d, sp_kind = sd_kind d, sp_size_bits = bits, sp_endianness = e,
          sp_forms = [], sp_registers = [], sp_enable = sd_enable d\<rparr>)"

definition word_bits :: "space_info \<Rightarrow> isa_error + u32" where
  "word_bits s =
     ok_or (sp_size_bits s)
       (Machine (fmt ''logic space {} missing required word size attribute'' [quoted (sp_name s)]))"

text \<open>The loop of \<open>add_form\<close> over the declared subfields.\<close>

fun add_subfields ::
    "string \<Rightarrow> string \<Rightarrow> u32 \<Rightarrow> sub_field_decl list \<Rightarrow> form_info \<Rightarrow> isa_error + form_info" where
  "add_subfields space form bits [] info = Inr info"
| "add_subfields space form bits (sub # subs) info =
     (if form_contains info (sf_name sub) then
        Inl (Machine (fmt ''form {} redeclares subfield {}''
               [quoted (space @ ''::'' @ form), quoted (sf_name sub)]))
      else
        rbind (map_err (\<lambda>err. Machine (fmt ''invalid bit spec {} on field {}: {}''
                  [quoted (sf_bit_spec sub), quoted (space @ ''::'' @ form @ ''::'' @ sf_name sub),
                   spec_parse_error_text err]))
                 (parse_bit_spec bits (sf_bit_spec sub))) (\<lambda>spec.
          let register = derive_register_binding (sf_operations sub)
          in add_subfields space form bits subs
               (push_field \<lparr>fe_name = sf_name sub, fe_spec = spec,
                  fe_operations = sf_operations sub, fe_register = register,
                  fe_kind = classify_operand_kind register (sf_operations sub)\<rparr> info)))"

definition add_form :: "form_decl \<Rightarrow> space_info \<Rightarrow> isa_error + space_info" where
  "add_form form s =
     rbind (word_bits s) (\<lambda>bits.
     rbind (case fm_parent form of
              None \<Rightarrow> Inr form_new
            | Some parent \<Rightarrow>
                ok_or (map_of (sp_forms s) parent)
                  (Machine (fmt ''form {} inherits from undefined form {}''
                     [quoted (fm_name form), quoted (sp_name s @ ''::'' @ parent)]))) (\<lambda>base.
     rbind (add_subfields (sp_name s) (fm_name form) bits (fm_subfields form) base) (\<lambda>info.
       let info' = (case fm_display form of None \<Rightarrow> info | Some t \<Rightarrow> info\<lparr>fi_display := Some t\<rparr>)
       in Inr (s\<lparr>sp_forms := map_insert (fm_name form) info' (sp_forms s)\<rparr>))))"

definition add_register_field :: "field_decl \<Rightarrow> space_info \<Rightarrow> space_info" where
  "add_register_field field s =
     (if sp_kind s \<noteq> RegisterSpace then s
      else
        (let info = register_from_decl field
         in s\<lparr>sp_registers := map_insert (ri_name info) info (sp_registers s)\<rparr>))"

section \<open>Instructions and macros\<close>

record isa_instruction =
  in_space :: string
  in_name :: string
  in_form :: "string option"
  in_description :: "string option"
  in_operands :: "string list"
  in_display :: "string option"
  in_operator :: "string option"
  in_mask :: "mask_field list option"
  in_encoding :: "bitfield_spec option"
  in_semantics :: "semantic_block option"

definition instruction_from_decl :: "instruction_decl \<Rightarrow> isa_instruction" where
  "instruction_from_decl d =
     \<lparr>in_space = id_space d, in_name = id_name d, in_form = id_form d,
      in_description = id_description d, in_operands = id_operands d, in_display = id_display d,
      in_operator = id_operator d, in_mask = map_option msk_fields (id_mask d),
      in_encoding = id_encoding d, in_semantics = id_semantics d\<rparr>"

record macro_info =
  mi_name :: string
  mi_parameters :: "string list"
  mi_semantics :: semantic_block
  mi_span :: source_span

definition macro_from_decl :: "macro_decl \<Rightarrow> macro_info" where
  "macro_from_decl d =
     \<lparr>mi_name = md_name d, mi_parameters = md_parameters d, mi_semantics = md_semantics d,
      mi_span = md_span d\<rparr>"

end
