(* ===== verification/RegisterSchema.thy ===== *)
theory RegisterSchema
  imports MachineSpace
begin

text \<open>
  The register schema (\<open>src/soc/isa/machine/register.rs\<close>): for every register space of a machine,
  the types of its registers in a fresh arena, their symbols, their elements with display labels
  and the bit fields their subfields name.
\<close>

section \<open>Metadata\<close>

record register_field_metadata =
  rf_name :: string
  rf_ty :: type_id

record register_element =
  re_index :: u32
  re_label :: string
  re_symbol :: symbol_handle

record register_metadata =
  rm_space :: string
  rm_name :: string
  rm_description :: "string option"
  rm_bit_width :: u32
  rm_count :: u32
  rm_byte_order :: endianness
  rm_structure :: type_id
  rm_array :: type_id
  rm_symbol :: symbol_handle
  rm_elements :: "register_element list"
  rm_fields :: "register_field_metadata list"

type_synonym register_key = "string \<times> string"

record register_schema =
  rg_types :: type_arena
  rg_table :: symbol_table
  rg_registers :: "(register_key \<times> register_metadata) list"
  rg_alias_fields :: "(register_key \<times> register_field_metadata list) list"

definition schema_empty :: register_schema where
  "schema_empty = \<lparr>rg_types = arena_new, rg_table = symbol_table_new arena_new,
     rg_registers = [], rg_alias_fields = []\<rparr>"

definition schema_lookup :: "register_schema \<Rightarrow> string \<Rightarrow> string \<Rightarrow> register_metadata option" where
  "schema_lookup sc space name = map_of (rg_registers sc) (space, name)"

definition schema_alias_fields ::
    "register_schema \<Rightarrow> string \<Rightarrow> string \<Rightarrow> register_field_metadata list option" where
  "schema_alias_fields sc space name = map_of (rg_alias_fields sc) (space, name)"

fun find_label ::
    "string \<Rightarrow> string \<Rightarrow> (register_key \<times> register_metadata) list \<Rightarrow>
     (register_metadata \<times> register_element) option" where
  "find_label space label [] = None"
| "find_label space label ((key, m) # ms) =
     (if rm_space m \<noteq> space then find_label space label ms
      else
        case find (\<lambda>e. re_label e = label) (rm_elements m) of
          Some e \<Rightarrow> Some (m, e)
        | None \<Rightarrow> find_label space label ms)"

definition find_by_label ::
    "register_schema \<Rightarrow> string \<Rightarrow> string \<Rightarrow> (register_metadata \<times> register_element) option" where
  "find_by_label sc space label = find_label space label (rg_registers sc)"

section \<open>Building the types\<close>

definition default_register_bits :: u32 where
  "default_register_bits = 64"

definition max_register_bits :: u32 where
  "max_register_bits = 64"

definition element_bytes :: "u32 \<Rightarrow> u32" where
  "element_bytes bits = max ((bits + 7) div 8) 1"

definition register_count :: "register_info \<Rightarrow> u32" where
  "register_count info =
     (case ri_range info of Some rng \<Rightarrow> (fr_end rng - fr_start rng) + 1 | None \<Rightarrow> 1)"

text \<open>The elements before they have symbols.\<close>

record pending_element =
  pe_index :: u32
  pe_label :: string

definition range_indices :: "field_index_range \<Rightarrow> u32 list" where
  "range_indices rng = map of_nat [unat (fr_start rng)..<Suc (unat (fr_end rng))]"

definition materialize_elements :: "register_info \<Rightarrow> pending_element list" where
  "materialize_elements info =
     (case ri_range info of
        Some rng \<Rightarrow>
          map (\<lambda>i. \<lparr>pe_index = i, pe_label = register_format info (ucast i)\<rparr>) (range_indices rng)
      | None \<Rightarrow> [\<lparr>pe_index = 0, pe_label = register_format info 0\<rparr>])"

record pending_register =
  pr_key :: register_key
  pr_description :: "string option"
  pr_bit_width :: u32
  pr_count :: u32
  pr_byte_order :: endianness
  pr_structure :: type_id
  pr_array :: type_id
  pr_fields :: "register_field_metadata list"
  pr_elements :: "pending_element list"

text \<open>What the builders thread: the arena and the cache of scalar containers by width.\<close>

record schema_build =
  sc_arena :: type_arena
  sc_cache :: "u32 \<rightharpoonup> type_id"

definition container_for :: "u32 \<Rightarrow> schema_build \<Rightarrow> type_id \<times> schema_build" where
  "container_for bits s =
     (case sc_cache s bits of
        Some i \<Rightarrow> (i, s)
      | None \<Rightarrow>
          (let (i, a) = build_scalar None (element_bytes bits) UnsignedEnc HexFormat (sc_arena s)
           in (i, \<lparr>sc_arena = a, sc_cache = (sc_cache s)(bits \<mapsto> i)\<rparr>)))"

text \<open>One subfield: its specification is parsed, its name interned and its type pushed.\<close>

definition field_member ::
    "string \<Rightarrow> bitfield_spec \<Rightarrow> u32 \<Rightarrow> type_arena \<Rightarrow>
     (register_field_metadata \<times> member_record) \<times> type_arena" where
  "field_member name spec offset a =
     (let (name_id, a1) = intern_string name a;
          (ty, a2) = build_bitfield spec a1
      in ((\<lparr>rf_name = name, rf_ty = ty\<rparr>,
           with_bitfield (member_new (Some name_id) ty offset) (data_width spec)), a2))"

fun build_subfields ::
    "type_id \<Rightarrow> u32 \<Rightarrow> string \<Rightarrow> register_info \<Rightarrow> sub_field_decl list \<Rightarrow> type_arena \<Rightarrow>
     isa_error + ((register_field_metadata list \<times> member_record list) \<times> type_arena)" where
  "build_subfields container bits space info [] a = Inr (([], []), a)"
| "build_subfields container bits space info (sub # subs) a =
     rbind (map_err (\<lambda>err. Machine (fmt ''invalid bit spec {} on register {}: {}''
               [quoted (sf_bit_spec sub),
                quoted (space @ ''::'' @ ri_name info @ ''::'' @ sf_name sub),
                bitfield_error_text err]))
             (from_spec_str container (ucast bits) (sf_bit_spec sub))) (\<lambda>spec.
       let offset = (case bit_span spec of Some (start, e) \<Rightarrow> ucast start | None \<Rightarrow> 0);
           ((f, m), a1) = field_member (sf_name sub) spec offset a
       in rbind (build_subfields container bits space info subs a1) (\<lambda>((fs, ms), a2).
            Inr ((f # fs, m # ms), a2)))"

text \<open>A register without subfields has one field \<open>VALUE\<close> over all its bits; \<open>from_range\<close> panics on
  an empty or oversized range, which \<open>build_register_entry\<close> has excluded.\<close>

definition build_register_fields ::
    "type_id \<Rightarrow> u32 \<Rightarrow> string \<Rightarrow> register_info \<Rightarrow> type_arena \<Rightarrow>
     isa_error + ((register_field_metadata list \<times> member_record list) \<times> type_arena)" where
  "build_register_fields container bits space info a =
     (if ri_subfields info = [] then
        rbind (map_err (\<lambda>err. Machine (bitfield_error_text err)) (from_range container 0 (ucast bits)))
          (\<lambda>spec. let ((f, m), a1) = field_member ''VALUE'' spec 0 a in Inr (([f], [m]), a1))
      else build_subfields container bits space info (ri_subfields info) a)"

definition build_register_entry ::
    "string \<Rightarrow> endianness \<Rightarrow> u32 \<Rightarrow> register_info \<Rightarrow> schema_build \<Rightarrow>
     isa_error + (pending_register \<times> schema_build)" where
  "build_register_entry space byte_order default_bits info s =
     (let bits = (case ri_size_bits info of Some b \<Rightarrow> b | None \<Rightarrow> default_bits);
          shown = quoted (space @ ''::'' @ ri_name info)
      in if bits = 0 then
           Inl (Machine (fmt ''register {} must declare a positive bit width'' [shown]))
         else if max_register_bits < bits then
           Inl (Machine (fmt ''register {} width {} exceeds supported limit of {} bits''
                  [shown, dec (unat bits), dec (unat max_register_bits)]))
         else
           (let (container, s1) = container_for bits s
            in rbind (build_register_fields container bits space info (sc_arena s1))
                 (\<lambda>((fields, members), a1).
                    let b = fold ab_member_record members
                              (ab_set_layout (bits div 8) (ucast (bits mod 8))
                                (aggregate_builder_new a1 StructKind));
                        (structure, a2) = ab_finish b;
                        count = register_count info;
                        (arr, a3) = sequence_static structure (element_bytes bits) count a2
                    in Inr (\<lparr>pr_key = (space, ri_name info), pr_description = ri_description info,
                             pr_bit_width = bits, pr_count = count, pr_byte_order = byte_order,
                             pr_structure = structure, pr_array = arr, pr_fields = fields,
                             pr_elements = materialize_elements info\<rparr>,
                            s1\<lparr>sc_arena := a3\<rparr>))))"

section \<open>Aliases\<close>

text \<open>\<open>resolve_reference_path\<close> (\<open>src/soc/isa/space.rs\<close>): a leading \<open>$space\<close> segment names the space.\<close>

definition resolve_reference_path :: "string \<Rightarrow> context_reference \<Rightarrow> string \<times> string list" where
  "resolve_reference_path current r =
     (case cr_segments r of
        first # rest \<Rightarrow>
          if prefix ''$'' first then (dropWhile (\<lambda>c. c = CHR ''$'') first, rest)
          else (current, cr_segments r)
      | [] \<Rightarrow> (current, []))"

definition register_label_matches :: "register_info \<Rightarrow> field_index_range \<Rightarrow> string \<Rightarrow> bool" where
  "register_label_matches info rng label \<longleftrightarrow>
     list_ex (\<lambda>i. register_format info (ucast i) = label) (range_indices rng)"

definition resolve_register_bit_width ::
    "space_info string_map \<Rightarrow> string \<Rightarrow> string \<Rightarrow> isa_error + u32" where
  "resolve_register_bit_width spaces space_name target =
     rbind (ok_or (map_of spaces space_name)
              (Machine (fmt ''redirect references undefined space {}'' [quoted space_name]))) (\<lambda>s.
       let default_bits = (case sp_size_bits s of Some b \<Rightarrow> b | None \<Rightarrow> default_register_bits);
           bits = (\<lambda>info. case ri_size_bits info of Some b \<Rightarrow> b | None \<Rightarrow> default_bits)
       in case map_of (sp_registers s) target of
            Some info \<Rightarrow> Inr (bits info)
          | None \<Rightarrow>
              (case find (\<lambda>info. case ri_range info of
                             None \<Rightarrow> False
                           | Some rng \<Rightarrow> register_label_matches info rng target)
                      (map snd (sp_registers s)) of
                 Some info \<Rightarrow> Inr (bits info)
               | None \<Rightarrow> Inl (Machine (fmt ''redirect references undefined register {}''
                            [quoted (space_name @ ''::'' @ target)]))))"

fun alias_subfields ::
    "type_id \<Rightarrow> u32 \<Rightarrow> string \<Rightarrow> string \<Rightarrow> sub_field_decl list \<Rightarrow> type_arena \<Rightarrow>
     isa_error + (register_field_metadata list \<times> type_arena)" where
  "alias_subfields container bits space name [] a = Inr ([], a)"
| "alias_subfields container bits space name (sub # subs) a =
     rbind (map_err (\<lambda>err. Machine (fmt ''invalid bit spec {} on alias {}: {}''
               [quoted (sf_bit_spec sub), quoted (space @ ''::'' @ name @ ''::'' @ sf_name sub),
                bitfield_error_text err]))
             (from_spec_str container (ucast bits) (sf_bit_spec sub))) (\<lambda>spec.
       let (ty, a1) = build_bitfield spec a
       in rbind (alias_subfields container bits space name subs a1) (\<lambda>(fs, a2).
            Inr (\<lparr>rf_name = sf_name sub, rf_ty = ty\<rparr> # fs, a2)))"

definition build_alias_fields ::
    "space_info string_map \<Rightarrow> string \<Rightarrow> context_reference \<Rightarrow> register_info \<Rightarrow> schema_build \<Rightarrow>
     isa_error + (register_field_metadata list \<times> schema_build)" where
  "build_alias_fields spaces space reference info s =
     (if ri_subfields info = [] then Inr ([], s)
      else
        (let (target_space, path) = resolve_reference_path space reference;
             shown = quoted (space @ ''::'' @ ri_name info)
         in case path of
              [] \<Rightarrow> Inl (Machine (fmt ''redirect for {} is missing a target register'' [shown]))
            | target # rest \<Rightarrow>
                if rest \<noteq> [] then
                  Inl (Machine (fmt ''redirect for {} cannot reference subfields'' [shown]))
                else
                  rbind (resolve_register_bit_width spaces target_space target) (\<lambda>bits.
                    let (container, s1) = container_for bits s
                    in rbind (alias_subfields container bits space (ri_name info) (ri_subfields info)
                                (sc_arena s1))
                         (\<lambda>(fs, a). Inr (fs, s1\<lparr>sc_arena := a\<rparr>)))))"

section \<open>Committing symbols\<close>

text \<open>\<open>None\<close> of \<open>sb_finish\<close> is the panic of a builder without a label; both builders have one.\<close>

definition finish_labelled :: "symbol_builder \<Rightarrow> isa_error + (symbol_handle \<times> symbol_table)" where
  "finish_labelled b =
     ok_or (sb_finish b) (Machine ''symbol requires a label before finish() can be called'')"

definition commit_element ::
    "pending_register \<Rightarrow> u32 \<Rightarrow> pending_element \<Rightarrow> symbol_table \<Rightarrow>
     isa_error + (register_element \<times> symbol_table)" where
  "commit_element p bytes e t =
     rbind (finish_labelled
              (sb_size bytes (sb_byte_order (pr_byte_order p) (sb_storage storage_metadata
                (sb_kind MetadataSymbol (sb_type_id (pr_structure p)
                  (sb_set_label (pe_label e) (symbol_builder_new t)))))))) (\<lambda>(h, t1).
       Inr (\<lparr>re_index = pe_index e, re_label = pe_label e, re_symbol = h\<rparr>, t1))"

fun commit_elements ::
    "pending_register \<Rightarrow> u32 \<Rightarrow> pending_element list \<Rightarrow> symbol_table \<Rightarrow>
     isa_error + (register_element list \<times> symbol_table)" where
  "commit_elements p bytes [] t = Inr ([], t)"
| "commit_elements p bytes (e # es) t =
     rbind (commit_element p bytes e t) (\<lambda>(x, t1).
     rbind (commit_elements p bytes es t1) (\<lambda>(xs, t2). Inr (x # xs, t2)))"

definition commit_register ::
    "pending_register \<Rightarrow> symbol_table \<Rightarrow> isa_error + (register_metadata \<times> symbol_table)" where
  "commit_register p t =
     (let b = sb_byte_order (pr_byte_order p) (sb_storage storage_metadata
                (sb_kind MetadataSymbol (sb_type_id (pr_array p)
                  (sb_set_label (snd (pr_key p)) (symbol_builder_new t)))));
          b1 = (case pr_description p of None \<Rightarrow> b | Some d \<Rightarrow> sb_description d b);
          bytes = element_bytes (pr_bit_width p)
      in rbind (ok_or (checked_mul bytes (pr_count p)) (Machine ''register byte size overflow''))
           (\<lambda>total_bytes.
         rbind (finish_labelled (sb_size total_bytes b1)) (\<lambda>(h, t1).
         rbind (commit_elements p bytes (pr_elements p) t1) (\<lambda>(elements, t2).
           Inr (\<lparr>rm_space = fst (pr_key p), rm_name = snd (pr_key p),
                 rm_description = pr_description p, rm_bit_width = pr_bit_width p,
                 rm_count = pr_count p, rm_byte_order = pr_byte_order p,
                 rm_structure = pr_structure p, rm_array = pr_array p, rm_symbol = h,
                 rm_elements = elements, rm_fields = pr_fields p\<rparr>, t2)))))"

section \<open>The whole schema\<close>

text \<open>The first pass: the registers of one space in the order of their names, then all spaces.  Each
  register that is not an alias gets its type handles.\<close>

fun build_registers ::
    "string \<Rightarrow> endianness \<Rightarrow> u32 \<Rightarrow> register_info string_map \<Rightarrow> schema_build \<Rightarrow>
     isa_error + ((pending_register list \<times> register_info string_map) \<times> schema_build)" where
  "build_registers space order default_bits [] s = Inr (([], []), s)"
| "build_registers space order default_bits ((name, info) # rs) s =
     (if ri_redirect info \<noteq> None then
        rbind (build_registers space order default_bits rs s) (\<lambda>((ps, rs'), s').
          Inr ((ps, (name, info) # rs'), s'))
      else
        rbind (build_register_entry space order default_bits info s) (\<lambda>(p, s1).
          let info' = set_type_handles \<lparr>rh_structure = pr_structure p, rh_array = pr_array p\<rparr> info
          in rbind (build_registers space order default_bits rs s1) (\<lambda>((ps, rs'), s2).
               Inr ((p # ps, (name, info') # rs'), s2))))"

fun build_spaces ::
    "space_info string_map \<Rightarrow> schema_build \<Rightarrow>
     isa_error + ((pending_register list \<times> space_info string_map) \<times> schema_build)" where
  "build_spaces [] s = Inr (([], []), s)"
| "build_spaces ((name, space) # sps) s =
     (if sp_kind space \<noteq> RegisterSpace then
        rbind (build_spaces sps s) (\<lambda>((ps, sps'), s'). Inr ((ps, (name, space) # sps'), s'))
      else
        (let default_bits = (case sp_size_bits space of Some b \<Rightarrow> b | None \<Rightarrow> default_register_bits)
         in rbind (build_registers name (sp_endianness space) default_bits (sp_registers space) s)
              (\<lambda>((ps, rs), s1).
            rbind (build_spaces sps s1) (\<lambda>((qs, sps'), s2).
              Inr ((ps @ qs, (name, space\<lparr>sp_registers := rs\<rparr>) # sps'), s2)))))"

text \<open>The second pass: the subfields declared on aliases.\<close>

fun alias_registers ::
    "space_info string_map \<Rightarrow> string \<Rightarrow> register_info list \<Rightarrow>
     (register_key \<times> register_field_metadata list) list \<Rightarrow> schema_build \<Rightarrow>
     isa_error + ((register_key \<times> register_field_metadata list) list \<times> schema_build)" where
  "alias_registers spaces space [] acc s = Inr (acc, s)"
| "alias_registers spaces space (info # infos) acc s =
     (case ri_redirect info of
        None \<Rightarrow> alias_registers spaces space infos acc s
      | Some reference \<Rightarrow>
          if ri_subfields info = [] then alias_registers spaces space infos acc s
          else
            rbind (build_alias_fields spaces space reference info s) (\<lambda>(fs, s1).
              alias_registers spaces space infos (map_insert (space, ri_name info) fs acc) s1))"

fun alias_spaces ::
    "space_info string_map \<Rightarrow> space_info string_map \<Rightarrow>
     (register_key \<times> register_field_metadata list) list \<Rightarrow> schema_build \<Rightarrow>
     isa_error + ((register_key \<times> register_field_metadata list) list \<times> schema_build)" where
  "alias_spaces spaces [] acc s = Inr (acc, s)"
| "alias_spaces spaces ((name, space) # sps) acc s =
     (if sp_kind space \<noteq> RegisterSpace then alias_spaces spaces sps acc s
      else
        rbind (alias_registers spaces name (map snd (sp_registers space)) acc s) (\<lambda>(acc1, s1).
          alias_spaces spaces sps acc1 s1))"

fun commit_registers ::
    "pending_register list \<Rightarrow> symbol_table \<Rightarrow> (register_key \<times> register_metadata) list \<Rightarrow>
     isa_error + ((register_key \<times> register_metadata) list \<times> symbol_table)" where
  "commit_registers [] t acc = Inr (acc, t)"
| "commit_registers (p # ps) t acc =
     rbind (commit_register p t) (\<lambda>(m, t1).
       commit_registers ps t1 (map_insert (rm_space m, rm_name m) m acc))"

definition schema_build ::
    "space_info string_map \<Rightarrow> isa_error + (register_schema \<times> space_info string_map)" where
  "schema_build spaces =
     rbind (build_spaces spaces \<lparr>sc_arena = arena_new, sc_cache = (\<lambda>b. None)\<rparr>)
       (\<lambda>((pending, spaces'), s).
     rbind (alias_spaces spaces' spaces' [] s) (\<lambda>(aliases, s1).
       let types = sc_arena s1
       in rbind (commit_registers pending (symbol_table_new types) []) (\<lambda>(registers, table).
            Inr (\<lparr>rg_types = types, rg_table = table, rg_registers = registers,
                  rg_alias_fields = aliases\<rparr>, spaces'))))"

end
