(* ===== verification/MachineDesc.thy ===== *)
theory MachineDesc
  imports RegisterSchema
begin

text \<open>
  The machine description (\<open>src/soc/isa/machine/mod.rs\<close>): instruction patterns and decode spaces, the
  disassembler (\<open>disassembly.rs\<close>) with the display templates (\<open>format.rs\<close>), and the assembler
  (\<open>assembly.rs\<close>).
\<close>

section \<open>The description\<close>

record instruction_pattern =
  ip_instruction_idx :: nat
  ip_space :: string
  ip_form :: "string option"
  ip_mask :: u64
  ip_value :: u64
  ip_operand_names :: "string list"
  ip_display :: "string option"
  ip_operator :: "string option"
  ip_specificity :: u32

datatype enable_expr =
    EnableLiteral u64
  | EnableBool bool
  | EnableBitField bitfield_spec
  | EnableBinary binary_operator enable_expr enable_expr

record logic_decode_space =
  ds_name :: string
  ds_word_bits :: u32
  ds_word_bytes :: nat
  ds_mask :: u64
  ds_endianness :: endianness
  ds_enable :: "enable_expr option"

record machine_description =
  mc_instructions :: "isa_instruction list"
  mc_spaces :: "space_info string_map"
  mc_macros :: "macro_info list"
  mc_parameters :: "parameter_value string_map"
  mc_patterns :: "instruction_pattern list"
  mc_decode_spaces :: "logic_decode_space list"
  mc_schema :: register_schema

definition machine_new :: machine_description where
  "machine_new = \<lparr>mc_instructions = [], mc_spaces = [], mc_macros = [], mc_parameters = [],
     mc_patterns = [], mc_decode_spaces = [], mc_schema = schema_empty\<rparr>"

definition machine_err :: "string \<Rightarrow> string list \<Rightarrow> isa_error" where
  "machine_err template args = Machine (fmt template args)"

text \<open>The operands of an instruction: its own list, or else the operand order of its form.  The
  interpreter and the analyzer each have a copy of this function.\<close>

definition instruction_operands ::
    "machine_description \<Rightarrow> isa_instruction \<Rightarrow> isa_error + string list" where
  "instruction_operands m i =
     (if in_operands i \<noteq> [] then Inr (in_operands i)
      else
        case in_form i of
          None \<Rightarrow> Inr []
        | Some form_name \<Rightarrow>
            rbind (ok_or (map_of (mc_spaces m) (in_space i))
                     (machine_err ''instruction {} references unknown space {}''
                        [quoted (in_space i @ ''::'' @ in_name i), quoted (in_space i)])) (\<lambda>s.
            rbind (ok_or (map_of (sp_forms s) form_name)
                     (machine_err ''instruction {} references unknown form {}''
                        [quoted (in_space i @ ''::'' @ in_name i),
                         quoted (in_space i @ ''::'' @ form_name)])) (\<lambda>form.
              Inr (fi_operand_order form))))"

section \<open>Display\<close>

definition default_display_template :: "string option \<Rightarrow> string list \<Rightarrow> string option" where
  "default_display_template form operands =
     (if form = None \<or> operands = [] then None
      else Some (join '', '' (map (\<lambda>name. ''#'' @ name) operands)))"

definition with_display_override ::
    "string option \<Rightarrow> string option \<Rightarrow> string list \<Rightarrow> instruction_pattern \<Rightarrow> instruction_pattern" where
  "with_display_override instr_display form_display operands p =
     p\<lparr>ip_display :=
        (case instr_display of
           Some d \<Rightarrow> Some d
         | None \<Rightarrow>
             (case form_display of
                Some d \<Rightarrow> Some d
              | None \<Rightarrow> default_display_template (ip_form p) operands))\<rparr>"

definition format_immediate :: "field_encoding \<Rightarrow> u64 \<Rightarrow> string" where
  "format_immediate field v =
     (let w = unat (data_width (fe_spec field));
          bits = (if w = 0 then 1 else w);
          digits = (bits + 3) div 4;
          truncated = (if 64 \<le> bits then v else v AND (push_bit bits 1 - 1))
      in ''0x'' @ pad_left CHR ''0'' digits (upper_hex (unat truncated)))"

definition format_operand :: "machine_description \<Rightarrow> field_encoding \<Rightarrow> u64 \<Rightarrow> string" where
  "format_operand m field v =
     (case fe_register field of
        Some b \<Rightarrow>
          (case Option.bind (map_of (mc_spaces m) (rb_space b))
                  (\<lambda>s. map_of (sp_registers s) (rb_field b)) of
             Some register \<Rightarrow> register_format register v
           | None \<Rightarrow> rb_field b @ dec (unat v))
      | None \<Rightarrow>
          if fe_kind field = ImmediateOperand then format_immediate field v
          else if list_ex (\<lambda>op. eq_ignore_ascii_case (so_kind op) ''reg'') (fe_operations field)
          then ''r'' @ dec (unat v)
          else dec (unat v))"

definition operand_value :: "instruction_pattern \<Rightarrow> string list \<Rightarrow> string \<Rightarrow> string option" where
  "operand_value p operands token = map_of (zip (ip_operand_names p) operands) token"

definition resolve_token ::
    "machine_description \<Rightarrow> form_info \<Rightarrow> instruction_pattern \<Rightarrow> u64 \<Rightarrow> string list \<Rightarrow> string \<Rightarrow>
     string option" where
  "resolve_token m form p bits operands token =
     (if eq_ignore_ascii_case token ''op'' then ip_operator p
      else
        case operand_value p operands token of
          Some v \<Rightarrow> Some v
        | None \<Rightarrow>
            map_option (\<lambda>field. format_operand m field (fst (bf_read_bits (fe_spec field) bits)))
              (form_subfield form token))"

definition ident_char :: "char \<Rightarrow> bool" where
  "ident_char c \<longleftrightarrow> is_ascii_alphanumeric c \<or> c = CHR ''_''"

function render_template :: "(string \<Rightarrow> string option) \<Rightarrow> string \<Rightarrow> string" where
  "render_template resolve template =
     (case template of
        [] \<Rightarrow> []
      | c # cs \<Rightarrow>
          if c \<noteq> CHR ''#'' then c # render_template resolve cs
          else if take 1 cs = ''#'' then CHR ''#'' # render_template resolve (tl cs)
          else
            (let token = takeWhile ident_char cs; rest = dropWhile ident_char cs
             in (if token = [] then ''#''
                 else case resolve token of Some v \<Rightarrow> v | None \<Rightarrow> ''#'' @ token)
                @ render_template resolve rest))"
  by pat_completeness auto
termination
  by (relation "measure (\<lambda>(r, t). length t)")
    (auto simp: le_imp_less_Suc less_Suc_eq_le intro: length_dropWhile_le)

declare render_template.simps [simp del]

definition render_display ::
    "machine_description \<Rightarrow> instruction_pattern \<Rightarrow> u64 \<Rightarrow> string list \<Rightarrow> string option" where
  "render_display m p bits operands =
     Option.bind (ip_display p) (\<lambda>template.
     Option.bind (ip_form p) (\<lambda>form_name.
     Option.bind (map_of (mc_spaces m) (ip_space p)) (\<lambda>s.
     map_option (\<lambda>form. render_template (resolve_token m form p bits operands) template)
       (map_of (sp_forms s) form_name))))"

section \<open>Enable expressions\<close>

definition operator_debug :: "binary_operator \<Rightarrow> string" where
  "operator_debug op =
     (case op of
        OperatorAdd \<Rightarrow> ''Add'' | OperatorSub \<Rightarrow> ''Sub'' | OperatorAnd \<Rightarrow> ''And'' | OperatorOr \<Rightarrow> ''Or''
      | OperatorXor \<Rightarrow> ''Xor'' | OperatorShl \<Rightarrow> ''Shl'' | OperatorShr \<Rightarrow> ''Shr''
      | OperatorEq \<Rightarrow> ''Eq'' | OperatorNe \<Rightarrow> ''Ne'' | OperatorLogicalAnd \<Rightarrow> ''LogicalAnd''
      | OperatorLogicalOr \<Rightarrow> ''LogicalOr'')"

fun compile_enable :: "u32 \<Rightarrow> string \<Rightarrow> semantic_expr \<Rightarrow> isa_error + enable_expr" where
  "compile_enable bits space (LiteralExpr v) = Inr (EnableLiteral v)"
| "compile_enable bits space (IdentifierExpr name) =
     (let lower = map ascii_lower name
      in if lower = ''true'' then Inr (EnableBool True)
         else if lower = ''false'' then Inr (EnableBool False)
         else Inl (machine_err ''identifier {} is not supported in enbl expression for space {}''
                [quoted lower, quoted space]))"
| "compile_enable bits space (BitExprExpr spec) =
     rbind (map_err (\<lambda>err. machine_err ''invalid bit selector {} in enbl expression for space {}: {}''
               [quoted spec, quoted space, spec_parse_error_text err]) (parse_bit_spec bits spec))
       (\<lambda>parsed. Inr (EnableBitField parsed))"
| "compile_enable bits space (BinaryOpExpr op lhs rhs) =
     (if op \<notin> {OperatorEq, OperatorNe, OperatorLogicalAnd, OperatorLogicalOr} then
        Inl (machine_err ''operator {} is not supported in enbl expression for space {}''
               [quoted (operator_debug op), quoted space])
      else
        rbind (compile_enable bits space lhs) (\<lambda>l.
        rbind (compile_enable bits space rhs) (\<lambda>r. Inr (EnableBinary op l r))))"

datatype enable_value = EnableNumber u64 | EnableBoolV bool

fun ev_as_bool :: "enable_value \<Rightarrow> bool" where
  "ev_as_bool (EnableBoolV b) = b"
| "ev_as_bool (EnableNumber n) = (n \<noteq> 0)"

fun ev_as_number :: "enable_value \<Rightarrow> u64" where
  "ev_as_number (EnableNumber n) = n"
| "ev_as_number (EnableBoolV b) = (if b then 1 else 0)"

text \<open>\<open>None\<close> is \<open>unreachable!\<close>: an operator that \<open>compile_enable\<close> has refused.\<close>

fun evaluate_enable :: "enable_expr \<Rightarrow> u64 \<Rightarrow> enable_value option" where
  "evaluate_enable (EnableLiteral v) bits = Some (EnableNumber v)"
| "evaluate_enable (EnableBool b) bits = Some (EnableBoolV b)"
| "evaluate_enable (EnableBitField spec) bits = Some (EnableNumber (fst (bf_read_bits spec bits)))"
| "evaluate_enable (EnableBinary op lhs rhs) bits =
     (if op = OperatorEq \<or> op = OperatorNe then
        Option.bind (evaluate_enable lhs bits) (\<lambda>l.
        map_option (\<lambda>r. EnableBoolV ((ev_as_number l = ev_as_number r) = (op = OperatorEq)))
          (evaluate_enable rhs bits))
      else if op = OperatorLogicalAnd then
        Option.bind (evaluate_enable lhs bits) (\<lambda>l.
          if \<not> ev_as_bool l then Some (EnableBoolV False)
          else map_option (\<lambda>r. EnableBoolV (ev_as_bool r)) (evaluate_enable rhs bits))
      else if op = OperatorLogicalOr then
        Option.bind (evaluate_enable lhs bits) (\<lambda>l.
          if ev_as_bool l then Some (EnableBoolV True)
          else map_option (\<lambda>r. EnableBoolV (ev_as_bool r)) (evaluate_enable rhs bits))
      else None)"

lemma compiled_evaluates:
  "compile_enable n space e = Inr c \<Longrightarrow> \<exists>v. evaluate_enable c bits = Some v"
proof (induction e arbitrary: c)
  case (IdentifierExpr name)
  then show ?case by (auto simp: Let_def split: if_splits)
next
  case (BitExprExpr spec)
  then show ?case by (auto simp: rbind_Inr_iff)
next
  case (BinaryOpExpr op l r)
  then obtain cl cr where c: "c = EnableBinary op cl cr" "compile_enable n space l = Inr cl"
    "compile_enable n space r = Inr cr" and op: "op \<in> {OperatorEq, OperatorNe, OperatorLogicalAnd, OperatorLogicalOr}"
    by (auto simp: rbind_Inr_iff split: if_splits)
  obtain vl vr where "evaluate_enable cl bits = Some vl" "evaluate_enable cr bits = Some vr"
    using BinaryOpExpr.IH c by metis
  then show ?case using op by (auto simp: c(1))
qed auto

end
