(* ===== verification/MachineDecode.thy ===== *)
theory MachineDecode
  imports MachineDesc
begin

text \<open>
  Instruction patterns, decode spaces and the disassembler
  (\<open>src/soc/isa/machine/disassembly.rs\<close>), and the assembler (\<open>assembly.rs\<close>).
\<close>

section \<open>Patterns\<close>

definition resolve_form_field ::
    "isa_instruction \<Rightarrow> space_info \<Rightarrow> string \<Rightarrow> isa_error + bitfield_spec" where
  "resolve_form_field instr space name =
     rbind (ok_or (in_form instr) (machine_err ''instruction {} uses mask field {} without a form''
               [quoted (in_name instr), quoted name])) (\<lambda>form_name.
     rbind (ok_or (map_of (sp_forms space) form_name)
              (machine_err ''instruction {} references undefined form {}''
                 [quoted (in_name instr), quoted (sp_name space @ ''::'' @ form_name)])) (\<lambda>form.
     ok_or (map_option fe_spec (form_subfield form name))
       (machine_err ''instruction {} references unknown field {} on form {}''
          [quoted (in_name instr), quoted name, quoted (sp_name space @ ''::'' @ form_name)])))"

text \<open>The bits one mask field of an instruction selects and the value it puts there.\<close>

definition mask_field_bits ::
    "string \<Rightarrow> isa_instruction \<Rightarrow> space_info \<Rightarrow> u32 \<Rightarrow> mask_field \<Rightarrow> isa_error + (u64 \<times> u64)" where
  "mask_field_bits template instr space bits field =
     rbind (case mf_selector field of
              SelectField name \<Rightarrow> resolve_form_field instr space name
            | SelectBitExpr e \<Rightarrow>
                map_err (\<lambda>err. machine_err template
                    [quoted e, quoted (in_name instr), spec_parse_error_text err])
                  (parse_bit_spec bits e)) (\<lambda>spec.
     map_err (\<lambda>err. machine_err ''mask literal for instruction {} does not fit: {}''
         [quoted (in_name instr), spec_parse_error_text err])
       (encode_constant spec (mf_value field)))"

text \<open>The loop of \<open>build_pattern\<close> over the mask fields; a conflict with earlier fields is only
  reported on standard error.\<close>

fun pattern_bits ::
    "isa_instruction \<Rightarrow> space_info \<Rightarrow> u32 \<Rightarrow> mask_field list \<Rightarrow> u64 \<times> u64 \<Rightarrow>
     isa_error + (u64 \<times> u64)" where
  "pattern_bits instr space bits [] acc = Inr acc"
| "pattern_bits instr space bits (f # fs) (m, v) =
     rbind (mask_field_bits ''invalid bit expression {} in instruction {}: {}'' instr space bits f)
       (\<lambda>(field_mask, encoded).
          pattern_bits instr space bits fs
            (m OR field_mask, (v AND NOT field_mask) OR encoded))"

definition count_ones :: "u64 \<Rightarrow> nat" where
  "count_ones w = length (filter (bit w) [0..<64])"

definition instruction_form :: "isa_instruction \<Rightarrow> space_info \<Rightarrow> form_info option" where
  "instruction_form instr space = Option.bind (in_form instr) (map_of (sp_forms space))"

definition build_pattern ::
    "machine_description \<Rightarrow> nat \<Rightarrow> isa_instruction \<Rightarrow> isa_error + instruction_pattern option" where
  "build_pattern m idx instr =
     (case in_mask instr of
        None \<Rightarrow> Inr None
      | Some mask_fields \<Rightarrow>
          rbind (ok_or (map_of (mc_spaces m) (in_space instr))
                   (machine_err ''instruction {} references unknown space {}''
                      [quoted (in_name instr), quoted (in_space instr)])) (\<lambda>space.
          if sp_kind space \<noteq> LogicSpace then Inr None
          else
            rbind (word_bits space) (\<lambda>bits.
            rbind (ensure_byte_aligned bits (in_name instr)) (\<lambda>n.
            rbind (pattern_bits instr space bits mask_fields (0, 0)) (\<lambda>(mask, v).
              let form = instruction_form instr space;
                  names = (if in_operands instr \<noteq> [] then in_operands instr
                           else case form of Some f \<Rightarrow> fi_operand_order f | None \<Rightarrow> []);
                  form_display = Option.bind form fi_display
              in Inr (Some (with_display_override (in_display instr) form_display names
                   \<lparr>ip_instruction_idx = idx, ip_space = in_space instr, ip_form = in_form instr,
                    ip_mask = mask, ip_value = v, ip_operand_names = names, ip_display = None,
                    ip_operator = in_operator instr,
                    ip_specificity = of_nat (count_ones mask)\<rparr>)))))))"

fun build_patterns_from ::
    "machine_description \<Rightarrow> nat \<Rightarrow> isa_instruction list \<Rightarrow> isa_error + instruction_pattern list" where
  "build_patterns_from m idx [] = Inr []"
| "build_patterns_from m idx (instr # instrs) =
     (if in_mask instr = None then build_patterns_from m (idx + 1) instrs
      else
        rbind (build_pattern m idx instr) (\<lambda>p.
        rbind (build_patterns_from m (idx + 1) instrs) (\<lambda>ps.
          Inr (case p of None \<Rightarrow> ps | Some x \<Rightarrow> x # ps))))"

definition build_patterns :: "machine_description \<Rightarrow> isa_error + machine_description" where
  "build_patterns m =
     rbind (build_patterns_from m 0 (mc_instructions m)) (\<lambda>ps. Inr (m\<lparr>mc_patterns := ps\<rparr>))"

section \<open>Decode spaces\<close>

definition decode_space_of :: "space_info \<Rightarrow> isa_error + logic_decode_space" where
  "decode_space_of info =
     rbind (word_bits info) (\<lambda>bits.
     rbind (ensure_byte_aligned bits (sp_name info)) (\<lambda>bytes.
     rbind (case sp_enable info of
              None \<Rightarrow> Inr None
            | Some e \<Rightarrow> rbind (compile_enable bits (sp_name info) e) (\<lambda>c. Inr (Some c))) (\<lambda>enable.
       Inr \<lparr>ds_name = sp_name info, ds_word_bits = bits, ds_word_bytes = bytes,
            ds_mask = space_mask_for_bits bits, ds_endianness = sp_endianness info,
            ds_enable = enable\<rparr>)))"

fun collect_decode_spaces :: "space_info list \<Rightarrow> isa_error + logic_decode_space list" where
  "collect_decode_spaces [] = Inr []"
| "collect_decode_spaces (info # infos) =
     (if sp_kind info \<noteq> LogicSpace then collect_decode_spaces infos
      else
        rbind (decode_space_of info) (\<lambda>d.
        rbind (collect_decode_spaces infos) (\<lambda>ds. Inr (d # ds))))"

definition build_decode_spaces :: "machine_description \<Rightarrow> isa_error + machine_description" where
  "build_decode_spaces m =
     rbind (collect_decode_spaces (map snd (mc_spaces m))) (\<lambda>ds.
       Inr (m\<lparr>mc_decode_spaces := sort_key (\<lambda>d. (ds_word_bits d, ds_name d)) ds\<rparr>))"

section \<open>Decoding words\<close>

definition decode_word :: "u8 list \<Rightarrow> endianness \<Rightarrow> u64" where
  "decode_word bytes e =
     (case e of
        Little \<Rightarrow> fold (\<lambda>(idx, b) acc. acc OR shl (ucast b) (idx * 8)) (List.enumerate 0 bytes) 0
      | Big \<Rightarrow> fold (\<lambda>b acc. shl acc 8 OR ucast b) bytes 0)"

definition write_word :: "u64 \<Rightarrow> nat \<Rightarrow> endianness \<Rightarrow> u8 list" where
  "write_word bits width e =
     (case e of
        Little \<Rightarrow> map (\<lambda>idx. ucast (shr bits (8 * idx) AND 0xFF)) [0..<width]
      | Big \<Rightarrow> map (\<lambda>idx. ucast (shr bits (8 * (width - 1 - idx)) AND 0xFF)) [0..<width])"

text \<open>The bits of the word at the front of the bytes, as a decode space reads them.\<close>

definition space_bits :: "logic_decode_space \<Rightarrow> u8 list \<Rightarrow> u64" where
  "space_bits s bytes = decode_word (take (ds_word_bytes s) bytes) (ds_endianness s) AND ds_mask s"

definition space_selected :: "u8 list \<Rightarrow> logic_decode_space \<Rightarrow> bool" where
  "space_selected bytes s \<longleftrightarrow>
     ds_word_bytes s \<le> length bytes \<and>
     (case ds_enable s of
        None \<Rightarrow> True
      | Some e \<Rightarrow>
          (case evaluate_enable e (space_bits s bytes) of None \<Rightarrow> False | Some v \<Rightarrow> ev_as_bool v))"

definition select_space :: "machine_description \<Rightarrow> u8 list \<Rightarrow> logic_decode_space option" where
  "select_space m bytes = find (space_selected bytes) (mc_decode_spaces m)"

text \<open>\<open>max_by_key\<close>: the last of the elements with the greatest key.\<close>

fun max_by_key :: "('a \<Rightarrow> 'b::linorder) \<Rightarrow> 'a list \<Rightarrow> 'a option" where
  "max_by_key key [] = None"
| "max_by_key key (x # xs) =
     (case max_by_key key xs of
        None \<Rightarrow> Some x
      | Some y \<Rightarrow> if key y < key x then Some x else Some y)"

definition pattern_matches :: "string \<Rightarrow> u64 \<Rightarrow> instruction_pattern \<Rightarrow> bool" where
  "pattern_matches space bits p \<longleftrightarrow> ip_space p = space \<and> bits AND ip_mask p = ip_value p"

definition best_match :: "machine_description \<Rightarrow> string \<Rightarrow> u64 \<Rightarrow> instruction_pattern option" where
  "best_match m space bits =
     max_by_key ip_specificity (filter (pattern_matches space bits) (mc_patterns m))"

section \<open>Disassembly\<close>

record disassembly =
  da_address :: u64
  da_opcode :: u64
  da_mnemonic :: string
  da_operands :: "string list"
  da_display :: "string option"

definition decode_operands :: "machine_description \<Rightarrow> instruction_pattern \<Rightarrow> u64 \<Rightarrow> string list" where
  "decode_operands m p bits =
     (case Option.bind (ip_form p) (\<lambda>form_name.
             Option.bind (map_of (mc_spaces m) (ip_space p)) (\<lambda>s. map_of (sp_forms s) form_name)) of
        None \<Rightarrow> []
      | Some form \<Rightarrow>
          map (\<lambda>name.
            case form_subfield form name of
              Some field \<Rightarrow> format_operand m field (fst (bf_read_bits (fe_spec field) bits))
            | None \<Rightarrow> ''?'' @ name) (ip_operand_names p))"

text \<open>The mnemonic indexes the instruction list; \<open>build_patterns\<close> only stores valid indices.\<close>

definition disassemble_word ::
    "machine_description \<Rightarrow> logic_decode_space \<Rightarrow> u64 \<Rightarrow> u64 \<Rightarrow> disassembly" where
  "disassemble_word m s address bits =
     (case best_match m (ds_name s) bits of
        Some p \<Rightarrow>
          (let operands = decode_operands m p bits
           in \<lparr>da_address = address, da_opcode = bits,
               da_mnemonic = in_name (mc_instructions m ! ip_instruction_idx p),
               da_operands = operands, da_display = render_display m p bits operands\<rparr>)
      | None \<Rightarrow>
          \<lparr>da_address = address, da_opcode = bits, da_mnemonic = ''unknown'',
           da_operands = [''0x'' @ pad_left CHR ''0'' (ds_word_bytes s * 2) (upper_hex (unat bits))],
           da_display = None\<rparr>)"

text \<open>Both loops of the disassembler walk the bytes word by word; \<open>entry\<close> says what a word
  contributes.  The fuel bounds the number of words; \<open>None\<close> is running out of it.\<close>

primrec walk_words ::
    "nat \<Rightarrow> machine_description \<Rightarrow> (logic_decode_space \<Rightarrow> u64 \<Rightarrow> u64 \<Rightarrow> 'a list) \<Rightarrow>
     u8 list \<Rightarrow> u64 \<Rightarrow> 'a list option" where
  "walk_words 0 m entry bytes address = None"
| "walk_words (Suc n) m entry bytes address =
     (if bytes = [] then Some []
      else
        case select_space m bytes of
          None \<Rightarrow> Some []
        | Some s \<Rightarrow>
            if length bytes < ds_word_bytes s then Some []
            else
              map_option ((@) (entry s address (space_bits s bytes)))
                (walk_words n m entry (drop (ds_word_bytes s) bytes)
                  (address + of_nat (ds_word_bytes s))))"

definition disassemble_from ::
    "nat \<Rightarrow> machine_description \<Rightarrow> u8 list \<Rightarrow> u64 \<Rightarrow> disassembly list option" where
  "disassemble_from n m bytes base =
     (if mc_decode_spaces m = [] then Some []
      else walk_words n m (\<lambda>s address bits. [disassemble_word m s address bits]) bytes base)"

definition disassemble :: "nat \<Rightarrow> machine_description \<Rightarrow> u8 list \<Rightarrow> disassembly list option" where
  "disassemble n m bytes = disassemble_from n m bytes 0"

record decoded_instruction =
  di_address :: u64
  di_bits :: u64
  di_instruction :: isa_instruction
  di_pattern :: instruction_pattern

definition decode_entry ::
    "machine_description \<Rightarrow> logic_decode_space \<Rightarrow> u64 \<Rightarrow> u64 \<Rightarrow> decoded_instruction list" where
  "decode_entry m s address bits =
     (case best_match m (ds_name s) bits of
        Some p \<Rightarrow>
          [\<lparr>di_address = address, di_bits = bits,
            di_instruction = mc_instructions m ! ip_instruction_idx p, di_pattern = p\<rparr>]
      | None \<Rightarrow> [])"

definition decode_instructions ::
    "nat \<Rightarrow> machine_description \<Rightarrow> u8 list \<Rightarrow> u64 \<Rightarrow> decoded_instruction list option" where
  "decode_instructions n m bytes base =
     (if mc_decode_spaces m = [] then Some []
      else walk_words n m (decode_entry m) bytes base)"

section \<open>Assembly\<close>

definition find_instruction :: "machine_description \<Rightarrow> string \<Rightarrow> isa_error + isa_instruction" where
  "find_instruction m mnemonic =
     ok_or (find (\<lambda>i. in_name i = mnemonic) (mc_instructions m))
       (machine_err ''unknown instruction {}'' [quoted mnemonic])"

fun encode_mask ::
    "isa_instruction \<Rightarrow> space_info \<Rightarrow> u32 \<Rightarrow> mask_field list \<Rightarrow> u64 \<Rightarrow> isa_error + u64" where
  "encode_mask instr space n [] bits = Inr bits"
| "encode_mask instr space n (f # fs) bits =
     rbind (mask_field_bits ''invalid bit selector {} on instruction {}: {}'' instr space n f)
       (\<lambda>(field_mask, encoded).
          encode_mask instr space n fs ((bits AND NOT field_mask) OR (encoded AND field_mask)))"

fun encode_operands ::
    "isa_instruction \<Rightarrow> form_info \<Rightarrow> (string \<times> i64) list \<Rightarrow> u64 \<Rightarrow> isa_error + u64" where
  "encode_operands instr form [] bits = Inr bits"
| "encode_operands instr form ((name, v) # ops) bits =
     rbind (ok_or (form_subfield form name)
              (machine_err ''unknown operand {} for {}'' [quoted name, quoted (in_name instr)]))
       (\<lambda>field.
     rbind (map_err (\<lambda>err. machine_err ''failed to encode operand {} on {}: {}''
               [quoted name, quoted (in_name instr), bitfield_error_text err])
             (bf_write_bits (fe_spec field) bits v)) (\<lambda>bits'.
       encode_operands instr form ops bits'))"

definition encode_with_operands ::
    "machine_description \<Rightarrow> isa_instruction \<Rightarrow> (string \<times> i64) list \<Rightarrow> isa_error + u8 list" where
  "encode_with_operands m instr operands =
     rbind (ok_or (map_of (mc_spaces m) (in_space instr))
              (machine_err ''instruction space {} missing'' [quoted (in_space instr)])) (\<lambda>space.
     rbind (word_bits space) (\<lambda>n.
     rbind (ensure_byte_aligned n (in_name instr)) (\<lambda>width.
     rbind (case in_mask instr of None \<Rightarrow> Inr 0 | Some mask_fields \<Rightarrow> encode_mask instr space n mask_fields 0)
       (\<lambda>bits.
     rbind (case in_form instr of
              Some form_name \<Rightarrow>
                rbind (ok_or (map_of (sp_forms space) form_name)
                         (machine_err ''instruction {} references missing form {}''
                            [quoted (in_name instr), quoted form_name])) (\<lambda>form.
                  encode_operands instr form operands bits)
            | None \<Rightarrow>
                if operands \<noteq> [] then
                  Inl (machine_err ''instruction {} does not take operands'' [quoted (in_name instr)])
                else Inr bits) (\<lambda>bits'.
       Inr (write_word bits' width (sp_endianness space)))))))"

definition encode_instruction ::
    "machine_description \<Rightarrow> string \<Rightarrow> (string \<times> i64) list \<Rightarrow> isa_error + u8 list" where
  "encode_instruction m mnemonic operands =
     rbind (find_instruction m mnemonic) (\<lambda>instr. encode_with_operands m instr operands)"

end
