(* ===== verification/Assembly.thy ===== *)
theory Assembly
  imports MachineDecode
begin

text \<open>
  Textual assembly (\<open>src/soc/isa/machine/assembly.rs\<close>): splitting a line into mnemonic and operands,
  resolving operand texts to values and encoding the result.
\<close>

section \<open>Parsing signed integers\<close>

datatype parse_int_error = EmptyInt | InvalidDigit | PosOverflow | NegOverflow

definition parse_int_error_text :: "parse_int_error \<Rightarrow> string" where
  "parse_int_error_text e =
     (case e of
        EmptyInt \<Rightarrow> ''cannot parse integer from empty string''
      | InvalidDigit \<Rightarrow> ''invalid digit found in string''
      | PosOverflow \<Rightarrow> ''number too large to fit in target type''
      | NegOverflow \<Rightarrow> ''number too small to fit in target type'')"

definition in_i64 :: "int \<Rightarrow> bool" where
  "in_i64 i \<longleftrightarrow> - (2 ^ 63) \<le> i \<and> i < 2 ^ 63"

fun signed_digits :: "nat \<Rightarrow> bool \<Rightarrow> int \<Rightarrow> string \<Rightarrow> parse_int_error + int" where
  "signed_digits r pos acc [] = Inr acc"
| "signed_digits r pos acc (c # cs) =
     (case to_digit r c of
        None \<Rightarrow> Inl InvalidDigit
      | Some d \<Rightarrow>
          (let v = acc * int r + (if pos then int d else - int d)
           in if in_i64 v then signed_digits r pos v cs
              else Inl (if pos then PosOverflow else NegOverflow)))"

text \<open>\<open>i64::from_str_radix\<close>: one leading sign is allowed.\<close>

definition i64_from_str_radix :: "nat \<Rightarrow> string \<Rightarrow> parse_int_error + i64" where
  "i64_from_str_radix r s =
     (case s of
        [] \<Rightarrow> Inl EmptyInt
      | c # cs \<Rightarrow>
          if cs = [] \<and> (c = CHR ''+'' \<or> c = CHR ''-'') then Inl InvalidDigit
          else
            rbind (if c = CHR ''+'' then signed_digits r True 0 cs
                   else if c = CHR ''-'' then signed_digits r False 0 cs
                   else signed_digits r True 0 s) (\<lambda>v. Inr (word_of_int v)))"

definition is_sign :: "char \<Rightarrow> bool" where
  "is_sign c \<longleftrightarrow> c = CHR ''-'' \<or> c = CHR ''+''"

definition numeric_base :: "string \<Rightarrow> nat \<times> string" where
  "numeric_base token =
     (if prefix ''0x'' token \<or> prefix ''0X'' token then (16, drop 2 token)
      else if prefix ''0b'' token \<or> prefix ''0B'' token then (2, drop 2 token)
      else if prefix ''0o'' token \<or> prefix ''0O'' token then (8, drop 2 token)
      else (10, token))"

definition parse_numeric :: "string \<Rightarrow> isa_error + i64" where
  "parse_numeric raw =
     (let trimmed = trim raw;
          sgn_v = (if prefix ''-'' trimmed then - 1 else 1);
          (base, digits) = numeric_base (strip_separators (dropWhile is_sign trimmed))
      in rbind (map_err (\<lambda>err. machine_err ''unable to parse numeric literal {}: {}''
                   [quoted raw, parse_int_error_text err]) (i64_from_str_radix base digits))
           (\<lambda>v. Inr (v * sgn_v)))"

section \<open>Lines\<close>

definition parse_assembly :: "string \<Rightarrow> isa_error + (string \<times> string list)" where
  "parse_assembly input =
     (let head = takeWhile (\<lambda>c. \<not> is_whitespace c) input;
          rest = dropWhile (\<lambda>c. \<not> is_whitespace c) input;
          parts = filter (\<lambda>p. p \<noteq> []) (if rest = [] then [head] else [head, tl rest])
      in case parts of
           [] \<Rightarrow> Inl (Machine ''assembly line missing mnemonic'')
         | mnemonic # others \<Rightarrow>
             Inr (mnemonic,
               filter (\<lambda>p. p \<noteq> [])
                 (map trim (split_char CHR '','' (case others of [] \<Rightarrow> [] | p # ps \<Rightarrow> p)))))"

definition strip_r :: "string \<Rightarrow> string option" where
  "strip_r raw =
     (case strip_prefix ''r'' raw of Some s \<Rightarrow> Some s | None \<Rightarrow> strip_prefix ''R'' raw)"

definition parse_operand_value ::
    "machine_description \<Rightarrow> field_encoding \<Rightarrow> string \<Rightarrow> isa_error + i64" where
  "parse_operand_value m field raw =
     (case fe_register field of
        Some b \<Rightarrow>
          (case find_by_label (mc_schema m) (rb_space b) raw of
             Some (meta, element) \<Rightarrow> Inr (ucast (re_index element))
           | None \<Rightarrow> Inl (machine_err ''unknown register {} for operand {}''
                        [quoted raw, quoted (fe_name field)]))
      | None \<Rightarrow>
          (case (if fe_kind field = RegisterOperand then strip_r raw else None) of
             Some stripped \<Rightarrow> parse_numeric stripped
           | None \<Rightarrow> parse_numeric raw))"

fun resolve_operands ::
    "machine_description \<Rightarrow> isa_instruction \<Rightarrow> form_info \<Rightarrow> (string \<times> string) list \<Rightarrow>
     isa_error + (string \<times> i64) list" where
  "resolve_operands m instr form [] = Inr []"
| "resolve_operands m instr form ((name, raw) # ops) =
     rbind (ok_or (form_subfield form name)
              (machine_err ''instruction {} references unknown operand {}''
                 [quoted (in_name instr), quoted name])) (\<lambda>field.
     rbind (parse_operand_value m field raw) (\<lambda>v.
     rbind (resolve_operands m instr form ops) (\<lambda>rest. Inr ((name, v) # rest))))"

definition resolve_operand_values ::
    "machine_description \<Rightarrow> isa_instruction \<Rightarrow> string list \<Rightarrow> isa_error + (string \<times> i64) list" where
  "resolve_operand_values m instr raw =
     rbind (ok_or (map_of (mc_spaces m) (in_space instr))
              (machine_err ''instruction space {} missing'' [quoted (in_space instr)])) (\<lambda>space.
     case in_form instr of
       None \<Rightarrow>
         if raw = [] then Inr []
         else Inl (machine_err ''instruction {} has no form; unable to resolve operands''
                [quoted (in_name instr)])
     | Some form_name \<Rightarrow>
         rbind (ok_or (map_of (sp_forms space) form_name)
                  (machine_err ''instruction {} references missing form {}''
                     [quoted (in_name instr), quoted form_name])) (\<lambda>form.
           let names = (if in_operands instr \<noteq> [] then in_operands instr else fi_operand_order form)
           in if length names \<noteq> length raw then
                Inl (machine_err ''instruction {} expects {} operand(s) but got {}''
                   [quoted (in_name instr), dec (length names), dec (length raw)])
              else resolve_operands m instr form (zip names raw)))"

definition assemble :: "machine_description \<Rightarrow> string \<Rightarrow> isa_error + u8 list" where
  "assemble m asm =
     rbind (parse_assembly asm) (\<lambda>(mnemonic, raw).
     rbind (find_instruction m mnemonic) (\<lambda>instr.
     rbind (resolve_operand_values m instr raw) (\<lambda>pairs.
       encode_with_operands m instr pairs)))"

text \<open>A line that starts with a blank loses its operands: the empty first part is dropped and the
  whole rest of the line becomes the mnemonic.\<close>

lemma leading_blank_breaks_assembly:
  "parse_assembly '' add r1,r2'' = Inr (''add r1,r2'', [])"
  by code_simp

end
