(* ===== verification/RegisterAccess.thy ===== *)
theory RegisterAccess
  imports Assembly CoreState Expression
begin

text \<open>
  Register access from semantic programs (\<open>src/soc/isa/semantics/register.rs\<close>): a \<open>$space::name\<close>
  reference with an optional index and subfield is resolved against the register schema of the
  machine, through redirects if need be, and read from or written to the core state.
\<close>

section \<open>Error texts of the core state\<close>

definition hex16 :: "u64 \<Rightarrow> string" where
  "hex16 a = ''0x'' @ pad_left CHR ''0'' 16 (upper_hex (unat a))"

definition overlap_text :: "overlap_details \<Rightarrow> string" where
  "overlap_text d =
     (case d of
        ConflictsWithDevice name \<Rightarrow> fmt ''conflicts with device {}'' [quoted name]
      | ConflictsWithUnknown \<Rightarrow> ''conflicts with unknown device''
      | RangeIsEmpty \<Rightarrow> ''range is empty''
      | ExceedsAddressSpace \<Rightarrow> ''range exceeds address space''
      | AlreadyRegistered name \<Rightarrow> fmt ''device {} already registered'' [quoted name])"

definition redirect_text :: "redirect_reason \<Rightarrow> string" where
  "redirect_text r =
     (case r of
        SizeNotPositive \<Rightarrow> ''size must be greater than zero''
      | TargetAddressOverflow \<Rightarrow> ''target address overflow''
      | TargetCrossesBoundary \<Rightarrow> ''target range crosses device boundary''
      | SourceAddressOverflow \<Rightarrow> ''source address overflow'')"

text \<open>The last two are the panics the bus model returns as errors; they have no text.\<close>

definition bus_error_text :: "bus_error \<Rightarrow> string" where
  "bus_error_text e =
     (case e of
        NotMapped a \<Rightarrow> fmt ''address {} is not mapped'' [hex16 a]
      | Overlap a d \<Rightarrow> fmt ''address {} overlaps existing mapping ({})'' [hex16 a, overlap_text d]
      | RedirectInvalid src bytes target r \<Rightarrow>
          fmt ''redirect {}..{} -> {} invalid: {}''
            [hex16 src, hex16 (of_nat (min (unat src + unat bytes) (2 ^ 64 - 1))), hex16 target,
             redirect_text r]
      | DeviceFault device f \<Rightarrow> fmt ''device {} reported a fault'' [quoted device]
      | BusOutOfRange a e \<Rightarrow> fmt ''address {} exceeds mapping end {}'' [hex16 a, hex16 e]
      | InvalidDeviceSpan device \<Rightarrow> fmt ''device {} reported an invalid span'' [quoted device]
      | HandleNotPositioned \<Rightarrow> ''address handle has not been positioned with jump()''
      | BusPanic \<Rightarrow> ''panic''
      | BusDeadlock \<Rightarrow> ''deadlock'')"

definition state_error_text :: "state_error \<Rightarrow> string" where
  "state_error_text e =
     (case e of
        StateBus err \<Rightarrow> fmt ''bus error: {}'' [bus_error_text err]
      | UnknownRegister name \<Rightarrow> fmt ''unknown register {}'' [quoted name]
      | RegisterWidthOverflow name bits \<Rightarrow>
          fmt ''register {} width {} exceeds bus slice limit'' [quoted name, dec (unat bits)])"

definition core_state_error :: "state_error \<Rightarrow> isa_error" where
  "core_state_error e = machine_err ''core state error: {}'' [state_error_text e]"

section \<open>Resolution\<close>

record resolved_register =
  rx_original_name :: string
  rx_resolved_name :: string
  rx_display_override :: "string option"
  rx_metadata :: register_metadata
  rx_element :: register_element
  rx_field :: "register_field_metadata option"
  rx_arena :: type_arena

definition resolved_new ::
    "register_metadata \<Rightarrow> register_element \<Rightarrow> register_field_metadata option \<Rightarrow> type_arena \<Rightarrow>
     string option \<Rightarrow> resolved_register" where
  "resolved_new meta element field arena display =
     \<lparr>rx_original_name = rm_name meta, rx_resolved_name = rm_space meta @ ''::'' @ re_label element,
      rx_display_override = display, rx_metadata = meta, rx_element = element, rx_field = field,
      rx_arena = arena\<rparr>"

definition display_name :: "resolved_register \<Rightarrow> string" where
  "display_name r =
     (case rx_display_override r of Some d \<Rightarrow> d | None \<Rightarrow> rx_resolved_name r)"

definition select_element ::
    "register_metadata \<Rightarrow> string \<Rightarrow> i64 option \<Rightarrow> isa_error + register_element" where
  "select_element meta name index =
     (if rm_count meta \<le> 1 then
        (case index of
           Some i \<Rightarrow>
             if i \<noteq> 0 then
               Inl (machine_err ''register {} has a single element and cannot use index {}''
                      [quoted name, dec_int (sint i)])
             else
               ok_or (head_option (rm_elements meta))
                 (machine_err ''register {} is missing element metadata'' [quoted name])
         | None \<Rightarrow>
             ok_or (head_option (rm_elements meta))
               (machine_err ''register {} is missing element metadata'' [quoted name]))
      else
        rbind (ok_or index (machine_err ''register {} requires an index expression'' [quoted name]))
          (\<lambda>i.
           if i <s 0 then
             Inl (machine_err ''register {} index {} must be non-negative''
                    [quoted name, dec_int (sint i)])
           else if 2 ^ 32 \<le> sint i then
             Inl (machine_err ''register {} index exceeds supported range'' [quoted name])
           else
             ok_or (find (\<lambda>e. re_index e = ucast i) (rm_elements meta))
               (machine_err ''register {} index {} out of range'' [quoted name, dec (unat i)])))"

definition find_field ::
    "string \<Rightarrow> register_field_metadata list \<Rightarrow> register_field_metadata option" where
  "find_field name fs = find (\<lambda>f. eq_ignore_ascii_case (rf_name f) name) fs"

definition select_field ::
    "register_metadata \<Rightarrow> string option \<Rightarrow> string \<Rightarrow> register_field_metadata list option \<Rightarrow>
     isa_error + register_field_metadata option" where
  "select_field meta subfield register_name alias_fields =
     (case subfield of
        None \<Rightarrow> Inr None
      | Some name \<Rightarrow>
          (case (case find_field name (rm_fields meta) of
                   Some f \<Rightarrow> Some f
                 | None \<Rightarrow> Option.bind alias_fields (find_field name)) of
             Some f \<Rightarrow> Inr (Some f)
           | None \<Rightarrow>
               Inl (machine_err ''register {} has no subfield {}''
                 [quoted (rm_space meta @ ''::'' @ register_name), quoted name])))"

definition try_resolve_direct ::
    "machine_description \<Rightarrow> string \<Rightarrow> string \<Rightarrow> string option \<Rightarrow> i64 option \<Rightarrow>
     register_field_metadata list option \<Rightarrow> string option \<Rightarrow> isa_error + resolved_register option"
where
  "try_resolve_direct m space name subfield index alias_fields display =
     (let arena = rg_types (mc_schema m)
      in case schema_lookup (mc_schema m) space name of
           Some meta \<Rightarrow>
             rbind (select_element meta name index) (\<lambda>element.
             rbind (select_field meta subfield name alias_fields) (\<lambda>field.
               Inr (Some (resolved_new meta element field arena display))))
         | None \<Rightarrow>
             (case find_by_label (mc_schema m) space name of
                None \<Rightarrow> Inr None
              | Some (meta, element) \<Rightarrow>
                  (case index of
                     Some i \<Rightarrow>
                       if i \<noteq> ucast (re_index element) then
                         Inl (machine_err
                           ''register {} already selects element {} and cannot mix with index {}''
                           [quoted name, quoted (re_label element), dec_int (sint i)])
                       else
                         rbind (select_field meta subfield name alias_fields) (\<lambda>field.
                           Inr (Some (resolved_new meta element field arena display)))
                   | None \<Rightarrow>
                       rbind (select_field meta subfield name alias_fields) (\<lambda>field.
                         Inr (Some (resolved_new meta element field arena display))))))"

text \<open>\<open>follow_redirect\<close>: at most eight hops.  \<open>fuel\<close> is the number of hops still allowed; the ninth
  is an error.\<close>

primrec follow_redirect_from ::
    "nat \<Rightarrow> machine_description \<Rightarrow> string \<Rightarrow> bool \<Rightarrow> string \<Rightarrow> string \<Rightarrow>
     isa_error + (string \<times> string) option" where
  "follow_redirect_from 0 m shown visited space name =
     (case Option.bind (map_of (mc_spaces m) space)
             (\<lambda>s. Option.bind (map_of (sp_registers s) name) ri_redirect) of
        Some reference \<Rightarrow>
          Inl (machine_err ''redirect chain for {} exceeds supported depth'' [quoted shown])
      | None \<Rightarrow>
          (case map_of (mc_spaces m) space of
             None \<Rightarrow> Inr None
           | Some s \<Rightarrow> Inr (if visited then Some (space, name) else None)))"
| "follow_redirect_from (Suc n) m shown visited space name =
     (case map_of (mc_spaces m) space of
        None \<Rightarrow> Inr None
      | Some s \<Rightarrow>
          (case Option.bind (map_of (sp_registers s) name) ri_redirect of
             None \<Rightarrow> Inr (if visited then Some (space, name) else None)
           | Some reference \<Rightarrow>
               (case resolve_reference_path space reference of
                  (next_space, []) \<Rightarrow>
                    Inl (machine_err ''redirect for {} is missing a target register'' [quoted shown])
                | (next_space, next_name # rest) \<Rightarrow>
                    if rest \<noteq> [] then
                      Inl (machine_err ''redirect for {} cannot reference subfields'' [quoted shown])
                    else follow_redirect_from n m shown True next_space next_name)))"

definition follow_redirect ::
    "machine_description \<Rightarrow> string \<Rightarrow> string \<Rightarrow> isa_error + (string \<times> string) option" where
  "follow_redirect m space name = follow_redirect_from 8 m (space @ ''::'' @ name) False space name"

definition unknown_register :: "register_ref \<Rightarrow> isa_error" where
  "unknown_register r =
     machine_err ''unknown register {}'' [quoted (rr_space r @ ''::'' @ rr_name r)]"

definition resolve_register ::
    "machine_description \<Rightarrow> register_ref \<Rightarrow> i64 option \<Rightarrow> isa_error + resolved_register" where
  "resolve_register m r index =
     (let aliases = schema_alias_fields (mc_schema m) (rr_space r) (rr_name r)
      in rbind (try_resolve_direct m (rr_space r) (rr_name r) (rr_subfield r) index aliases None)
           (\<lambda>direct.
              case direct of
                Some resolved \<Rightarrow> Inr resolved
              | None \<Rightarrow>
                  rbind (follow_redirect m (rr_space r) (rr_name r)) (\<lambda>target.
                    case target of
                      None \<Rightarrow> Inl (unknown_register r)
                    | Some (space, name) \<Rightarrow>
                        rbind (try_resolve_direct m space name (rr_subfield r) index aliases
                                 (Some (rr_space r @ ''::'' @ rr_name r))) (\<lambda>redirected.
                          case redirected of
                            Some resolved \<Rightarrow> Inr resolved
                          | None \<Rightarrow> Inl (unknown_register r)))))"

section \<open>Reading and writing\<close>

definition mask_to_width :: "i64 \<Rightarrow> u32 \<Rightarrow> u64" where
  "mask_to_width v width =
     (if 64 \<le> width then v else if width = 0 then 0 else v AND (shl 1 (unat width) - 1))"

text \<open>\<open>arena.get\<close> panics on a type identifier out of range; the schema's fields are in range.\<close>

definition field_spec ::
    "resolved_register \<Rightarrow> register_field_metadata \<Rightarrow> isa_error + bitfield_spec" where
  "field_spec r f =
     (case arena_get (rx_arena r) (rf_ty f) of
        Some (BitFieldRec spec) \<Rightarrow> Inr spec
      | _ \<Rightarrow> Inl (machine_err ''subfield {} lacks bitfield metadata'' [quoted (rf_name f)]))"

definition register_bit_width :: "resolved_register \<Rightarrow> u32" where
  "register_bit_width r =
     (case rx_field r of
        None \<Rightarrow> rm_bit_width (rx_metadata r)
      | Some f \<Rightarrow>
          (case arena_get (rx_arena r) (rf_ty f) of
             Some (BitFieldRec spec) \<Rightarrow> ucast (data_width spec)
           | _ \<Rightarrow> rm_bit_width (rx_metadata r)))"

definition map_state :: "(state_error + 'a) \<times> core_state \<Rightarrow> (isa_error + 'a) \<times> core_state" where
  "map_state r = (map_err core_state_error (fst r), snd r)"

definition read_raw :: "resolved_register \<Rightarrow> core_state \<Rightarrow> (isa_error + u64) \<times> core_state" where
  "read_raw r =
     se_bind (\<lambda>st. map_state (read_register st (rx_resolved_name r))) (\<lambda>v.
       se_lift
         (if 64 < rm_bit_width (rx_metadata r) then
            Inl (machine_err ''register {} exceeds 64-bit access width''
                   [quoted (rm_space (rx_metadata r) @ ''::'' @ re_label (rx_element r))])
          else Inr (ucast v)))"

definition write_raw ::
    "resolved_register \<Rightarrow> u64 \<Rightarrow> core_state \<Rightarrow> (isa_error + unit) \<times> core_state" where
  "write_raw r v = (\<lambda>st. map_state (write_register st (rx_resolved_name r) (ucast v)))"

definition resolved_read ::
    "resolved_register \<Rightarrow> core_state \<Rightarrow> (isa_error + semantic_value) \<times> core_state" where
  "resolved_read r =
     se_bind (read_raw r) (\<lambda>raw.
       case rx_field r of
         None \<Rightarrow> se_lift (Inr (IntV raw))
       | Some f \<Rightarrow>
           se_bind (se_lift (field_spec r f)) (\<lambda>spec. se_lift (Inr (IntV (read_signed spec raw)))))"

definition resolved_write ::
    "resolved_register \<Rightarrow> i64 \<Rightarrow> core_state \<Rightarrow> (isa_error + unit) \<times> core_state" where
  "resolved_write r v =
     (case rx_field r of
        Some f \<Rightarrow>
          se_bind (se_lift (field_spec r f)) (\<lambda>spec.
          se_bind (read_raw r) (\<lambda>container.
          se_bind (se_lift (map_err (\<lambda>err. machine_err ''failed to write subfield {}: {}''
                       [quoted (rm_space (rx_metadata r) @ ''::'' @ rf_name f),
                        bitfield_error_text err])
                     (bf_write_bits spec container v))) (\<lambda>updated. write_raw r updated)))
      | None \<Rightarrow>
          (\<lambda>st. map_state (write_register st (rx_resolved_name r)
                   (ucast (mask_to_width v (rm_bit_width (rx_metadata r)))))))"

end
