(* ===== verification/Bindings.thy ===== *)
theory Bindings
  imports MachineSpace
begin

text \<open>
  Operand and parameter bindings (\<open>src/soc/isa/semantics/bindings.rs\<close>): the operands of an
  instruction word are decoded by the bit-field specifications of its form, the parameters of the
  machine are converted to semantic values, and both end up in the map a program is run with.
\<close>

section \<open>Parameter bindings\<close>

definition bindings_new :: bindings where
  "bindings_new = Map.empty"

text \<open>\<open>insert_value\<close> returns the value the name had before, as \<open>HashMap::insert\<close> does.\<close>

definition insert_value ::
    "string \<Rightarrow> semantic_value \<Rightarrow> bindings \<Rightarrow> semantic_value option \<times> bindings" where
  "insert_value name v b = (b name, b(name \<mapsto> v))"

definition insert_int :: "string \<Rightarrow> i64 \<Rightarrow> bindings \<Rightarrow> semantic_value option \<times> bindings" where
  "insert_int name v b = insert_value name (IntV v) b"

definition insert_bool :: "string \<Rightarrow> bool \<Rightarrow> bindings \<Rightarrow> semantic_value option \<times> bindings" where
  "insert_bool name v b = insert_value name (BoolV v) b"

definition insert_word :: "string \<Rightarrow> string \<Rightarrow> bindings \<Rightarrow> semantic_value option \<times> bindings" where
  "insert_word name w b = insert_value name (WordV w) b"

definition insert_parameter :: "string \<Rightarrow> parameter_value \<Rightarrow> bindings \<Rightarrow> isa_error + bindings" where
  "insert_parameter name v b =
     (case v of
        ParamNumber raw \<Rightarrow>
          if unat raw < 2 ^ 63 then Inr (snd (insert_int name raw b))
          else Inl (Machine (fmt ''parameter {} exceeds 64-bit signed range'' [quoted name]))
      | ParamWord w \<Rightarrow> Inr (snd (insert_word name w b)))"

fun extend_from_parameters ::
    "(string \<times> parameter_value) list \<Rightarrow> bindings \<Rightarrow> isa_error + bindings" where
  "extend_from_parameters [] b = Inr b"
| "extend_from_parameters ((name, v) # ps) b =
     rbind (insert_parameter name v b) (extend_from_parameters ps)"

section \<open>Operand binders\<close>

text \<open>A binder is the list of its \<open>FieldBinding\<close>s: operand name and specification.\<close>

type_synonym operand_binder = "(string \<times> bitfield_spec) list"

definition field_binding :: "form_info \<Rightarrow> string \<Rightarrow> isa_error + string \<times> bitfield_spec" where
  "field_binding form name =
     (case form_subfield form name of
        Some field \<Rightarrow> Inr (name, fe_spec field)
      | None \<Rightarrow>
          Inl (Machine (fmt ''instruction references operand {} missing from form'' [quoted name])))"

fun field_bindings :: "form_info \<Rightarrow> string list \<Rightarrow> isa_error + operand_binder" where
  "field_bindings form [] = Inr []"
| "field_bindings form (name # names) =
     rbind (field_binding form name) (\<lambda>b.
     rbind (field_bindings form names) (\<lambda>bs. Inr (b # bs)))"

definition from_form :: "form_info \<Rightarrow> string list \<Rightarrow> isa_error + operand_binder" where
  "from_form form operands =
     field_bindings form (if operands = [] then fi_operand_order form else operands)"

definition decode_into :: "operand_binder \<Rightarrow> u64 \<Rightarrow> bindings \<Rightarrow> bindings" where
  "decode_into ops bits b =
     fold (\<lambda>(name, spec) b. snd (insert_int name (read_signed spec bits) b)) ops b"

definition binder_decode :: "operand_binder \<Rightarrow> u64 \<Rightarrow> bindings" where
  "binder_decode ops bits = decode_into ops bits bindings_new"

definition binder_len :: "operand_binder \<Rightarrow> nat" where
  "binder_len ops = length ops"

section \<open>What is bound\<close>

lemma field_bindings_Inr_iff:
  "field_bindings form names = Inr bs \<longleftrightarrow>
     map fst bs = names \<and>
     list_all (\<lambda>(n, spec). \<exists>f. form_subfield form n = Some f \<and> fe_spec f = spec) bs"
proof (induction names arbitrary: bs)
  case Nil
  then show ?case by auto
next
  case (Cons n names)
  show ?case
    by (cases bs) (auto simp: rbind_Inr_iff field_binding_def Cons.IH split: option.splits)
qed

text \<open>Decoding adds the operands of the binder (the last of a name wins) and keeps every other name.\<close>

lemma decode_into_apply:
  "decode_into ops bits b n =
     (case map_of (rev ops) n of
        Some spec \<Rightarrow> Some (IntV (read_signed spec bits)) | None \<Rightarrow> b n)"
proof (induction ops arbitrary: b)
  case Nil
  then show ?case by (simp add: decode_into_def)
next
  case (Cons x ops)
  obtain m spec where x: "x = (m, spec)" by (cases x)
  have "decode_into (x # ops) bits b = decode_into ops bits (b(m \<mapsto> IntV (read_signed spec bits)))"
    by (simp add: decode_into_def x insert_int_def insert_value_def)
  then show ?case
    by (simp add: Cons.IH x map_add_def split: option.split)
qed

lemma extend_from_parameters_apply:
  assumes "extend_from_parameters ps b = Inr b'" and "map_of (rev ps) n = None"
  shows "b' n = b n"
  using assms
proof (induction ps b rule: extend_from_parameters.induct)
  case (2 name v ps b)
  from 2(2) obtain c where c: "insert_parameter name v b = Inr c" "extend_from_parameters ps c = Inr b'"
    by (auto simp: rbind_Inr_iff)
  have "n \<noteq> name" and "map_of (rev ps) n = None"
    using 2(3) by (auto simp: map_add_def split: option.splits if_splits)
  moreover from this c have "b' n = c n" by (intro 2(1)) auto
  ultimately show ?case
    using c(1)
    by (auto simp: insert_parameter_def insert_int_def insert_word_def insert_value_def
        split: parameter_value.splits if_splits)
qed simp

end
