(* ===== verification/Trace.thy ===== *)
theory Trace
  imports Strings
begin

text \<open>
  Execution traces (\<open>src/soc/isa/semantics/trace.rs\<close>): the events the runtime emits and the lines
  \<open>PipelinePrinter\<close> prints for them.  The writer behind the printer is the list of lines.
\<close>

datatype host_op_kind = HostAdd | HostSub | HostMul

datatype trace_event =
    Fetch u64 u64 string string
  | RegisterRead string i64 u32
  | RegisterWrite string i64 u32
  | HostOp host_op_kind "i64 list" i64

definition host_op_text :: "host_op_kind \<Rightarrow> string" where
  "host_op_text k = (case k of HostAdd \<Rightarrow> ''+'' | HostSub \<Rightarrow> ''-'' | HostMul \<Rightarrow> ''*'')"

definition host_op_debug :: "host_op_kind \<Rightarrow> string" where
  "host_op_debug k = (case k of HostAdd \<Rightarrow> ''Add'' | HostSub \<Rightarrow> ''Sub'' | HostMul \<Rightarrow> ''Mul'')"

text \<open>\<open>{:0wX}\<close>: upper-case hexadecimal, padded with zeros to \<open>w\<close> characters.\<close>

definition hex_padded :: "nat \<Rightarrow> u64 \<Rightarrow> string" where
  "hex_padded w v = pad_left CHR ''0'' w (upper_hex (unat v))"

definition masked_value :: "i64 \<Rightarrow> u32 \<Rightarrow> u64" where
  "masked_value v bits =
     (if bits = 0 then 0
      else if 64 \<le> bits then v
      else v AND (shl 1 (unat bits) - 1))"

definition format_value :: "i64 \<Rightarrow> u32 \<Rightarrow> string" where
  "format_value v bits =
     ''0x'' @ hex_padded (max 1 ((unat bits + 3) div 4)) (masked_value v bits)"

definition event_line :: "trace_event \<Rightarrow> string" where
  "event_line e =
     (case e of
        Fetch address opcode mnemonic detail \<Rightarrow>
          fmt ''[Fetch] 0x{} 0x{} {} {}''
            [hex_padded 8 address, hex_padded 8 opcode, mnemonic, trim detail]
      | RegisterRead name v width \<Rightarrow> fmt ''[ Read]   {} -> {}'' [name, format_value v width]
      | RegisterWrite name v width \<Rightarrow> fmt ''[Write]   {} <- {}'' [name, format_value v width]
      | HostOp op args result \<Rightarrow>
          (case args of
             [lhs, rhs] \<Rightarrow>
               fmt ''[IntOp]   0x{} {} 0x{} = 0x{}''
                 [hex_padded 16 lhs, host_op_text op, hex_padded 16 rhs, hex_padded 16 result]
           | _ \<Rightarrow>
               fmt ''[IntOp]   {} {} -> 0x{}''
                 [host_op_debug op, ''['' @ join '', '' (map (\<lambda>a. dec_int (sint a)) args) @ '']'',
                  hex_padded 16 result]))"

definition printer_on_event :: "trace_event \<Rightarrow> string list \<Rightarrow> string list" where
  "printer_on_event e lines = lines @ [event_line e]"

lemma length_pad_left [simp]: "length (pad_left c n s) = max n (length s)"
  by (simp add: pad_left_def)

text \<open>A printed value is wide enough for its register, whatever the value.\<close>

lemma format_value_width: "(unat bits + 3) div 4 + 2 \<le> length (format_value v bits)"
  by (simp add: format_value_def hex_padded_def)

end
