(* ===== verification/Runtime.thy ===== *)
theory Runtime
  imports RegisterAccess Bindings Trace Host ExprTyping
begin

text \<open>
  The semantics interpreter (\<open>src/soc/isa/semantics/runtime.rs\<close>).  A program runs in a world: the
  core state, the state of the host services and the events the tracer has received.  A context
  call is dispatched to a register read, a host helper, a macro or another instruction; macros and
  instructions are programs again, so the interpreter is recursive and the code bounds it with a
  call stack of 32 frames: \<open>run_stack\<close> terminates because every frame entered is one less that
  is left.
\<close>

section \<open>The world\<close>

record 'h world =
  w_core :: core_state
  w_host :: 'h
  w_tracer :: "trace_event list option"

text \<open>\<open>None\<close> is a runtime without a tracer.  A tracer cannot call back into the runtime, so
  \<open>try_borrow_mut\<close> succeeds and every event reaches it.\<close>

definition emit_trace :: "trace_event \<Rightarrow> 'h world \<Rightarrow> 'h world" where
  "emit_trace ev w = w\<lparr>w_tracer := map_option (\<lambda>log. log @ [ev]) (w_tracer w)\<rparr>"

definition trace_step :: "trace_event \<Rightarrow> 'h world \<Rightarrow> (isa_error + unit) \<times> 'h world" where
  "trace_step ev w = (Inr (), emit_trace ev w)"

definition on_core ::
    "(core_state \<Rightarrow> (isa_error + 'a) \<times> core_state) \<Rightarrow> 'h world \<Rightarrow> (isa_error + 'a) \<times> 'h world" where
  "on_core f w = (let (r, c) = f (w_core w) in (r, w\<lparr>w_core := c\<rparr>))"

definition on_host :: "('h \<Rightarrow> 'a \<times> 'h) \<Rightarrow> 'h world \<Rightarrow> (isa_error + 'a) \<times> 'h world" where
  "on_host f w = (let (r, h) = f (w_host w) in (Inr r, w\<lparr>w_host := h\<rparr>))"

section \<open>The call stack\<close>

record call_stack =
  ck_depth :: nat
  ck_limit :: nat

definition max_call_depth :: nat where
  "max_call_depth = 32"

definition stack_new :: "nat \<Rightarrow> call_stack" where
  "stack_new limit = \<lparr>ck_depth = 0, ck_limit = limit\<rparr>"

definition stack_exceeded :: "nat \<Rightarrow> isa_error" where
  "stack_exceeded limit =
     machine_err ''semantic call stack exceeded limit of {} frames'' [dec limit]"

definition stack_enter :: "call_stack \<Rightarrow> isa_error + call_stack" where
  "stack_enter st =
     (if ck_limit st \<le> ck_depth st then Inl (stack_exceeded (ck_limit st))
      else Inr (st\<lparr>ck_depth := ck_depth st + 1\<rparr>))"

text \<open>Dropping the guard of a frame.\<close>

definition stack_leave :: "call_stack \<Rightarrow> call_stack" where
  "stack_leave st = st\<lparr>ck_depth := ck_depth st - 1\<rparr>"

definition frames_left :: "call_stack \<Rightarrow> nat" where
  "frames_left st = ck_limit st - ck_depth st"

lemma stack_enter_frames:
  "stack_enter st = Inr st' \<Longrightarrow> frames_left st = Suc (frames_left st')"
  "stack_enter st = Inl e \<longleftrightarrow> frames_left st = 0 \<and> e = stack_exceeded (ck_limit st)"
  "stack_enter st = Inr st' \<Longrightarrow> stack_leave st' = st"
  by (auto simp: stack_enter_def frames_left_def stack_leave_def split: if_splits)

section \<open>Context calls\<close>

definition call_err :: "string \<Rightarrow> context_call \<Rightarrow> isa_error" where
  "call_err template call =
     machine_err template [quoted (CHR ''$'' # cc_space call @ ''::'' @ cc_name call)]"

definition format_resolved_name :: "resolved_register \<Rightarrow> string option \<Rightarrow> string" where
  "format_resolved_name r subfield =
     (case subfield of
        Some field \<Rightarrow> display_name r @ ''::'' @ field
      | None \<Rightarrow> display_name r)"

definition value_or_zero :: "semantic_value \<Rightarrow> i64" where
  "value_or_zero v = (case as_int v of Inr i \<Rightarrow> i | Inl e \<Rightarrow> 0)"

definition call_reference :: "context_call \<Rightarrow> register_ref" where
  "call_reference call =
     \<lparr>rr_space = cc_space call, rr_name = cc_name call, rr_subfield = head_option (cc_subpath call),
      rr_index = None, rr_span = Some (cc_span call)\<rparr>"

definition call_index :: "semantic_value list \<Rightarrow> isa_error + i64 option" where
  "call_index args =
     (case args of [] \<Rightarrow> Inr None | v # vs \<Rightarrow> rbind (as_int v) (\<lambda>i. Inr (Some i)))"

definition evaluate_register_call ::
    "machine_description \<Rightarrow> context_call \<Rightarrow> semantic_value list \<Rightarrow> 'h world computation" where
  "evaluate_register_call m call args =
     (if 1 < length args then
        se_lift (Inl (call_err ''register call {} accepts at most one argument'' call))
      else if 1 < length (cc_subpath call) then
        se_lift (Inl (call_err ''register call {} cannot reference nested subfields'' call))
      else
        se_bind (se_lift (call_index args)) (\<lambda>index.
        se_bind (se_lift (resolve_register m (call_reference call) index)) (\<lambda>resolved.
        se_bind (on_core (resolved_read resolved)) (\<lambda>v.
        se_bind (trace_step (RegisterRead (format_resolved_name resolved (head_option (cc_subpath call)))
                   (value_or_zero v) (register_bit_width resolved))) (\<lambda>_.
          se_lift (Inr v))))))"

subsection \<open>Host helpers\<close>

definition arity_error :: "context_call \<Rightarrow> nat \<Rightarrow> nat \<Rightarrow> isa_error" where
  "arity_error call expected actual =
     machine_err ''call {} expects {} arguments, got {}''
       [quoted (CHR ''$'' # cc_space call @ ''::'' @ cc_name call), dec expected, dec actual]"

definition parse_width :: "semantic_value \<Rightarrow> context_call \<Rightarrow> isa_error + u32" where
  "parse_width v call =
     rbind (as_int v) (\<lambda>width.
       if width <s 0 then Inl (call_err ''call {} requires non-negative width'' call)
       else if 2 ^ 32 \<le> sint width then
         Inl (call_err ''call {} width exceeds supported range'' call)
       else if 64 < (ucast width :: u32) then
         Inl (machine_err ''call {} width {} exceeds 64-bit maximum''
                [quoted (CHR ''$'' # cc_space call @ ''::'' @ cc_name call),
                 dec (unat (ucast width :: u32))])
       else Inr (ucast width))"

definition bool_int :: "bool \<Rightarrow> i64" where
  "bool_int b = (if b then 1 else 0)"

definition host_arith ::
    "host_op_kind \<Rightarrow> ('h \<Rightarrow> u64 \<Rightarrow> u64 \<Rightarrow> bool \<Rightarrow> u32 \<Rightarrow> host_arith_result \<times> 'h) \<Rightarrow>
     semantic_value list \<Rightarrow> context_call \<Rightarrow> 'h world computation" where
  "host_arith kind operation args call =
     (case args of
        [a0, a1, a2, a3] \<Rightarrow>
          se_bind (se_lift (as_int a0)) (\<lambda>lhs.
          se_bind (se_lift (as_int a1)) (\<lambda>rhs.
          se_bind (se_lift (as_bool a2)) (\<lambda>carry.
          se_bind (se_lift (parse_width a3 call)) (\<lambda>width.
          se_bind (on_host (\<lambda>h. operation h lhs rhs carry width)) (\<lambda>result.
          se_bind (trace_step (HostOp kind [lhs, rhs, bool_int carry] (ha_value result))) (\<lambda>_.
            se_lift (Inr (TupleV [IntV (ha_value result), BoolV (ha_carry result)]))))))))
      | _ \<Rightarrow> se_lift (Inl (arity_error call 4 (length args))))"

definition host_add :: "'h host_services \<Rightarrow> semantic_value list \<Rightarrow> context_call \<Rightarrow> 'h world computation"
where
  "host_add hs = host_arith HostAdd (hs_add hs)"

definition host_sub :: "'h host_services \<Rightarrow> semantic_value list \<Rightarrow> context_call \<Rightarrow> 'h world computation"
where
  "host_sub hs = host_arith HostSub (hs_sub hs)"

definition host_mul :: "'h host_services \<Rightarrow> semantic_value list \<Rightarrow> context_call \<Rightarrow> 'h world computation"
where
  "host_mul hs args call =
     (case args of
        [a0, a1, a2] \<Rightarrow>
          se_bind (se_lift (as_int a0)) (\<lambda>lhs.
          se_bind (se_lift (as_int a1)) (\<lambda>rhs.
          se_bind (se_lift (parse_width a2 call)) (\<lambda>width.
          se_bind (on_host (\<lambda>h. hs_mul hs h lhs rhs width)) (\<lambda>result.
          se_bind (trace_step (HostOp HostMul [lhs, rhs] (hm_low result))) (\<lambda>_.
            se_lift (Inr (TupleV [IntV (hm_low result), IntV (hm_high result)])))))))
      | _ \<Rightarrow> se_lift (Inl (arity_error call 3 (length args))))"

definition evaluate_host_call ::
    "'h host_services \<Rightarrow> context_call \<Rightarrow> semantic_value list \<Rightarrow> 'h world computation" where
  "evaluate_host_call hs call args =
     (if cc_subpath call \<noteq> [] then
        se_lift (Inl (call_err ''host call {} does not support subpaths'' call))
      else if cc_name call = ''add'' then host_add hs args call
      else if cc_name call = ''sub'' then host_sub hs args call
      else if cc_name call = ''mul'' then host_mul hs args call
      else se_lift (Inl (call_err ''unknown host helper {}'' call)))"

subsection \<open>Macros and instructions\<close>

definition base_parameters :: "machine_description \<Rightarrow> isa_error + bindings" where
  "base_parameters m =
     (if mc_parameters m = [] then Inr Map.empty
      else extend_from_parameters (mc_parameters m) bindings_new)"

definition bind_arguments ::
    "machine_description \<Rightarrow> string list \<Rightarrow> semantic_value list \<Rightarrow> context_call \<Rightarrow>
     isa_error + bindings" where
  "bind_arguments m names args call =
     (if length names \<noteq> length args then Inl (arity_error call (length names) (length args))
      else rbind (base_parameters m) (\<lambda>params.
        Inr (fold (\<lambda>(n, v) ps. ps(n \<mapsto> v)) (zip names args) params)))"

type_synonym 'h program_runner =
  "bindings \<Rightarrow> semantic_program \<Rightarrow> 'h world \<Rightarrow> (isa_error + semantic_value option) \<times> 'h world"

text \<open>\<open>run\<close> is \<open>execute_nested_program\<close> on the frames of the caller.\<close>

definition invoke_program ::
    "'h program_runner \<Rightarrow> bindings \<Rightarrow> semantic_program \<Rightarrow> 'h world computation" where
  "invoke_program run params program =
     se_bind (run params program) (\<lambda>result.
       se_lift (Inr (case result of Some v \<Rightarrow> v | None \<Rightarrow> TupleV [])))"

definition evaluate_macro_call ::
    "'h program_runner \<Rightarrow> machine_description \<Rightarrow> context_call \<Rightarrow> semantic_value list \<Rightarrow>
     'h world computation" where
  "evaluate_macro_call run m call args =
     (if cc_subpath call \<noteq> [] then
        se_lift (Inl (call_err ''macro call {} does not support subpaths'' call))
      else
        se_bind (se_lift (ok_or (find (\<lambda>mac. mi_name mac = cc_name call) (mc_macros m))
                   (call_err ''unknown macro {}'' call))) (\<lambda>info.
        se_bind (se_lift (block_program (mi_semantics info))) (\<lambda>program.
        se_bind (se_lift (bind_arguments m (mi_parameters info) args call)) (\<lambda>params.
          invoke_program run params program))))"

definition call_instruction ::
    "machine_description \<Rightarrow> context_call \<Rightarrow> isa_error + isa_instruction" where
  "call_instruction m call =
     (case filter (\<lambda>i. in_name i = cc_name call) (mc_instructions m) of
        [] \<Rightarrow> Inl (call_err ''unknown instruction {}'' call)
      | [i] \<Rightarrow> Inr i
      | i # j # rest \<Rightarrow>
          Inl (machine_err ''instruction call {} is ambiguous''
                 [quoted (CHR ''$'' # in_space i @ ''::'' @ cc_name call)]))"

definition evaluate_instruction_call ::
    "'h program_runner \<Rightarrow> machine_description \<Rightarrow> context_call \<Rightarrow> semantic_value list \<Rightarrow>
     'h world computation" where
  "evaluate_instruction_call run m call args =
     (if cc_subpath call \<noteq> [] then
        se_lift (Inl (call_err ''instruction call {} does not support subpaths'' call))
      else
        se_bind (se_lift (call_instruction m call)) (\<lambda>i.
        se_bind (se_lift (instruction_operands m i)) (\<lambda>operands.
        se_bind (se_lift (ok_or (in_semantics i)
                   (machine_err ''instruction {} is missing semantics''
                      [quoted (CHR ''$'' # in_space i @ ''::'' @ in_name i)]))) (\<lambda>block.
        se_bind (se_lift (block_program block)) (\<lambda>program.
        se_bind (se_lift (bind_arguments m operands args call)) (\<lambda>params.
          invoke_program run params program))))))"

definition evaluate_context_call ::
    "'h host_services \<Rightarrow> machine_description \<Rightarrow> 'h program_runner \<Rightarrow> 'h world resolver" where
  "evaluate_context_call hs m run call args =
     (case cc_kind call of
        RegisterCall \<Rightarrow> evaluate_register_call m call args
      | HostCall \<Rightarrow> evaluate_host_call hs call args
      | MacroCall \<Rightarrow> evaluate_macro_call run m call args
      | InstructionCall \<Rightarrow> evaluate_instruction_call run m call args)"

section \<open>Statements and programs\<close>

definition evaluate_register_index ::
    "'h world resolver \<Rightarrow> execution_context \<Rightarrow> register_ref \<Rightarrow> 'h world \<Rightarrow>
     (isa_error + i64 option) \<times> 'h world" where
  "evaluate_register_index res ctx reference =
     (case rr_index reference of
        Some e \<Rightarrow>
          se_bind (eval res ctx e) (\<lambda>v.
          se_bind (se_lift (as_int v)) (\<lambda>i. se_lift (Inr (Some i))))
      | None \<Rightarrow> se_lift (Inr None))"

definition write_register_target ::
    "machine_description \<Rightarrow> 'h world resolver \<Rightarrow> execution_context \<Rightarrow> register_ref \<Rightarrow>
     semantic_value \<Rightarrow> 'h world \<Rightarrow> (isa_error + unit) \<times> 'h world" where
  "write_register_target m res ctx reference v =
     se_bind (evaluate_register_index res ctx reference) (\<lambda>index.
     se_bind (se_lift (resolve_register m reference index)) (\<lambda>resolved.
     se_bind (se_lift (as_int v)) (\<lambda>i.
     se_bind (on_core (resolved_write resolved i)) (\<lambda>_.
       trace_step (RegisterWrite (format_resolved_name resolved (rr_subfield reference)) i
         (register_bit_width resolved))))))"

definition assign_target_to ::
    "machine_description \<Rightarrow> 'h world resolver \<Rightarrow> execution_context \<Rightarrow> assign_target \<Rightarrow>
     semantic_value \<Rightarrow> 'h world \<Rightarrow> (isa_error + execution_context) \<times> 'h world" where
  "assign_target_to m res ctx target v =
     (case target of
        VariableTarget name \<Rightarrow> se_lift (Inr (set_local ctx name v))
      | TupleTarget names \<Rightarrow>
          se_bind (se_lift (try_into_tuple v)) (\<lambda>items.
          se_bind (se_lift (ensure_len items (length names))) (\<lambda>_.
            se_lift (Inr (fold (\<lambda>(n, x) c. set_local c n x) (zip names items) ctx))))
      | RegisterTarget reference \<Rightarrow>
          se_bind (write_register_target m res ctx reference v) (\<lambda>_. se_lift (Inr ctx)))"

text \<open>A statement returns the value of a \<open>return\<close> and the context after it.\<close>

definition execute_statement ::
    "machine_description \<Rightarrow> 'h world resolver \<Rightarrow> execution_context \<Rightarrow> semantic_stmt \<Rightarrow> 'h world \<Rightarrow>
     (isa_error + semantic_value option \<times> execution_context) \<times> 'h world" where
  "execute_statement m res ctx stmt =
     (case stmt of
        Assign target e \<Rightarrow>
          se_bind (eval res ctx e) (\<lambda>v.
          se_bind (assign_target_to m res ctx target v) (\<lambda>ctx'. se_lift (Inr (None, ctx'))))
      | ExprStmt e \<Rightarrow> se_bind (eval res ctx e) (\<lambda>v. se_lift (Inr (None, ctx)))
      | Return e \<Rightarrow> se_bind (eval res ctx e) (\<lambda>v. se_lift (Inr (Some v, ctx))))"

fun execute_statements ::
    "machine_description \<Rightarrow> 'h world resolver \<Rightarrow> execution_context \<Rightarrow> semantic_program \<Rightarrow> 'h world \<Rightarrow>
     (isa_error + semantic_value option) \<times> 'h world" where
  "execute_statements m res ctx [] = se_lift (Inr None)"
| "execute_statements m res ctx (stmt # stmts) =
     se_bind (execute_statement m res ctx stmt) (\<lambda>(result, ctx').
       case result of
         Some v \<Rightarrow> se_lift (Inr (Some v))
       | None \<Rightarrow> execute_statements m res ctx' stmts)"

text \<open>\<open>execute_with_context\<close> on a fresh context.  The guard of a frame is dropped on every way out,
  so a caller's stack is unchanged after a call and the stack is an argument, not state; the calls a
  program makes see the entered stack.  Every frame entered is one less that is left.\<close>

function run_stack ::
    "'h host_services \<Rightarrow> machine_description \<Rightarrow> call_stack \<Rightarrow> 'h program_runner" where
  "run_stack hs m stack =
     (case stack_enter stack of
        Inl e \<Rightarrow> (\<lambda>params program. se_lift (Inl e))
      | Inr frame \<Rightarrow>
          (\<lambda>params program.
             execute_statements m (evaluate_context_call hs m (run_stack hs m frame))
               (context_new params) program))"
  by pat_completeness auto

termination
  by (relation "measure (\<lambda>(hs, m, stack). frames_left stack)") (auto dest: stack_enter_frames(1))

declare run_stack.simps [simp del]

definition execute_program ::
    "'h host_services \<Rightarrow> machine_description \<Rightarrow> bindings \<Rightarrow> semantic_program \<Rightarrow> 'h world \<Rightarrow>
     (isa_error + semantic_value option) \<times> 'h world" where
  "execute_program hs m params program = run_stack hs m (stack_new max_call_depth) params program"

end
