(* ===== verification/RuntimeFacts.thy ===== *)
theory RuntimeFacts
  imports Runtime
begin

text \<open>
  What the interpreter guarantees.  A static checker for programs (\<open>check_program\<close>, on top of
  \<open>infer\<close>) types the calls of macros and instructions through a number of frames, the registers
  against the schema and a core state, and the host helpers by their arity and width.  A program it
  accepts never fails: the locale \<open>statement_contract\<close> extends the contract of a resolver by the
  register writes of assignments, and the interpreter's own resolver satisfies it at every depth of
  the call stack.
\<close>

section \<open>Registers that can be accessed\<close>

text \<open>The states a run passes through keep the layout of the state \<open>st\<close> it starts in.\<close>

definition world_ok :: "core_state \<Rightarrow> 'h world \<Rightarrow> bool" where
  "world_ok st w \<longleftrightarrow>
     core_ok (w_core w) \<and> st_registers (w_core w) = st_registers st \<and>
     length (snapshot (w_core w)) = length (snapshot st)"

definition readable :: "core_state \<Rightarrow> resolved_register \<Rightarrow> bool" where
  "readable st r \<longleftrightarrow>
     register_ok st (rx_resolved_name r) \<and> rm_bit_width (rx_metadata r) \<le> 64 \<and>
     (case rx_field r of None \<Rightarrow> True | Some f \<Rightarrow> \<not> isl (field_spec r f))"

definition is_slice :: "bitfield_segment \<Rightarrow> bool" where
  "is_slice seg = (case seg of Slice s \<Rightarrow> True | Literal v w \<Rightarrow> False)"

definition below :: "sem_type \<Rightarrow> nat \<Rightarrow> bool" where
  "below t n = (case t of Bounded k \<Rightarrow> k \<le> n | Scalar \<Rightarrow> False | Opaque \<Rightarrow> False | Product ts \<Rightarrow> False)"

text \<open>A field that takes every value below two to its width: slices only, no padding.\<close>

definition accepts :: "bitfield_spec \<Rightarrow> sem_type \<Rightarrow> bool" where
  "accepts spec t \<longleftrightarrow>
     spec_ok spec \<and> bf_pad spec = None \<and> list_all is_slice (bf_segments spec) \<and>
     below t (2 ^ nwidth (bf_segments spec))"

definition writable :: "core_state \<Rightarrow> resolved_register \<Rightarrow> sem_type \<Rightarrow> bool" where
  "writable st r t \<longleftrightarrow>
     readable st r \<and> scalar_sort t \<and>
     (case rx_field r of
        None \<Rightarrow> True
      | Some f \<Rightarrow> (case field_spec r f of Inl e \<Rightarrow> False | Inr spec \<Rightarrow> accepts spec t))"

lemma world_ok_register:
  assumes "world_ok st w"
  shows "register_ok (w_core w) name = register_ok st name"
  using assms register_ok_frame(1) [of "w_core w" st name] by (simp add: world_ok_def)

lemma world_ok_trace [simp]: "world_ok st (emit_trace ev w) = world_ok st w"
  by (simp add: world_ok_def emit_trace_def)

lemma world_ok_host [simp]: "world_ok st (w\<lparr>w_host := h\<rparr>) = world_ok st w"
  by (simp add: world_ok_def)

lemma register_window_exists: "register_ok st name \<Longrightarrow> \<exists>p n. register_window st name = Some (p, n)"
  by (auto simp: register_ok_def register_window_def)

lemma read_raw_ok:
  assumes "world_ok st w" and "readable st r"
  shows "succeeds (world_ok st) (on_core (read_raw r)) (\<lambda>v. True) w"
proof -
  have ok: "core_ok (w_core w)" and reg: "register_ok (w_core w) (rx_resolved_name r)"
    using assms world_ok_register by (auto simp: world_ok_def readable_def)
  then obtain p n where "register_window (w_core w) (rx_resolved_name r) = Some (p, n)"
    using register_window_exists by blast
  from read_register_ok [OF ok reg this] obtain v c where
    c: "read_register (w_core w) (rx_resolved_name r) = (Inr v, c)" "core_ok c"
      "snapshot c = snapshot (w_core w)" "st_registers c = st_registers (w_core w)" by metis
  have "\<not> 64 < rm_bit_width (rx_metadata r)" using assms(2) by (simp add: readable_def not_less)
  then show ?thesis
    using c assms(1) by (simp add: succeeds_def on_core_def read_raw_def map_state_def world_ok_def)
qed

lemma write_register_succeeds:
  assumes "world_ok st w" and "register_ok st (rx_resolved_name r)"
  shows "succeeds (world_ok st)
    (on_core (\<lambda>c. map_state (write_register c (rx_resolved_name r) v))) (\<lambda>u. True) w"
proof -
  have ok: "core_ok (w_core w)" and reg: "register_ok (w_core w) (rx_resolved_name r)"
    using assms world_ok_register by (auto simp: world_ok_def)
  then obtain p n where "register_window (w_core w) (rx_resolved_name r) = Some (p, n)"
    using register_window_exists by blast
  from write_register_ok [OF ok reg this, of v] obtain c where
    c: "write_register (w_core w) (rx_resolved_name r) v = (Inr (), c)" "core_ok c"
      "set_bits_at (snapshot (w_core w)) p n v (snapshot c)"
      "st_registers c = st_registers (w_core w)" by metis
  then have "length (snapshot c) = length (snapshot (w_core w))" by (simp add: set_bits_at_def)
  then show ?thesis
    using c assms(1) by (simp add: succeeds_def on_core_def map_state_def world_ok_def)
qed

lemma on_core_bind:
  "on_core (se_bind f g) = se_bind (on_core f) (\<lambda>v. on_core (g v))"
  by (rule ext) (auto simp: on_core_def se_bind_def split: prod.splits sum.splits)

lemma se_bind_lift [simp]: "se_bind (se_lift (Inr a)) f = f a"
  by (rule ext) (simp add: se_bind_def se_lift_def)

lemma succeeds_pair [simp]: "succeeds ok (Pair (Inr v)) P w \<longleftrightarrow> P v \<and> ok w"
  by (simp add: succeeds_def)

lemma on_core_lift [simp]: "on_core (se_lift r) = se_lift r" "on_core (Pair r) = se_lift r"
  by (rule ext, simp add: on_core_def se_lift_def)+

lemma resolved_read_ok:
  assumes "world_ok st w" and "readable st r"
  shows "succeeds (world_ok st) (on_core (resolved_read r)) is_scalar w"
proof -
  note raw = succeeds_bind [OF read_raw_ok [OF assms]]
  show ?thesis
  proof (cases "rx_field r")
    case None
    then show ?thesis
      by (simp add: resolved_read_def on_core_bind) (rule raw, simp add: succeeds_lift)
  next
    case (Some f)
    then obtain spec where "field_spec r f = Inr spec"
      using assms(2) by (cases "field_spec r f") (auto simp: readable_def)
    with Some show ?thesis
      by (simp add: resolved_read_def on_core_bind) (rule raw, simp add: succeeds_lift)
  qed
qed

section \<open>Fields that take every value of their width\<close>

lemma sint_nonneg:
  assumes "0 \<le> sint (x :: u64)"
  shows "sint x = uint x"
proof -
  have "n = 63" if "63 \<le> n" "bit x n" for n
    using that bit_imp_le_length [of x n] by simp
  then show ?thesis
    using assms by (intro bit_eqI) (auto simp: sint_uint bit_simps not_less min_def)
qed

lemma write_slices_total:
  assumes "list_all is_slice segs" and "list_all segment_ok segs"
    and "unat remaining = nwidth segs" and "nwidth segs \<le> 64"
  shows "\<exists>c'. write_segments dw tw segs c v remaining = Inr (c', 0)"
  using assms
proof (induction segs arbitrary: c remaining)
  case Nil
  then show ?case by (simp add: unat_eq_0)
next
  case (Cons seg segs)
  then obtain s where seg: "seg = Slice s" by (cases seg) (auto simp: is_slice_def)
  let ?w = "ucast (bs_width s) :: u16"
  have w: "unat ?w = unat (segment_width seg)" by (simp add: seg)
  have le: "?w \<le> remaining" using Cons.prems(3) by (simp add: word_le_nat_alt seg)
  then have "unat (remaining - ?w) = nwidth segs" using Cons.prems(3) by (simp add: unat_sub seg)
  with Cons.IH [of "remaining - ?w"] Cons.prems le show ?case
    by (simp add: seg Let_def not_less)
qed

lemma accepts_write:
  assumes "accepts spec t" and "has_type v t" and "as_int v = Inr x"
  shows "\<exists>c'. bf_write_bits spec c x = Inr c'"
proof -
  define d where "d = nwidth (bf_segments spec)"
  have ok: "spec_ok spec" and pad: "bf_pad spec = None"
    and sl: "list_all is_slice (bf_segments spec)" "list_all segment_ok (bf_segments spec)"
    using assms(1) by (auto simp: accepts_def spec_ok_def)
  obtain k where "t = Bounded k" and k: "k \<le> 2 ^ d"
    using assms(1) by (cases t) (auto simp: accepts_def below_def d_def)
  with assms(2,3) have "0 \<le> sint x" "sint x < int k" by (auto simp: as_int_Inr_iff)
  then have x: "unat x < 2 ^ d"
    using k sint_nonneg [of x] by (simp add: uint_less_iff)
  then have "take_bit d x = x"
    by (metis mod_less take_bit_eq_mod unsigned_take_bit_eq word_unat_eq_iff)
  then have "bit x i \<Longrightarrow> i < d" for i by (metis bit_take_bit_iff)
  then have fits: "\<not> (\<exists>i \<ge> d + pad_bits spec. bit x i)"
    using pad by (auto simp: pad_bits_def not_le [symmetric])
  then have p: "padded spec d x" using pad by (auto simp: padded_def pad_bits_def)
  from write_slices_total [OF sl spec_ok_widths(1,3) [OF ok]]
  obtain c' where "write_segments (data_width spec) (total_width spec) (bf_segments spec) c
      (take_bit d x) (data_width spec) = Inr (c', 0)" by blast
  then show ?thesis using fits p by (simp add: bf_write_bits_eq [OF ok d_def])
qed

lemma resolved_write_ok:
  assumes w: "world_ok st w" and "writable st r t" and v: "has_type v t" "as_int v = Inr i"
  shows "succeeds (world_ok st) (on_core (resolved_write r i)) (\<lambda>u. True) w"
proof -
  have rd: "readable st r" and reg: "register_ok st (rx_resolved_name r)"
    using assms(2) by (auto simp: writable_def readable_def)
  show ?thesis
  proof (cases "rx_field r")
    case None
    then show ?thesis
      using write_register_succeeds [OF w reg] by (simp add: resolved_write_def)
  next
    case (Some f)
    then obtain spec where spec: "field_spec r f = Inr spec" "accepts spec t"
      using assms(2) by (auto simp: writable_def split: sum.splits)
    show ?thesis
      unfolding resolved_write_def Some option.case spec se_bind_lift on_core_bind on_core_lift
    proof (rule succeeds_bind [OF read_raw_ok [OF w rd]])
      fix c w'
      assume w': "world_ok st w'"
      obtain c' where "bf_write_bits spec c i = Inr c'" using accepts_write [OF spec(2) v] by blast
      then show "succeeds (world_ok st) (se_bind (se_lift (map_err (\<lambda>err. machine_err
            ''failed to write subfield {}: {}''
            [quoted (rm_space (rx_metadata r) @ ''::'' @ rf_name f), bitfield_error_text err])
            (bf_write_bits spec c i))) (\<lambda>v. on_core (write_raw r v))) (\<lambda>u. True) w'"
        using write_register_succeeds [OF w' reg] by (simp add: write_raw_def)
    qed
  qed
qed

section \<open>The checker\<close>

text \<open>The index values a call or a target can be resolved with.\<close>

definition index_choices :: "sem_type list \<Rightarrow> i64 option list option" where
  "index_choices ts =
     (case ts of
        [] \<Rightarrow> Some [None]
      | [Bounded n] \<Rightarrow> Some (map (\<lambda>i. Some (of_nat i)) [0..<n])
      | _ \<Rightarrow> None)"

definition resolves ::
    "machine_description \<Rightarrow> (resolved_register \<Rightarrow> bool) \<Rightarrow> register_ref \<Rightarrow> sem_type list \<Rightarrow> bool" where
  "resolves m P reference ts =
     (case index_choices ts of
        None \<Rightarrow> False
      | Some choices \<Rightarrow>
          list_all (\<lambda>i. case resolve_register m reference i of Inl e \<Rightarrow> False | Inr r \<Rightarrow> P r) choices)"

definition width_type :: "sem_type \<Rightarrow> bool" where
  "width_type t = below t 65"

definition builtin_signature :: "machine_description \<Rightarrow> core_state \<Rightarrow> signature" where
  "builtin_signature m st call ts =
     (case cc_kind call of
        RegisterCall \<Rightarrow>
          if length (cc_subpath call) \<le> 1 \<and> resolves m (readable st) (call_reference call) ts
          then Some Scalar else None
      | HostCall \<Rightarrow>
          if cc_subpath call \<noteq> [] then None
          else
            (case ts of
               [a, b, c, w] \<Rightarrow>
                 if list_all scalar_sort [a, b, c] \<and> width_type w \<and>
                    (cc_name call = ''add'' \<or> cc_name call = ''sub'')
                 then Some (Product [Scalar, Bounded 2]) else None
             | [a, b, w] \<Rightarrow>
                 if list_all scalar_sort [a, b] \<and> width_type w \<and> cc_name call = ''mul''
                 then Some (Product [Scalar, Scalar]) else None
             | _ \<Rightarrow> None)
      | MacroCall \<Rightarrow> None
      | InstructionCall \<Rightarrow> None)"

definition target_index_types :: "type_env \<Rightarrow> signature \<Rightarrow> register_ref \<Rightarrow> sem_type list option" where
  "target_index_types env sg reference =
     (case rr_index reference of
        None \<Rightarrow> Some []
      | Some e \<Rightarrow> map_option (\<lambda>t. [t]) (infer env sg e))"

definition check_target ::
    "machine_description \<Rightarrow> (resolved_register \<Rightarrow> sem_type \<Rightarrow> bool) \<Rightarrow> type_env \<Rightarrow> signature \<Rightarrow>
     assign_target \<Rightarrow> sem_type \<Rightarrow> type_env option" where
  "check_target m wr env sg target t =
     (case target of
        VariableTarget name \<Rightarrow> Some (env(name \<mapsto> t))
      | TupleTarget names \<Rightarrow>
          (case t of
             Product ts \<Rightarrow>
               if length ts = length names
               then Some (fold (\<lambda>(n, u) env. env(n \<mapsto> u)) (zip names ts) env) else None
           | Bounded n \<Rightarrow> None | Scalar \<Rightarrow> None | Opaque \<Rightarrow> None)
      | RegisterTarget reference \<Rightarrow>
          (case target_index_types env sg reference of
             None \<Rightarrow> None
           | Some ts \<Rightarrow>
               if scalar_sort t \<and> resolves m (\<lambda>r. wr r t) reference ts then Some env else None))"

text \<open>The type of the value a program returns, \<open>None\<close> if it returns none.\<close>

fun check_program ::
    "machine_description \<Rightarrow> (resolved_register \<Rightarrow> sem_type \<Rightarrow> bool) \<Rightarrow> signature \<Rightarrow> type_env \<Rightarrow>
     semantic_program \<Rightarrow> sem_type option option" where
  "check_program m wr sg env [] = Some None"
| "check_program m wr sg env (Assign target e # stmts) =
     (case infer env sg e of
        None \<Rightarrow> None
      | Some t \<Rightarrow>
          (case check_target m wr env sg target t of
             None \<Rightarrow> None
           | Some env' \<Rightarrow> check_program m wr sg env' stmts))"
| "check_program m wr sg env (ExprStmt e # stmts) =
     (case infer env sg e of None \<Rightarrow> None | Some t \<Rightarrow> check_program m wr sg env stmts)"
| "check_program m wr sg env (Return e # stmts) = map_option Some (infer env sg e)"

definition result_type :: "sem_type option \<Rightarrow> sem_type" where
  "result_type r = (case r of None \<Rightarrow> Product [] | Some t \<Rightarrow> t)"

definition returns :: "sem_type option \<Rightarrow> semantic_value option \<Rightarrow> bool" where
  "returns t v = rel_option (\<lambda>v t. has_type v t) v t"

text \<open>The most precise type the checker has for a known value.\<close>

definition type_of :: "semantic_value \<Rightarrow> sem_type" where
  "type_of v =
     (case v of
        IntV i \<Rightarrow> if 0 \<le> sint i then Bounded (nat (sint i) + 1) else Scalar
      | BoolV b \<Rightarrow> Bounded 2
      | WordV w \<Rightarrow> Opaque
      | TupleV vs \<Rightarrow> Opaque)"

definition to_option :: "'e + 'a \<Rightarrow> 'a option" where
  "to_option r = (case r of Inl e \<Rightarrow> None | Inr a \<Rightarrow> Some a)"

definition arguments_env ::
    "machine_description \<Rightarrow> string list \<Rightarrow> sem_type list \<Rightarrow> type_env option" where
  "arguments_env m names ts =
     (if length names \<noteq> length ts then None
      else map_option (\<lambda>b. fold (\<lambda>(n, t) env. env(n \<mapsto> t)) (zip names ts) (map_option type_of \<circ> b))
             (to_option (base_parameters m)))"

definition called_program ::
    "machine_description \<Rightarrow> context_call \<Rightarrow> (string list \<times> semantic_program) option" where
  "called_program m call =
     (if cc_subpath call \<noteq> [] then None
      else
        case cc_kind call of
          MacroCall \<Rightarrow>
            Option.bind (find (\<lambda>mac. mi_name mac = cc_name call) (mc_macros m)) (\<lambda>info.
              map_option (Pair (mi_parameters info)) (to_option (block_program (mi_semantics info))))
        | InstructionCall \<Rightarrow>
            Option.bind (to_option (call_instruction m call)) (\<lambda>i.
            Option.bind (to_option (instruction_operands m i)) (\<lambda>operands.
            Option.bind (in_semantics i) (\<lambda>block.
              map_option (Pair operands) (to_option (block_program block)))))
        | RegisterCall \<Rightarrow> None
        | HostCall \<Rightarrow> None)"

text \<open>The signature with \<open>n\<close> frames left: a program is checked against the signature of one frame
  less, so a recursion that does not end within the frames has no type.\<close>

primrec call_signature :: "machine_description \<Rightarrow> core_state \<Rightarrow> nat \<Rightarrow> signature" where
  "call_signature m st 0 = builtin_signature m st"
| "call_signature m st (Suc n) = (\<lambda>call ts.
     case called_program m call of
       None \<Rightarrow> builtin_signature m st call ts
     | Some (names, program) \<Rightarrow>
         Option.bind (arguments_env m names ts) (\<lambda>env.
           map_option result_type
             (check_program m (writable st) (call_signature m st n) env program)))"

section \<open>The contract of the interpreter's resolver\<close>

lemma to_option_Some [simp]: "to_option r = Some a \<longleftrightarrow> r = Inr a"
  by (cases r) (simp_all add: to_option_def)

lemma has_type_type_of: "has_type v (type_of v)"
  by (cases v) (simp_all add: type_of_def)

lemma scalar_of_nat:
  assumes "has_type v (Bounded n)"
  shows "\<exists>k < n. as_int v = Inr (of_nat k)"
proof -
  let ?i = "scalar_int v"
  have v: "is_scalar v" "0 \<le> sint ?i" "sint ?i < int n" using assms by simp_all
  then have "unat ?i < n" by (simp add: sint_nonneg uint_less_iff)
  moreover have "as_int v = Inr (of_nat (unat ?i))" using v(1) by (simp add: as_int_scalar)
  ultimately show ?thesis by blast
qed

lemma resolves_at:
  assumes "resolves m P reference ts" and "list_all2 has_type vs ts"
  shows "\<exists>i r. call_index vs = Inr i \<and> resolve_register m reference i = Inr r \<and> P r"
proof -
  obtain choices where c: "index_choices ts = Some choices"
    and all: "list_all (\<lambda>i. case resolve_register m reference i of Inl e \<Rightarrow> False | Inr r \<Rightarrow> P r) choices"
    using assms(1) by (auto simp: resolves_def split: option.splits)
  have "\<exists>i \<in> set choices. call_index vs = Inr i"
  proof (cases ts)
    case Nil
    then show ?thesis using c assms(2) by (auto simp: index_choices_def call_index_def)
  next
    case (Cons t us)
    then obtain n where t: "t = Bounded n" "us = []" and ch: "choices = map (\<lambda>i. Some (of_nat i)) [0..<n]"
      using c by (auto simp: index_choices_def split: sem_type.splits list.splits)
    then obtain v where v: "vs = [v]" "has_type v (Bounded n)"
      using assms(2) Cons by (auto simp: list_all2_Cons2 simp del: has_type.simps)
    from scalar_of_nat [OF v(2)] show ?thesis by (auto simp: v(1) ch call_index_def)
  qed
  then obtain i where i: "i \<in> set choices" "call_index vs = Inr i" by blast
  then have "case resolve_register m reference i of Inl e \<Rightarrow> False | Inr r \<Rightarrow> P r"
    using all by (simp add: list_all_iff)
  then show ?thesis using i(2) by (auto split: sum.splits)
qed

lemma ctx_typed_fold:
  assumes "ctx_typed env ctx" and "list_all2 has_type vs ts" and "length names = length ts"
  shows "ctx_typed (fold (\<lambda>(n, t) env. env(n \<mapsto> t)) (zip names ts) env)
    (fold (\<lambda>(n, v) c. set_local c n v) (zip names vs) ctx)"
  using assms
proof (induction names arbitrary: ts vs env ctx)
  case (Cons n names)
  then obtain t ts' v vs' where c: "ts = t # ts'" "vs = v # vs'" "has_type v t"
      "list_all2 has_type vs' ts'" "length names = length ts'"
    by (cases ts; cases vs) (auto simp del: has_type.simps)
  from Cons.IH [OF ctx_typed_set_local [OF Cons.prems(1) c(3), of n] c(4,5)] show ?case
    by (simp add: c(1,2) del: fun_upd_apply)
qed simp

locale statement_contract = call_contract res sg ok
  for res :: "'h world resolver" and sg :: signature and ok :: "'h world \<Rightarrow> bool" +
  fixes wr :: "resolved_register \<Rightarrow> sem_type \<Rightarrow> bool"
  assumes write_ok: "ok w \<Longrightarrow> wr r t \<Longrightarrow> has_type v t \<Longrightarrow> as_int v = Inr i \<Longrightarrow>
      succeeds ok (on_core (resolved_write r i)) (\<lambda>u. True) w"
    and trace_ok: "ok w \<Longrightarrow> ok (emit_trace ev w)"
begin

lemma index_ok:
  assumes "ctx_typed env ctx" and "target_index_types env sg reference = Some ts"
    and "resolves m P reference ts" and "ok w"
  shows "succeeds ok (evaluate_register_index res ctx reference)
    (\<lambda>i. \<exists>r. resolve_register m reference i = Inr r \<and> P r) w"
proof (cases "rr_index reference")
  case None
  then have "ts = []" using assms(2) by (simp add: target_index_types_def)
  with resolves_at [OF assms(3), of "[]"] None assms(4) show ?thesis
    by (auto simp: evaluate_register_index_def call_index_def intro: succeeds_lift)
next
  case (Some e)
  then obtain t where t: "infer env sg e = Some t" "ts = [t]"
    using assms(2) by (auto simp: target_index_types_def)
  show ?thesis
    unfolding evaluate_register_index_def Some option.case
  proof (rule succeeds_bind [OF eval_ok(1) [OF assms(1) t(1) assms(4)]])
    fix v w'
    assume v: "has_type v t" and w': "ok w'"
    from resolves_at [OF assms(3), of "[v]"] v t(2) obtain i r where
        "call_index [v] = Inr i" "resolve_register m reference i = Inr r" "P r" by auto
    then show "succeeds ok (se_bind (se_lift (as_int v)) (\<lambda>i. se_lift (Inr (Some i))))
        (\<lambda>i. \<exists>r. resolve_register m reference i = Inr r \<and> P r) w'"
      using w' by (cases "as_int v") (auto simp: call_index_def intro: succeeds_lift)
  qed
qed

lemma register_target_ok:
  assumes "ctx_typed env ctx" and "target_index_types env sg reference = Some ts"
    and "resolves m (\<lambda>r. wr r t) reference ts" and "scalar_sort t" and v: "has_type v t" and "ok w"
  shows "succeeds ok (write_register_target m res ctx reference v) (\<lambda>u. True) w"
  unfolding write_register_target_def
proof (rule succeeds_bind [OF index_ok [OF assms(1-3,6)]])
  fix i w'
  assume "\<exists>r. resolve_register m reference i = Inr r \<and> wr r t" and w': "ok w'"
  then obtain r where r: "resolve_register m reference i = Inr r" "wr r t" by blast
  have x: "as_int v = Inr (scalar_int v)"
    using as_int_scalar has_type_scalar [OF v assms(4)] by blast
  have tr: "succeeds ok (trace_step ev) (\<lambda>u. True) w''" if "ok w''" for ev w''
    using trace_ok [OF that] by (simp add: trace_step_def succeeds_def)
  show "succeeds ok (se_bind (se_lift (resolve_register m reference i)) (\<lambda>resolved.
      se_bind (se_lift (as_int v)) (\<lambda>i. se_bind (on_core (resolved_write resolved i)) (\<lambda>_.
        trace_step (RegisterWrite (format_resolved_name resolved (rr_subfield reference)) i
          (register_bit_width resolved)))))) (\<lambda>u. True) w'"
    unfolding r x se_bind_lift
    by (rule succeeds_bind [OF write_ok [OF w' r(2) v x]]) (rule tr)
qed

lemma target_ok:
  assumes "ctx_typed env ctx" and "check_target m wr env sg target t = Some env'"
    and v: "has_type v t" and "ok w"
  shows "succeeds ok (assign_target_to m res ctx target v) (\<lambda>ctx'. ctx_typed env' ctx') w"
proof (cases target)
  case (VariableTarget name)
  then show ?thesis
    using assms by (auto simp: assign_target_to_def check_target_def simp del: has_type.simps
        intro!: succeeds_lift ctx_typed_set_local)
next
  case (TupleTarget names)
  then obtain ts where ts: "t = Product ts" "length ts = length names"
      "env' = fold (\<lambda>(n, u) env. env(n \<mapsto> u)) (zip names ts) env"
    using assms(2) by (auto simp: check_target_def split: sem_type.splits if_splits)
  then obtain vs where vs: "v = TupleV vs" "list_all2 has_type vs ts"
    using v by (cases v) auto
  then have "length vs = length names" using ts(2) by (simp add: list_all2_lengthD)
  then show ?thesis
    using ctx_typed_fold [OF assms(1) vs(2), of names] ts(2,3) assms(4)
    by (simp add: assign_target_to_def TupleTarget vs(1) ensure_len_def succeeds_lift)
next
  case (RegisterTarget reference)
  then obtain ts where "target_index_types env sg reference = Some ts" "env' = env"
      "scalar_sort t" "resolves m (\<lambda>r. wr r t) reference ts"
    using assms(2) by (auto simp: check_target_def split: option.splits if_splits)
  with register_target_ok [OF assms(1) _ _ _ v assms(4)] assms(1) show ?thesis
    unfolding assign_target_to_def RegisterTarget assign_target.case
    by (intro succeeds_bind [where P = "\<lambda>u. True"] succeeds_lift) simp_all
qed

theorem statements_ok:
  assumes "ctx_typed env ctx" and "check_program m wr sg env program = Some t" and "ok w"
  shows "succeeds ok (execute_statements m res ctx program) (returns t) w"
  using assms
proof (induction program arbitrary: env ctx w)
  case Nil
  then show ?case by (simp add: succeeds_lift returns_def)
next
  case (Cons stmt stmts)
  note ev = eval_ok(1) [OF Cons.prems(1)]
  show ?case
  proof (cases stmt)
    case (Assign target e)
    then obtain u env' where u: "infer env sg e = Some u"
        "check_target m wr env sg target u = Some env'" "check_program m wr sg env' stmts = Some t"
      using Cons.prems(2) by (auto split: option.splits)
    show ?thesis
      unfolding execute_statements.simps execute_statement_def Assign semantic_stmt.case
      by (rule succeeds_bind [where P = "\<lambda>(r, c). r = None \<and> ctx_typed env' c"],
          rule succeeds_bind [OF ev [OF u(1) Cons.prems(3)]],
          rule succeeds_bind [OF target_ok [OF Cons.prems(1) u(2)]])
        (auto intro: succeeds_lift Cons.IH [OF _ u(3)])
  next
    case (ExprStmt e)
    then obtain u where u: "infer env sg e = Some u" "check_program m wr sg env stmts = Some t"
      using Cons.prems(2) by (auto split: option.splits)
    show ?thesis
      unfolding execute_statements.simps execute_statement_def ExprStmt semantic_stmt.case
      by (rule succeeds_bind [where P = "\<lambda>(r, c). r = None \<and> c = ctx"],
          rule succeeds_bind [OF ev [OF u(1) Cons.prems(3)]])
        (auto intro: succeeds_lift Cons.IH [OF Cons.prems(1) u(2)])
  next
    case (Return e)
    then obtain u where u: "infer env sg e = Some u" "t = Some u"
      using Cons.prems(2) by auto
    show ?thesis
      unfolding execute_statements.simps execute_statement_def Return semantic_stmt.case
      by (rule succeeds_bind [where P = "\<lambda>(r, c). \<exists>v. r = Some v \<and> has_type v u"],
          rule succeeds_bind [OF ev [OF u(1) Cons.prems(3)]])
        (auto intro!: succeeds_lift simp: returns_def u(2))
  qed
qed

end

section \<open>The interpreter satisfies the contract\<close>

lemma succeeds_trace: "world_ok st w \<Longrightarrow> succeeds (world_ok st) (trace_step ev) (\<lambda>u. True) w"
  by (simp add: trace_step_def succeeds_def)

lemma succeeds_host: "world_ok st w \<Longrightarrow> succeeds (world_ok st) (on_host f) (\<lambda>r. True) w"
  by (auto simp: on_host_def succeeds_def split: prod.splits)

lemma register_call_ok:
  assumes "length (cc_subpath call) \<le> 1" and "resolves m (readable st) (call_reference call) ts"
    and vs: "list_all2 has_type vs ts" and w: "world_ok st w"
  shows "succeeds (world_ok st) (evaluate_register_call m call vs) is_scalar w"
proof -
  obtain i r where r: "call_index vs = Inr i" "resolve_register m (call_reference call) i = Inr r"
      "readable st r"
    using resolves_at [OF assms(2) vs] by blast
  have "length vs \<le> 1"
    using assms(2) list_all2_lengthD [OF vs]
    by (auto simp: resolves_def index_choices_def split: list.splits option.splits sem_type.splits)
  then show ?thesis
    using assms(1) unfolding evaluate_register_call_def r(1,2) se_bind_lift
    by (simp add: not_less [symmetric] del: se_lift_simps)
      (rule succeeds_bind [OF resolved_read_ok [OF w r(3)]], rule succeeds_bind [OF succeeds_trace],
        simp_all add: succeeds_lift)
qed

lemma parse_width_ok:
  assumes "width_type t" and "has_type v t"
  shows "\<exists>width. parse_width v call = Inr width \<and> unat width \<le> 64"
proof -
  obtain n where "t = Bounded n" "n \<le> 65" using assms(1) by (cases t) (auto simp: width_type_def below_def)
  with assms(2) scalar_of_nat [of v n] obtain k where
    k: "as_int v = Inr (of_nat k)" "k < 65" by auto
  have u: "unat (of_nat k :: u64) = k" using k(2) by (simp add: unat_of_nat)
  have "sint (of_nat k :: u64) = uint (of_nat k :: u64)" by (rule sint_small) (use u k(2) in simp)
  also have "\<dots> = int (unat (of_nat k :: u64))" by (rule uint_nat)
  finally have s: "sint (of_nat k :: u64) = int k" unfolding u .
  have "\<not> (of_nat k :: u64) <s 0" by (simp add: word_sless_alt s)
  moreover have "unat (ucast (of_nat k :: u64) :: u32) = k" using k(2) by (simp add: unat_ucast u)
  ultimately show ?thesis
    using k s by (auto simp: parse_width_def word_less_nat_alt)
qed

lemma host_arith_ok:
  assumes "list_all2 has_type vs [a, b, c, d]" and "list_all scalar_sort [a, b, c]" "width_type d"
    and w: "world_ok st w"
  shows "succeeds (world_ok st) (host_arith kind f vs call)
    (\<lambda>v. has_type v (Product [Scalar, Bounded 2])) w"
proof -
  obtain v0 v1 v2 v3 where v: "vs = [v0, v1, v2, v3]" "has_type v0 a" "has_type v1 b" "has_type v2 c"
      "has_type v3 d"
    using assms(1) by (auto simp: list_all2_Cons2 simp del: has_type.simps)
  then have vs: "vs = [v0, v1, v2, v3]" "is_scalar v0" "is_scalar v1" "is_scalar v2" "has_type v3 d"
    using assms(2) has_type_scalar by auto
  obtain width where width: "parse_width v3 call = Inr width"
    using parse_width_ok [OF assms(3) vs(5)] by blast
  show ?thesis
    unfolding host_arith_def vs(1) list.case as_int_scalar [OF vs(2)] as_int_scalar [OF vs(3)]
      as_bool_scalar [OF vs(4)] width se_bind_lift
    by (rule succeeds_bind [OF succeeds_host [OF w]], rule succeeds_bind [OF succeeds_trace])
      (simp_all add: succeeds_lift)
qed

lemma host_mul_ok:
  assumes "list_all2 has_type vs [a, b, d]" and "list_all scalar_sort [a, b]" "width_type d"
    and w: "world_ok st w"
  shows "succeeds (world_ok st) (host_mul hs vs call)
    (\<lambda>v. has_type v (Product [Scalar, Scalar])) w"
proof -
  obtain v0 v1 v3 where v: "vs = [v0, v1, v3]" "has_type v0 a" "has_type v1 b" "has_type v3 d"
    using assms(1) by (auto simp: list_all2_Cons2 simp del: has_type.simps)
  then have vs: "vs = [v0, v1, v3]" "is_scalar v0" "is_scalar v1" "has_type v3 d"
    using assms(2) has_type_scalar by auto
  obtain width where width: "parse_width v3 call = Inr width"
    using parse_width_ok [OF assms(3) vs(4)] by blast
  show ?thesis
    unfolding host_mul_def vs(1) list.case as_int_scalar [OF vs(2)] as_int_scalar [OF vs(3)]
      width se_bind_lift
    by (rule succeeds_bind [OF succeeds_host [OF w]], rule succeeds_bind [OF succeeds_trace])
      (simp_all add: succeeds_lift)
qed

lemma builtin_ok:
  assumes sg: "builtin_signature m st call ts = Some t" and vs: "list_all2 has_type vs ts"
    and w: "world_ok st w"
  shows "succeeds (world_ok st) (evaluate_context_call hs m run call vs) (\<lambda>v. has_type v t) w"
proof (cases "cc_kind call")
  case RegisterCall
  with sg have "length (cc_subpath call) \<le> 1" "resolves m (readable st) (call_reference call) ts"
      "t = Scalar"
    by (auto simp: builtin_signature_def split: if_splits)
  with register_call_ok [OF _ _ vs w] RegisterCall show ?thesis
    by (simp add: evaluate_context_call_def)
next
  case HostCall
  have call: "evaluate_context_call hs m run call vs = evaluate_host_call hs call vs"
    by (simp add: evaluate_context_call_def HostCall)
  have path: "cc_subpath call = []" using sg HostCall by (simp add: builtin_signature_def split: if_splits)
  consider a b c d where "ts = [a, b, c, d]" "list_all scalar_sort [a, b, c]" "width_type d"
      "cc_name call = ''add'' \<or> cc_name call = ''sub''" "t = Product [Scalar, Bounded 2]"
    | a b d where "ts = [a, b, d]" "list_all scalar_sort [a, b]" "width_type d" "cc_name call = ''mul''"
      "t = Product [Scalar, Scalar]"
    using sg HostCall path
    by (auto simp: builtin_signature_def split: list.splits if_splits)
  then show ?thesis
  proof cases
    case 1
    note arith = host_arith_ok [OF vs [unfolded 1(1)] 1(2,3) w]
    show ?thesis
      using 1(4) arith unfolding call 1(5)
      by (auto simp: evaluate_host_call_def path host_add_def host_sub_def simp del: has_type.simps)
  next
    case 2
    note mul = host_mul_ok [OF vs [unfolded 2(1)] 2(2,3) w]
    show ?thesis
      using 2(4) mul unfolding call 2(5)
      by (simp add: evaluate_host_call_def path del: has_type.simps)
  qed
qed (use sg in \<open>simp_all add: builtin_signature_def\<close>)

lemma called_program_run:
  assumes "called_program m call = Some (names, program)"
  shows "evaluate_context_call hs m run call vs =
    se_bind (se_lift (bind_arguments m names vs call)) (\<lambda>params. invoke_program run params program)"
  using assms
  by (auto simp: called_program_def evaluate_context_call_def evaluate_macro_call_def
      evaluate_instruction_call_def bind_eq_Some_conv split: if_splits context_kind.splits)

lemma ctx_typed_params:
  "ctx_typed (map_option type_of \<circ> b) (context_new b)"
  by (auto simp: ctx_typed_def has_type_type_of)

lemma fold_params:
  "ctx_typed env (context_new b) \<Longrightarrow> list_all2 has_type vs ts \<Longrightarrow> length names = length ts \<Longrightarrow>
    ctx_typed (fold (\<lambda>(n, t) env. env(n \<mapsto> t)) (zip names ts) env)
      (context_new (fold (\<lambda>(n, v) ps. ps(n \<mapsto> v)) (zip names vs) b))"
proof (induction names arbitrary: ts vs env b)
  case (Cons n names)
  then obtain t ts' v vs' where c: "ts = t # ts'" "vs = v # vs'" "has_type v t"
      "list_all2 has_type vs' ts'" "length names = length ts'"
    by (cases ts; cases vs) (auto simp del: has_type.simps)
  have "ctx_typed (env(n \<mapsto> t)) (context_new (b(n \<mapsto> v)))"
    using Cons.prems(1) c(3) by (auto simp: ctx_typed_def)
  from Cons.IH [OF this c(4,5)] show ?case by (simp add: c(1,2) del: fun_upd_apply)
qed simp

lemma bind_arguments_ok:
  assumes "arguments_env m names ts = Some env" and "list_all2 has_type vs ts"
  shows "\<exists>params. bind_arguments m names vs call = Inr params \<and> ctx_typed env (context_new params)"
proof -
  obtain b where b: "base_parameters m = Inr b" "length names = length ts"
      "env = fold (\<lambda>(n, t) env. env(n \<mapsto> t)) (zip names ts) (map_option type_of \<circ> b)"
    using assms(1) by (auto simp: arguments_env_def split: if_splits)
  then show ?thesis
    using fold_params [OF ctx_typed_params assms(2) b(2)] list_all2_lengthD [OF assms(2)]
    by (simp add: bind_arguments_def)
qed

lemma runtime_contract:
  "frames_left stack = n \<Longrightarrow>
   statement_contract (evaluate_context_call hs m (run_stack hs m stack)) (call_signature m st n)
     (world_ok st) (writable st)"
proof (induction n arbitrary: stack)
  case 0
  show ?case
    by unfold_locales (simp_all add: builtin_ok resolved_write_ok del: has_type.simps)
next
  case (Suc n)
  then obtain frame where frame: "stack_enter stack = Inr frame" "frames_left frame = n"
    using stack_enter_frames(1,2) [of stack] by (cases "stack_enter stack") auto
  have run: "run_stack hs m stack params program = execute_statements m
      (evaluate_context_call hs m (run_stack hs m frame)) (context_new params) program"
    for params program
    by (subst run_stack.simps) (simp add: frame)
  note inner = statement_contract.statements_ok [OF Suc.IH [OF frame(2)]]
  have call: "succeeds (world_ok st) (evaluate_context_call hs m (run_stack hs m stack) call vs)
      (\<lambda>v. has_type v t) w"
    if w: "world_ok st w" and vs: "list_all2 has_type vs ts"
      and sg: "call_signature m st (Suc n) call ts = Some t" for w vs ts call t
  proof (cases "called_program m call")
    case None
    then show ?thesis using sg builtin_ok [OF _ vs w] by simp
  next
    case (Some np)
    then obtain names program where np: "called_program m call = Some (names, program)" by force
    then obtain env u where u: "arguments_env m names ts = Some env"
        "check_program m (writable st) (call_signature m st n) env program = Some u"
        "t = result_type u"
      using sg by (auto simp: bind_eq_Some_conv)
    obtain params where params: "bind_arguments m names vs call = Inr params"
        "ctx_typed env (context_new params)"
      using bind_arguments_ok [OF u(1) vs] by blast
    show ?thesis
      unfolding called_program_run [OF np] params(1) se_bind_lift invoke_program_def run
      by (rule succeeds_bind [OF inner [OF params(2) u(2) w]])
        (auto simp: u(3) returns_def result_type_def split: option.splits intro!: succeeds_lift)
  qed
  show ?case
    by unfold_locales (simp_all add: call resolved_write_ok del: has_type.simps call_signature.simps)
qed

interpretation runtime: statement_contract "evaluate_context_call hs m (run_stack hs m stack)"
  "call_signature m st (frames_left stack)" "world_ok st" "writable st" for hs m stack st
  by (rule runtime_contract) simp

end
