(* ===== verification/Analyzer.thy ===== *)
theory Analyzer
  imports MachineDesc
begin

text \<open>
  The static analysis of semantic programs (\<open>src/soc/isa/semantics/analyzer.rs\<close>): names must be
  defined before they are used, and the macros, instructions, host helpers and registers a program
  calls must exist with the right number of arguments.  Diagnostics are collected; an instruction
  whose form or space does not exist is an error at once.
\<close>

section \<open>Scopes and diagnostics\<close>

record analyzer_scope =
  as_parameters :: "string set"
  as_locals :: "string set"

definition scope_new :: "string list \<Rightarrow> analyzer_scope" where
  "scope_new params = \<lparr>as_parameters = set params, as_locals = {}\<rparr>"

definition has_variable :: "analyzer_scope \<Rightarrow> string \<Rightarrow> bool" where
  "has_variable sc name \<longleftrightarrow> name \<in> as_locals sc"

definition has_parameter :: "analyzer_scope \<Rightarrow> string \<Rightarrow> bool" where
  "has_parameter sc name \<longleftrightarrow> name \<in> as_parameters sc"

definition scope_define :: "string \<Rightarrow> analyzer_scope \<Rightarrow> analyzer_scope" where
  "scope_define name sc = sc\<lparr>as_locals := insert name (as_locals sc)\<rparr>"

definition push_diag ::
    "string \<Rightarrow> string \<Rightarrow> source_span option \<Rightarrow> isa_diagnostic list \<Rightarrow> isa_diagnostic list" where
  "push_diag code message span diags =
     diags @ [\<lparr>diag_phase = ValidationPhase, diag_level = ErrorLevel, diag_code = code,
       diag_message = message, diag_span = span\<rparr>]"

definition call_name :: "context_call \<Rightarrow> string" where
  "call_name call = quoted (CHR ''$'' # cc_space call @ ''::'' @ cc_name call)"

definition push_arity_diag ::
    "context_call \<Rightarrow> nat \<Rightarrow> nat \<Rightarrow> isa_diagnostic list \<Rightarrow> isa_diagnostic list" where
  "push_arity_diag call expected actual =
     push_diag ''semantics.call-arity''
       (fmt ''call {} expects {} arguments, got {}'' [call_name call, dec expected, dec actual])
       (Some (cc_span call))"

section \<open>Calls\<close>

definition find_register_info ::
    "machine_description \<Rightarrow> string \<Rightarrow> space_info \<Rightarrow> string \<Rightarrow> register_info option" where
  "find_register_info m space_name space register_name =
     (case map_of (sp_registers space) register_name of
        Some info \<Rightarrow> Some info
      | None \<Rightarrow>
          (case find_by_label (mc_schema m) space_name register_name of
             Some (meta, element) \<Rightarrow> map_of (sp_registers space) (rm_name meta)
           | None \<Rightarrow> None))"

definition validate_register_components ::
    "machine_description \<Rightarrow> string \<Rightarrow> string \<Rightarrow> string option \<Rightarrow> source_span option \<Rightarrow>
     isa_diagnostic list \<Rightarrow> isa_diagnostic list" where
  "validate_register_components m space_name register_name subfield span diags =
     (case map_of (mc_spaces m) space_name of
        None \<Rightarrow>
          push_diag ''semantics.unknown-register-space''
            (fmt ''register space {} is not defined'' [quoted space_name]) span diags
      | Some space \<Rightarrow>
          if sp_kind space \<noteq> RegisterSpace then
            push_diag ''semantics.invalid-register-space''
              (fmt ''space {} is not a register space'' [quoted space_name]) span diags
          else
            (case find_register_info m space_name space register_name of
               None \<Rightarrow>
                 push_diag ''semantics.unknown-register''
                   (fmt ''register {} is not defined''
                      [quoted (space_name @ ''::'' @ register_name)]) span diags
             | Some info \<Rightarrow>
                 (case subfield of
                    None \<Rightarrow> diags
                  | Some field \<Rightarrow>
                      if field \<in> set (map sf_name (ri_subfields info)) then diags
                      else
                        push_diag ''semantics.unknown-register-subfield''
                          (fmt ''register {} has no subfield {}''
                             [quoted (space_name @ ''::'' @ register_name), quoted field])
                          span diags)))"

definition validate_register_call ::
    "machine_description \<Rightarrow> context_call \<Rightarrow> isa_diagnostic list \<Rightarrow> isa_diagnostic list" where
  "validate_register_call m call =
     validate_register_components m (cc_space call) (cc_name call) (head_option (cc_subpath call))
       (Some (cc_span call))"

definition validate_register_reference ::
    "machine_description \<Rightarrow> register_ref \<Rightarrow> isa_diagnostic list \<Rightarrow> isa_diagnostic list" where
  "validate_register_reference m r =
     validate_register_components m (rr_space r) (rr_name r) (rr_subfield r) (rr_span r)"

definition validate_macro_call ::
    "machine_description \<Rightarrow> context_call \<Rightarrow> isa_diagnostic list \<Rightarrow> isa_diagnostic list" where
  "validate_macro_call m call diags =
     (case find (\<lambda>mac. mi_name mac = cc_name call) (mc_macros m) of
        Some mac \<Rightarrow>
          (let expected = length (mi_parameters mac)
           in if length (cc_args call) \<noteq> expected
              then push_arity_diag call expected (length (cc_args call)) diags else diags)
      | None \<Rightarrow>
          push_diag ''semantics.unknown-macro''
            (fmt ''macro {} does not exist'' [call_name call]) (Some (cc_span call)) diags)"

definition validate_instruction_call ::
    "machine_description \<Rightarrow> context_call \<Rightarrow> isa_diagnostic list \<Rightarrow> isa_error + isa_diagnostic list"
where
  "validate_instruction_call m call diags =
     (case filter (\<lambda>i. in_name i = cc_name call) (mc_instructions m) of
        [] \<Rightarrow>
          Inr (push_diag ''semantics.unknown-instruction''
            (fmt ''instruction {} does not exist'' [call_name call]) (Some (cc_span call)) diags)
      | [i] \<Rightarrow>
          rbind (instruction_operands m i) (\<lambda>operands.
            Inr (if length (cc_args call) \<noteq> length operands
                 then push_arity_diag call (length operands) (length (cc_args call)) diags
                 else diags))
      | i # j # rest \<Rightarrow>
          Inr (push_diag ''semantics.ambiguous-instruction''
            (fmt ''instruction call {} is ambiguous across spaces'' [call_name call])
            (Some (cc_span call)) diags))"

definition validate_host_call ::
    "context_call \<Rightarrow> isa_diagnostic list \<Rightarrow> isa_diagnostic list" where
  "validate_host_call call diags =
     (let actual = length (cc_args call); expect = (\<lambda>n.
            if actual \<noteq> n then push_arity_diag call n actual diags else diags)
      in if cc_name call = ''add'' \<or> cc_name call = ''sub'' then expect 4
         else if cc_name call = ''mul'' then expect 3
         else push_diag ''semantics.unknown-host''
                (fmt ''host helper {} is not supported'' [call_name call]) (Some (cc_span call)) diags)"

definition validate_context_call ::
    "machine_description \<Rightarrow> context_call \<Rightarrow> isa_diagnostic list \<Rightarrow> isa_error + isa_diagnostic list"
where
  "validate_context_call m call diags =
     (case cc_kind call of
        RegisterCall \<Rightarrow> Inr (validate_register_call m call diags)
      | MacroCall \<Rightarrow> Inr (validate_macro_call m call diags)
      | InstructionCall \<Rightarrow> validate_instruction_call m call diags
      | HostCall \<Rightarrow> Inr (validate_host_call call diags))"

section \<open>Expressions, statements and programs\<close>

fun validate_expr ::
    "machine_description \<Rightarrow> analyzer_scope \<Rightarrow> expr \<Rightarrow> isa_diagnostic list \<Rightarrow>
     isa_error + isa_diagnostic list"
  and validate_exprs ::
    "machine_description \<Rightarrow> analyzer_scope \<Rightarrow> expr list \<Rightarrow> isa_diagnostic list \<Rightarrow>
     isa_error + isa_diagnostic list" where
  "validate_expr m sc (Number n) diags = Inr diags"
| "validate_expr m sc (Variable name span) diags =
     Inr (if has_variable sc name then diags
          else push_diag ''semantics.undefined-variable''
                 (fmt ''variable {} is not defined in this scope'' [quoted name]) (Some span) diags)"
| "validate_expr m sc (Parameter name span) diags =
     Inr (if has_parameter sc name then diags
          else push_diag ''semantics.undefined-parameter''
                 (fmt ''parameter {} is not defined for this context'' [quoted (CHR ''#'' # name)])
                 (Some span) diags)"
| "validate_expr m sc (Call (ContextCall kind space name subpath args span)) diags =
     rbind (validate_exprs m sc args diags)
       (validate_context_call m (ContextCall kind space name subpath args span))"
| "validate_expr m sc (TupleExpr items) diags = validate_exprs m sc items diags"
| "validate_expr m sc (BinaryOp b lhs rhs) diags =
     rbind (validate_expr m sc lhs diags) (validate_expr m sc rhs)"
| "validate_expr m sc (BitSlice e sl) diags = validate_expr m sc e diags"
| "validate_exprs m sc [] diags = Inr diags"
| "validate_exprs m sc (e # es) diags =
     rbind (validate_expr m sc e diags) (validate_exprs m sc es)"

text \<open>The index expression of a register target is not looked at.\<close>

definition bind_target ::
    "machine_description \<Rightarrow> assign_target \<Rightarrow> analyzer_scope \<Rightarrow> isa_diagnostic list \<Rightarrow>
     analyzer_scope \<times> isa_diagnostic list" where
  "bind_target m target sc diags =
     (case target of
        VariableTarget name \<Rightarrow> (scope_define name sc, diags)
      | TupleTarget names \<Rightarrow> (fold scope_define names sc, diags)
      | RegisterTarget reference \<Rightarrow> (sc, validate_register_reference m reference diags))"

definition validate_statement ::
    "machine_description \<Rightarrow> semantic_stmt \<Rightarrow> analyzer_scope \<Rightarrow> isa_diagnostic list \<Rightarrow>
     isa_error + analyzer_scope \<times> isa_diagnostic list" where
  "validate_statement m stmt sc diags =
     (case stmt of
        Assign target e \<Rightarrow>
          rbind (validate_expr m sc e diags) (\<lambda>diags'. Inr (bind_target m target sc diags'))
      | ExprStmt e \<Rightarrow> rbind (validate_expr m sc e diags) (\<lambda>diags'. Inr (sc, diags'))
      | Return e \<Rightarrow> rbind (validate_expr m sc e diags) (\<lambda>diags'. Inr (sc, diags')))"

fun validate_statements ::
    "machine_description \<Rightarrow> semantic_program \<Rightarrow> analyzer_scope \<Rightarrow> isa_diagnostic list \<Rightarrow>
     isa_error + analyzer_scope \<times> isa_diagnostic list" where
  "validate_statements m [] sc diags = Inr (sc, diags)"
| "validate_statements m (stmt # stmts) sc diags =
     rbind (validate_statement m stmt sc diags) (\<lambda>(sc', diags').
       validate_statements m stmts sc' diags')"

definition validate_program ::
    "machine_description \<Rightarrow> semantic_program \<Rightarrow> analyzer_scope \<Rightarrow> isa_error + unit" where
  "validate_program m program sc =
     rbind (validate_statements m program sc []) (\<lambda>(sc', diags).
       if diags = [] then Inr () else Inl (Diagnostics ValidationPhase diags))"

text \<open>The global parameters are the keys of the machine's parameters.\<close>

definition global_params :: "machine_description \<Rightarrow> string list" where
  "global_params m = map fst (mc_parameters m)"

definition analyze_macro ::
    "machine_description \<Rightarrow> macro_info \<Rightarrow> semantic_program \<Rightarrow> isa_error + unit" where
  "analyze_macro m mac program =
     validate_program m program (scope_new (global_params m @ mi_parameters mac))"

definition analyze_instruction ::
    "machine_description \<Rightarrow> isa_instruction \<Rightarrow> semantic_program \<Rightarrow> isa_error + unit" where
  "analyze_instruction m instr program =
     rbind (instruction_operands m instr) (\<lambda>operands.
       validate_program m program (scope_new (global_params m @ operands)))"

end
