(* ===== verification/MachineBuild.thy ===== *)
theory MachineBuild
  imports Analyzer MachineDecode
begin

text \<open>
  Building a machine from the parsed documents (\<open>src/soc/isa/machine/mod.rs\<close>): the declarations are
  collected, spaces, forms, instructions, fields and macros are registered, and the patterns, decode
  spaces, register schema and semantic programs are derived.
\<close>

section \<open>Collecting the declarations\<close>

record collected_items =
  ci_spaces :: "space_decl list"
  ci_forms :: "form_decl list"
  ci_fields :: "field_decl list"
  ci_instructions :: "instruction_decl list"
  ci_macros :: "macro_decl list"
  ci_parameters :: "parameter_value string_map"

definition collect_item :: "isa_item \<Rightarrow> collected_items \<Rightarrow> collected_items" where
  "collect_item item c =
     (case item of
        SpaceItem space \<Rightarrow> c\<lparr>ci_spaces := ci_spaces c @ [space]\<rparr>
      | SpaceMemberItem member \<Rightarrow>
          (case smd_member member of
             FormMember form \<Rightarrow> c\<lparr>ci_forms := ci_forms c @ [form]\<rparr>
           | InstructionMember instr \<Rightarrow> c\<lparr>ci_instructions := ci_instructions c @ [instr]\<rparr>
           | FieldMember field \<Rightarrow> c\<lparr>ci_fields := ci_fields c @ [field]\<rparr>)
      | InstructionItem instr \<Rightarrow> c\<lparr>ci_instructions := ci_instructions c @ [instr]\<rparr>
      | MacroItem mac \<Rightarrow> c\<lparr>ci_macros := ci_macros c @ [mac]\<rparr>
      | ParameterItem p \<Rightarrow>
          c\<lparr>ci_parameters := map_insert (pd_name p) (pd_value p) (ci_parameters c)\<rparr>
      | IncludeItem inc \<Rightarrow> c)"

definition collect_documents :: "isa_specification list \<Rightarrow> collected_items" where
  "collect_documents docs =
     fold collect_item (concat (map is_items docs))
       \<lparr>ci_spaces = [], ci_forms = [], ci_fields = [], ci_instructions = [], ci_macros = [],
        ci_parameters = []\<rparr>"

section \<open>Registration\<close>

definition register_space :: "space_decl \<Rightarrow> machine_description \<Rightarrow> machine_description" where
  "register_space d m =
     (let info = space_from_decl d
      in m\<lparr>mc_spaces := map_insert (sp_name info) info (mc_spaces m)\<rparr>)"

definition register_form :: "form_decl \<Rightarrow> machine_description \<Rightarrow> isa_error + machine_description" where
  "register_form form m =
     (case map_of (mc_spaces m) (fm_space form) of
        None \<Rightarrow>
          Inl (machine_err ''form {} declared for unknown space {}''
                 [quoted (fm_name form), quoted (fm_space form)])
      | Some space \<Rightarrow>
          if sp_kind space \<noteq> LogicSpace then Inr m
          else
            rbind (add_form form space) (\<lambda>space'.
              Inr (m\<lparr>mc_spaces := map_insert (fm_space form) space' (mc_spaces m)\<rparr>)))"

definition register_field :: "field_decl \<Rightarrow> machine_description \<Rightarrow> isa_error + machine_description" where
  "register_field field m =
     (case map_of (mc_spaces m) (fd_space field) of
        None \<Rightarrow>
          Inl (machine_err ''field {} declared for unknown space {}''
                 [quoted (fd_name field), quoted (fd_space field)])
      | Some space \<Rightarrow>
          Inr (m\<lparr>mc_spaces := map_insert (fd_space field) (add_register_field field space)
                   (mc_spaces m)\<rparr>))"

definition register_instruction :: "instruction_decl \<Rightarrow> machine_description \<Rightarrow> machine_description"
where
  "register_instruction d m = m\<lparr>mc_instructions := mc_instructions m @ [instruction_from_decl d]\<rparr>"

definition register_macro :: "macro_decl \<Rightarrow> machine_description \<Rightarrow> machine_description" where
  "register_macro d m = m\<lparr>mc_macros := mc_macros m @ [macro_from_decl d]\<rparr>"

fun rfold :: "('a \<Rightarrow> 'b \<Rightarrow> 'e + 'b) \<Rightarrow> 'a list \<Rightarrow> 'b \<Rightarrow> 'e + 'b" where
  "rfold f [] b = Inr b"
| "rfold f (x # xs) b = rbind (f x b) (rfold f xs)"

definition rebuild_register_schema :: "machine_description \<Rightarrow> isa_error + machine_description" where
  "rebuild_register_schema m =
     rbind (schema_build (mc_spaces m)) (\<lambda>(schema, spaces).
       Inr (m\<lparr>mc_spaces := spaces, mc_schema := schema\<rparr>))"

section \<open>Compiling the semantics\<close>

text \<open>A compiled block keeps its program in its \<open>OnceLock\<close>, so the machine that is returned carries
  the compiled blocks.  The analyzer looks at names and signatures only.\<close>

definition compile_macro :: "machine_description \<Rightarrow> macro_info \<Rightarrow> isa_error + macro_info" where
  "compile_macro m mac =
     (let (r, block) = ensure_program (mi_semantics mac)
      in rbind r (\<lambda>program.
         rbind (analyze_macro m mac program) (\<lambda>_. Inr (mac\<lparr>mi_semantics := block\<rparr>))))"

definition compile_instruction ::
    "machine_description \<Rightarrow> isa_instruction \<Rightarrow> isa_error + isa_instruction" where
  "compile_instruction m instr =
     (case in_semantics instr of
        None \<Rightarrow> Inr instr
      | Some b \<Rightarrow>
          (let (r, block) = ensure_program b
           in rbind r (\<lambda>program.
              rbind (analyze_instruction m instr program) (\<lambda>_.
                Inr (instr\<lparr>in_semantics := Some block\<rparr>)))))"

fun rmap :: "('a \<Rightarrow> 'e + 'b) \<Rightarrow> 'a list \<Rightarrow> 'e + 'b list" where
  "rmap f [] = Inr []"
| "rmap f (x # xs) = rbind (f x) (\<lambda>y. rbind (rmap f xs) (\<lambda>ys. Inr (y # ys)))"

definition compile_semantics :: "machine_description \<Rightarrow> isa_error + machine_description" where
  "compile_semantics m =
     rbind (rmap (compile_macro m) (mc_macros m)) (\<lambda>macros.
     rbind (rmap (compile_instruction m) (mc_instructions m)) (\<lambda>instructions.
       Inr (m\<lparr>mc_macros := macros, mc_instructions := instructions\<rparr>)))"

definition from_documents :: "isa_specification list \<Rightarrow> isa_error + machine_description" where
  "from_documents docs =
     (let c = collect_documents docs;
          m0 = fold register_space (ci_spaces c) machine_new
      in rbind (rfold register_form (ci_forms c) m0) (\<lambda>m1.
         rbind (rfold register_field (ci_fields c)
                  (fold register_instruction (ci_instructions c) m1)) (\<lambda>m2.
         rbind (build_patterns
                  ((fold register_macro (ci_macros c) m2)\<lparr>mc_parameters := ci_parameters c\<rparr>)) (\<lambda>m3.
         rbind (build_decode_spaces m3) (\<lambda>m4.
         rbind (rebuild_register_schema m4) (\<lambda>m5.
           compile_semantics m5))))))"

text \<open>\<open>finalize_machine\<close> ignores the machine it is called on.\<close>

definition finalize_machine ::
    "machine_description \<Rightarrow> isa_specification list \<Rightarrow> isa_error + machine_description" where
  "finalize_machine m docs = from_documents docs"

end
