(* ===== verification/MachineCore.thy ===== *)
theory MachineCore
  imports MachineBuild CoreState
begin

text \<open>
  The layout of a core from a machine description (\<open>CoreSpec::from_machine\<close> of
  \<open>src/soc/core/specification.rs\<close>): every element of every register of the register spaces, by its
  label, at its declared byte offset or after the registers before it.
\<close>

section \<open>The layout\<close>

definition spec_default_bits :: u32 where
  "spec_default_bits = 64"

definition spec_bit_width :: "register_info \<Rightarrow> u32 \<Rightarrow> u32" where
  "spec_bit_width info fallback =
     (let width = (case ri_size_bits info of Some b \<Rightarrow> b | None \<Rightarrow> fallback)
      in if width = 0 then spec_default_bits else width)"

definition register_space_endianness :: "machine_description \<Rightarrow> endianness option" where
  "register_space_endianness m =
     map_option sp_endianness (find (\<lambda>s. sp_kind s = RegisterSpace) (map snd (mc_spaces m)))"

definition register_bit_offset :: "u64 option \<Rightarrow> u32 \<Rightarrow> u32 \<Rightarrow> u32 option" where
  "register_bit_offset offset_bytes ordinal width =
     Option.bind offset_bytes (\<lambda>base.
     Option.bind (checked_mul base 8) (\<lambda>base_bits.
     Option.bind (checked_mul (ucast ordinal) (ucast width)) (\<lambda>ordinal_bits.
     Option.bind (checked_add base_bits ordinal_bits) (\<lambda>total_bits.
       if unat total_bits < 2 ^ 32 then Some (ucast total_bits) else None))))"

definition append_register ::
    "string \<Rightarrow> string \<Rightarrow> u32 \<Rightarrow> u64 option \<Rightarrow> u32 \<Rightarrow> core_spec_builder \<Rightarrow> core_spec_builder" where
  "append_register space label width offset_bytes ordinal b =
     (let name = space @ ''::'' @ label
      in case register_bit_offset offset_bytes ordinal width of
           Some bit_offset \<Rightarrow> builder_register_at b name bit_offset width
         | None \<Rightarrow> builder_register b name width)"

text \<open>The elements of a register with their ordinals.\<close>

definition append_info ::
    "string \<Rightarrow> u32 \<Rightarrow> register_info \<Rightarrow> core_spec_builder \<Rightarrow> core_spec_builder" where
  "append_info space default_bits info b =
     (if ri_redirect info \<noteq> None then b
      else
        (let width = spec_bit_width info default_bits
         in case ri_range info of
              Some rng \<Rightarrow>
                fold (\<lambda>(ordinal, index). append_register space (register_format info (ucast index)) width
                          (ri_offset info) (of_nat ordinal))
                  (List.enumerate 0 (range_indices rng)) b
            | None \<Rightarrow> append_register space (register_format info 0) width (ri_offset info) 0 b))"

definition append_space :: "string \<times> space_info \<Rightarrow> core_spec_builder \<Rightarrow> core_spec_builder" where
  "append_space entry b =
     (let (space_name, space) = entry
      in if sp_kind space \<noteq> RegisterSpace then b
         else
           (let default_bits = (case sp_size_bits space of Some n \<Rightarrow> n | None \<Rightarrow> spec_default_bits)
            in fold (append_info space_name default_bits) (map snd (sp_registers space)) b))"

definition from_machine ::
    "string \<Rightarrow> machine_description \<Rightarrow> endianness option \<Rightarrow> core_spec_error list + core_spec" where
  "from_machine name m override =
     (let endian = (case override of
                      Some e \<Rightarrow> e
                    | None \<Rightarrow>
                        (case register_space_endianness m of Some e \<Rightarrow> e | None \<Rightarrow> Little))
      in builder_build (fold append_space (mc_spaces m) (builder_new name endian)))"

section \<open>Error texts\<close>

definition core_spec_error_text :: "core_spec_error \<Rightarrow> string" where
  "core_spec_error_text e =
     (case e of
        DuplicateRegister name \<Rightarrow> fmt ''register {} declared multiple times'' [quoted name]
      | InvalidWidth name width \<Rightarrow>
          fmt ''register {} must reserve at least 1 bit (got {})'' [quoted name, dec (unat width)])"

definition core_spec_build_error_text :: "core_spec_error list \<Rightarrow> string" where
  "core_spec_build_error_text es =
     (if es = [] then ''descriptor build failed''
      else
        fmt ''descriptor build failed with {} error(s):'' [dec (length es)] @ [CHR 0x0A] @
        concat (map (\<lambda>e. ''  - '' @ core_spec_error_text e @ [CHR 0x0A]) es))"

end
