(* ===== verification/MachineCoreFacts.thy ===== *)
theory MachineCoreFacts
  imports MachineCore
begin

text \<open>
  A machine and the core laid out for it agree: the register schema (\<open>RegisterSchema::build\<close>) and
  the core specification (\<open>CoreSpec::from_machine\<close>) enumerate the register elements of a machine
  independently; \<open>declared\<close> is the enumeration both are compared with.
\<close>

section \<open>The elements a machine declares\<close>

text \<open>Space, label, width, byte offset and ordinal of an element.\<close>

type_synonym element_entry = "string \<times> string \<times> u32 \<times> u64 option \<times> u32"

definition info_entries :: "string \<Rightarrow> u32 \<Rightarrow> register_info \<Rightarrow> element_entry list" where
  "info_entries space default_bits info =
     (if ri_redirect info \<noteq> None then []
      else
        (let width = spec_bit_width info default_bits
         in case ri_range info of
              Some rng \<Rightarrow>
                map (\<lambda>(ordinal, index).
                       (space, register_format info (ucast index), width, ri_offset info, of_nat ordinal))
                  (List.enumerate 0 (range_indices rng))
            | None \<Rightarrow> [(space, register_format info 0, width, ri_offset info, 0)]))"

definition space_entries :: "string \<times> space_info \<Rightarrow> element_entry list" where
  "space_entries entry =
     (let (space_name, space) = entry
      in if sp_kind space \<noteq> RegisterSpace then []
         else
           concat (map (info_entries space_name
                          (case sp_size_bits space of Some n \<Rightarrow> n | None \<Rightarrow> spec_default_bits))
                     (map snd (sp_registers space))))"

definition declared :: "space_info string_map \<Rightarrow> element_entry list" where
  "declared spaces = concat (map space_entries spaces)"

definition append_entry :: "element_entry \<Rightarrow> core_spec_builder \<Rightarrow> core_spec_builder" where
  "append_entry = (\<lambda>(space, label, width, offset, ordinal). append_register space label width offset ordinal)"

definition entry_name :: "element_entry \<Rightarrow> string" where
  "entry_name = (\<lambda>(space, label, width, offset, ordinal). space @ ''::'' @ label)"

definition entry_width :: "element_entry \<Rightarrow> u32" where
  "entry_width = (\<lambda>(space, label, width, offset, ordinal). width)"

lemma fold_concat_map: "fold f (concat (map g xs)) = fold (\<lambda>x. fold f (g x)) xs"
  by (induction xs) auto

lemma append_info_entries: "append_info space bits info = fold append_entry (info_entries space bits info)"
  by (rule ext)
    (auto simp: append_info_def info_entries_def append_entry_def Let_def fold_map comp_def
      case_prod_unfold split: option.split)

lemma append_space_entries: "append_space = (\<lambda>entry. fold append_entry (space_entries entry))"
  by (intro ext)
    (auto simp: append_space_def space_entries_def fold_concat_map append_info_entries Let_def
      fold_map comp_def split: prod.split)

lemma append_declared: "fold append_space spaces = fold append_entry (declared spaces)"
  by (simp add: declared_def fold_concat_map append_space_entries)

section \<open>The specification lays out every element\<close>

lemma builder_register_errors:
  assumes "sb_errors (builder_register b name n) = []"
  shows "sb_errors b = []" and "n \<noteq> 0"
    and "\<exists>off. sb_registers (builder_register b name n) =
      sb_registers b @ [\<lparr>rs_name = name, rs_bit_offset = off, rs_bit_len = n\<rparr>]"
  using assms by (auto simp: builder_register_def push_spec_def Let_def split: if_splits)

lemma builder_register_at_errors:
  assumes "sb_errors (builder_register_at b name o' n) = []"
  shows "sb_errors b = []" and "n \<noteq> 0"
    and "\<exists>off. sb_registers (builder_register_at b name o' n) =
      sb_registers b @ [\<lparr>rs_name = name, rs_bit_offset = off, rs_bit_len = n\<rparr>]"
  using assms by (auto simp: builder_register_at_def push_spec_def Let_def split: if_splits)

lemma append_entry_effect:
  assumes "sb_errors (append_entry en b) = []"
  shows "sb_errors b = []"
    and "\<exists>off. sb_registers (append_entry en b) =
      sb_registers b @ [\<lparr>rs_name = entry_name en, rs_bit_offset = off, rs_bit_len = entry_width en\<rparr>]"
proof -
  obtain space label width offset ordinal where en: "en = (space, label, width, offset, ordinal)"
    by (cases en) auto
  show "sb_errors b = []"
    using assms unfolding en
    by (auto simp: append_entry_def append_register_def Let_def split: option.splits
        dest: builder_register_errors(1) builder_register_at_errors(1))
  show "\<exists>off. sb_registers (append_entry en b) =
      sb_registers b @ [\<lparr>rs_name = entry_name en, rs_bit_offset = off, rs_bit_len = entry_width en\<rparr>]"
    using assms unfolding en
    by (auto simp: append_entry_def append_register_def entry_name_def entry_width_def Let_def
        split: option.splits dest: builder_register_errors(3) builder_register_at_errors(3))
qed

lemma append_entry_wf: "builder_wf b \<Longrightarrow> builder_wf (append_entry en b)"
  by (auto simp: append_entry_def append_register_def Let_def builder_wf_register builder_wf_register_at
      split: option.split prod.split)

lemma append_entries:
  assumes "sb_errors (fold append_entry ens b) = []" and "builder_wf b"
  shows "builder_wf (fold append_entry ens b) \<and>
    set (sb_registers b) \<subseteq> set (sb_registers (fold append_entry ens b)) \<and>
    (\<forall>en \<in> set ens. \<exists>r \<in> set (sb_registers (fold append_entry ens b)).
      rs_name r = entry_name en \<and> rs_bit_len r = entry_width en) \<and>
    sb_errors b = []"
  using assms
proof (induction ens arbitrary: b)
  case (Cons en ens)
  let ?b = "append_entry en b"
  have ih: "builder_wf (fold append_entry ens ?b)"
      "set (sb_registers ?b) \<subseteq> set (sb_registers (fold append_entry ens ?b))"
      "\<forall>en \<in> set ens. \<exists>r \<in> set (sb_registers (fold append_entry ens ?b)).
        rs_name r = entry_name en \<and> rs_bit_len r = entry_width en" "sb_errors ?b = []"
    using Cons.IH [OF _ append_entry_wf [OF Cons.prems(2), of en]] Cons.prems(1) by simp_all
  obtain off where "sb_registers ?b =
      sb_registers b @ [\<lparr>rs_name = entry_name en, rs_bit_offset = off, rs_bit_len = entry_width en\<rparr>]"
    using append_entry_effect(2) [OF ih(4)] by blast
  with ih(2) have "\<exists>r \<in> set (sb_registers (fold append_entry ens ?b)).
      rs_name r = entry_name en \<and> rs_bit_len r = entry_width en"
    and "set (sb_registers b) \<subseteq> set (sb_registers (fold append_entry ens ?b))"
    by (auto intro!: bexI [of _ "\<lparr>rs_name = entry_name en, rs_bit_offset = off, rs_bit_len = entry_width en\<rparr>"])
  with ih(1,3) append_entry_effect(1) [OF ih(4)] show ?case by simp
qed simp

lemma from_machine_declared:
  assumes "from_machine name m eo = Inr spec"
  shows "distinct (map rs_name (cs_registers spec))"
    and "\<forall>en \<in> set (declared (mc_spaces m)). \<exists>r. cs_register spec (entry_name en) = Some r \<and>
      r \<in> set (cs_registers spec) \<and> rs_name r = entry_name en \<and> rs_bit_len r = entry_width en"
    and "\<forall>r \<in> set (cs_registers spec). rs_bit_len r \<noteq> 0"
proof -
  obtain e where "builder_build (fold append_space (mc_spaces m) (builder_new name e)) = Inr spec"
    using assms by (auto simp: from_machine_def Let_def)
  then obtain b where b: "b = fold append_entry (declared (mc_spaces m)) (builder_new name e)"
      "builder_build b = Inr spec" by (simp add: append_declared)
  then have err: "sb_errors b = []" and regs: "cs_registers spec = sort_key rs_bit_offset (sb_registers b)"
    and idx: "cs_index spec = index_names (cs_registers spec)"
    by (auto simp: builder_build_def Let_def split: if_splits)
  note app = append_entries [OF err [unfolded b(1)] builder_wf_new, folded b(1)]
  note app = app [THEN conjunct1] app [THEN conjunct2, THEN conjunct1]
    app [THEN conjunct2, THEN conjunct2, THEN conjunct1]
  show dist: "distinct (map rs_name (cs_registers spec))"
    using app(1) by (simp add: regs builder_wf_def distinct_map inj_on_def)
  show "\<forall>en \<in> set (declared (mc_spaces m)). \<exists>r. cs_register spec (entry_name en) = Some r \<and>
      r \<in> set (cs_registers spec) \<and> rs_name r = entry_name en \<and> rs_bit_len r = entry_width en"
    using app(3) cs_register_iff [OF dist idx] by (auto simp: regs)
  show "\<forall>r \<in> set (cs_registers spec). rs_bit_len r \<noteq> 0"
    using app(1) by (auto simp: regs builder_wf_def)
qed

section \<open>The schema has no other elements\<close>

definition pending_entries :: "pending_register \<Rightarrow> (string \<times> u32) list" where
  "pending_entries p =
     map (\<lambda>e. (fst (pr_key p) @ ''::'' @ pe_label e, pr_bit_width p)) (pr_elements p)"

definition entry_pairs :: "element_entry list \<Rightarrow> (string \<times> u32) set" where
  "entry_pairs ens = (\<lambda>en. (entry_name en, entry_width en)) ` set ens"

lemma entry_pairs_append [simp]: "entry_pairs (xs @ ys) = entry_pairs xs \<union> entry_pairs ys"
  by (auto simp: entry_pairs_def)

lemma entry_pairs_Nil [simp]: "entry_pairs [] = {}"
  by (simp add: entry_pairs_def)

lemma declared_Cons [simp]: "declared (x # xs) = space_entries x @ declared xs"
  by (simp add: declared_def)

lemma set_type_handles_simps [simp]:
  "ri_name (set_type_handles h info) = ri_name info"
  "ri_range (set_type_handles h info) = ri_range info"
  "ri_size_bits (set_type_handles h info) = ri_size_bits info"
  "ri_offset (set_type_handles h info) = ri_offset info"
  "ri_redirect (set_type_handles h info) = ri_redirect info"
  "ri_display (set_type_handles h info) = ri_display info"
  by (simp_all add: set_type_handles_def)

lemma register_format_handles [simp]:
  "register_format (set_type_handles h info) = register_format info"
  by (rule ext, cases "ri_display info"; cases "ri_range info") (simp_all add: register_format_def)

lemma info_entries_handles [simp]:
  "info_entries space bits (set_type_handles h info) = info_entries space bits info"
  by (simp add: info_entries_def spec_bit_width_def Let_def split: option.split)

definition pending_ok :: "element_entry list \<Rightarrow> pending_register \<Rightarrow> bool" where
  "pending_ok ens p \<longleftrightarrow> set (pending_entries p) \<subseteq> entry_pairs ens \<and> pr_bit_width p \<le> 64"

lemma pending_ok_append:
  "pending_ok xs p \<Longrightarrow> pending_ok (xs @ ys) p" "pending_ok ys p \<Longrightarrow> pending_ok (xs @ ys) p"
  by (auto simp: pending_ok_def)

lemma build_entry_pairs:
  assumes "build_register_entry space order bits info s = Inr (p, s')" and "ri_redirect info = None"
  shows "pending_ok (info_entries space bits info) p"
proof -
  let ?w = "case ri_size_bits info of Some b \<Rightarrow> b | None \<Rightarrow> bits"
  have p: "pr_key p = (space, ri_name info)" "pr_bit_width p = ?w" "?w \<noteq> 0" "?w \<le> max_register_bits"
      "pr_elements p = materialize_elements info"
    using assms(1)
    by (auto simp: build_register_entry_def Let_def rbind_Inr_iff case_prod_unfold split: if_splits)
  have le: "pr_bit_width p \<le> 64" using p(2,4) by (simp add: max_register_bits_def)
  from p have w: "spec_bit_width info bits = ?w" by (simp add: spec_bit_width_def Let_def)
  show ?thesis
  proof (cases "ri_range info")
    case None
    then show ?thesis
      by (simp add: pending_ok_def le) (simp add: pending_entries_def p materialize_elements_def info_entries_def assms(2) w
          entry_pairs_def entry_name_def entry_width_def)
  next
    case (Some rng)
    have "snd ` set (List.enumerate 0 (range_indices rng)) = set (range_indices rng)"
      by (metis image_set map_snd_enumerate)
    then show ?thesis
      unfolding pending_ok_def
      by (intro conjI le) (force simp: pending_entries_def p materialize_elements_def info_entries_def assms(2) w Some
          entry_pairs_def entry_name_def entry_width_def image_iff)
  qed
qed

lemma build_registers_pairs:
  assumes "build_registers space order bits rs s = Inr ((ps, rs'), s')"
  shows "(\<forall>p \<in> set ps. pending_ok (concat (map (info_entries space bits) (map snd rs))) p) \<and>
    concat (map (info_entries space bits) (map snd rs')) =
      concat (map (info_entries space bits) (map snd rs))"
  using assms
proof (induction space order bits rs s arbitrary: ps rs' s' rule: build_registers.induct)
  case (2 space order bits name info rs s)
  show ?case
  proof (cases "ri_redirect info")
    case None
    then obtain p s1 qs rs1 where e: "build_register_entry space order bits info s = Inr (p, s1)"
        "build_registers space order bits rs s1 = Inr ((qs, rs1), s')" "ps = p # qs"
        and rs': "rs' = (name, set_type_handles
          \<lparr>rh_structure = pr_structure p, rh_array = pr_array p\<rparr> info) # rs1"
      using 2(3) by (auto simp: rbind_Inr_iff Let_def)
    note ih = 2(2) [OF _ e(1) refl refl e(2)]
    let ?E = "\<lambda>rs. concat (map (info_entries space bits) (map snd rs))"
    from ih None have sub: "\<forall>p \<in> set qs. pending_ok (?E rs) p"
      and eq: "?E rs1 = ?E rs" by blast+
    have "?E rs' = info_entries space bits info @ ?E rs" using eq by (simp add: rs')
    moreover have "\<forall>q \<in> set ps. pending_ok (info_entries space bits info @ ?E rs) q"
      using sub build_entry_pairs [OF e(1) None] unfolding e(3) by (auto intro: pending_ok_append)
    ultimately show ?thesis by simp
  next
    case (Some r)
    then obtain rs1 where e: "build_registers space order bits rs s = Inr ((ps, rs1), s')"
        "rs' = (name, info) # rs1"
      using 2(3) by (auto simp: rbind_Inr_iff)
    have "info_entries space bits info = []" using Some by (simp add: info_entries_def)
    then show ?thesis using 2(1) [OF _ e(1)] Some unfolding e(2) by simp
  qed
qed simp

lemma build_spaces_pairs:
  assumes "build_spaces sps s = Inr ((ps, sps'), s')"
  shows "(\<forall>p \<in> set ps. pending_ok (declared sps) p) \<and>
    declared sps' = declared sps"
  using assms
proof (induction sps s arbitrary: ps sps' s' rule: build_spaces.induct)
  case (2 name space sps s)
  let ?bits = "case sp_size_bits space of Some b \<Rightarrow> b | None \<Rightarrow> default_register_bits"
  have bits: "?bits = (case sp_size_bits space of Some n \<Rightarrow> n | None \<Rightarrow> spec_default_bits)"
    by (simp add: default_register_bits_def spec_default_bits_def split: option.split)
  show ?case
  proof (cases "sp_kind space = RegisterSpace")
    case True
    then obtain ps1 rs s1 qs sps1 where e:
        "build_registers name (sp_endianness space) ?bits (sp_registers space) s = Inr ((ps1, rs), s1)"
        "build_spaces sps s1 = Inr ((qs, sps1), s')" "ps = ps1 @ qs"
        "sps' = (name, space\<lparr>sp_registers := rs\<rparr>) # sps1"
      using 2(3) by (auto simp: rbind_Inr_iff Let_def)
    let ?E = "\<lambda>rs. concat (map (info_entries name ?bits) (map snd rs))"
    have sub: "\<forall>p \<in> set qs. pending_ok (declared sps) p"
      and eq: "declared sps1 = declared sps"
      using 2(2) [OF _ refl e(1) refl refl e(2)] True by blast+
    have sub1: "\<forall>p \<in> set ps1. pending_ok (?E (sp_registers space)) p"
      and eq1: "?E rs = ?E (sp_registers space)"
      using build_registers_pairs [OF e(1)] by blast+
    have new: "declared sps' = ?E rs @ declared sps1"
      using True by (simp add: e(4) space_entries_def bits)
    have old: "declared ((name, space) # sps) = ?E (sp_registers space) @ declared sps"
      using True by (simp add: space_entries_def bits)
    have "\<forall>p \<in> set ps. pending_ok (declared ((name, space) # sps)) p"
      using sub sub1 unfolding old e(3) by (auto intro: pending_ok_append)
    then show ?thesis unfolding new old eq eq1 by blast
  next
    case False
    then obtain sps1 where e: "build_spaces sps s = Inr ((ps, sps1), s')"
        "sps' = (name, space) # sps1"
      using 2(3) by (auto simp: rbind_Inr_iff)
    have "space_entries (name, space) = []" using False by (simp add: space_entries_def)
    then show ?thesis using 2(1) [OF _ e(1)] False unfolding e(2) by simp
  qed
qed (simp add: declared_def)

section \<open>What the schema commits\<close>

definition metadata_entries :: "register_metadata \<Rightarrow> (string \<times> u32) list" where
  "metadata_entries meta =
     map (\<lambda>e. (rm_space meta @ ''::'' @ re_label e, rm_bit_width meta)) (rm_elements meta)"

lemma commit_elements_labels:
  "commit_elements p bytes es t = Inr (xs, t') \<Longrightarrow> map re_label xs = map pe_label es"
  by (induction p bytes es t arbitrary: xs t' rule: commit_elements.induct)
    (auto simp: rbind_Inr_iff commit_element_def)

lemma commit_register_entries:
  assumes "commit_register p t = Inr (meta, t')"
  shows "metadata_entries meta = pending_entries p" and "rm_bit_width meta = pr_bit_width p"
proof -
  obtain es t1 t2 bytes where "commit_elements p bytes (pr_elements p) t1 = Inr (es, t2)"
      "rm_elements meta = es" and meta: "rm_space meta = fst (pr_key p)" "rm_bit_width meta = pr_bit_width p"
    using assms by (auto simp: commit_register_def Let_def rbind_Inr_iff)
  then have "map re_label (rm_elements meta) = map pe_label (pr_elements p)"
    using commit_elements_labels by blast
  then have "map ((\<lambda>l. (rm_space meta @ ''::'' @ l, rm_bit_width meta)) \<circ> re_label) (rm_elements meta) =
      map ((\<lambda>l. (rm_space meta @ ''::'' @ l, rm_bit_width meta)) \<circ> pe_label) (pr_elements p)"
    by (metis map_map)
  then show "metadata_entries meta = pending_entries p"
    by (simp add: metadata_entries_def pending_entries_def meta comp_def)
  show "rm_bit_width meta = pr_bit_width p" by (rule meta)
qed

lemma set_map_insert: "x \<in> set (map_insert k v m) \<Longrightarrow> x = (k, v) \<or> x \<in> set m"
  by (induction k v m rule: map_insert.induct) (auto split: if_splits)

lemma commit_registers_entries:
  assumes "commit_registers ps t acc = Inr (regs, t')" and "x \<in> set regs"
  shows "x \<in> set acc \<or> (\<exists>p \<in> set ps. metadata_entries (snd x) = pending_entries p \<and>
    rm_bit_width (snd x) = pr_bit_width p)"
  using assms
proof (induction ps t acc rule: commit_registers.induct)
  case (2 p ps t acc)
  then obtain meta t1 where m: "commit_register p t = Inr (meta, t1)"
      "commit_registers ps t1 (map_insert (rm_space meta, rm_name meta) meta acc) = Inr (regs, t')"
    by (auto simp: rbind_Inr_iff)
  from 2(1) [OF m(1) refl m(2) 2(3)] show ?case
    using commit_register_entries [OF m(1)] by (auto dest: set_map_insert)
qed simp

lemma schema_entries_declared:
  assumes "schema_build sps = Inr (schema, sps')" and "(k, meta) \<in> set (rg_registers schema)"
  shows "set (metadata_entries meta) \<subseteq> entry_pairs (declared sps')" and "rm_bit_width meta \<le> 64"
proof -
  obtain ps s t t' where b: "build_spaces sps \<lparr>sc_arena = arena_new, sc_cache = (\<lambda>b. None)\<rparr> = Inr ((ps, sps'), s)"
      "commit_registers ps t [] = Inr (rg_registers schema, t')"
    using assms(1) by (auto simp: schema_build_def rbind_Inr_iff Let_def)
  then obtain p where p: "p \<in> set ps" "metadata_entries meta = pending_entries p"
      "rm_bit_width meta = pr_bit_width p"
    using commit_registers_entries [OF b(2) assms(2)] by auto
  then have "pending_ok (declared sps') p" using build_spaces_pairs [OF b(1)] by metis
  with p show "set (metadata_entries meta) \<subseteq> entry_pairs (declared sps')" and "rm_bit_width meta \<le> 64"
    by (simp_all add: pending_ok_def)
qed

section \<open>From the documents to the core\<close>

lemma from_documents_schema:
  assumes "from_documents docs = Inr m"
  shows "\<exists>sps. schema_build sps = Inr (mc_schema m, mc_spaces m)"
  using assms
  by (auto simp: from_documents_def Let_def rbind_Inr_iff rebuild_register_schema_def
      compile_semantics_def)

text \<open>Whatever a reference resolves to is an element of a register of the schema.\<close>

lemma find_label_member:
  "find_label space label ms = Some (meta, e) \<Longrightarrow>
    (\<exists>k. (k, meta) \<in> set ms) \<and> e \<in> set (rm_elements meta)"
  by (induction space label ms rule: find_label.induct)
    (auto split: if_splits option.splits simp: find_Some_iff)

lemma laid_out_element:
  assumes "from_documents docs = Inr m" and "from_machine name m eo = Inr spec"
    and "(k, meta) \<in> set (rg_registers (mc_schema m))" and "e \<in> set (rm_elements meta)"
  shows "\<exists>r. cs_register spec (rm_space meta @ ''::'' @ re_label e) = Some r \<and>
    r \<in> set (cs_registers spec) \<and> rs_name r = rm_space meta @ ''::'' @ re_label e \<and>
    rs_bit_len r = rm_bit_width meta" and "rm_bit_width meta \<le> 64"
proof -
  obtain sps where "schema_build sps = Inr (mc_schema m, mc_spaces m)"
    using from_documents_schema [OF assms(1)] by blast
  note sub = schema_entries_declared(1) [OF this assms(3)]
    and le = schema_entries_declared(2) [OF this assms(3)]
  have "(rm_space meta @ ''::'' @ re_label e, rm_bit_width meta) \<in> set (metadata_entries meta)"
    using assms(4) by (auto simp: metadata_entries_def)
  then obtain en where "en \<in> set (declared (mc_spaces m))"
      "entry_name en = rm_space meta @ ''::'' @ re_label e" "entry_width en = rm_bit_width meta"
    using sub by (auto simp: entry_pairs_def)
  then show "\<exists>r. cs_register spec (rm_space meta @ ''::'' @ re_label e) = Some r \<and>
    r \<in> set (cs_registers spec) \<and> rs_name r = rm_space meta @ ''::'' @ re_label e \<and>
    rs_bit_len r = rm_bit_width meta"
    using from_machine_declared(2) [OF assms(2)] by metis
  show "rm_bit_width meta \<le> 64" by (rule le)
qed

end
