(* ===== verification/Emulator.thy ===== *)
theory Emulator
  imports RuntimeFacts MachineCoreFacts
begin

text \<open>
  The parts together: a machine built from documents, the core laid out for it, and semantic programs
  run on that core.  The first section connects the registers a program can name with the core; the
  others state the properties of execution.
\<close>

section \<open>Registers a program can name\<close>

lemma select_element_member:
  "select_element meta name index = Inr e \<Longrightarrow> e \<in> set (rm_elements meta)"
  by (auto simp: select_element_def rbind_Inr_iff head_option_def find_Some_iff
      split: if_splits option.splits list.splits)

lemma try_resolve_member:
  assumes "try_resolve_direct m space name sub index al display = Inr (Some r)"
  shows "(\<exists>k. (k, rx_metadata r) \<in> set (rg_registers (mc_schema m))) \<and>
    rx_element r \<in> set (rm_elements (rx_metadata r)) \<and>
    rx_resolved_name r = rm_space (rx_metadata r) @ ''::'' @ re_label (rx_element r)"
proof (cases "schema_lookup (mc_schema m) space name")
  case (Some meta)
  then obtain e f where "select_element meta name index = Inr e"
      "r = resolved_new meta e f (rg_types (mc_schema m)) display"
    using assms by (auto simp: try_resolve_direct_def Let_def rbind_Inr_iff)
  with Some select_element_member show ?thesis
    by (auto simp: resolved_new_def schema_lookup_def dest: map_of_SomeD)
next
  case None
  then obtain meta e f where "find_by_label (mc_schema m) space name = Some (meta, e)"
      "r = resolved_new meta e f (rg_types (mc_schema m)) display"
    using assms
    by (auto simp: try_resolve_direct_def Let_def rbind_Inr_iff split: option.splits if_splits)
  then show ?thesis
    using find_label_member by (fastforce simp: resolved_new_def find_by_label_def)
qed

lemma resolve_member:
  assumes "resolve_register m reference index = Inr r"
  shows "\<exists>k. (k, rx_metadata r) \<in> set (rg_registers (mc_schema m))"
    and "rx_element r \<in> set (rm_elements (rx_metadata r))"
    and "rx_resolved_name r = rm_space (rx_metadata r) @ ''::'' @ re_label (rx_element r)"
proof -
  obtain space name sub al display where
    "try_resolve_direct m space name sub index al display = Inr (Some r)"
    using assms
    by (auto simp: resolve_register_def Let_def rbind_Inr_iff split: option.splits)
  note member = try_resolve_member [OF this]
  then show "\<exists>k. (k, rx_metadata r) \<in> set (rg_registers (mc_schema m))"
    and "rx_element r \<in> set (rm_elements (rx_metadata r))"
    and "rx_resolved_name r = rm_space (rx_metadata r) @ ''::'' @ re_label (rx_element r)"
    by blast+
qed

text \<open>No register of the layout wraps around the 32-bit offsets.\<close>

definition extents_ok :: "core_spec \<Rightarrow> bool" where
  "extents_ok spec \<longleftrightarrow>
     list_all (\<lambda>r. unat (rs_bit_offset r) + unat (rs_bit_len r) \<le> unat (cs_total_bits spec))
       (cs_registers spec)"

lemma resolved_served:
  assumes m: "from_documents docs = Inr m" and spec: "from_machine name m eo = Inr spec"
    and ext: "extents_ok spec" and st: "st_registers st = layout_map (cs_registers spec)"
      "length (snapshot st) = align_byte_len (cs_byte_len spec)"
    and r: "resolve_register m reference index = Inr r"
  shows "register_ok st (rx_resolved_name r)" and "rm_bit_width (rx_metadata r) \<le> 64"
    and "\<exists>p. register_window st (rx_resolved_name r) = Some (p, unat (rm_bit_width (rx_metadata r)))"
proof -
  note rm = resolve_member [OF r]
  then obtain k where k: "(k, rx_metadata r) \<in> set (rg_registers (mc_schema m))" by blast
  note out = laid_out_element [OF m spec k rm(2)]
  show le: "rm_bit_width (rx_metadata r) \<le> 64" by (rule out(2))
  obtain x where x: "x \<in> set (cs_registers spec)" "rs_name x = rx_resolved_name r"
      "rs_bit_len x = rm_bit_width (rx_metadata r)"
    using out(1) rm(3) by metis
  have "unat (rs_bit_len x) \<le> 64" using le by (simp add: x(3) word_le_nat_alt)
  then have fit: "unat (rs_bit_offset x) mod 64 + unat (rs_bit_len x) \<le> 128"
    using mod_less_divisor [of 64 "unat (rs_bit_offset x)"] by linarith
  have "rs_bit_len x \<noteq> 0" using from_machine_declared(3) [OF spec] x(1) by blast
  moreover have "unat (rs_bit_offset x) + unat (rs_bit_len x) \<le> unat (cs_total_bits spec)"
    using ext x(1) by (simp add: extents_ok_def list_all_iff)
  ultimately have "register_ok st (rs_name x)"
    and "register_window st (rs_name x) = Some (unat (rs_bit_offset x), unat (rs_bit_len x))"
    using spec_register [OF from_machine_declared(1) [OF spec] x(1) _ _ fit st] by blast+
  then show "register_ok st (rx_resolved_name r)"
    and "\<exists>p. register_window st (rx_resolved_name r) = Some (p, unat (rm_bit_width (rx_metadata r)))"
    by (simp_all add: x)
qed

text \<open>C6: Every register a program can name exists in the core: for a machine built from documents and
  a little-endian core laid out for it, the core can be created, and every register reference that
  resolves, with any index and through any redirect, is served by the snapshot and reads zero.\<close>

theorem resolvable_registers_exist:
  assumes "from_documents docs = Inr m" and "from_machine name m eo = Inr spec"
    and "extents_ok spec" and "cs_endianness spec = Little"
  shows "\<exists>st. core_state_new spec = Inr st \<and> core_ok st \<and>
    (\<forall>reference index r. resolve_register m reference index = Inr r \<longrightarrow>
       register_ok st (rx_resolved_name r) \<and> fst (read_raw r st) = Inr 0)"
proof -
  from core_state_new_ok [OF assms(4)] obtain st where st: "core_state_new spec = Inr st" "core_ok st"
      "snapshot st = replicate (align_byte_len (cs_byte_len spec)) 0"
      "st_registers st = layout_map (cs_registers spec)"
    by blast
  have len: "length (snapshot st) = align_byte_len (cs_byte_len spec)" by (simp add: st(3))
  have "register_ok st (rx_resolved_name r) \<and> fst (read_raw r st) = Inr 0"
    if "resolve_register m reference index = Inr r" for reference index r
  proof -
    note ok = resolved_served [OF assms(1-3) st(4) len that]
    obtain c where "read_register st (rx_resolved_name r) = (Inr 0, c)"
      using fresh_reads_zero [OF st(2,3) ok(1)] by (metis eq_fst_iff)
    then show ?thesis
      using ok(1,2) by (simp add: read_raw_def map_state_def not_less [symmetric])
  qed
  with st(1,2) show ?thesis by blast
qed

section \<open>Writing and reading through the schema\<close>

text \<open>The hypotheses on a resolved register that the core of its machine satisfies.\<close>

definition served :: "core_state \<Rightarrow> resolved_register \<Rightarrow> bool" where
  "served st r \<longleftrightarrow>
     core_ok st \<and> register_ok st (rx_resolved_name r) \<and> rm_bit_width (rx_metadata r) \<le> 64 \<and>
     map_option snd (register_window st (rx_resolved_name r)) =
       Some (unat (rm_bit_width (rx_metadata r)))"

lemma served_raw:
  assumes "served st r"
  obtains p c st1 where "read_raw r st = (Inr c, st1)" "core_ok st1" "snapshot st1 = snapshot st"
    "st_registers st1 = st_registers st"
    "register_window st (rx_resolved_name r) = Some (p, unat (rm_bit_width (rx_metadata r)))"
    "is_bits_at (snapshot st) p (unat (rm_bit_width (rx_metadata r))) (ucast c)"
    "\<And>i. unat (rm_bit_width (rx_metadata r)) \<le> i \<Longrightarrow> \<not> bit c i"
proof -
  let ?n = "unat (rm_bit_width (rx_metadata r))"
  have ok: "core_ok st" "register_ok st (rx_resolved_name r)" and le: "rm_bit_width (rx_metadata r) \<le> 64"
    using assms by (simp_all add: served_def)
  obtain p where win: "register_window st (rx_resolved_name r) = Some (p, ?n)"
    using assms by (auto simp: served_def)
  from read_register_ok [OF ok win] obtain v st1 where v:
      "read_register st (rx_resolved_name r) = (Inr v, st1)" "is_bits_at (snapshot st) p ?n v"
      "core_ok st1" "snapshot st1 = snapshot st" "st_registers st1 = st_registers st" by blast
  have n: "?n \<le> 64" using le by (simp add: word_le_nat_alt)
  have high: "\<not> bit v i" if "?n \<le> i" for i using v(2) that by (simp add: is_bits_at_def)
  have "i < 64" if "bit v i" for i using high [of i] n that by (cases "?n \<le> i") auto
  then have "(ucast (ucast v :: u64) :: u128) = v"
    by (intro bit_word_eqI) (auto simp: bit_simps)
  moreover have "read_raw r st = (Inr (ucast v), st1)"
    using v(1) le by (simp add: read_raw_def map_state_def not_less [symmetric])
  moreover have "\<not> bit (ucast v :: u64) i" if "?n \<le> i" for i
    using high [OF that] by (simp add: bit_simps)
  ultimately show ?thesis using that v win by metis
qed

lemma served_write:
  assumes "served st r" and "\<And>i. unat (rm_bit_width (rx_metadata r)) \<le> i \<Longrightarrow> \<not> bit c i"
  shows "\<exists>st'. write_raw r c st = (Inr (), st') \<and> served st' r \<and> fst (read_raw r st') = Inr c"
proof -
  let ?n = "unat (rm_bit_width (rx_metadata r))"
  have ok: "core_ok st" "register_ok st (rx_resolved_name r)" using assms(1) by (simp_all add: served_def)
  obtain p where win: "register_window st (rx_resolved_name r) = Some (p, ?n)"
    using assms(1) by (auto simp: served_def)
  from write_register_ok [OF ok win, of "ucast c"] obtain st' where w:
      "write_register st (rx_resolved_name r) (ucast c) = (Inr (), st')"
      "set_bits_at (snapshot st) p ?n (ucast c) (snapshot st')" "core_ok st'"
      "st_registers st' = st_registers st" "p + ?n \<le> 8 * length (snapshot st)" "?n \<le> 128" by blast
  have len: "length (snapshot st') = length (snapshot st)" using w(2) by (simp add: set_bits_at_def)
  have sv: "served st' r"
    using assms(1) w(3) register_ok_frame [OF w(4) len] by (simp add: served_def)
  from served_raw [OF sv] obtain q d st2 where d: "read_raw r st' = (Inr d, st2)"
      "register_window st' (rx_resolved_name r) = Some (q, ?n)"
      "is_bits_at (snapshot st') q ?n (ucast d)" by metis
  then have "is_bits_at (snapshot st') p ?n (ucast d)"
    using win register_ok_frame(2) [OF w(4) len] by simp
  from read_set_bits [OF w(2,5,6) this] have "(ucast d :: u128) = ucast c AND mask_bits ?n" .
  also have "\<dots> = ucast c"
    using assms(2) w(6) by (intro bit_word_eqI) (auto simp: bit_simps not_le [symmetric])
  finally have "(ucast d :: u128) = ucast c" .
  then have "d = c"
  proof (intro bit_word_eqI)
    fix i assume eq: "(ucast d :: u128) = ucast c" and i: "i < LENGTH(64)"
    have "bit (ucast d :: u128) i = bit (ucast c :: u128) i" by (simp only: eq)
    then show "bit d i = bit c i" using i by (simp add: bit_simps)
  qed
  with w(1) d(1) sv show ?thesis by (simp add: write_raw_def map_state_def)
qed

text \<open>C7: Writing a subfield of a register through its reference and reading it back gives the value:
  the write succeeds whenever the value fits the field, the field reads as what was written, every
  bit of the register outside the field is unchanged, and the core stays good.\<close>

theorem subfield_write_read:
  assumes "served st r" and "rx_field r = Some f" and "field_spec r f = Inr spec"
    and "spec_ok spec" and "disjoint_slices (slices (bf_segments spec))"
    and "\<forall>i \<ge> unat (rm_bit_width (rx_metadata r)). \<not> bit (slices_mask (bf_segments spec)) i"
    and "fst (read_raw r st) = Inr c" and "bf_write_bits spec c v = Inr c'"
  shows "\<exists>st'. resolved_write r v st = (Inr (), st') \<and> served st' r \<and>
    fst (resolved_read r st') = Inr (IntV (read_signed spec c')) \<and>
    (\<not> is_signed spec \<longrightarrow> fst (resolved_read r st') = Inr (IntV v)) \<and>
    fst (read_raw r st') = Inr c' \<and>
    (\<forall>i. \<not> bit (slices_mask (bf_segments spec)) i \<longrightarrow> bit c' i = bit c i)"
proof -
  let ?n = "unat (rm_bit_width (rx_metadata r))"
  note wr = bitfield_write_then_read [OF assms(4,5,8)]
  from served_raw [OF assms(1)] obtain st1 where st1: "read_raw r st = (Inr c, st1)" "core_ok st1"
      "snapshot st1 = snapshot st" "st_registers st1 = st_registers st"
      and high: "\<And>i. ?n \<le> i \<Longrightarrow> \<not> bit c i"
    using assms(7) by (metis fst_conv sum.inject(2))
  have sv: "served st1 r"
    using assms(1) st1(2) register_ok_frame [OF st1(4)] st1(3) by (simp add: served_def)
  have "\<not> bit c' i" if "?n \<le> i" for i using wr(2) high assms(6) that by blast
  from served_write [OF sv this] obtain st' where st': "write_raw r c' st1 = (Inr (), st')"
      "served st' r" "fst (read_raw r st') = Inr c'" by blast
  have "resolved_write r v st = (Inr (), st')"
    using st1(1) st'(1) assms(8) by (simp add: resolved_write_def assms(2,3) se_bind_def)
  moreover obtain st2 where "read_raw r st' = (Inr c', st2)"
    using st'(3) by (metis eq_fst_iff)
  then have rd: "fst (resolved_read r st') = Inr (IntV (read_signed spec c'))"
    by (simp add: resolved_read_def assms(2,3))
  moreover have "read_signed spec c' = v" if "\<not> is_signed spec"
  proof -
    have "total_width spec \<noteq> 0"
      using spec_ok_widths(2,4) [OF assms(4)] by auto
    then show ?thesis using wr(1) that by (simp add: read_signed_def)
  qed
  ultimately show ?thesis using st'(2,3) wr(2) by auto
qed

section \<open>Execution\<close>

lemma program_runs:
  assumes "world_ok st w" and "ctx_typed env (context_new params)"
    and "check_program m (writable st) (call_signature m st 31) env program = Some t"
  shows "succeeds (world_ok st) (execute_program hs m params program) (returns t) w"
proof -
  let ?stack = "stack_new max_call_depth"
  obtain frame where frame: "stack_enter ?stack = Inr frame" "frames_left frame = 31"
    by (simp add: stack_enter_def stack_new_def max_call_depth_def frames_left_def)
  have run: "execute_program hs m params program = execute_statements m
      (evaluate_context_call hs m (run_stack hs m frame)) (context_new params) program"
    by (simp add: execute_program_def run_stack.simps [of hs m ?stack] frame(1))
  show ?thesis
    unfolding run
    by (rule runtime.statements_ok [where st = st and stack = frame, unfolded frame(2),
          OF assms(2,3,1)])
qed

text \<open>C1: A program the checker accepts runs to its end: it terminates without an error, whatever the
  host services compute, the result is a value of the type inferred for it, and the core keeps its
  layout and its invariant.\<close>

theorem execute_program_safe:
  assumes "core_ok (w_core w)" and "ctx_typed env (context_new params)"
    and "check_program m (writable (w_core w)) (call_signature m (w_core w) 31) env program = Some t"
  shows "\<exists>r w'. execute_program hs m params program w = (Inr r, w') \<and> returns t r \<and>
    core_ok (w_core w') \<and> st_registers (w_core w') = st_registers (w_core w) \<and>
    length (snapshot (w_core w')) = length (snapshot (w_core w))"
proof -
  have "world_ok (w_core w) w" using assms(1) by (simp add: world_ok_def)
  from program_runs [OF this assms(2,3)] show ?thesis by (auto simp: succeeds_def world_ok_def)
qed

lemma recursion_exceeds:
  assumes "called_program m call = Some ([], [Return (Call call)])" and "cc_args call = []"
    and "base_parameters m = Inr b"
  shows "run_stack hs m stack params [Return (Call call)] w = (Inl (stack_exceeded (ck_limit stack)), w)"
proof (induction "frames_left stack" arbitrary: stack params)
  case 0
  then have "stack_enter stack = Inl (stack_exceeded (ck_limit stack))"
    by (simp add: stack_enter_frames(2))
  then show ?case by (simp add: run_stack.simps [of hs m stack] se_lift_def)
next
  case (Suc n)
  then obtain frame where frame: "stack_enter stack = Inr frame" "n = frames_left frame"
    using stack_enter_frames(1,2) [of stack] by (cases "stack_enter stack") auto
  have lim: "ck_limit frame = ck_limit stack" using frame(1) by (auto simp: stack_enter_def split: if_splits)
  have args: "bind_arguments m [] [] call = Inr b" by (simp add: bind_arguments_def assms(3))
  have ev: "eval res ctx (Call call) = res call []" for res :: "'a world resolver" and ctx
    using assms(2) by (cases call) (rule ext, simp add: se_bind_def se_lift_def)
  show ?case
    using Suc.hyps(1) [OF frame(2)]
    by (simp add: run_stack.simps [of hs m stack] frame(1) execute_statement_def assms(2) lim args
        called_program_run [OF assms(1)] invoke_program_def se_bind_def ev)
qed


section \<open>A machine with one register\<close>

definition demo_span :: source_span where
  "demo_span = \<lparr>span_path = ''m.isa'', span_start = \<lparr>pos_line = 1, pos_column = 1\<rparr>,
     span_end = \<lparr>pos_line = 1, pos_column = 1\<rparr>\<rparr>"

definition demo_document :: isa_specification where
  "demo_document =
     \<lparr>is_path = ''m.isa'', is_items =
        [SpaceItem \<lparr>sd_name = ''reg'', sd_kind = RegisterSpace,
           sd_attributes = [WordSize 8, EndiannessAttr Little], sd_span = demo_span,
           sd_enable = None\<rparr>,
         SpaceMemberItem \<lparr>smd_space = ''reg'', smd_member = FieldMember
           \<lparr>fd_space = ''reg'', fd_name = ''ACC'', fd_range = None, fd_offset = None, fd_size = None,
            fd_reset = None, fd_description = None, fd_redirect = None,
            fd_subfields = [\<lparr>sf_name = ''LOW'', sf_bit_spec = ''@(4..7)'', sf_operations = [],
              sf_description = None\<rparr>],
            fd_span = demo_span, fd_display = None\<rparr>\<rparr>]\<rparr>"

definition demo_reference :: register_ref where
  "demo_reference = \<lparr>rr_space = ''reg'', rr_name = ''ACC'', rr_subfield = Some ''LOW'',
     rr_index = None, rr_span = Some demo_span\<rparr>"

definition demo_machine :: machine_description where
  "demo_machine = projr (from_documents [demo_document])"

definition demo_layout :: core_spec where
  "demo_layout = projr (from_machine ''demo'' demo_machine None)"

definition demo_register :: resolved_register where
  "demo_register = projr (resolve_register demo_machine demo_reference None)"

definition demo_low :: bitfield_spec where
  "demo_low = projr (field_spec demo_register (the (rx_field demo_register)))"

lemma demo_machine_built:
  "case from_documents [demo_document] of
     Inl e \<Rightarrow> False
   | Inr m \<Rightarrow>
       (case from_machine ''demo'' m None of
          Inl e \<Rightarrow> False
        | Inr spec \<Rightarrow> extents_ok spec \<and> cs_endianness spec = Little)"
  by code_simp

lemma demo_register_found:
  "case from_documents [demo_document] of
     Inl e \<Rightarrow> False
   | Inr m \<Rightarrow>
       (case resolve_register m demo_reference None of
          Inl e \<Rightarrow> False
        | Inr r \<Rightarrow>
            rm_bit_width (rx_metadata r) = 8 \<and>
            (case rx_field r of
               None \<Rightarrow> False
             | Some f \<Rightarrow>
                 (case field_spec r f of
                    Inl e \<Rightarrow> False
                  | Inr fs \<Rightarrow>
                      spec_ok fs \<and> disjoint_slices (slices (bf_segments fs)) \<and>
                      slices_mask (bf_segments fs) = 15 \<and> \<not> is_signed fs \<and>
                      accepts fs (Bounded 6) \<and> bf_write_bits fs 0 5 = Inr 5)))"
  by code_simp

lemma demo_facts:
  "from_documents [demo_document] = Inr demo_machine"
  "from_machine ''demo'' demo_machine None = Inr demo_layout"
  "extents_ok demo_layout" "cs_endianness demo_layout = Little"
  "resolve_register demo_machine demo_reference None = Inr demo_register"
  "rx_field demo_register = Some (the (rx_field demo_register))"
  "field_spec demo_register (the (rx_field demo_register)) = Inr demo_low"
  "rm_bit_width (rx_metadata demo_register) = 8"
  "spec_ok demo_low" "disjoint_slices (slices (bf_segments demo_low))"
  "slices_mask (bf_segments demo_low) = 15" "\<not> is_signed demo_low"
  "accepts demo_low (Bounded 6)" "bf_write_bits demo_low 0 5 = Inr 5"
proof -
  obtain m where m: "from_documents [demo_document] = Inr m"
    using demo_machine_built by (cases "from_documents [demo_document]") simp_all
  obtain l where l: "from_machine ''demo'' m None = Inr l" "extents_ok l" "cs_endianness l = Little"
    using demo_machine_built m by (cases "from_machine ''demo'' m None") simp_all
  obtain r where r: "resolve_register m demo_reference None = Inr r"
    using demo_register_found m by (cases "resolve_register m demo_reference None") simp_all
  obtain f where f: "rx_field r = Some f"
    using demo_register_found m r by (cases "rx_field r") simp_all
  obtain fs where fs: "field_spec r f = Inr fs"
    using demo_register_found m r f by (cases "field_spec r f") simp_all
  have eq: "demo_machine = m" "demo_layout = l" "demo_register = r" "demo_low = fs"
    by (simp_all add: demo_machine_def demo_layout_def demo_register_def demo_low_def m l r f fs)
  note found = demo_register_found [unfolded m sum.case r f option.case fs]
  show "from_documents [demo_document] = Inr demo_machine"
    "from_machine ''demo'' demo_machine None = Inr demo_layout"
    "extents_ok demo_layout" "cs_endianness demo_layout = Little"
    "resolve_register demo_machine demo_reference None = Inr demo_register"
    "rx_field demo_register = Some (the (rx_field demo_register))"
    "field_spec demo_register (the (rx_field demo_register)) = Inr demo_low"
    by (simp_all add: eq m l r f fs)
  show "rm_bit_width (rx_metadata demo_register) = 8"
    "spec_ok demo_low" "disjoint_slices (slices (bf_segments demo_low))"
    "slices_mask (bf_segments demo_low) = 15" "\<not> is_signed demo_low"
    "accepts demo_low (Bounded 6)" "bf_write_bits demo_low 0 5 = Inr 5"
    using found by (simp_all add: eq)
qed

lemma demo_state:
  obtains st where "core_state_new demo_layout = Inr st" "core_ok st" "served st demo_register"
    "register_ok st (rx_resolved_name demo_register)" "fst (read_raw demo_register st) = Inr 0"
proof -
  from core_state_new_ok [OF demo_facts(4)] obtain st where st: "core_state_new demo_layout = Inr st"
      "core_ok st" "snapshot st = replicate (align_byte_len (cs_byte_len demo_layout)) 0"
      "st_registers st = layout_map (cs_registers demo_layout)"
    by blast
  have len: "length (snapshot st) = align_byte_len (cs_byte_len demo_layout)" by (simp add: st(3))
  note ok = resolved_served [OF demo_facts(1-3) st(4) len demo_facts(5)]
  have sv: "served st demo_register" using ok st(2) by (auto simp: served_def)
  obtain c where "read_register st (rx_resolved_name demo_register) = (Inr 0, c)"
    using fresh_reads_zero [OF st(2,3) ok(1)] by (metis eq_fst_iff)
  then have "fst (read_raw demo_register st) = Inr 0"
    using ok(1,2) by (simp add: read_raw_def map_state_def not_less [symmetric])
  with that st(1,2) sv ok(1) show ?thesis by blast
qed

theorem resolvable_registers_exist_witness:
  "\<exists>st. core_state_new demo_layout = Inr st \<and> fst (read_raw demo_register st) = Inr 0"
  using resolvable_registers_exist [OF demo_facts(1-4)] demo_facts(5) by blast

theorem subfield_write_read_witness:
  "\<exists>st st'. core_state_new demo_layout = Inr st \<and> resolved_write demo_register 5 st = (Inr (), st') \<and>
     fst (resolved_read demo_register st') = Inr (IntV 5)"
proof -
  obtain st where st: "core_state_new demo_layout = Inr st" "served st demo_register"
      "fst (read_raw demo_register st) = Inr 0"
    by (rule demo_state)
  have fifteen: "(15 :: u64) = mask 4" by (simp add: mask_eq_exp_minus_1)
  have "\<forall>i \<ge> unat (rm_bit_width (rx_metadata demo_register)).
      \<not> bit (slices_mask (bf_segments demo_low)) i"
    by (simp add: demo_facts(8,11) fifteen bit_simps)
  from subfield_write_read [OF st(2) demo_facts(6,7,9,10) this st(3) demo_facts(14)] st(1)
  show ?thesis using demo_facts(12) by blast
qed

text \<open>\<open>$reg::ACC::LOW = 5; return $reg::ACC::LOW\<close>\<close>

definition demo_program :: semantic_program where
  "demo_program =
     [Assign (RegisterTarget demo_reference) (Number 5),
      Return (Call (ContextCall RegisterCall ''reg'' ''ACC'' [''LOW''] [] demo_span))]"

lemma demo_program_checked:
  assumes "served st demo_register"
  shows "check_program demo_machine (writable st) (call_signature demo_machine st 31) Map.empty
    demo_program = Some (Some Scalar)"
proof -
  let ?call = "ContextCall RegisterCall ''reg'' ''ACC'' [''LOW''] [] demo_span"
  have call: "call_reference ?call = demo_reference"
    by (simp add: call_reference_def demo_reference_def head_option_def)
  obtain f where f: "rx_field demo_register = Some f" "field_spec demo_register f = Inr demo_low"
    using demo_facts(6,7) by metis
  have rd: "readable st demo_register"
    using assms by (simp add: readable_def served_def f)
  have wr: "writable st demo_register (Bounded 6)"
    using rd demo_facts(13) by (simp add: writable_def f scalar_sort_def)
  have idx: "rr_index demo_reference = None" by (simp add: demo_reference_def)
  have called: "called_program demo_machine ?call = None" by (simp add: called_program_def)
  have "infer Map.empty sg (Number 5) = Some (Bounded 6)" for sg by simp
  moreover have "call_signature demo_machine st (Suc 30) ?call [] = Some Scalar"
    unfolding call_signature.simps using rd
    by (simp add: called builtin_signature_def call resolves_def index_choices_def demo_facts(5))
  ultimately show ?thesis
    using wr
    by (simp add: demo_program_def scalar_sort_def check_target_def target_index_types_def resolves_def
        index_choices_def demo_facts(5) idx)
qed

theorem execute_program_safe_witness:
  "\<exists>st r w'. core_state_new demo_layout = Inr st \<and>
     execute_program software_host demo_machine Map.empty demo_program
       \<lparr>w_core = st, w_host = (), w_tracer = None\<rparr> = (Inr r, w') \<and> returns (Some Scalar) r"
proof -
  obtain st where st: "core_state_new demo_layout = Inr st" "core_ok st" "served st demo_register"
    by (rule demo_state)
  have "ctx_typed Map.empty (context_new Map.empty)" by (simp add: ctx_typed_def)
  from execute_program_safe [of "\<lparr>w_core = st, w_host = (), w_tracer = None\<rparr>", OF _ this, simplified,
      OF st(2) demo_program_checked [OF st(3)], of software_host] st(1)
  show ?thesis by blast
qed

text \<open>\<open>:macro loop() = return $macro::loop()\<close>\<close>

definition loop_call :: context_call where
  "loop_call = ContextCall MacroCall ''macro'' ''loop'' [] [] demo_span"

definition loop_machine :: machine_description where
  "loop_machine = machine_new\<lparr>mc_macros :=
     [\<lparr>mi_name = ''loop'', mi_parameters = [],
       mi_semantics = set_program [Return (Call loop_call)] block_empty, mi_span = demo_span\<rparr>]\<rparr>"


end
