(* ===== verification/SourcePath.thy ===== *)
theory SourcePath
  imports Strings
begin

text \<open>
  The operations of Rust's \<open>std::path::Path\<close> the loader uses, on Unix paths: a path is the text it
  was built from, and two paths are equal when their components are.
\<close>

definition separator :: char where
  "separator = CHR ''/''"

text \<open>The components: empty ones and the current directory are skipped, except a leading \<open>.\<close> of a
  relative path.\<close>

definition path_components :: "string \<Rightarrow> bool \<times> string list" where
  "path_components s =
     (case split_char separator s of
        [] \<Rightarrow> (False, [])
      | first # rest \<Rightarrow>
          (let keep = filter (\<lambda>c. c \<noteq> [] \<and> c \<noteq> ''.'') rest
           in if s = [] then (False, [])
              else if first = [] then (True, keep)
              else (False, first # keep)))"

definition is_relative :: "string \<Rightarrow> bool" where
  "is_relative s \<longleftrightarrow> \<not> fst (path_components s)"

text \<open>A reversed path without trailing separators and current directories; a root stays.\<close>

fun trim_trailing :: "string \<Rightarrow> string" where
  "trim_trailing [] = []"
| "trim_trailing [c] = [c]"
| "trim_trailing (c # d # s) =
     (if c = separator then trim_trailing (d # s)
      else if c = CHR ''.'' \<and> d = separator then trim_trailing (d # s)
      else c # d # s)"

definition parent_path :: "string \<Rightarrow> string option" where
  "parent_path s =
     (let r = trim_trailing (rev s)
      in if r = [] \<or> r = [separator] then None
         else Some (rev (trim_trailing (dropWhile (\<lambda>c. c \<noteq> separator) r))))"

definition file_name :: "string \<Rightarrow> string option" where
  "file_name s =
     (let name = rev (takeWhile (\<lambda>c. c \<noteq> separator) (trim_trailing (rev s)))
      in if name \<in> {[], ''.'', ''..''} then None else Some name)"

text \<open>The part after the last dot of the file name, unless the name starts with its only dot.\<close>

definition path_extension :: "string \<Rightarrow> string option" where
  "path_extension s =
     Option.bind (file_name s) (\<lambda>name.
       let after = rev (takeWhile (\<lambda>c. c \<noteq> CHR ''.'') (rev name));
           before = take (length name - length after - 1) name
       in if CHR ''.'' \<in> set name \<and> before \<noteq> [] then Some after else None)"

definition join_path :: "string \<Rightarrow> string \<Rightarrow> string" where
  "join_path base p =
     (if \<not> is_relative p then p
      else if base = [] \<or> last base = separator then base @ p
      else base @ separator # p)"

lemma path_examples:
  "path_components ''a//b/./c.isa'' = (False, [''a'', ''b'', ''c.isa''])"
  "path_extension ''dir.d/core.COREDEF'' = Some ''COREDEF''" "path_extension ''a/.isa'' = None"
  "parent_path ''dir/core.coredef'' = Some ''dir''" "parent_path ''core.coredef'' = Some []"
  "join_path ''dir'' ''base.isa'' = ''dir/base.isa''"
  by code_simp+

end
