(* ===== verification/DocParser.thy ===== *)
theory DocParser
  imports IsaAst SourcePath
begin

text \<open>
  The parser of \<open>.isa\<close> documents, its state and its tokens (\<open>src/loader/isa/parser/specification.rs\<close>,
  \<open>spans.rs\<close>), parameter declarations (\<open>parameters.rs\<close>) and the enable expressions of spaces
  (\<open>semantics.rs\<close>).  As in the parser of semantic programs, loops and the recursion take fuel and
  \<open>None\<close> is running out of it.
\<close>

section \<open>The state\<close>

record doc_parser =
  dp_lexer :: lexer
  dp_peeked :: "token option"
  dp_last :: "token option"
  dp_spaces :: "string \<rightharpoonup> space_kind"
  dp_path :: string
  dp_diagnostics :: "isa_diagnostic list"
  dp_include :: bool

type_synonym 'a doc = "(doc_parser, 'a) fuelled"

definition is_coredef :: "string \<Rightarrow> bool" where
  "is_coredef path =
     (case path_extension path of
        Some ext \<Rightarrow> eq_ignore_ascii_case ext ''coredef''
      | None \<Rightarrow> False)"

definition doc_parser_new :: "string \<Rightarrow> string \<Rightarrow> doc_parser" where
  "doc_parser_new source path =
     \<lparr>dp_lexer = lexer_new source path, dp_peeked = None, dp_last = None, dp_spaces = Map.empty,
      dp_path = path, dp_diagnostics = [], dp_include = is_coredef path\<rparr>"

definition seed_known_spaces :: "(string \<rightharpoonup> space_kind) \<Rightarrow> doc_parser \<Rightarrow> doc_parser" where
  "seed_known_spaces spaces p = p\<lparr>dp_spaces := spaces\<rparr>"

definition doc_register_space :: "string \<Rightarrow> space_kind \<Rightarrow> doc_parser \<Rightarrow> doc_parser" where
  "doc_register_space name kind p = p\<lparr>dp_spaces := (dp_spaces p)(name \<mapsto> kind)\<rparr>"

definition is_known_space :: "string \<Rightarrow> doc_parser \<Rightarrow> bool" where
  "is_known_space name p \<longleftrightarrow> dp_spaces p name \<noteq> None"

section \<open>Tokens\<close>

definition doc_peek :: "token doc" where
  "doc_peek p =
     (case dp_peeked p of
        Some t \<Rightarrow> Some (Inr t, p)
      | None \<Rightarrow>
          (case next_token (dp_lexer p) of
             (Inl e, lx) \<Rightarrow> Some (Inl e, p\<lparr>dp_lexer := lx\<rparr>)
           | (Inr t, lx) \<Rightarrow> Some (Inr t, p\<lparr>dp_lexer := lx, dp_peeked := Some t\<rparr>)))"

definition doc_consume :: "token doc" where
  "doc_consume p =
     (case dp_peeked p of
        Some t \<Rightarrow> Some (Inr t, p\<lparr>dp_peeked := None, dp_last := Some t\<rparr>)
      | None \<Rightarrow>
          (case next_token (dp_lexer p) of
             (Inl e, lx) \<Rightarrow> Some (Inl e, p\<lparr>dp_lexer := lx\<rparr>)
           | (Inr t, lx) \<Rightarrow> Some (Inr t, p\<lparr>dp_lexer := lx, dp_last := Some t\<rparr>)))"

definition doc_check :: "token_kind \<Rightarrow> bool doc" where
  "doc_check kind = pbind doc_peek (\<lambda>t. presult (Inr (tok_kind t = kind)))"

definition doc_expect :: "token_kind \<Rightarrow> string \<Rightarrow> token doc" where
  "doc_expect kind context =
     pbind doc_consume (\<lambda>t.
       presult (if tok_kind t = kind then Inr t else Inl (Parser (fmt ''expected {}'' [context]))))"

definition expect_identifier_token :: "string \<Rightarrow> token doc" where
  "expect_identifier_token context =
     pbind doc_consume (\<lambda>t.
       presult (if tok_kind t = Identifier then Inr t
                else Inl (Parser (fmt ''expected identifier for {}'' [context]))))"

definition doc_expect_identifier :: "string \<Rightarrow> string doc" where
  "doc_expect_identifier context =
     pbind (expect_identifier_token context) (\<lambda>t. presult (Inr (tok_lexeme t)))"

text \<open>\<open>if parser.check(kind)? { parser.consume()?; true } else { false }\<close>.\<close>

definition doc_match :: "token_kind \<Rightarrow> bool doc" where
  "doc_match kind =
     pbind (doc_check kind) (\<lambda>b.
       if b then pbind doc_consume (\<lambda>t. presult (Inr True)) else presult (Inr False))"

text \<open>The end of a directive: \<open>!check(EOF)? && !check(Colon)?\<close> is its negation.\<close>

definition directive_end :: "bool doc" where
  "directive_end = pbind (doc_check EOF) (\<lambda>b. if b then presult (Inr True) else doc_check Colon)"

section \<open>Spans\<close>

fun end_position :: "string \<Rightarrow> nat \<Rightarrow> nat \<Rightarrow> source_position" where
  "end_position [] line column = \<lparr>pos_line = line, pos_column = column\<rparr>"
| "end_position (c # cs) line column =
     (if c = newline then end_position cs (line + 1) 1 else end_position cs line (column + 1))"

definition token_end_position :: "token \<Rightarrow> source_position" where
  "token_end_position t = end_position (tok_lexeme t) (tok_line t) (tok_column t)"

definition span_from_tokens :: "string \<Rightarrow> token \<Rightarrow> token \<Rightarrow> source_span" where
  "span_from_tokens path start last_token =
     \<lparr>span_path = path, span_start = \<lparr>pos_line = tok_line start, pos_column = tok_column start\<rparr>,
      span_end = token_end_position last_token\<rparr>"

definition span_from_token :: "string \<Rightarrow> token \<Rightarrow> source_span" where
  "span_from_token path t = span_from_tokens path t t"

text \<open>The span of a declaration: from its name to the last token consumed.\<close>

definition declaration_span :: "token \<Rightarrow> source_span doc" where
  "declaration_span name_token p =
     Some (Inr (span_from_tokens (dp_path p) name_token
       (case dp_last p of Some t \<Rightarrow> t | None \<Rightarrow> name_token)), p)"

section \<open>Semantic blocks\<close>

definition parse_semantic_block :: "string \<Rightarrow> semantic_block doc" where
  "parse_semantic_block context =
     pbind (doc_expect LBrace (quoted ''{'' @ '' to start '' @ context)) (\<lambda>open_token p.
       case capture_braced_block (dp_lexer p) of
         (Inl e, lx) \<Rightarrow> Some (Inl e, p\<lparr>dp_lexer := lx\<rparr>)
       | (Inr captured, lx) \<Rightarrow>
           (let closing = \<lparr>tok_kind = RBrace, tok_lexeme = ''}'', tok_line = cb_end_line captured,
                           tok_column = cb_end_column captured\<rparr>;
                span = \<lparr>span_path = dp_path p,
                        span_start = \<lparr>pos_line = tok_line open_token,
                                      pos_column = tok_column open_token\<rparr>,
                        span_end = \<lparr>pos_line = cb_end_line captured,
                                    pos_column = cb_end_column captured\<rparr>\<rparr>
            in Some (Inr (block_with_span (cb_body captured) (Some span)),
                     p\<lparr>dp_lexer := lx, dp_last := Some closing\<rparr>)))"

section \<open>Parameters\<close>

definition kind_debug :: "token_kind \<Rightarrow> string" where
  "kind_debug k =
     (case k of
        Colon \<Rightarrow> ''Colon'' | DoubleColon \<Rightarrow> ''DoubleColon'' | DoublePeriod \<Rightarrow> ''DoublePeriod''
      | DirectTo \<Rightarrow> ''DirectTo'' | BitExpr \<Rightarrow> ''BitExpr'' | Range \<Rightarrow> ''Range''
      | Identifier \<Rightarrow> ''Identifier'' | NumberTok \<Rightarrow> ''Number'' | StringTok \<Rightarrow> ''String''
      | LBrace \<Rightarrow> ''LBrace'' | RBrace \<Rightarrow> ''RBrace'' | LParen \<Rightarrow> ''LParen'' | RParen \<Rightarrow> ''RParen''
      | LessThan \<Rightarrow> ''LessThan'' | GreaterThan \<Rightarrow> ''GreaterThan'' | Pipe \<Rightarrow> ''Pipe''
      | DoublePipe \<Rightarrow> ''DoublePipe'' | Equals \<Rightarrow> ''Equals'' | DoubleEquals \<Rightarrow> ''DoubleEquals''
      | Comma \<Rightarrow> ''Comma'' | Semicolon \<Rightarrow> ''Semicolon'' | Question \<Rightarrow> ''Question''
      | Dash \<Rightarrow> ''Dash'' | Plus \<Rightarrow> ''Plus'' | Bang \<Rightarrow> ''Bang'' | BangEquals \<Rightarrow> ''BangEquals''
      | Percent \<Rightarrow> ''Percent'' | Caret \<Rightarrow> ''Caret'' | Ampersand \<Rightarrow> ''Ampersand''
      | DoubleAmpersand \<Rightarrow> ''DoubleAmpersand'' | Asterisk \<Rightarrow> ''Asterisk'' | Slash \<Rightarrow> ''Slash''
      | Tilde \<Rightarrow> ''Tilde'' | Backtick \<Rightarrow> ''Backtick'' | Apostrophe \<Rightarrow> ''Apostrophe'' | EOF \<Rightarrow> ''EOF'')"

definition literal_failure :: "string \<Rightarrow> string \<Rightarrow> string \<Rightarrow> literal_error \<Rightarrow> isa_error" where
  "literal_failure before text after err =
     Parser (before @ quoted text @ after @ '': '' @ literal_error_text err)"

definition parse_parameter_value :: "parameter_value doc" where
  "parse_parameter_value =
     pbind doc_consume (\<lambda>t.
       presult
         (if tok_kind t = StringTok \<or> tok_kind t = Identifier then Inr (ParamWord (tok_lexeme t))
          else if tok_kind t = NumberTok then
            rbind (map_err (literal_failure ''invalid numeric literal '' (tok_lexeme t) [])
                     (parse_u64_literal (tok_lexeme t)))
              (\<lambda>v. Inr (ParamNumber v))
          else Inl (Parser (fmt ''unexpected token {} when parsing parameter value''
                      [kind_debug (tok_kind t)]))))"

definition parse_parameter_decl :: "string \<Rightarrow> parameter_decl doc" where
  "parse_parameter_decl name_context =
     pbind (doc_expect_identifier name_context) (\<lambda>name.
     pbind (doc_expect Equals (quoted ''='' @ '' after parameter name'')) (\<lambda>t.
     pbind parse_parameter_value (\<lambda>v.
       presult (Inr \<lparr>pd_name = name, pd_value = v\<rparr>))))"

section \<open>Enable expressions\<close>

text \<open>The loops of the three levels: an operand, then operators of the level with their operands; a
  single \<open>!\<close>, \<open>&\<close> or \<open>|\<close> is an error.\<close>

primrec operator_loop ::
    "nat \<Rightarrow> binary_operator option doc \<Rightarrow> semantic_expr doc \<Rightarrow> semantic_expr \<Rightarrow> semantic_expr doc"
where
  "operator_loop 0 operator operand e = (\<lambda>p. None)"
| "operator_loop (Suc n) operator operand e =
     pbind operator (\<lambda>m.
       case m of
         None \<Rightarrow> presult (Inr e)
       | Some b \<Rightarrow> pbind operand (\<lambda>rhs. operator_loop n operator operand (BinaryOpExpr b e rhs)))"

definition match_doubled :: "token_kind \<Rightarrow> token_kind \<Rightarrow> string \<Rightarrow> bool doc" where
  "match_doubled double single message =
     pbind (doc_match double) (\<lambda>b.
       if b then presult (Inr True)
       else pbind (doc_match single) (\<lambda>c.
              presult (if c then Inl (Parser message) else Inr False)))"

definition match_logical_and :: "bool doc" where
  "match_logical_and =
     match_doubled DoubleAmpersand Ampersand
       (''logical operator '' @ quoted ''&&'' @ '' requires two '' @ quoted ''&'' @ '' tokens'')"

definition match_logical_or :: "bool doc" where
  "match_logical_or =
     match_doubled DoublePipe Pipe
       (''logical operator '' @ quoted ''||'' @ '' requires two '' @ quoted ''|'' @ '' tokens'')"

definition when_matched :: "binary_operator \<Rightarrow> bool doc \<Rightarrow> binary_operator option doc" where
  "when_matched b m = pbind m (\<lambda>c. presult (Inr (if c then Some b else None)))"

definition match_equality :: "binary_operator option doc" where
  "match_equality =
     pbind (doc_match DoubleEquals) (\<lambda>eq.
       if eq then presult (Inr (Some OperatorEq))
       else
         pbind (doc_match BangEquals) (\<lambda>ne.
           if ne then presult (Inr (Some OperatorNe))
           else
             pbind (doc_match Bang) (\<lambda>bang.
               presult
                 (if bang then Inl (Parser (''logical operator '' @ quoted ''!='' @
                    '' requires '' @ quoted ''='' @ '' after '' @ quoted ''!''))
                  else Inr None))))"

definition parse_primary_expr :: "semantic_expr doc \<Rightarrow> semantic_expr doc" where
  "parse_primary_expr or_expr =
     pbind (doc_match LParen) (\<lambda>paren.
       if paren then
         pbind or_expr (\<lambda>e.
         pbind (doc_expect RParen (quoted '')'' @ '' to close semantic expression'')) (\<lambda>t.
           presult (Inr e)))
       else pbind (doc_check BitExpr) (\<lambda>bits.
         if bits then pbind doc_consume (\<lambda>t. presult (Inr (BitExprExpr (tok_lexeme t))))
         else pbind (doc_check NumberTok) (\<lambda>num.
           if num then
             pbind doc_consume (\<lambda>t.
               presult (rbind (map_err (literal_failure ''invalid numeric literal '' (tok_lexeme t)
                                  '' in semantic expression'')
                                (parse_u64_literal (tok_lexeme t)))
                          (\<lambda>v. Inr (LiteralExpr v))))
           else pbind (doc_check Identifier) (\<lambda>ident.
             if ident then pbind doc_consume (\<lambda>t. presult (Inr (IdentifierExpr (tok_lexeme t))))
             else presult (Inl (Parser ''unexpected token in semantic expression''))))))"

definition parse_equality_expr :: "nat \<Rightarrow> semantic_expr doc \<Rightarrow> semantic_expr doc" where
  "parse_equality_expr n or_expr =
     pbind (parse_primary_expr or_expr)
       (operator_loop n match_equality (parse_primary_expr or_expr))"

definition parse_and_expr :: "nat \<Rightarrow> semantic_expr doc \<Rightarrow> semantic_expr doc" where
  "parse_and_expr n or_expr =
     pbind (parse_equality_expr n or_expr)
       (operator_loop n (when_matched OperatorLogicalAnd match_logical_and)
          (parse_equality_expr n or_expr))"

primrec parse_or_expr :: "nat \<Rightarrow> semantic_expr doc" where
  "parse_or_expr 0 = (\<lambda>p. None)"
| "parse_or_expr (Suc n) =
     pbind (parse_and_expr (Suc n) (parse_or_expr n))
       (operator_loop (Suc n) (when_matched OperatorLogicalOr match_logical_or)
          (parse_and_expr (Suc n) (parse_or_expr n)))"

definition parse_semantic_expr_block :: "nat \<Rightarrow> string \<Rightarrow> semantic_expr doc" where
  "parse_semantic_expr_block n context =
     pbind (doc_expect LBrace (quoted ''{'' @ '' to start '' @ context)) (\<lambda>t.
     pbind (parse_or_expr n) (\<lambda>e.
     pbind (doc_expect RBrace (quoted ''}'' @ '' to close '' @ context)) (\<lambda>u.
       presult (Inr e))))"

end
