(* ===== verification/DocMembers.thy ===== *)
theory DocMembers
  imports DocParser
begin

text \<open>
  The declarations of a document: spaces (\<open>src/loader/isa/parser/space.rs\<close>) and their members, forms,
  instructions and register fields (\<open>space_context.rs\<close>).
\<close>

section \<open>Spaces\<close>

definition parse_u32_attr_literal :: "string \<Rightarrow> string \<Rightarrow> isa_error + u32" where
  "parse_u32_attr_literal text context =
     map_err (literal_failure ''invalid numeric literal '' text ('' for '' @ context))
       (parse_u32_literal text)"

definition parse_space_kind :: "string \<Rightarrow> isa_error + space_kind" where
  "parse_space_kind raw =
     (let lower = map ascii_lower raw in
      if lower = ''rw'' then Inr ReadWriteSpace
      else if lower = ''ro'' then Inr ReadOnlySpace
      else if lower = ''memio'' then Inr MemoryMappedIoSpace
      else if lower = ''register'' then Inr RegisterSpace
      else if lower = ''logic'' then Inr LogicSpace
      else Inl (Parser (fmt ''unknown space type {}'' [quoted lower])))"

definition parse_endianness :: "string \<Rightarrow> isa_error + endianness" where
  "parse_endianness raw =
     (let lower = map ascii_lower raw in
      if lower = ''big'' then Inr Big
      else if lower = ''little'' then Inr Little
      else Inl (Parser (fmt ''unknown endianness {}'' [quoted lower])))"

text \<open>The locals of the attribute loop.\<close>

record space_attributes =
  sa_kind :: "space_kind option"
  sa_attributes :: "space_attribute list"
  sa_addr :: bool
  sa_word :: bool
  sa_enable :: "semantic_expr option"

definition number_attribute :: "string \<Rightarrow> u32 doc" where
  "number_attribute name =
     pbind (doc_expect NumberTok (''numeric value for '' @ name)) (\<lambda>v.
       presult (parse_u32_attr_literal (tok_lexeme v) name))"

definition space_attribute_step :: "nat \<Rightarrow> string \<Rightarrow> space_attributes \<Rightarrow> space_attributes doc" where
  "space_attribute_step n name a =
     (if name = ''addr'' then
        pbind (number_attribute ''addr'') (\<lambda>bits.
          presult (Inr (a\<lparr>sa_attributes := sa_attributes a @ [AddressBits bits], sa_addr := True\<rparr>)))
      else if name = ''word'' then
        pbind (number_attribute ''word'') (\<lambda>bits.
          presult (Inr (a\<lparr>sa_attributes := sa_attributes a @ [WordSize bits], sa_word := True\<rparr>)))
      else if name = ''align'' then
        pbind (number_attribute ''align'') (\<lambda>bytes.
          presult (Inr (a\<lparr>sa_attributes := sa_attributes a @ [Alignment bytes]\<rparr>)))
      else if name = ''type'' then
        pbind (doc_expect Identifier ''space type value'') (\<lambda>v.
        pbind (presult (parse_space_kind (tok_lexeme v))) (\<lambda>k.
          presult (Inr (a\<lparr>sa_kind := Some k\<rparr>))))
      else if name = ''endian'' then
        pbind (doc_expect Identifier ''endianness value'') (\<lambda>v.
        pbind (presult (parse_endianness (tok_lexeme v))) (\<lambda>e.
          presult (Inr (a\<lparr>sa_attributes := sa_attributes a @ [EndiannessAttr e]\<rparr>))))
      else if name = ''enbl'' then
        (if sa_enable a \<noteq> None then
           presult (Inl (Parser ''enbl attribute can only be specified once per :space''))
         else
           pbind (parse_semantic_expr_block n ''enbl expression'') (\<lambda>e.
             presult (Inr (a\<lparr>sa_enable := Some e\<rparr>))))
      else presult (Inl (Parser (fmt ''unknown :space attribute {}'' [quoted name]))))"

text \<open>\<open>while !check(EOF)? && !check(Colon)? { name = ...; expect('='); step }\<close>, the loop of all three
  kinds of declarations; the names of attributes are compared in lower case.\<close>

primrec attribute_loop ::
    "nat \<Rightarrow> string \<Rightarrow> string \<Rightarrow> (string \<Rightarrow> 'a \<Rightarrow> 'a doc) \<Rightarrow> 'a \<Rightarrow> 'a doc" where
  "attribute_loop 0 what after step a = (\<lambda>p. None)"
| "attribute_loop (Suc n) what after step a =
     pbind directive_end (\<lambda>e.
       if e then presult (Inr a)
       else
         pbind (doc_expect_identifier what) (\<lambda>name.
         pbind (doc_expect Equals (quoted ''='' @ '' after '' @ after)) (\<lambda>t.
         pbind (step name a) (attribute_loop n what after step))))"

definition parse_space_directive :: "nat \<Rightarrow> isa_item doc" where
  "parse_space_directive n =
     pbind (expect_identifier_token ''space name'') (\<lambda>name_token.
     pbind (attribute_loop n ''space attribute name'' ''space attribute name''
              (\<lambda>name. space_attribute_step n (map ascii_lower name))
              \<lparr>sa_kind = None, sa_attributes = [], sa_addr = False, sa_word = False,
               sa_enable = None\<rparr>) (\<lambda>a.
     pbind (presult (ok_or (sa_kind a) (Parser '':space requires a type attribute''))) (\<lambda>kind.
       if \<not> sa_addr a then presult (Inl (Parser '':space requires an addr attribute''))
       else if \<not> sa_word a then presult (Inl (Parser '':space requires a word attribute''))
       else
         (\<lambda>p. pbind (declaration_span name_token) (\<lambda>span.
            presult (Inr (SpaceItem \<lparr>sd_name = tok_lexeme name_token, sd_kind = kind,
              sd_attributes = sa_attributes a, sd_span = span, sd_enable = sa_enable a\<rparr>)))
            (doc_register_space (tok_lexeme name_token) kind p)))))"

section \<open>Subfields\<close>

text \<open>\<open>splitn(2, '.')\<close> of an operation name.\<close>

definition op_of_name :: "string \<Rightarrow> sub_field_op" where
  "op_of_name name =
     (case split_once ''.'' name of
        Some (kind, subtype) \<Rightarrow> \<lparr>so_kind = kind, so_subtype = Some subtype\<rparr>
      | None \<Rightarrow> \<lparr>so_kind = name, so_subtype = None\<rparr>)"

primrec op_segments :: "nat \<Rightarrow> string \<Rightarrow> string doc" where
  "op_segments 0 name = (\<lambda>p. None)"
| "op_segments (Suc n) name =
     pbind (doc_match DoubleColon) (\<lambda>m.
       if m then
         pbind (doc_expect_identifier ''context reference segment'') (\<lambda>seg.
           op_segments n (name @ ''::'' @ seg))
       else presult (Inr name))"

primrec parse_subfield_ops :: "nat \<Rightarrow> sub_field_op list \<Rightarrow> sub_field_op list doc" where
  "parse_subfield_ops 0 ops = (\<lambda>p. None)"
| "parse_subfield_ops (Suc n) ops =
     pbind (doc_expect Identifier ''subfield op type'') (\<lambda>t.
     pbind (op_segments (Suc n) (tok_lexeme t)) (\<lambda>name.
     pbind (doc_match Pipe) (\<lambda>m.
       if m then parse_subfield_ops n (ops @ [op_of_name name])
       else presult (Inr (ops @ [op_of_name name])))))"

text \<open>The attributes of one subfield, up to the first token that is neither \<open>op\<close> nor \<open>descr\<close>.\<close>

primrec subfield_attributes ::
    "nat \<Rightarrow> string \<Rightarrow> sub_field_op list \<Rightarrow> string option \<Rightarrow>
     (sub_field_op list \<times> string option) doc" where
  "subfield_attributes 0 name ops descr = (\<lambda>p. None)"
| "subfield_attributes (Suc n) name ops descr =
     pbind (doc_check Identifier) (\<lambda>ident.
       if \<not> ident then presult (Inr (ops, descr))
       else
         pbind doc_peek (\<lambda>t.
           if tok_lexeme t = ''op'' then
             pbind doc_consume (\<lambda>_.
             pbind (doc_expect Equals (quoted ''='' @ '' after op attribute'')) (\<lambda>_.
               if ops \<noteq> [] then
                 presult (Inl (Parser (fmt ''subfield {} op attribute specified multiple times'' [name])))
               else
                 pbind (parse_subfield_ops (Suc n) []) (\<lambda>ops'.
                   subfield_attributes n name ops' descr)))
           else if tok_lexeme t = ''descr'' then
             pbind doc_consume (\<lambda>_.
             pbind (doc_expect Equals (quoted ''='' @ '' after descr attribute'')) (\<lambda>_.
               if descr \<noteq> None then
                 presult (Inl (Parser
                   (fmt ''subfield {} descr attribute specified multiple times'' [name])))
               else
                 pbind (doc_expect StringTok ''string literal for descr attribute'') (\<lambda>v.
                   subfield_attributes n name ops (Some (tok_lexeme v)))))
           else presult (Inr (ops, descr))))"

primrec subfield_entries :: "nat \<Rightarrow> sub_field_decl list \<Rightarrow> sub_field_decl list doc" where
  "subfield_entries 0 entries = (\<lambda>p. None)"
| "subfield_entries (Suc n) entries =
     pbind (doc_check EOF) (\<lambda>eof.
       if eof then
         presult (Inl (Parser (''unterminated subfields block; missing closing '' @ quoted ''}'')))
       else
         pbind (doc_match RBrace) (\<lambda>brace.
           if brace then presult (Inr entries)
           else
             pbind (doc_expect_identifier ''subfield name'') (\<lambda>name.
             pbind (doc_expect BitExpr (''bit specification '' @ quoted ''@(...)'')) (\<lambda>bits.
             pbind (subfield_attributes (Suc n) name [] None) (\<lambda>(ops, descr).
               subfield_entries n
                 (entries @ [\<lparr>sf_name = name, sf_bit_spec = tok_lexeme bits,
                              sf_operations = ops, sf_description = descr\<rparr>]))))))"

definition parse_subfields_block :: "nat \<Rightarrow> sub_field_decl list doc" where
  "parse_subfields_block n =
     pbind (doc_expect LBrace (quoted ''{'' @ '' to start subfields block'')) (\<lambda>t.
       subfield_entries n [])"

section \<open>Forms and instructions\<close>

primrec operand_list :: "nat \<Rightarrow> string list \<Rightarrow> string list doc" where
  "operand_list 0 operands = (\<lambda>p. None)"
| "operand_list (Suc n) operands =
     pbind (doc_match RParen) (\<lambda>close.
       if close then presult (Inr operands)
       else
         pbind (doc_expect_identifier ''operand name'') (\<lambda>name.
         pbind (doc_match Comma) (\<lambda>comma.
           if comma then operand_list n (operands @ [name])
           else
             pbind (doc_expect RParen (quoted '')'' @ '' to close operand list'')) (\<lambda>t.
               presult (Inr (operands @ [name]))))))"

definition parse_operand_list :: "nat \<Rightarrow> string list doc" where
  "parse_operand_list n =
     pbind (doc_expect LParen (quoted ''('' @ '' to start operand list'')) (\<lambda>t. operand_list n [])"

definition parse_mask_selector :: "mask_selector doc" where
  "parse_mask_selector =
     pbind (doc_check BitExpr) (\<lambda>bits.
       if bits then pbind doc_consume (\<lambda>t. presult (Inr (SelectBitExpr (tok_lexeme t))))
       else pbind (expect_identifier_token ''mask field name'') (\<lambda>t.
              presult (Inr (SelectField (tok_lexeme t)))))"

primrec mask_fields :: "nat \<Rightarrow> mask_field list \<Rightarrow> mask_field list doc" where
  "mask_fields 0 entries = (\<lambda>p. None)"
| "mask_fields (Suc n) entries =
     pbind (doc_match RBrace) (\<lambda>close.
       if close then presult (Inr entries)
       else
         pbind (doc_match Comma) (\<lambda>comma.
           if comma then mask_fields n entries
           else
             pbind parse_mask_selector (\<lambda>selector.
             pbind (doc_expect Equals (quoted ''='' @ '' after mask field name'')) (\<lambda>t.
             pbind (doc_expect NumberTok ''numeric literal for mask value'') (\<lambda>v.
             pbind (presult (map_err (literal_failure ''invalid mask literal '' (tok_lexeme v) [])
                               (parse_u64_literal (tok_lexeme v)))) (\<lambda>parsed.
             pbind (doc_match Comma) (\<lambda>c.
               mask_fields n (entries @ [\<lparr>mf_selector = selector, mf_value = parsed\<rparr>]))))))))"

definition parse_mask_block :: "nat \<Rightarrow> mask_spec doc" where
  "parse_mask_block n =
     pbind (doc_expect LBrace (quoted ''{'' @ '' to start mask block'')) (\<lambda>t.
     pbind (mask_fields n []) (\<lambda>entries.
       presult
         (if entries = [] then Inl (Parser ''mask block must contain at least one field'')
          else Inr \<lparr>msk_fields = entries\<rparr>)))"

text \<open>The locals of the attribute loop.\<close>

record logic_attributes =
  la_description :: "string option"
  la_mask :: "mask_spec option"
  la_subfields :: "sub_field_decl list option"
  la_semantics :: "semantic_block option"
  la_display :: "string option"
  la_operator :: "string option"

text \<open>An attribute that may be given once: the error if it was given before, otherwise its value.\<close>

definition once :: "'b option \<Rightarrow> string \<Rightarrow> 'a doc \<Rightarrow> 'a doc" where
  "once slot message m = (if slot \<noteq> None then presult (Inl (Parser message)) else m)"

definition string_value :: "string \<Rightarrow> string doc" where
  "string_value name =
     pbind (doc_expect StringTok (''string literal for '' @ name)) (\<lambda>v. presult (Inr (tok_lexeme v)))"

definition logic_attribute_step ::
    "nat \<Rightarrow> string \<Rightarrow> string \<Rightarrow> logic_attributes \<Rightarrow> logic_attributes doc" where
  "logic_attribute_step n decl name a =
     (let shown = quoted decl in
      if name = ''descr'' then
        once (la_description a) (''duplicate descr attribute for '' @ shown)
          (pbind (string_value ''descr'') (\<lambda>v. presult (Inr (a\<lparr>la_description := Some v\<rparr>))))
      else if name = ''mask'' then
        once (la_mask a) (''duplicate mask attribute for instruction '' @ shown)
          (pbind (parse_mask_block n) (\<lambda>v. presult (Inr (a\<lparr>la_mask := Some v\<rparr>))))
      else if name = ''subfields'' then
        once (la_subfields a) (''duplicate subfields block for '' @ shown)
          (pbind (parse_subfields_block n) (\<lambda>v. presult (Inr (a\<lparr>la_subfields := Some v\<rparr>))))
      else if name = ''semantics'' then
        once (la_semantics a) (''duplicate semantics block for instruction '' @ shown)
          (pbind (parse_semantic_block ''semantics block'') (\<lambda>v.
             presult (Inr (a\<lparr>la_semantics := Some v\<rparr>))))
      else if name = ''disp'' then
        once (la_display a) (''duplicate disp attribute for '' @ shown)
          (pbind (string_value ''disp'') (\<lambda>v. presult (Inr (a\<lparr>la_display := Some v\<rparr>))))
      else if name = ''op'' then
        once (la_operator a) (''duplicate op attribute for '' @ shown)
          (pbind (string_value ''op'') (\<lambda>v. presult (Inr (a\<lparr>la_operator := Some v\<rparr>))))
      else presult (Inl (Parser (fmt ''unknown logic attribute {}'' [quoted name]))))"

text \<open>What the attributes make of a declaration: a form has a subfields block, an instruction names
  its form.\<close>

definition logic_item ::
    "string \<Rightarrow> string option \<Rightarrow> string \<Rightarrow> string list \<Rightarrow> logic_attributes \<Rightarrow> source_span \<Rightarrow>
     isa_error + isa_item" where
  "logic_item space qualifier name operands a span =
     (let shown = quoted name in
      if qualifier = None \<and> la_subfields a = None \<and>
         \<not> (la_mask a \<noteq> None \<or> la_semantics a \<noteq> None \<or> operands \<noteq> []) then
        Inl (Parser (fmt ''form {} must declare a subfields block'' [shown]))
      else
        case la_subfields a of
          Some subfields \<Rightarrow>
            if operands \<noteq> [] then
              Inl (Parser (fmt ''forms cannot declare operand lists (found before {})'' [shown]))
            else if la_mask a \<noteq> None then
              Inl (Parser (fmt ''forms cannot declare mask attributes ({})'' [shown]))
            else if la_semantics a \<noteq> None then
              Inl (Parser (fmt ''forms cannot declare semantics blocks ({})'' [shown]))
            else if la_operator a \<noteq> None then
              Inl (Parser (fmt ''forms cannot declare an op attribute ({})'' [shown]))
            else
              Inr (SpaceMemberItem \<lparr>smd_space = space, smd_member = FormMember
                \<lparr>fm_space = space, fm_name = name, fm_parent = qualifier,
                 fm_description = la_description a, fm_display = la_display a,
                 fm_subfields = subfields, fm_span = span\<rparr>\<rparr>)
        | None \<Rightarrow>
            if qualifier = None then
              Inl (Parser (fmt ''logic instruction {} must specify a form using {}''
                     [shown, quoted ''::FormName'']))
            else
              Inr (SpaceMemberItem \<lparr>smd_space = space, smd_member = InstructionMember
                \<lparr>id_space = space, id_form = qualifier, id_name = name,
                 id_description = la_description a, id_operands = operands, id_mask = la_mask a,
                 id_encoding = None, id_semantics = la_semantics a, id_display = la_display a,
                 id_operator = la_operator a, id_span = span\<rparr>\<rparr>))"

definition parse_logic_context_directive :: "nat \<Rightarrow> string \<Rightarrow> isa_item doc" where
  "parse_logic_context_directive n space =
     pbind (pbind (doc_match DoubleColon) (\<lambda>m.
              if m then pbind (doc_expect_identifier ''logic context qualifier'')
                          (\<lambda>q. presult (Inr (Some q)))
              else presult (Inr None))) (\<lambda>qualifier.
     pbind (expect_identifier_token ''form or instruction name'') (\<lambda>name_token.
     pbind (pbind (doc_check LParen) (\<lambda>m.
              if m then parse_operand_list n else presult (Inr []))) (\<lambda>operands.
     pbind (attribute_loop n ''logic attribute name'' ''logic attribute name''
              (\<lambda>name. logic_attribute_step n (tok_lexeme name_token) (map ascii_lower name))
              \<lparr>la_description = None, la_mask = None, la_subfields = None, la_semantics = None,
               la_display = None, la_operator = None\<rparr>) (\<lambda>a.
     pbind (declaration_span name_token) (\<lambda>span.
       presult (logic_item space qualifier (tok_lexeme name_token) operands a span))))))"

section \<open>Register fields\<close>

definition parse_index_range :: "token \<Rightarrow> isa_error + field_index_range" where
  "parse_index_range t =
     (let text = trim (tok_lexeme t);
          shown = quoted text;
          inner = filter (\<lambda>c. \<not> is_whitespace c) (butlast (tl text))
      in if \<not> (prefix ''['' text \<and> suffix '']'' text) then
           Inl (Parser (fmt ''invalid index range {}: expected [start..end]'' [shown]))
         else
           case split_once ''..'' inner of
             None \<Rightarrow> Inl (Parser (fmt ''invalid index range {}: missing {}'' [shown, quoted ''..'']))
           | Some (s, e) \<Rightarrow>
               if split_once ''..'' e \<noteq> None then
                 Inl (Parser (fmt ''invalid index range {}: missing {}'' [shown, quoted ''..'']))
               else
                 rbind (map_err (literal_failure ''invalid start index '' s []) (parse_u64_literal s))
                   (\<lambda>start.
                 rbind (map_err (literal_failure ''invalid end index '' e []) (parse_u64_literal e))
                   (\<lambda>stop.
                   if stop < start then
                     Inl (Parser (fmt ''index range end must be >= start ({}..{})''
                            [dec (unat start), dec (unat stop)]))
                   else if 65535 < stop - start + 1 then
                     Inl (Parser ''index range must contain at most 65535 entries'')
                   else if \<not> unat start < 2 ^ 32 then
                     Inl (Parser (fmt ''start index {} does not fit in u32'' [quoted (dec (unat start))]))
                   else if \<not> unat stop < 2 ^ 32 then
                     Inl (Parser (fmt ''end index {} does not fit in u32'' [quoted (dec (unat stop))]))
                   else Inr \<lparr>fr_start = ucast start, fr_end = ucast stop\<rparr>)))"

definition parse_doc_number :: "string \<Rightarrow> u64 doc" where
  "parse_doc_number context =
     pbind (doc_expect NumberTok (''numeric literal for '' @ context)) (\<lambda>t.
       presult (map_err (literal_failure ''invalid numeric literal '' (tok_lexeme t) ('' for '' @ context))
                  (parse_u64_literal (tok_lexeme t))))"

primrec reference_segments :: "nat \<Rightarrow> string list \<Rightarrow> string list doc" where
  "reference_segments 0 segments = (\<lambda>p. None)"
| "reference_segments (Suc n) segments =
     pbind (doc_match DoubleColon) (\<lambda>m.
       if m then
         pbind (doc_expect_identifier ''context reference segment'') (\<lambda>seg.
           reference_segments n (segments @ [seg]))
       else presult (Inr segments))"

definition parse_context_reference :: "nat \<Rightarrow> context_reference doc" where
  "parse_context_reference n =
     pbind (doc_expect_identifier ''context reference segment'') (\<lambda>seg.
     pbind (reference_segments n [seg]) (\<lambda>segments. presult (Inr \<lparr>cr_segments = segments\<rparr>)))"

record field_attributes =
  fa_offset :: "u64 option"
  fa_size :: "u32 option"
  fa_reset :: "u64 option"
  fa_description :: "string option"
  fa_redirect :: "context_reference option"
  fa_display :: "string option"
  fa_subfields :: "sub_field_decl list option"

definition ensure_unique :: "string \<Rightarrow> 'b option \<Rightarrow> 'a doc \<Rightarrow> 'a doc" where
  "ensure_unique name slot =
     once slot (fmt ''field attribute {} specified multiple times'' [quoted name])"

definition ensure_redirect_compatible :: "string \<Rightarrow> context_reference option \<Rightarrow> 'a doc \<Rightarrow> 'a doc" where
  "ensure_redirect_compatible name redirect =
     once redirect (fmt ''redirect fields cannot specify a {} attribute'' [name])"

definition field_attribute_step ::
    "nat \<Rightarrow> string \<Rightarrow> string \<Rightarrow> field_attributes \<Rightarrow> field_attributes doc" where
  "field_attribute_step n decl attr a =
     (let name = map ascii_lower attr in
      if name = ''offset'' then
        ensure_redirect_compatible ''offset'' (fa_redirect a)
        (ensure_unique attr (fa_offset a)
        (pbind (parse_doc_number ''offset'') (\<lambda>v. presult (Inr (a\<lparr>fa_offset := Some v\<rparr>)))))
      else if name = ''size'' then
        ensure_redirect_compatible ''size'' (fa_redirect a)
        (ensure_unique attr (fa_size a)
        (pbind (parse_doc_number ''size'') (\<lambda>v.
           presult
             (if v = 0 \<or> 512 < v then
                Inl (Parser (fmt ''field size must be between 1 and 512 bits, got {}'' [dec (unat v)]))
              else Inr (a\<lparr>fa_size := Some (ucast v)\<rparr>)))))
      else if name = ''reset'' then
        ensure_redirect_compatible ''reset'' (fa_redirect a)
        (ensure_unique attr (fa_reset a)
        (pbind (parse_doc_number ''reset'') (\<lambda>v. presult (Inr (a\<lparr>fa_reset := Some v\<rparr>)))))
      else if name = ''descr'' then
        ensure_unique attr (fa_description a)
        (pbind (string_value ''descr'') (\<lambda>v. presult (Inr (a\<lparr>fa_description := Some v\<rparr>))))
      else if name = ''redirect'' then
        ensure_unique attr (fa_redirect a)
        (once (fa_offset a) ''redirect fields cannot specify an offset''
        (once (fa_size a) ''redirect fields cannot specify a size''
        (once (fa_reset a) ''redirect fields cannot specify a reset value''
        (pbind (parse_context_reference n) (\<lambda>v. presult (Inr (a\<lparr>fa_redirect := Some v\<rparr>)))))))
      else if name = ''subfields'' then
        once (fa_subfields a) (fmt ''duplicate subfields block for field {}'' [decl])
        (pbind (parse_subfields_block n) (\<lambda>v. presult (Inr (a\<lparr>fa_subfields := Some v\<rparr>))))
      else if name = ''disp'' then
        ensure_unique attr (fa_display a)
        (pbind (string_value ''disp'') (\<lambda>v. presult (Inr (a\<lparr>fa_display := Some v\<rparr>))))
      else presult (Inl (Parser (fmt ''unknown field attribute {}'' [quoted name]))))"

definition parse_register_form :: "nat \<Rightarrow> string \<Rightarrow> isa_item doc" where
  "parse_register_form n space =
     pbind (expect_identifier_token ''field tag'') (\<lambda>name_token.
     pbind (pbind (doc_check Range) (\<lambda>m.
              if m then pbind doc_consume (\<lambda>t.
                          presult (rbind (parse_index_range t) (\<lambda>r. Inr (Some r))))
              else presult (Inr None))) (\<lambda>rng.
     pbind (attribute_loop n ''field attribute name'' ''field attribute name''
              (field_attribute_step n (tok_lexeme name_token))
              \<lparr>fa_offset = None, fa_size = None, fa_reset = None, fa_description = None,
               fa_redirect = None, fa_display = None, fa_subfields = None\<rparr>) (\<lambda>a.
     pbind (declaration_span name_token) (\<lambda>span.
       presult (Inr (SpaceMemberItem \<lparr>smd_space = space, smd_member = FieldMember
         \<lparr>fd_space = space, fd_name = tok_lexeme name_token, fd_range = rng,
          fd_offset = fa_offset a, fd_size = fa_size a, fd_reset = fa_reset a,
          fd_description = fa_description a, fd_redirect = fa_redirect a,
          fd_subfields = (case fa_subfields a of Some s \<Rightarrow> s | None \<Rightarrow> []),
          fd_span = span, fd_display = fa_display a\<rparr>\<rparr>))))))"

definition parse_space_context_directive :: "nat \<Rightarrow> string \<Rightarrow> space_kind \<Rightarrow> isa_item doc" where
  "parse_space_context_directive n space kind =
     (if kind = LogicSpace then parse_logic_context_directive n space
      else parse_register_form n space)"

end
