(* ===== verification/DocDirectives.thy ===== *)
theory DocDirectives
  imports DocMembers
begin

text \<open>
  Directives (\<open>src/loader/isa/parser/directives.rs\<close>) and whole documents: after an error the parser
  skips to the next directive and goes on, so one run reports the errors of all directives
  (\<open>specification.rs\<close>).
\<close>

section \<open>Directives\<close>

definition parse_param_directive :: "isa_item doc" where
  "parse_param_directive =
     pbind (parse_parameter_decl ''parameter name'') (\<lambda>d. presult (Inr (ParameterItem d)))"

definition parse_fileset_directive :: "isa_item doc" where
  "parse_fileset_directive =
     pbind (parse_parameter_decl ''fileset parameter name'') (\<lambda>d. presult (Inr (ParameterItem d)))"

definition parse_include_directive :: "isa_item doc" where
  "parse_include_directive p =
     (if \<not> dp_include p then
        Some (Inl (Parser '':include directive is only allowed inside .coredef files''), p)
      else
        pbind (doc_expect StringTok ''string literal with include path'') (\<lambda>t.
          presult (Inr (IncludeItem \<lparr>inc_path = tok_lexeme t, inc_optional = False\<rparr>))) p)"

primrec macro_parameters :: "nat \<Rightarrow> string list \<Rightarrow> string list doc" where
  "macro_parameters 0 params = (\<lambda>p. None)"
| "macro_parameters (Suc n) params =
     pbind (doc_expect_identifier ''macro parameter'') (\<lambda>param.
     pbind (doc_match Comma) (\<lambda>comma.
       if comma then macro_parameters n (params @ [param])
       else
         pbind (doc_expect RParen (quoted '')'' @ '' to close macro parameter list'')) (\<lambda>t.
           presult (Inr (params @ [param])))))"

definition parse_macro_parameters :: "nat \<Rightarrow> string list doc" where
  "parse_macro_parameters n =
     pbind (doc_expect LParen (quoted ''('' @ '' to start macro parameter list'')) (\<lambda>t.
     pbind (doc_match RParen) (\<lambda>close.
       if close then presult (Inr []) else macro_parameters n []))"

definition parse_macro_directive :: "nat \<Rightarrow> isa_item doc" where
  "parse_macro_directive n =
     pbind (expect_identifier_token ''macro name'') (\<lambda>name_token.
     pbind (parse_macro_parameters n) (\<lambda>params.
     pbind (parse_semantic_block ''macro body'') (\<lambda>semantics.
     pbind (declaration_span name_token) (\<lambda>span.
       presult (Inr (MacroItem \<lparr>md_name = tok_lexeme name_token, md_parameters = params,
         md_semantics = semantics, md_span = span\<rparr>))))))"

definition parse_space_context :: "nat \<Rightarrow> string \<Rightarrow> isa_item doc" where
  "parse_space_context n name p =
     (case dp_spaces p name of
        Some kind \<Rightarrow> parse_space_context_directive n name kind p
      | None \<Rightarrow>
          Some (Inl (Parser (fmt ''space :{} context referenced before definition'' [name])), p))"

text \<open>The tokens up to the next directive.\<close>

primrec trailing_tokens :: "nat \<Rightarrow> token list \<Rightarrow> token list doc" where
  "trailing_tokens 0 extras = (\<lambda>p. None)"
| "trailing_tokens (Suc n) extras =
     pbind directive_end (\<lambda>e.
       if e then presult (Inr extras)
       else pbind doc_consume (\<lambda>t. trailing_tokens n (extras @ [t])))"

definition ensure_directive_boundary :: "nat \<Rightarrow> string \<Rightarrow> unit doc" where
  "ensure_directive_boundary n directive =
     pbind directive_end (\<lambda>e.
       if e then presult (Inr ())
       else
         pbind (trailing_tokens n []) (\<lambda>extras.
           let snippet = join '' '' (filter (\<lambda>lex. lex \<noteq> []) (map tok_lexeme extras))
           in presult (Inl (Parser
                (if snippet = [] then fmt ''unexpected trailing tokens after :{}'' [directive]
                 else fmt ''unexpected trailing tokens after :{}: {}'' [directive, snippet])))))"

definition directive_body :: "nat \<Rightarrow> string \<Rightarrow> isa_item doc" where
  "directive_body n name =
     (if name = ''fileset'' then parse_fileset_directive
      else if name = ''param'' then parse_param_directive
      else if name = ''space'' then parse_space_directive n
      else if name = ''include'' then parse_include_directive
      else if name = ''macro'' then parse_macro_directive n
      else
        (\<lambda>p. if is_known_space name p then parse_space_context n name p
             else Some (Inl (Parser (fmt ''unsupported directive :{}'' [name])), p)))"

definition parse_directive :: "nat \<Rightarrow> isa_item doc" where
  "parse_directive n =
     pbind (doc_expect Colon (''directive introducer '' @ quoted '':'')) (\<lambda>t.
     pbind (doc_expect_identifier ''directive name'') (\<lambda>name.
     pbind (directive_body n name) (\<lambda>item.
     pbind (ensure_directive_boundary n name) (\<lambda>u. presult (Inr item)))))"

section \<open>Recovery\<close>

text \<open>\<open>current_error_span\<close>: the token looked at, else the last one consumed, else the next one if
  there is one.\<close>

definition current_error_span :: "doc_parser \<Rightarrow> source_span option \<times> doc_parser" where
  "current_error_span p =
     (case dp_peeked p of
        Some t \<Rightarrow> (Some (span_from_token (dp_path p) t), p)
      | None \<Rightarrow>
          (case dp_last p of
             Some t \<Rightarrow> (Some (span_from_token (dp_path p) t), p)
           | None \<Rightarrow>
               (case doc_peek p of
                  Some (Inr t, p') \<Rightarrow> (Some (span_from_token (dp_path p') t), p')
                | Some (Inl e, p') \<Rightarrow> (None, p')
                | None \<Rightarrow> (None, p))))"

definition push_parser_diagnostic :: "string \<Rightarrow> doc_parser \<Rightarrow> doc_parser" where
  "push_parser_diagnostic message p =
     (let (span, p') = current_error_span p
      in p'\<lparr>dp_diagnostics := dp_diagnostics p' @
           [\<lparr>diag_phase = ParserPhase, diag_level = ErrorLevel, diag_code = ''parser.syntax'',
             diag_message = message, diag_span = span\<rparr>]\<rparr>)"

text \<open>Skips to the next \<open>:\<close> or the end; an error of the lexer ends the skipping.\<close>

primrec synchronize_directive :: "nat \<Rightarrow> doc_parser \<Rightarrow> doc_parser option" where
  "synchronize_directive 0 p = None"
| "synchronize_directive (Suc n) p =
     (case doc_peek p of
        Some (Inr t, p1) \<Rightarrow>
          if tok_kind t = Colon \<or> tok_kind t = EOF then Some p1
          else
            (case doc_consume p1 of
               Some (Inr u, p2) \<Rightarrow> synchronize_directive n p2
             | Some (Inl e, p2) \<Rightarrow> Some p2
             | None \<Rightarrow> None)
      | Some (Inl e, p1) \<Rightarrow> Some p1
      | None \<Rightarrow> None)"

definition handle_parse_error :: "nat \<Rightarrow> isa_error \<Rightarrow> unit doc" where
  "handle_parse_error n err p =
     (let resume = (\<lambda>p. map_option (Pair (Inr ())) (synchronize_directive n p))
      in case err of
           Parser msg \<Rightarrow> resume (push_parser_diagnostic msg p)
         | Diagnostics phase diags \<Rightarrow>
             if phase = ParserPhase then
               resume (p\<lparr>dp_diagnostics := dp_diagnostics p @ diags\<rparr>)
             else Some (Inl err, p)
         | _ \<Rightarrow> Some (Inl err, p))"

section \<open>Documents\<close>

text \<open>One turn of the loop: a directive, or its error handled.\<close>

definition document_step :: "nat \<Rightarrow> isa_item list \<Rightarrow> isa_item list doc" where
  "document_step n items p =
     (case parse_directive n p of
        None \<Rightarrow> None
      | Some (Inr item, p') \<Rightarrow> Some (Inr (items @ [item]), p')
      | Some (Inl err, p') \<Rightarrow>
          pbind (handle_parse_error n err) (\<lambda>u. presult (Inr items)) p')"

primrec document_loop :: "nat \<Rightarrow> nat \<Rightarrow> isa_item list \<Rightarrow> isa_item list doc" where
  "document_loop 0 n items = (\<lambda>p. None)"
| "document_loop (Suc k) n items =
     pbind (doc_check EOF) (\<lambda>eof.
       if eof then presult (Inr items) else pbind (document_step n items) (document_loop k n))"

definition parse_document :: "nat \<Rightarrow> isa_specification doc" where
  "parse_document n =
     pbind (document_loop n n []) (\<lambda>items p.
       if dp_diagnostics p = [] then Some (Inr \<lparr>is_path = dp_path p, is_items = items\<rparr>, p)
       else Some (Inl (Diagnostics ParserPhase (dp_diagnostics p)), p\<lparr>dp_diagnostics := []\<rparr>))"

definition doc_fuel :: "string \<Rightarrow> nat" where
  "doc_fuel src = length src + 2"

definition parse_str_with_spaces ::
    "string \<Rightarrow> string \<Rightarrow> (string \<rightharpoonup> space_kind) \<Rightarrow> (isa_error + isa_specification) option" where
  "parse_str_with_spaces path src spaces =
     map_option fst
       (parse_document (doc_fuel src) (seed_known_spaces spaces (doc_parser_new src path)))"

definition parse_str :: "string \<Rightarrow> string \<Rightarrow> (isa_error + isa_specification) option" where
  "parse_str path src =
     map_option fst (parse_document (doc_fuel src) (doc_parser_new src path))"

end
