(* ===== verification/Validator.thy ===== *)
theory Validator
  imports MachineBuild
begin

text \<open>
  The validation of parsed documents (\<open>src/soc/isa/validator/\<close>) and the states it keeps for each
  space: the fields declared so far (\<open>space.rs\<close>, \<open>register.rs\<close>) and the forms of logic spaces
  (\<open>logic.rs\<close>).  Diagnostics are collected over all documents.
\<close>

section \<open>Fields of a space\<close>

record field_info =
  fi_subfields :: "string set"

definition field_info_new :: "string set \<Rightarrow> field_info" where
  "field_info_new subfields = \<lparr>fi_subfields = subfields\<rparr>"

definition merge_subfields :: "string list \<Rightarrow> field_info \<Rightarrow> field_info" where
  "merge_subfields names info = info\<lparr>fi_subfields := fi_subfields info \<union> set names\<rparr>"

definition has_subfield :: "field_info \<Rightarrow> string \<Rightarrow> bool" where
  "has_subfield info name \<longleftrightarrow> name \<in> fi_subfields info"

datatype field_registration_error =
    DuplicateField string
  | MissingBaseField string
  | EmptySubfieldAppend string

type_synonym space_state = "string \<rightharpoonup> field_info"

definition lookup_field :: "space_state \<Rightarrow> string \<Rightarrow> field_info option" where
  "lookup_field st name = st name"

definition expand_field_names :: "field_decl \<Rightarrow> string list" where
  "expand_field_names field =
     (case fd_range field of
        Some rng \<Rightarrow> map (\<lambda>i. fd_name field @ dec (unat i)) (range_indices rng)
      | None \<Rightarrow> [fd_name field])"

definition is_subfield_append :: "field_decl \<Rightarrow> bool" where
  "is_subfield_append field \<longleftrightarrow>
     \<not> (fd_offset field \<noteq> None \<or> fd_size field \<noteq> None \<or> fd_reset field \<noteq> None \<or>
        fd_description field \<noteq> None \<or> fd_redirect field \<noteq> None)"

definition is_redirect_only :: "field_decl \<Rightarrow> bool" where
  "is_redirect_only field \<longleftrightarrow>
     fd_redirect field \<noteq> None \<and> fd_offset field = None \<and> fd_size field = None \<and>
     fd_reset field = None \<and> fd_description field = None \<and> fd_subfields field = []"

text \<open>The names are registered one by one; an error leaves those before it registered.\<close>

fun register_targets ::
    "bool \<Rightarrow> bool \<Rightarrow> string list \<Rightarrow> string list \<Rightarrow> space_state \<Rightarrow>
     (field_registration_error + unit) \<times> space_state" where
  "register_targets append_only redirect_only subs [] st = (Inr (), st)"
| "register_targets append_only redirect_only subs (target # targets) st =
     (if append_only then
        (case st target of
           None \<Rightarrow> (Inl (MissingBaseField target), st)
         | Some info \<Rightarrow>
             register_targets append_only redirect_only subs targets
               (st(target \<mapsto> merge_subfields subs info)))
      else if st target \<noteq> None then
        (if redirect_only then register_targets append_only redirect_only subs targets st
         else (Inl (DuplicateField target), st))
      else
        register_targets append_only redirect_only subs targets
          (st(target \<mapsto> field_info_new (set subs))))"

definition state_register_field ::
    "field_decl \<Rightarrow> space_state \<Rightarrow> (field_registration_error + unit) \<times> space_state" where
  "state_register_field field st =
     (if is_subfield_append field \<and> fd_subfields field = [] then
        (Inl (EmptySubfieldAppend (fd_name field)), st)
      else
        register_targets (is_subfield_append field) (is_redirect_only field)
          (map sf_name (fd_subfields field)) (expand_field_names field) st)"

section \<open>Forms of a logic space\<close>

datatype logic_form_error =
    DuplicateForm string
  | MissingSubfields string
  | MissingParent string
  | DuplicateSubfield string

type_synonym logic_form = "string \<rightharpoonup> sub_field_decl"
type_synonym logic_state = "string \<rightharpoonup> logic_form"

fun merge_form :: "sub_field_decl list \<Rightarrow> logic_form \<Rightarrow> logic_form_error + logic_form" where
  "merge_form [] merged = Inr merged"
| "merge_form (sub # subs) merged =
     (if merged (sf_name sub) \<noteq> None then Inl (DuplicateSubfield (sf_name sub))
      else merge_form subs (merged(sf_name sub \<mapsto> sub)))"

definition state_register_form :: "form_decl \<Rightarrow> logic_state \<Rightarrow> logic_form_error + logic_state" where
  "state_register_form form st =
     (if st (fm_name form) \<noteq> None then Inl (DuplicateForm (fm_name form))
      else if fm_subfields form = [] then Inl (MissingSubfields (fm_name form))
      else
        rbind (case fm_parent form of
                 None \<Rightarrow> Inr Map.empty
               | Some parent \<Rightarrow> ok_or (st parent) (MissingParent parent)) (\<lambda>inherited.
        rbind (merge_form (fm_subfields form) inherited) (\<lambda>merged.
          Inr (st(fm_name form \<mapsto> merged)))))"

section \<open>The validator\<close>

text \<open>The code keeps the \<open>Debug\<close> text of a parameter and never reads it; the model keeps the value.\<close>

record validator =
  vd_seen_spaces :: "string set"
  vd_parameters :: "parameter_value string_map"
  vd_space_states :: "string \<rightharpoonup> space_state"
  vd_logic_states :: "string \<rightharpoonup> logic_state"
  vd_space_kinds :: "string \<rightharpoonup> space_kind"
  vd_logic_sizes :: "u32 string_map"
  vd_space_enables :: "string set"
  vd_diagnostics :: "isa_diagnostic list"

definition validator_new :: validator where
  "validator_new =
     \<lparr>vd_seen_spaces = {}, vd_parameters = [], vd_space_states = Map.empty,
      vd_logic_states = Map.empty, vd_space_kinds = Map.empty, vd_logic_sizes = [],
      vd_space_enables = {}, vd_diagnostics = []\<rparr>"

definition push_validation_diagnostic ::
    "string \<Rightarrow> string \<Rightarrow> source_span option \<Rightarrow> validator \<Rightarrow> validator" where
  "push_validation_diagnostic code message span v =
     v\<lparr>vd_diagnostics := vd_diagnostics v @
        [\<lparr>diag_phase = ValidationPhase, diag_level = ErrorLevel, diag_code = code,
          diag_message = message, diag_span = span\<rparr>]\<rparr>"

subsection \<open>Spaces\<close>

definition logic_word_size :: "space_decl \<Rightarrow> u32 option" where
  "logic_word_size space =
     head_option (List.map_filter (\<lambda>a. case a of WordSize bits \<Rightarrow> Some bits | _ \<Rightarrow> None)
       (sd_attributes space))"

definition validate_logic_space :: "space_decl \<Rightarrow> validator \<Rightarrow> validator" where
  "validate_logic_space space v =
     (let name = sd_name space;
          v1 = (case logic_word_size space of
                  Some word \<Rightarrow>
                    v\<lparr>vd_logic_states := (vd_logic_states v)
                        (name \<mapsto> (case vd_logic_states v name of Some s \<Rightarrow> s | None \<Rightarrow> Map.empty)),
                      vd_logic_sizes := map_insert name word (vd_logic_sizes v)\<rparr>
                | None \<Rightarrow>
                    push_validation_diagnostic ''validation.logic.word-size''
                      (fmt ''logic space {} missing word size'' [quoted name])
                      (Some (sd_span space)) v)
      in if sd_enable space \<noteq> None
         then v1\<lparr>vd_space_enables := insert name (vd_space_enables v1)\<rparr> else v1)"

definition validate_space :: "space_decl \<Rightarrow> validator \<Rightarrow> validator" where
  "validate_space space v =
     (let name = sd_name space in
      if name \<in> vd_seen_spaces v then
        push_validation_diagnostic ''validation.duplicate-space''
          (fmt ''space {} defined multiple times'' [quoted name]) (Some (sd_span space)) v
      else
        (let v1 = v\<lparr>vd_seen_spaces := insert name (vd_seen_spaces v),
                    vd_space_kinds := (vd_space_kinds v)(name \<mapsto> sd_kind space)\<rparr>;
             v2 = (if sd_kind space = LogicSpace then validate_logic_space space v1 else v1);
             v3 = (if sd_kind space \<noteq> LogicSpace \<and> sd_enable space \<noteq> None then
                     push_validation_diagnostic ''validation.enable.logic-only''
                       (fmt ''space {} declares enbl expression but only logic spaces support it''
                          [quoted name]) (Some (sd_span space)) v2
                   else v2)
         in v3\<lparr>vd_space_states := (vd_space_states v3)
                (name \<mapsto> (case vd_space_states v3 name of Some s \<Rightarrow> s | None \<Rightarrow> Map.empty))\<rparr>))"

subsection \<open>Fields\<close>

definition ensure_redirect_target_defined ::
    "field_decl \<Rightarrow> context_reference \<Rightarrow> validator \<Rightarrow> validator" where
  "ensure_redirect_target_defined field reference v =
     (let (target_space, path) = resolve_reference_path (fd_space field) reference;
          report = (\<lambda>code message. push_validation_diagnostic code message (Some (fd_span field)) v)
      in case path of
           [] \<Rightarrow> report ''validation.redirect.missing-field''
                   ''redirect requires a field name in its context reference''
         | field_name # rest \<Rightarrow>
             (case vd_space_states v target_space of
                None \<Rightarrow> report ''validation.redirect.unknown-space''
                          (fmt ''redirect references undefined space {}'' [quoted target_space])
              | Some st \<Rightarrow>
                  (case lookup_field st field_name of
                     None \<Rightarrow> report ''validation.redirect.unknown-field''
                               (fmt ''redirect references undefined field {} in space {}''
                                  [quoted field_name, quoted target_space])
                   | Some info \<Rightarrow>
                       (case rest of
                          [] \<Rightarrow> v
                        | sub # deeper \<Rightarrow>
                            if \<not> has_subfield info sub then
                              report ''validation.redirect.unknown-subfield''
                                (fmt ''redirect references undefined subfield {} on field {}''
                                   [quoted sub, quoted field_name])
                            else if deeper \<noteq> [] then
                              report ''validation.redirect.depth''
                                ''redirect context depth exceeds field::subfield''
                            else v))))"

definition field_error_diagnostic :: "field_registration_error \<Rightarrow> string \<times> string" where
  "field_error_diagnostic err =
     (case err of
        DuplicateField name \<Rightarrow>
          (''validation.duplicate-field'', fmt ''field {} declared multiple times'' [quoted name])
      | MissingBaseField name \<Rightarrow>
          (''validation.field.append-missing'',
           fmt ''cannot append subfields to undefined field {}'' [quoted name])
      | EmptySubfieldAppend name \<Rightarrow>
          (''validation.field.append-empty'',
           fmt ''field {} subfield-only declaration must list subfields'' [quoted name]))"

definition validate_field :: "field_decl \<Rightarrow> validator \<Rightarrow> validator" where
  "validate_field field v =
     (let v1 = (case fd_redirect field of
                  Some reference \<Rightarrow> ensure_redirect_target_defined field reference v
                | None \<Rightarrow> v)
      in case vd_space_states v1 (fd_space field) of
           None \<Rightarrow>
             push_validation_diagnostic ''validation.unknown-space-field''
               (fmt ''field {} declared in unknown space {}''
                  [quoted (fd_name field), quoted (fd_space field)]) (Some (fd_span field)) v1
         | Some st \<Rightarrow>
             (let (result, st') = state_register_field field st;
                  v2 = v1\<lparr>vd_space_states := (vd_space_states v1)(fd_space field \<mapsto> st')\<rparr>
              in case result of
                   Inr u \<Rightarrow> v2
                 | Inl err \<Rightarrow>
                     push_validation_diagnostic (fst (field_error_diagnostic err))
                       (snd (field_error_diagnostic err)) (Some (fd_span field)) v2))"

subsection \<open>Forms and instructions\<close>

definition form_error_diagnostic :: "logic_form_error \<Rightarrow> string \<times> string" where
  "form_error_diagnostic err =
     (case err of
        DuplicateForm name \<Rightarrow>
          (''validation.logic.form-duplicate'', fmt ''form {} declared multiple times'' [quoted name])
      | MissingSubfields name \<Rightarrow>
          (''validation.logic.form-empty'',
           fmt ''form {} must declare at least one subfield'' [quoted name])
      | MissingParent parent \<Rightarrow>
          (''validation.logic.form-parent'',
           fmt ''parent form {} must be declared before it can be extended'' [quoted parent])
      | DuplicateSubfield name \<Rightarrow>
          (''validation.logic.form-subfield-duplicate'',
           fmt ''subfield {} already exists on inherited form; duplicates not allowed'' [quoted name]))"

definition validate_form :: "form_decl \<Rightarrow> validator \<Rightarrow> validator" where
  "validate_form form v =
     (let report = (\<lambda>code message. push_validation_diagnostic code message (Some (fm_span form)) v);
          name = quoted (fm_name form); space = quoted (fm_space form)
      in case vd_space_kinds v (fm_space form) of
           None \<Rightarrow> report ''validation.logic.form-space''
                     (fmt ''form {} declared in unknown space {}'' [name, space])
         | Some kind \<Rightarrow>
             if kind \<noteq> LogicSpace then
               report ''validation.logic.form-space''
                 (fmt ''form {} can only be declared inside logic spaces'' [name])
             else
               (case vd_logic_states v (fm_space form) of
                  None \<Rightarrow> report ''validation.logic.form-space''
                            (fmt ''logic space {} has no state'' [space])
                | Some st \<Rightarrow>
                    (case state_register_form form st of
                       Inr st' \<Rightarrow> v\<lparr>vd_logic_states := (vd_logic_states v)(fm_space form \<mapsto> st')\<rparr>
                     | Inl err \<Rightarrow>
                         report (fst (form_error_diagnostic err)) (snd (form_error_diagnostic err)))))"

definition unknown_mask_fields :: "logic_form \<Rightarrow> mask_spec \<Rightarrow> string list" where
  "unknown_mask_fields form msk =
     List.map_filter
       (\<lambda>f. case mf_selector f of
              SelectField name \<Rightarrow> if form name = None then Some name else None
            | SelectBitExpr bits \<Rightarrow> None)
       (msk_fields msk)"

definition validate_instruction :: "instruction_decl \<Rightarrow> validator \<Rightarrow> validator" where
  "validate_instruction instr v =
     (let report = (\<lambda>code message. push_validation_diagnostic code message (Some (id_span instr)));
          name = quoted (id_name instr); space = quoted (id_space instr)
      in case vd_space_kinds v (id_space instr) of
           None \<Rightarrow> report ''validation.logic.instruction-space''
                     (fmt ''instruction {} declared in unknown space {}'' [name, space]) v
         | Some kind \<Rightarrow>
             if kind \<noteq> LogicSpace then
               report ''validation.logic.instruction-space''
                 (fmt ''instruction {} can only be declared inside logic spaces'' [name]) v
             else
               (case vd_logic_states v (id_space instr) of
                  None \<Rightarrow> report ''validation.logic.instruction-space''
                            (fmt ''logic space {} has no form state'' [space]) v
                | Some st \<Rightarrow>
                    (case id_form instr of
                       None \<Rightarrow> report ''validation.logic.instruction-form-missing''
                                 (fmt ''instruction {} must reference a form using {}''
                                    [name, quoted ''::<form>'']) v
                     | Some form_name \<Rightarrow>
                         (case st form_name of
                            None \<Rightarrow> report ''validation.logic.instruction-form''
                                      (fmt ''instruction {} references undefined form {}''
                                         [name, quoted form_name]) v
                          | Some form \<Rightarrow>
                              fold (\<lambda>f. report ''validation.logic.mask-field''
                                      (fmt ''mask references unknown field {} for instruction {}''
                                         [quoted f, name]))
                                (case id_mask instr of
                                   Some msk \<Rightarrow> unknown_mask_fields form msk
                                 | None \<Rightarrow> [])
                                v))))"

subsection \<open>Instruction widths\<close>

text \<open>When logic spaces of several widths exist, each width but the largest needs a space with an
  enable expression.  \<open>by_size\<close> is the \<open>BTreeMap\<close> from widths to the names of their spaces.\<close>

definition group_by_size :: "u32 string_map \<Rightarrow> (u32 \<times> string list) list" where
  "group_by_size sizes =
     map (\<lambda>bits. (bits, map fst (filter (\<lambda>(name, b). b = bits) sizes)))
       (sorted_list_of_set (set (map snd sizes)))"

definition ensure_enable_coverage :: "validator \<Rightarrow> validator" where
  "ensure_enable_coverage v =
     (let by_size = group_by_size (vd_logic_sizes v)
      in if length (vd_logic_sizes v) \<le> 1 \<or> length by_size \<le> 1 then v
         else
           fold (\<lambda>(bits, spaces) v.
                   if list_ex (\<lambda>s. s \<in> vd_space_enables v) spaces then v
                   else
                     push_validation_diagnostic ''validation.enable.missing''
                       (fmt (''logic space(s) {} ({}-bit) require an {} predicate '' @
                             ''when multiple instruction widths exist'')
                          [join '', '' spaces, dec (unat bits), quoted ''enbl={...}'']) None v)
             (butlast by_size) v)"

subsection \<open>Documents\<close>

definition validate_space_member :: "space_member_decl \<Rightarrow> validator \<Rightarrow> validator" where
  "validate_space_member member =
     (case smd_member member of
        FieldMember field \<Rightarrow> validate_field field
      | FormMember form \<Rightarrow> validate_form form
      | InstructionMember instr \<Rightarrow> validate_instruction instr)"

definition validate_item :: "isa_item \<Rightarrow> validator \<Rightarrow> validator" where
  "validate_item item v =
     (case item of
        SpaceItem space \<Rightarrow> validate_space space v
      | ParameterItem param \<Rightarrow>
          v\<lparr>vd_parameters := map_insert (pd_name param) (pd_value param) (vd_parameters v)\<rparr>
      | SpaceMemberItem member \<Rightarrow> validate_space_member member v
      | InstructionItem instr \<Rightarrow> v
      | MacroItem mac \<Rightarrow> v
      | IncludeItem inc \<Rightarrow> v)"

definition validate :: "isa_specification list \<Rightarrow> validator \<Rightarrow> (isa_error + unit) \<times> validator" where
  "validate docs v =
     (let v' = ensure_enable_coverage (fold validate_item (concat (map is_items docs)) v)
      in if vd_diagnostics v' = [] then (Inr (), v')
         else (Inl (Diagnostics ValidationPhase (vd_diagnostics v')), v'\<lparr>vd_diagnostics := []\<rparr>))"

end
