(* ===== verification/IsaBuild.thy ===== *)
theory IsaBuild
  imports Validator
begin

text \<open>
  Documents built in memory (\<open>src/soc/isa/builder.rs\<close>): a builder appends declarations whose spans all
  point to the first position of its path.
\<close>

record isa_builder =
  ib_path :: string
  ib_span :: source_span
  ib_items :: "isa_item list"

definition isa_builder_new :: "string \<Rightarrow> isa_builder" where
  "isa_builder_new path =
     \<lparr>ib_path = path, ib_span = span_point path \<lparr>pos_line = 1, pos_column = 1\<rparr>, ib_items = []\<rparr>"

definition push_item :: "isa_item \<Rightarrow> isa_builder \<Rightarrow> isa_builder" where
  "push_item item b = b\<lparr>ib_items := ib_items b @ [item]\<rparr>"

definition add_parameter :: "string \<Rightarrow> parameter_value \<Rightarrow> isa_builder \<Rightarrow> isa_builder" where
  "add_parameter name v = push_item (ParameterItem \<lparr>pd_name = name, pd_value = v\<rparr>)"

definition add_space :: "string \<Rightarrow> space_kind \<Rightarrow> space_attribute list \<Rightarrow> isa_builder \<Rightarrow> isa_builder" where
  "add_space name kind attributes b =
     push_item (SpaceItem \<lparr>sd_name = name, sd_kind = kind, sd_attributes = attributes,
       sd_span = ib_span b, sd_enable = None\<rparr>) b"

definition add_form_with_display ::
    "string \<Rightarrow> string \<Rightarrow> string option \<Rightarrow> string option \<Rightarrow> sub_field_decl list \<Rightarrow> isa_builder \<Rightarrow>
     isa_builder" where
  "add_form_with_display space name parent display subfields b =
     push_item (SpaceMemberItem \<lparr>smd_space = space, smd_member = FormMember
       \<lparr>fm_space = space, fm_name = name, fm_parent = parent, fm_description = None,
        fm_display = display, fm_subfields = subfields, fm_span = ib_span b\<rparr>\<rparr>) b"

definition builder_add_form ::
    "string \<Rightarrow> string \<Rightarrow> string option \<Rightarrow> sub_field_decl list \<Rightarrow> isa_builder \<Rightarrow> isa_builder" where
  "builder_add_form space name parent = add_form_with_display space name parent None"

text \<open>An instruction builder holds the declaration until \<open>finish\<close> pushes it.\<close>

definition builder_instruction :: "string \<Rightarrow> string \<Rightarrow> isa_builder \<Rightarrow> instruction_decl" where
  "builder_instruction space name b =
     \<lparr>id_space = space, id_form = None, id_name = name, id_description = None, id_operands = [],
      id_mask = None, id_encoding = None, id_semantics = None, id_display = None,
      id_operator = None, id_span = ib_span b\<rparr>"

definition with_form :: "string \<Rightarrow> instruction_decl \<Rightarrow> instruction_decl" where
  "with_form form d = d\<lparr>id_form := Some form\<rparr>"

definition with_operands :: "string list \<Rightarrow> instruction_decl \<Rightarrow> instruction_decl" where
  "with_operands operands d = d\<lparr>id_operands := operands\<rparr>"

definition with_mask :: "mask_spec \<Rightarrow> instruction_decl \<Rightarrow> instruction_decl" where
  "with_mask spec d = d\<lparr>id_mask := Some spec\<rparr>"

definition with_mask_field :: "mask_selector \<Rightarrow> u64 \<Rightarrow> instruction_decl \<Rightarrow> instruction_decl" where
  "with_mask_field selector v d =
     (let spec = (case id_mask d of Some s \<Rightarrow> s | None \<Rightarrow> \<lparr>msk_fields = []\<rparr>)
      in d\<lparr>id_mask := Some \<lparr>msk_fields = msk_fields spec @ [\<lparr>mf_selector = selector, mf_value = v\<rparr>]\<rparr>\<rparr>)"

definition with_description :: "string \<Rightarrow> instruction_decl \<Rightarrow> instruction_decl" where
  "with_description description d = d\<lparr>id_description := Some description\<rparr>"

definition with_display :: "string \<Rightarrow> instruction_decl \<Rightarrow> instruction_decl" where
  "with_display template d = d\<lparr>id_display := Some template\<rparr>"

definition with_operator :: "string \<Rightarrow> instruction_decl \<Rightarrow> instruction_decl" where
  "with_operator op d = d\<lparr>id_operator := Some op\<rparr>"

definition finish_instruction :: "instruction_decl \<Rightarrow> isa_builder \<Rightarrow> isa_builder" where
  "finish_instruction d =
     push_item (SpaceMemberItem \<lparr>smd_space = id_space d, smd_member = InstructionMember d\<rparr>)"

definition builder_document :: "isa_builder \<Rightarrow> isa_specification" where
  "builder_document b = \<lparr>is_path = ib_path b, is_items = ib_items b\<rparr>"

definition simple_subfield :: "string \<Rightarrow> string \<Rightarrow> sub_field_decl" where
  "simple_subfield name bit_spec =
     \<lparr>sf_name = name, sf_bit_spec = bit_spec, sf_operations = [], sf_description = None\<rparr>"

definition subfield_op :: "string \<Rightarrow> string option \<Rightarrow> sub_field_op" where
  "subfield_op kind subtype = \<lparr>so_kind = kind, so_subtype = subtype\<rparr>"

definition mask_field_selector :: "string \<Rightarrow> mask_selector" where
  "mask_field_selector name = SelectField name"

end
