(* ===== verification/Loader.thy ===== *)
theory Loader
  imports DocDirectives Validator
begin

text \<open>
  The loader (\<open>src/loader/isa/loader.rs\<close>): the files reachable by includes are parsed in order, each
  once, with the spaces known so far; the files of a core definition are checked against each other;
  the documents are validated and made into a machine.  The file system is a parameter: what
  \<open>fs::read_to_string\<close> returns for a path.
\<close>

type_synonym file_system = "string \<Rightarrow> string + string"

section \<open>The state\<close>

record isa_loader =
  ld_visited :: "(bool \<times> string list) set"
  ld_stack :: "string list"
  ld_spaces :: "string \<rightharpoonup> space_kind"

definition loader_new :: isa_loader where
  "loader_new = \<lparr>ld_visited = {}, ld_stack = [], ld_spaces = Map.empty\<rparr>"

definition record_spaces :: "isa_specification \<Rightarrow> isa_loader \<Rightarrow> isa_loader" where
  "record_spaces doc l =
     l\<lparr>ld_spaces := fold (\<lambda>item known. case item of
                             SpaceItem space \<Rightarrow> known(sd_name space \<mapsto> sd_kind space)
                           | _ \<Rightarrow> known) (is_items doc) (ld_spaces l)\<rparr>"

definition resolve_include_path :: "string \<Rightarrow> include_decl \<Rightarrow> string" where
  "resolve_include_path parent inc =
     (if is_relative (inc_path inc) then
        join_path (case parent_path parent of Some d \<Rightarrow> d | None \<Rightarrow> ''.'') (inc_path inc)
      else inc_path inc)"

definition lower_extension :: "string \<Rightarrow> string" where
  "lower_extension path =
     (case path_extension path of Some ext \<Rightarrow> map ascii_lower ext | None \<Rightarrow> [])"

section \<open>Collecting the documents\<close>

type_synonym 'a load = "(isa_loader, 'a) fuelled"

text \<open>An include whose error is skipped if it is optional; the message goes to standard error.\<close>

definition collect_include ::
    "(string \<Rightarrow> isa_specification list load) \<Rightarrow> bool \<Rightarrow> string \<Rightarrow> isa_specification list load" where
  "collect_include recurse optional path l =
     (case recurse path l of
        Some (Inl err, l') \<Rightarrow> Some (if optional then Inr [] else Inl err, l')
      | other \<Rightarrow> other)"

fun collect_includes ::
    "(string \<Rightarrow> isa_specification list load) \<Rightarrow> string \<Rightarrow> isa_item list \<Rightarrow> isa_specification list \<Rightarrow>
     isa_specification list load" where
  "collect_includes recurse path [] docs = presult (Inr docs)"
| "collect_includes recurse path (IncludeItem inc # items) docs =
     pbind (collect_include recurse (inc_optional inc) (resolve_include_path path inc)) (\<lambda>nested.
       collect_includes recurse path items (docs @ nested))"
| "collect_includes recurse path (item # items) docs = collect_includes recurse path items docs"

definition coredef_err :: "string \<Rightarrow> string \<Rightarrow> isa_error" where
  "coredef_err parent message = Machine (''coredef '' @ quoted parent @ message)"

fun coredef_includes :: "isa_item list \<Rightarrow> include_decl list option" where
  "coredef_includes [] = Some []"
| "coredef_includes (IncludeItem inc # items) = map_option ((#) inc) (coredef_includes items)"
| "coredef_includes (item # items) = None"

text \<open>The order of a core definition's includes: one \<open>.isa\<close> file, and \<open>.isaext\<close> files after it.\<close>

definition check_coredef_include :: "string \<Rightarrow> bool \<Rightarrow> string \<Rightarrow> isa_error + bool" where
  "check_coredef_include parent base_seen path =
     (let ext = lower_extension path in
      if ext = ''isa'' then
        (if base_seen then Inl (coredef_err parent '' cannot include multiple base .isa files'')
         else Inr True)
      else if ext = ''isaext'' then
        (if \<not> base_seen then
           Inl (coredef_err parent '' must include a base .isa before any .isaext files'')
         else Inr True)
      else Inl (coredef_err parent ('' includes unsupported file extension '' @ quoted (''.'' @ ext))))"

fun collect_coredef_includes ::
    "(string \<Rightarrow> isa_specification list load) \<Rightarrow> string \<Rightarrow> bool \<Rightarrow> include_decl list \<Rightarrow>
     isa_specification list \<Rightarrow> isa_specification list load" where
  "collect_coredef_includes recurse parent base_seen [] acc =
     presult (if \<not> base_seen then Inl (coredef_err parent '' must include exactly one base .isa'')
              else Inr acc)"
| "collect_coredef_includes recurse parent base_seen (inc # incs) acc =
     (let path = resolve_include_path parent inc
      in pbind (presult (check_coredef_include parent base_seen path)) (\<lambda>seen.
         pbind (collect_include recurse (inc_optional inc) path) (\<lambda>nested.
           collect_coredef_includes recurse parent seen incs (acc @ nested))))"

definition collect_coredef ::
    "(string \<Rightarrow> isa_specification list load) \<Rightarrow> string \<Rightarrow> isa_specification \<Rightarrow>
     isa_specification list load" where
  "collect_coredef recurse parent doc =
     (case coredef_includes (is_items doc) of
        None \<Rightarrow> presult (Inl (coredef_err parent '' may only contain :include directives''))
      | Some [] \<Rightarrow>
          presult (Inl (coredef_err parent '' must declare exactly one base .isa include''))
      | Some incs \<Rightarrow> collect_coredef_includes recurse parent False incs [])"

text \<open>The parsed file, its spaces recorded.\<close>

definition load_document :: "file_system \<Rightarrow> string \<Rightarrow> isa_specification load" where
  "load_document fs path l =
     (case fs path of
        Inl err \<Rightarrow> Some (Inl (Io err), l)
      | Inr src \<Rightarrow>
          (case parse_str_with_spaces path src (ld_spaces l) of
             None \<Rightarrow> None
           | Some (Inl err) \<Rightarrow> Some (Inl err, l)
           | Some (Inr doc) \<Rightarrow> Some (Inr doc, record_spaces doc l)))"

text \<open>The documents of a file with its includes; \<open>recurse\<close> is the function itself.  After an error the
  stack keeps the path.\<close>

definition collect_file ::
    "(string \<Rightarrow> isa_specification list load) \<Rightarrow> file_system \<Rightarrow> string \<Rightarrow> isa_specification list load"
where
  "collect_file recurse fs path =
     pbind (load_document fs path) (\<lambda>doc.
     pbind (if is_coredef path then collect_coredef recurse path doc
            else collect_includes recurse path (is_items doc) [doc]) (\<lambda>docs l.
       Some (Inr docs, l\<lparr>ld_stack := butlast (ld_stack l)\<rparr>)))"

definition enter_file ::
    "isa_specification list load \<Rightarrow> string \<Rightarrow> isa_specification list load" where
  "enter_file body path l =
     (let key = path_components path in
      if key \<in> ld_visited l then Some (Inr [], l)
      else
        (let l1 = l\<lparr>ld_visited := insert key (ld_visited l)\<rparr>
         in if key \<in> path_components ` set (ld_stack l) then
              Some (Inl (IncludeLoop (ld_stack l @ [path])), l1)
            else body (l1\<lparr>ld_stack := ld_stack l1 @ [path]\<rparr>)))"

primrec collect_files :: "nat \<Rightarrow> file_system \<Rightarrow> string \<Rightarrow> isa_specification list load" where
  "collect_files 0 fs path = (\<lambda>l. None)"
| "collect_files (Suc n) fs path = enter_file (collect_file (collect_files n fs) fs path) path"

section \<open>The files of a core definition\<close>

datatype file_kind = IsaFile | IsaExtFile | OtherFile

definition file_kind_of :: "string \<Rightarrow> file_kind" where
  "file_kind_of path =
     (let ext = lower_extension path in
      if ext = ''isa'' then IsaFile else if ext = ''isaext'' then IsaExtFile else OtherFile)"

record compatibility_state =
  cc_spaces :: "string set"
  cc_fields :: "string \<rightharpoonup> string set"

definition compatibility_new :: compatibility_state where
  "compatibility_new = \<lparr>cc_spaces = {}, cc_fields = Map.empty\<rparr>"

definition ensure_space_slot :: "string \<Rightarrow> compatibility_state \<Rightarrow> compatibility_state" where
  "ensure_space_slot space c =
     c\<lparr>cc_fields := (cc_fields c)
          (space \<mapsto> (case cc_fields c space of Some s \<Rightarrow> s | None \<Rightarrow> {})),
       cc_spaces := insert space (cc_spaces c)\<rparr>"

definition compat_register_space :: "string \<Rightarrow> compatibility_state \<Rightarrow> compatibility_state" where
  "compat_register_space space c =
     ensure_space_slot space (c\<lparr>cc_spaces := insert space (cc_spaces c)\<rparr>)"

definition compat_register_fields ::
    "string \<Rightarrow> string list \<Rightarrow> compatibility_state \<Rightarrow> compatibility_state" where
  "compat_register_fields space names c =
     (let c1 = ensure_space_slot space c
      in c1\<lparr>cc_fields := (cc_fields c1)(space \<mapsto> the (cc_fields c1 space) \<union> set names)\<rparr>)"

text \<open>\<open>is_append_only\<close> is the same function as the validator's \<open>is_subfield_append\<close>.\<close>

definition is_append_only :: "field_decl \<Rightarrow> bool" where
  "is_append_only field \<longleftrightarrow>
     fd_offset field = None \<and> fd_size field = None \<and> fd_reset field = None \<and>
     fd_description field = None \<and> fd_redirect field = None"

definition register_document_spaces :: "isa_specification \<Rightarrow> compatibility_state \<Rightarrow> compatibility_state"
where
  "register_document_spaces doc =
     fold (\<lambda>item. case item of SpaceItem space \<Rightarrow> compat_register_space (sd_name space) | _ \<Rightarrow> id)
       (is_items doc)"

definition record_base :: "isa_specification \<Rightarrow> compatibility_state \<Rightarrow> compatibility_state" where
  "record_base doc c =
     fold (\<lambda>item c.
             case item of
               SpaceMemberItem member \<Rightarrow>
                 (let c1 = ensure_space_slot (smd_space member) c
                  in case smd_member member of
                       FieldMember field \<Rightarrow>
                         compat_register_fields (fd_space field) (expand_field_names field) c1
                     | _ \<Rightarrow> c1)
             | _ \<Rightarrow> c)
       (is_items doc) (register_document_spaces doc c)"

definition extension_err :: "string \<Rightarrow> isa_specification \<Rightarrow> string \<Rightarrow> isa_error" where
  "extension_err coredef doc message =
     coredef_err coredef ('' extension '' @ quoted (is_path doc) @ message)"

definition ensure_space_known ::
    "string \<Rightarrow> isa_specification \<Rightarrow> string \<Rightarrow> compatibility_state \<Rightarrow> isa_error + compatibility_state"
where
  "ensure_space_known coredef doc space c =
     (if space \<in> cc_spaces c then Inr c
      else Inl (extension_err coredef doc ('' references unknown space '' @ quoted space)))"

definition check_extension_field ::
    "string \<Rightarrow> isa_specification \<Rightarrow> field_decl \<Rightarrow> compatibility_state \<Rightarrow>
     isa_error + compatibility_state" where
  "check_extension_field coredef doc field c =
     (let names = expand_field_names field in
      if is_append_only field then
        (case find (\<lambda>name. \<not> (case cc_fields c (fd_space field) of
                                 Some known \<Rightarrow> name \<in> known
                               | None \<Rightarrow> False)) names of
           Some name \<Rightarrow>
             Inl (extension_err coredef doc ('' appends to undefined field '' @
                    quoted (fd_space field @ ''::'' @ name)))
         | None \<Rightarrow> Inr c)
      else Inr (compat_register_fields (fd_space field) names c))"

definition check_extension ::
    "string \<Rightarrow> isa_specification \<Rightarrow> compatibility_state \<Rightarrow> isa_error + compatibility_state" where
  "check_extension coredef doc c =
     rfold (\<lambda>item c.
              case item of
                SpaceMemberItem member \<Rightarrow>
                  rbind (ensure_space_known coredef doc (smd_space member) c) (\<lambda>c.
                    case smd_member member of
                      FieldMember field \<Rightarrow> check_extension_field coredef doc field c
                    | _ \<Rightarrow> Inr c)
              | InstructionItem instr \<Rightarrow> ensure_space_known coredef doc (id_space instr) c
              | _ \<Rightarrow> Inr c)
       (is_items doc) (register_document_spaces doc c)"

definition verify_coredef_compatibility ::
    "string \<Rightarrow> isa_specification list \<Rightarrow> isa_error + compatibility_state" where
  "verify_coredef_compatibility coredef docs =
     rfold (\<lambda>doc c.
              case file_kind_of (is_path doc) of
                IsaFile \<Rightarrow> Inr (record_base doc c)
              | IsaExtFile \<Rightarrow> check_extension coredef doc c
              | OtherFile \<Rightarrow> Inr c)
       docs compatibility_new"

section \<open>Loading a machine\<close>

text \<open>A core definition includes \<open>.isa\<close> and \<open>.isaext\<close> files and those include nothing, so two levels
  are enough.\<close>

definition include_depth :: nat where
  "include_depth = 2"

definition load_machine :: "file_system \<Rightarrow> string \<Rightarrow> (isa_error + machine_description) option" where
  "load_machine fs entry =
     map_option (\<lambda>(r, l).
         rbind r (\<lambda>docs.
         rbind (if is_coredef entry then verify_coredef_compatibility entry docs
                else Inr compatibility_new) (\<lambda>c.
         rbind (fst (validate docs validator_new)) (\<lambda>u.
           finalize_machine machine_new docs))))
       (collect_files include_depth fs entry loader_new)"

section \<open>The public handle\<close>

text \<open>\<open>IsaHandle::semantics_for\<close> (\<open>src/soc/isa/handle.rs\<close>).\<close>

definition semantics_for :: "machine_description \<Rightarrow> string \<Rightarrow> semantic_block option" where
  "semantics_for m mnemonic =
     Option.bind (find (\<lambda>i. in_name i = mnemonic) (mc_instructions m)) in_semantics"

end
