(* ===== verification/DocFacts.thy ===== *)
theory DocFacts
  imports DocDirectives
begin

text \<open>
  The document parser always returns: every step leaves no more input than it was given, every loop
  consumes a token in each turn, and recovery from an error consumes at least one token of the
  directive.  The three properties compose along \<open>pbind\<close>, so each parsing function is one line.
\<close>

section \<open>The lexer never moves back\<close>

lemma forward_number: "forward consume_number"
proof -
  have "advances lx (snd (consume_number lx))" for lx
  proof -
    define lx1 where "lx1 = (if peek_char lx = Some CHR ''-'' then advance_char lx else lx)"
    have a: "advances lx lx1" by (simp add: lx1_def)
    obtain r n b lx2 where pre: "(if peek_char lx1 = Some CHR ''0'' then consume_prefix lx1
        else (RDecimal, 1, False, advance_char lx1)) = (r, n, b, lx2)"
      by (metis prod_cases4)
    have "advances lx1 lx2"
      using pre by (auto simp: consume_prefix_def Let_def split: if_splits option.splits
          intro: advances_trans [OF advances_advance advances_advance])
    moreover obtain n' lx3 where d: "consume_digits r n lx2 = (n', lx3)" by force
    moreover have "advances lx2 lx3" using advances_digits [of lx2 r n] d by simp
    ultimately have "advances lx lx3" using a advances_trans by blast
    then show ?thesis
      using a unfolding consume_number_def Let_def lx1_def [symmetric]
      by (simp add: pre d)
  qed
  then show ?thesis by (simp add: forward_def)
qed

lemma forward_bit_expr: "forward consume_bit_expr"
proof -
  have "advances lx (snd (consume_bit_expr lx))" for lx
    using advances_trans [OF advances_trans [OF advances_advance advances_advance]
        advances_parens [of "advance_char (advance_char lx)" 1]]
    by (auto simp: consume_bit_expr_def Let_def split: prod.splits)
  then show ?thesis by (simp add: forward_def)
qed

lemma forward_string: "forward consume_string"
proof -
  have "advances lx (snd (consume_string lx))" for lx
    using advances_trans [OF advances_advance [of lx]
        advances_string [of "advance_char lx" "lx_position lx" "[]"]]
    by (auto simp: consume_string_def Let_def se_bind_def split: prod.splits sum.splits)
  then show ?thesis by (simp add: forward_def)
qed

lemma advances_bind:
  assumes "forward m" and "\<And>a lx. advances lx (snd (f a lx))"
  shows "advances lx (snd (se_bind m f lx))"
proof -
  obtain r lx1 where m: "m lx = (r, lx1)" by force
  with assms(1) have "advances lx lx1" unfolding forward_def by (metis snd_conv)
  then show ?thesis
    using m assms(2) advances_trans by (auto simp: se_bind_def split: sum.splits)
qed

lemma advances_inline [simp]: "advances lx (skip_inline_whitespace lx)"
  by (simp add: skip_inline_whitespace_def)

lemma advances_range: "advances lx (snd (consume_range_token lx))"
  unfolding consume_range_token_def
  by (intro advances_trans [OF advances_trans [OF advances_advance advances_inline] advances_bind]
      advances_trans [OF advances_inline advances_bind] advances_bind forward_range_literal
      forward_operator forward_close)
    (simp_all add: forward_size_unit forward_lift)

lemma advances_lex_from: "lx_rest lx \<noteq> [] \<Longrightarrow> advances lx (snd (lex_from c lx))"
proof (cases "lex_from c lx")
  case (Pair r lx')
  assume ne: "lx_rest lx \<noteq> []"
  show ?thesis
  proof (cases r)
    case (Inr t)
    then show ?thesis
      using lossless_lex_from [OF ne, of c] Pair by (auto simp: lossless_def strictly_advances)
  next
    case (Inl e)
    with Pair have "lx' \<in> {snd (consume_range_token lx), snd (consume_bit_expr lx),
        snd (consume_number lx), snd (consume_string lx), advance_char lx}"
      by (auto simp: lex_from_def ok_token_def consume_identifier_def Let_def
          split: if_splits option.splits)
    then show ?thesis
      using Pair advances_range forward_bit_expr forward_number forward_string
      by (auto simp: forward_def)
  qed
qed

lemma advances_next: "advances lx (snd (next_token lx))"
  using advances_trans [OF advances_skip advances_lex_from]
  by (auto simp: next_token_def Let_def peek_char_Some split: option.splits)

lemma advances_block: "advances lx (snd (scan_block d body lx))"
proof (induction d body lx rule: scan_block.induct)
  case (1 d body lx)
  then show ?case
    using advances_trans [OF advances_advance [of lx]]
    by (cases "lx_rest lx") (auto simp: scan_block.simps [of d body lx] Let_def)
qed

section \<open>Three properties of a step\<close>

definition dsize :: "doc_parser \<Rightarrow> nat" where
  "dsize p = length (lx_rest (dp_lexer p)) +
     (case dp_peeked p of None \<Rightarrow> 0 | Some t \<Rightarrow> if tok_kind t = EOF then 0 else 1)"

text \<open>It keeps the file and leaves no more input; it returns whenever fewer than \<open>n\<close> characters are
  left; its success consumes.\<close>

definition shrinks :: "'a doc \<Rightarrow> bool" where
  "shrinks m \<longleftrightarrow> (\<forall>p r p'. m p = Some (r, p') \<longrightarrow>
     dsize p' \<le> dsize p \<and> dp_include p' = dp_include p)"

definition ends :: "nat \<Rightarrow> 'a doc \<Rightarrow> bool" where
  "ends n m \<longleftrightarrow> (\<forall>p. dsize p < n \<longrightarrow> m p \<noteq> None)"

definition eats :: "'a doc \<Rightarrow> bool" where
  "eats m \<longleftrightarrow> (\<forall>p a p'. m p = Some (Inr a, p') \<longrightarrow> dsize p' < dsize p)"

named_theorems doc_intros

lemma pbind_cases:
  assumes "pbind m f p = Some (r, p')"
  obtains (fails) e where "m p = Some (Inl e, p')" "r = Inl e"
    | (goes) a p1 where "m p = Some (Inr a, p1)" "f a p1 = Some (r, p')"
  using assms by (auto simp: pbind_def split: option.splits prod.splits sum.splits)

lemma shrinks_pbind [doc_intros]:
  assumes m: "shrinks m" and f: "\<And>a. shrinks (f a)"
  shows "shrinks (pbind m f)"
  unfolding shrinks_def
proof (intro allI impI)
  fix p r p' assume "pbind m f p = Some (r, p')"
  then show "dsize p' \<le> dsize p \<and> dp_include p' = dp_include p"
  proof (cases rule: pbind_cases)
    case (fails e)
    then show ?thesis using m by (auto simp: shrinks_def)
  next
    case (goes a p1)
    then show ?thesis
      using m [unfolded shrinks_def, rule_format, of p] f [unfolded shrinks_def, rule_format, of a p1]
      by fastforce
  qed
qed

lemma shrinks_presult [doc_intros]: "shrinks (presult r)"
  by (simp add: shrinks_def presult_def)

lemma ends_pbind:
  assumes "ends n m" and m: "shrinks m" and "\<And>a. ends n (f a)"
  shows "ends n (pbind m f)"
  unfolding ends_def
proof (intro allI impI)
  fix p assume p: "dsize p < n"
  then obtain r p1 where r: "m p = Some (r, p1)" using assms(1) by (fastforce simp: ends_def)
  then have "dsize p1 < n" using m p by (fastforce simp: shrinks_def)
  then show "pbind m f p \<noteq> None"
    using assms(3) r by (cases r) (auto simp: pbind_def ends_def)
qed

lemma ends_pbind_eats:
  assumes "ends (Suc n) m" and m: "shrinks m" and e: "eats m" and "\<And>a. ends n (f a)"
  shows "ends (Suc n) (pbind m f)"
  unfolding ends_def
proof (intro allI impI)
  fix p assume p: "dsize p < Suc n"
  then obtain r p1 where r: "m p = Some (r, p1)" using assms(1) by (fastforce simp: ends_def)
  show "pbind m f p \<noteq> None"
  proof (cases r)
    case (Inr a)
    then have "dsize p1 < dsize p" using e r by (auto simp: eats_def)
    then show ?thesis using assms(4) r p Inr by (auto simp: pbind_def ends_def)
  qed (simp add: pbind_def r)
qed

lemma ends_presult [doc_intros]: "ends n (presult r)"
  by (simp add: ends_def presult_def)

lemma ends_mono: "ends n m \<Longrightarrow> k \<le> n \<Longrightarrow> ends k m"
  by (auto simp: ends_def)

lemma eats_first:
  assumes "eats m" and "\<And>a. shrinks (f a)"
  shows "eats (pbind m f)"
  unfolding eats_def
proof (intro allI impI)
  fix p a p' assume "pbind m f p = Some (Inr a, p')"
  then show "dsize p' < dsize p"
  proof (cases rule: pbind_cases)
    case (goes b p1)
    then show ?thesis
      using assms(1) [unfolded eats_def, rule_format, of p b p1]
        assms(2) [unfolded shrinks_def, rule_format, of b p1] by fastforce
  qed simp
qed

lemma eats_second:
  assumes "shrinks m" and "\<And>a. eats (f a)"
  shows "eats (pbind m f)"
  unfolding eats_def
proof (intro allI impI)
  fix p a p' assume "pbind m f p = Some (Inr a, p')"
  then show "dsize p' < dsize p"
  proof (cases rule: pbind_cases)
    case (goes b p1)
    then show ?thesis
      using assms(1) [unfolded shrinks_def, rule_format, of p "Inr b" p1]
        assms(2) [unfolded eats_def, rule_format, of b p1 a p'] by fastforce
  qed simp
qed

lemma eats_error [doc_intros]: "eats (presult (Inl e))"
  by (simp add: eats_def presult_def)

section \<open>Tokens\<close>

lemma next_rest:
  assumes "next_token lx = (r, lx')"
  shows "length (lx_rest lx') + (case r of Inr t \<Rightarrow> if tok_kind t = EOF then 0 else 1 | Inl e \<Rightarrow> 0)
    \<le> length (lx_rest lx)"
  using assms next_token_size [of lx] advances_length [OF advances_next, of lx]
  by (cases r) auto

lemma peek_step:
  assumes "doc_peek p = Some (r, p')"
  shows "dsize p' \<le> dsize p" and "dp_include p' = dp_include p"
    and "r = Inr t \<Longrightarrow> dp_peeked p' = Some t"
  using assms next_rest [of "dp_lexer p"]
  by (fastforce simp: doc_peek_def dsize_def split: option.splits prod.splits sum.splits)+

lemma consume_step:
  assumes "doc_consume p = Some (r, p')"
  shows "dsize p' \<le> dsize p" and "dp_include p' = dp_include p"
    and "r = Inr t \<Longrightarrow> tok_kind t \<noteq> EOF \<Longrightarrow> dsize p' < dsize p"
    and "dp_peeked p = Some t \<Longrightarrow> r = Inr t"
  using assms next_rest [of "dp_lexer p"]
  by (fastforce simp: doc_consume_def dsize_def split: option.splits prod.splits sum.splits if_splits)+

lemma shrinks_peek [doc_intros]: "shrinks doc_peek"
  using peek_step by (auto simp: shrinks_def)

lemma shrinks_consume [doc_intros]: "shrinks doc_consume"
  using consume_step by (auto simp: shrinks_def)

lemma ends_peek [doc_intros]: "ends n doc_peek"
  by (auto simp: ends_def doc_peek_def split: option.splits prod.splits sum.splits)

lemma ends_consume [doc_intros]: "ends n doc_consume"
  by (auto simp: ends_def doc_consume_def split: option.splits prod.splits sum.splits)

lemma shrinks_check [doc_intros]: "shrinks (doc_check kind)"
  unfolding doc_check_def by (intro doc_intros)

lemma ends_check [doc_intros]: "ends n (doc_check kind)"
  unfolding doc_check_def by (intro ends_pbind doc_intros)

lemma check_peeked:
  assumes "doc_check kind p = Some (Inr b, p')"
  obtains t where "dp_peeked p' = Some t" "b = (tok_kind t = kind)"
  using assms by (auto simp: doc_check_def presult_def dest: peek_step(3) elim!: pbind_cases)

text \<open>A token that was looked at and is not the end is consumed.\<close>

lemma doc_consume_peeked:
  assumes "dp_peeked p = Some t" and "tok_kind t \<noteq> EOF" and "doc_consume p = Some (r, p')"
  shows "dsize p' < dsize p" and "r = Inr t"
  using consume_step(3,4) [OF assms(3)] assms(1,2) by auto

lemma shrinks_expect [doc_intros]: "shrinks (doc_expect kind context)"
  unfolding doc_expect_def by (intro doc_intros)

lemma ends_expect [doc_intros]: "ends n (doc_expect kind context)"
  unfolding doc_expect_def by (intro ends_pbind doc_intros)

lemma eats_expect [doc_intros]: "kind \<noteq> EOF \<Longrightarrow> eats (doc_expect kind context)"
  by (auto simp: eats_def doc_expect_def presult_def elim!: pbind_cases split: if_splits
      dest: consume_step(3))

lemma shrinks_identifier_token [doc_intros]: "shrinks (expect_identifier_token context)"
  unfolding expect_identifier_token_def by (intro doc_intros)

lemma ends_identifier_token [doc_intros]: "ends n (expect_identifier_token context)"
  unfolding expect_identifier_token_def by (intro ends_pbind doc_intros)

lemma eats_identifier_token [doc_intros]: "eats (expect_identifier_token context)"
  by (auto simp: eats_def expect_identifier_token_def presult_def elim!: pbind_cases split: if_splits
      dest: consume_step(3))

lemma shrinks_identifier [doc_intros]: "shrinks (doc_expect_identifier context)"
  unfolding doc_expect_identifier_def by (intro doc_intros)

lemma ends_identifier [doc_intros]: "ends n (doc_expect_identifier context)"
  unfolding doc_expect_identifier_def by (intro ends_pbind doc_intros)

lemma eats_identifier [doc_intros]: "eats (doc_expect_identifier context)"
  unfolding doc_expect_identifier_def by (intro eats_first doc_intros)

lemma shrinks_match [doc_intros]: "shrinks (doc_match kind)"
  unfolding doc_match_def by (intro doc_intros) (auto intro!: doc_intros)

lemma ends_match [doc_intros]: "ends n (doc_match kind)"
  unfolding doc_match_def by (intro ends_pbind doc_intros) (auto intro!: doc_intros ends_pbind)

lemma match_True:
  assumes "doc_match kind p = Some (Inr True, p')" and "kind \<noteq> EOF"
  shows "dsize p' < dsize p"
  using assms(1) unfolding doc_match_def
proof (cases rule: pbind_cases)
  case (goes b p1)
  obtain t where t: "dp_peeked p1 = Some t" "b = (tok_kind t = kind)" using check_peeked [OF goes(1)] .
  have le: "dsize p1 \<le> dsize p" using shrinks_check [of kind] goes(1) by (auto simp: shrinks_def)
  show ?thesis
  proof (cases b)
    case True
    with goes(2) obtain u where "doc_consume p1 = Some (Inr u, p')"
      by (auto simp: presult_def elim!: pbind_cases)
    then show ?thesis using doc_consume_peeked(1) [OF t(1)] t(2) True assms(2) le by fastforce
  qed (use goes(2) in \<open>simp add: presult_def\<close>)
qed simp

lemma ends_pbind_match:
  assumes "kind \<noteq> EOF" and "ends n (f True)" and "ends (Suc n) (f False)"
  shows "ends (Suc n) (pbind (doc_match kind) f)"
  unfolding ends_def
proof (intro allI impI)
  fix p assume p: "dsize p < Suc n"
  obtain r p1 where r: "doc_match kind p = Some (r, p1)"
    using ends_match [of "Suc n" kind] p by (fastforce simp: ends_def)
  then have le: "dsize p1 \<le> dsize p" using shrinks_match [of kind] by (auto simp: shrinks_def)
  show "pbind (doc_match kind) f p \<noteq> None"
  proof (cases r)
    case (Inr b)
    then show ?thesis
      using match_True [of kind p p1] assms r p le by (cases b) (auto simp: pbind_def ends_def)
  qed (simp add: pbind_def r)
qed

lemma eats_pbind_match:
  assumes "kind \<noteq> EOF" and "shrinks (f True)" and "eats (f False)"
  shows "eats (pbind (doc_match kind) f)"
  unfolding eats_def
proof (intro allI impI)
  fix p a p' assume "pbind (doc_match kind) f p = Some (Inr a, p')"
  then show "dsize p' < dsize p"
  proof (cases rule: pbind_cases)
    case (goes b p1)
    have le: "dsize p1 \<le> dsize p" using shrinks_match [of kind] goes(1) by (auto simp: shrinks_def)
    show ?thesis
    proof (cases b)
      case True
      then have "dsize p' \<le> dsize p1" using assms(2) goes(2) by (auto simp: shrinks_def)
      then show ?thesis using match_True [of kind p p1] goes(1) True assms(1) by simp
    next
      case False
      then have "dsize p' < dsize p1" using assms(3) goes(2) by (auto simp: eats_def)
      then show ?thesis using le by simp
    qed
  qed simp
qed

text \<open>\<open>if parser.check(kind)? { let token = parser.consume()?; ... }\<close>\<close>

lemma eats_check_consume:
  assumes "kind \<noteq> EOF" and "\<And>t. shrinks (f t)" and "eats g"
  shows "eats (pbind (doc_check kind) (\<lambda>b. if b then pbind doc_consume f else g))"
  unfolding eats_def
proof (intro allI impI)
  fix p a p'
  assume "pbind (doc_check kind) (\<lambda>b. if b then pbind doc_consume f else g) p = Some (Inr a, p')"
  then show "dsize p' < dsize p"
  proof (cases rule: pbind_cases)
    case (goes b p1)
    obtain t where t: "dp_peeked p1 = Some t" "b = (tok_kind t = kind)" using check_peeked [OF goes(1)] .
    have le: "dsize p1 \<le> dsize p" using shrinks_check [of kind] goes(1) by (auto simp: shrinks_def)
    show ?thesis
    proof (cases b)
      case True
      with goes(2) obtain u p2 where u: "doc_consume p1 = Some (Inr u, p2)" "f u p2 = Some (Inr a, p')"
        by (auto elim!: pbind_cases)
      then have "dsize p' \<le> dsize p2" using assms(2) by (auto simp: shrinks_def)
      moreover have "dsize p2 < dsize p1" using doc_consume_peeked(1) [OF t(1) _ u(1)] t(2) True assms(1) by simp
      ultimately show ?thesis using le by simp
    next
      case False
      then have "dsize p' < dsize p1" using assms(3) goes(2) by (auto simp: eats_def)
      then show ?thesis using le by simp
    qed
  qed simp
qed

lemma shrinks_end [doc_intros]: "shrinks directive_end"
  unfolding directive_end_def by (intro doc_intros) (auto intro!: doc_intros)

lemma ends_end [doc_intros]: "ends n directive_end"
  unfolding directive_end_def by (intro ends_pbind doc_intros) (auto intro!: doc_intros)

lemma end_peeked:
  assumes "directive_end p = Some (Inr False, p')"
  obtains t where "dp_peeked p' = Some t" "tok_kind t \<noteq> EOF"
proof -
  obtain p1 where p1: "doc_check EOF p = Some (Inr False, p1)" "doc_check Colon p1 = Some (Inr False, p')"
    using assms by (auto simp: directive_end_def presult_def elim!: pbind_cases split: if_splits)
  obtain t where "dp_peeked p1 = Some t" "tok_kind t \<noteq> EOF" using check_peeked [OF p1(1)] by auto
  moreover have "dp_peeked p' = dp_peeked p1"
    using p1(2) calculation(1)
    by (auto simp: doc_check_def doc_peek_def presult_def elim!: pbind_cases)
  ultimately show ?thesis using that by simp
qed

section \<open>The functions of the parser\<close>

lemma shrinks_None [doc_intros]: "shrinks (\<lambda>p. None)"
  by (simp add: shrinks_def)

lemma ends_0 [doc_intros]: "ends 0 m"
  by (simp add: ends_def)

lemma eats_None [doc_intros]: "eats (\<lambda>p. None)"
  by (simp add: eats_def)

lemma shrinks_span [doc_intros]: "shrinks (declaration_span t)"
  by (simp add: shrinks_def declaration_span_def)

lemma ends_span [doc_intros]: "ends n (declaration_span t)"
  by (simp add: ends_def declaration_span_def)

lemma block_step:
  assumes "capture_braced_block lx = (r, lx')"
  shows "length (lx_rest lx') \<le> length (lx_rest lx)"
  using advances_length [OF advances_block [of lx 1 "[]"]] assms by (simp add: capture_braced_block_def)

lemma shrinks_block [doc_intros]: "shrinks (parse_semantic_block context)"
  unfolding parse_semantic_block_def
  by (rule shrinks_pbind [OF shrinks_expect])
    (auto simp: shrinks_def dsize_def Let_def split: prod.splits sum.splits dest: block_step)

lemma ends_block [doc_intros]: "ends n (parse_semantic_block context)"
  unfolding parse_semantic_block_def
  by (intro ends_pbind doc_intros) (auto simp: ends_def Let_def split: prod.splits sum.splits)

lemma shrinks_parameter_value [doc_intros]: "shrinks parse_parameter_value"
  unfolding parse_parameter_value_def by (intro doc_intros)

lemma ends_parameter_value [doc_intros]: "ends n parse_parameter_value"
  unfolding parse_parameter_value_def by (intro ends_pbind doc_intros)

lemma shrinks_parameter [doc_intros]: "shrinks (parse_parameter_decl c)"
  unfolding parse_parameter_decl_def by (intro doc_intros)

lemma ends_parameter [doc_intros]: "ends n (parse_parameter_decl c)"
  unfolding parse_parameter_decl_def by (intro ends_pbind doc_intros)

subsection \<open>Enable expressions\<close>

lemma shrinks_doubled [doc_intros]: "shrinks (match_doubled a b c)"
  unfolding match_doubled_def by (auto intro!: doc_intros)

lemma ends_doubled [doc_intros]: "ends n (match_doubled a b c)"
  unfolding match_doubled_def by (auto intro!: ends_pbind doc_intros)

lemma match_logical [doc_intros]:
  "shrinks match_logical_and" "shrinks match_logical_or"
  "ends n match_logical_and" "ends n match_logical_or"
  unfolding match_logical_and_def match_logical_or_def by (intro doc_intros)+

lemma shrinks_when_matched [doc_intros]: "shrinks m \<Longrightarrow> shrinks (when_matched b m)"
  unfolding when_matched_def by (auto intro!: doc_intros)

lemma ends_when_matched [doc_intros]: "shrinks m \<Longrightarrow> ends n m \<Longrightarrow> ends n (when_matched b m)"
  unfolding when_matched_def by (auto intro!: ends_pbind doc_intros)

lemma shrinks_equality [doc_intros]: "shrinks match_equality"
  unfolding match_equality_def by (auto intro!: doc_intros)

lemma ends_equality [doc_intros]: "ends n match_equality"
  unfolding match_equality_def by (auto intro!: ends_pbind doc_intros)

lemma shrinks_operator_loop [doc_intros]:
  "shrinks operator \<Longrightarrow> shrinks operand \<Longrightarrow> shrinks (operator_loop n operator operand e)"
  by (induction n arbitrary: e) (auto intro!: doc_intros split: option.split)

lemma ends_operator_loop:
  assumes "shrinks operator" "shrinks operand" "eats operand"
    and "\<And>k. k \<le> n \<Longrightarrow> ends k operator" "\<And>k. k \<le> n \<Longrightarrow> ends k operand"
  shows "ends n (operator_loop n operator operand e)"
  using assms(4,5)
proof (induction n arbitrary: e)
  case (Suc n)
  have "ends (Suc n) (case m of None \<Rightarrow> presult (Inr e)
      | Some b \<Rightarrow> pbind operand (\<lambda>rhs. operator_loop n operator operand (BinaryOpExpr b e rhs)))" for m
    using Suc assms(1-3) by (cases m) (auto intro!: ends_pbind_eats doc_intros)
  then show ?case using Suc.prems assms(1) by (auto intro!: ends_pbind)
qed (intro doc_intros)

lemma shrinks_primary [doc_intros]: "shrinks e \<Longrightarrow> shrinks (parse_primary_expr e)"
  unfolding parse_primary_expr_def by (auto intro!: doc_intros)

lemma eats_primary [doc_intros]: "shrinks e \<Longrightarrow> eats (parse_primary_expr e)"
  unfolding parse_primary_expr_def
  by (rule eats_pbind_match) (auto intro!: doc_intros eats_check_consume)

lemma ends_primary:
  "shrinks e \<Longrightarrow> ends n e \<Longrightarrow> ends (Suc n) (parse_primary_expr e)"
  unfolding parse_primary_expr_def
  by (rule ends_pbind_match) (auto intro!: doc_intros ends_pbind)

lemma shrinks_equality_expr [doc_intros]: "shrinks e \<Longrightarrow> shrinks (parse_equality_expr n e)"
  unfolding parse_equality_expr_def by (auto intro!: doc_intros)

lemma eats_equality_expr [doc_intros]: "shrinks e \<Longrightarrow> eats (parse_equality_expr n e)"
  unfolding parse_equality_expr_def by (auto intro!: eats_first doc_intros)

lemma ends_equality_expr:
  "shrinks e \<Longrightarrow> ends n e \<Longrightarrow> ends (Suc n) (parse_equality_expr (Suc n) e)"
  unfolding parse_equality_expr_def
  by (intro ends_pbind ends_primary shrinks_primary ends_operator_loop doc_intros)
    (auto intro: ends_mono [OF ends_primary])

lemma shrinks_and_expr [doc_intros]: "shrinks e \<Longrightarrow> shrinks (parse_and_expr n e)"
  unfolding parse_and_expr_def by (auto intro!: doc_intros)

lemma eats_and_expr [doc_intros]: "shrinks e \<Longrightarrow> eats (parse_and_expr n e)"
  unfolding parse_and_expr_def by (auto intro!: eats_first doc_intros)

lemma ends_and_expr:
  "shrinks e \<Longrightarrow> ends n e \<Longrightarrow> ends (Suc n) (parse_and_expr (Suc n) e)"
  unfolding parse_and_expr_def
  by (intro ends_pbind ends_equality_expr shrinks_equality_expr ends_operator_loop doc_intros)
    (auto intro: ends_mono [OF ends_equality_expr])

lemma shrinks_or_expr [doc_intros]: "shrinks (parse_or_expr n)"
  by (induction n) (auto intro!: doc_intros)

lemma ends_or_expr [doc_intros]: "ends n (parse_or_expr n)"
proof (induction n)
  case (Suc n)
  show ?case
    unfolding parse_or_expr.simps
    by (intro ends_pbind ends_and_expr Suc ends_operator_loop doc_intros)
      (auto intro: ends_mono [OF ends_and_expr [OF shrinks_or_expr Suc]])
qed (intro doc_intros)

lemma shrinks_expr_block [doc_intros]: "shrinks (parse_semantic_expr_block n c)"
  unfolding parse_semantic_expr_block_def by (intro doc_intros)

lemma ends_expr_block [doc_intros]: "ends n (parse_semantic_expr_block n c)"
  unfolding parse_semantic_expr_block_def by (intro ends_pbind doc_intros)

subsection \<open>Declarations\<close>

text \<open>The rules in the forms the loops have.\<close>

lemma ends_if_match:
  "kind \<noteq> EOF \<Longrightarrow> ends n A \<Longrightarrow> ends (Suc n) B \<Longrightarrow>
    ends (Suc n) (pbind (doc_match kind) (\<lambda>b. if b then A else B))"
  by (rule ends_pbind_match) simp_all

lemma ends_if_check:
  "ends n A \<Longrightarrow> ends n B \<Longrightarrow> ends n (pbind (doc_check kind) (\<lambda>b. if b then A else B))"
  by (rule ends_pbind [OF ends_check shrinks_check]) simp

lemma ends_expect_bind:
  "kind \<noteq> EOF \<Longrightarrow> (\<And>t. ends n (f t)) \<Longrightarrow> ends (Suc n) (pbind (doc_expect kind c) f)"
  by (rule ends_pbind_eats [OF ends_expect shrinks_expect eats_expect])

lemma ends_identifier_bind:
  "(\<And>t. ends n (f t)) \<Longrightarrow> ends (Suc n) (pbind (doc_expect_identifier c) f)"
  by (rule ends_pbind_eats [OF ends_identifier shrinks_identifier eats_identifier])

lemmas ends_steps =
  ends_pbind [OF ends_expect shrinks_expect] ends_pbind [OF ends_identifier shrinks_identifier]
  ends_pbind [OF ends_match shrinks_match] ends_pbind [OF ends_presult shrinks_presult]
  ends_pbind [OF ends_consume shrinks_consume] ends_pbind [OF ends_peek shrinks_peek]

lemma shrinks_number_attribute [doc_intros]: "shrinks (number_attribute c)"
  unfolding number_attribute_def by (intro doc_intros)

lemma ends_number_attribute [doc_intros]: "ends n (number_attribute c)"
  unfolding number_attribute_def by (intro ends_pbind doc_intros)

lemma shrinks_space_step [doc_intros]: "shrinks (space_attribute_step n name a)"
  unfolding space_attribute_step_def by (auto intro!: doc_intros)

lemma ends_space_step:
  assumes "k \<le> n"
  shows "ends k (space_attribute_step n name a)"
proof -
  have "ends k (parse_semantic_expr_block n c)" for c by (rule ends_mono [OF ends_expr_block assms])
  then show ?thesis
    unfolding space_attribute_step_def
    by (simp split: if_split) (intro conjI impI ends_pbind doc_intros; assumption)
qed

lemma shrinks_attribute_loop [doc_intros]:
  "(\<And>name a. shrinks (step name a)) \<Longrightarrow> shrinks (attribute_loop n what after step a)"
  by (induction n arbitrary: a) (auto intro!: doc_intros)

lemma ends_attribute_loop:
  assumes "\<And>name a. shrinks (step name a)" and "\<And>k name a. k \<le> n \<Longrightarrow> ends k (step name a)"
  shows "ends n (attribute_loop n what after step a)"
  using assms(2)
proof (induction n arbitrary: a)
  case (Suc n)
  have "ends n (pbind (doc_expect Equals x) (\<lambda>t. pbind (step name a)
      (attribute_loop n what after step)))" for x name
    using Suc assms(1) by (intro ends_pbind doc_intros) auto
  then show ?case by (auto intro!: ends_pbind [OF ends_end] ends_pbind_eats doc_intros)
qed (intro doc_intros)

lemma declared_space [doc_intros]:
  "shrinks (\<lambda>p. pbind (declaration_span t) (\<lambda>s. presult (f s)) (doc_register_space name kind p))"
  "ends n (\<lambda>p. pbind (declaration_span t) (\<lambda>s. presult (f s)) (doc_register_space name kind p))"
  by (simp_all add: shrinks_def ends_def pbind_def declaration_span_def presult_def
      doc_register_space_def dsize_def)

lemma shrinks_space [doc_intros]: "shrinks (parse_space_directive n)"
  unfolding parse_space_directive_def by (auto intro!: doc_intros)

lemma ends_space [doc_intros]: "ends n (parse_space_directive n)"
  unfolding parse_space_directive_def
  by (auto intro!: ends_pbind ends_attribute_loop ends_space_step doc_intros)

lemma shrinks_op_segments [doc_intros]: "shrinks (op_segments n name)"
  by (induction n arbitrary: name) (auto intro!: doc_intros)

lemma ends_op_segments [doc_intros]: "ends n (op_segments n name)"
proof (induction n arbitrary: name)
  case (Suc n)
  then show ?case
    unfolding op_segments.simps
    by (intro ends_pbind_match) (auto intro!: ends_pbind doc_intros)
qed (intro doc_intros)

lemma shrinks_subfield_ops [doc_intros]: "shrinks (parse_subfield_ops n ops)"
  by (induction n arbitrary: ops) (auto intro!: doc_intros)

lemma ends_subfield_ops [doc_intros]: "ends n (parse_subfield_ops n ops)"
proof (induction n arbitrary: ops)
  case (Suc n)
  then show ?case
    unfolding parse_subfield_ops.simps
    by (intro ends_pbind_eats doc_intros)
      (auto intro!: ends_pbind doc_intros intro: ends_mono [OF ends_op_segments])
qed (intro doc_intros)

lemma shrinks_subfield_attributes [doc_intros]: "shrinks (subfield_attributes n name ops descr)"
  by (induction n arbitrary: ops descr) (auto intro!: doc_intros)

lemma ends_subfield_attributes [doc_intros]: "ends n (subfield_attributes n name ops descr)"
proof (induction n arbitrary: ops descr)
  case (Suc n)
  have "ends n (pbind (parse_subfield_ops (Suc n) []) (\<lambda>ops. subfield_attributes n name ops d))" for d
    by (intro ends_pbind doc_intros ends_mono [OF ends_subfield_ops] Suc) auto
  moreover have "ends n (pbind (doc_expect StringTok c)
      (\<lambda>v. subfield_attributes n name ops (Some (tok_lexeme v))))" for c ops
    by (intro ends_steps Suc)
  ultimately show ?case
    unfolding subfield_attributes.simps
    by (auto intro!: ends_pbind [OF ends_check] ends_steps(5,6) ends_expect_bind
        doc_intros Suc simp del: parse_subfield_ops.simps)
qed (intro doc_intros)

lemma shrinks_subfield_entries [doc_intros]: "shrinks (subfield_entries n entries)"
  by (induction n arbitrary: entries) (auto intro!: doc_intros)

lemma ends_subfield_entries [doc_intros]: "ends n (subfield_entries n entries)"
proof (induction n arbitrary: entries)
  case (Suc n)
  have "ends n (pbind (subfield_attributes (Suc n) name [] None) (\<lambda>(ops, descr).
      subfield_entries n (entries @ [\<lparr>sf_name = name, sf_bit_spec = tok_lexeme bits,
        sf_operations = ops, sf_description = descr\<rparr>])))" for name bits
    by (rule ends_pbind [OF ends_mono [OF ends_subfield_attributes] shrinks_subfield_attributes])
      (auto intro: Suc)
  then show ?case
    unfolding subfield_entries.simps
    by (intro ends_if_check ends_if_match ends_identifier_bind ends_steps ends_presult)
      (simp_all del: subfield_attributes.simps)
qed (intro doc_intros)

lemma shrinks_subfields [doc_intros]: "shrinks (parse_subfields_block n)"
  unfolding parse_subfields_block_def by (intro doc_intros)

lemma ends_subfields [doc_intros]: "ends n (parse_subfields_block n)"
  unfolding parse_subfields_block_def by (intro ends_pbind doc_intros)

lemma shrinks_operand_list [doc_intros]: "shrinks (operand_list n operands)"
  by (induction n arbitrary: operands) (auto intro!: doc_intros)

lemma ends_operand_list [doc_intros]: "ends n (operand_list n operands)"
proof (induction n arbitrary: operands)
  case (Suc n)
  then show ?case
    unfolding operand_list.simps
    by (intro ends_pbind_match)
      (auto intro!: ends_pbind_eats ends_pbind [OF ends_match] ends_pbind [OF ends_expect] doc_intros)
qed (intro doc_intros)

lemma shrinks_operands [doc_intros]: "shrinks (parse_operand_list n)"
  unfolding parse_operand_list_def by (intro doc_intros)

lemma ends_operands [doc_intros]: "ends n (parse_operand_list n)"
  unfolding parse_operand_list_def by (intro ends_pbind doc_intros)

lemma shrinks_selector [doc_intros]: "shrinks parse_mask_selector"
  unfolding parse_mask_selector_def by (auto intro!: doc_intros)

lemma ends_selector [doc_intros]: "ends n parse_mask_selector"
  unfolding parse_mask_selector_def by (auto intro!: ends_pbind doc_intros)

lemma shrinks_mask_fields [doc_intros]: "shrinks (mask_fields n entries)"
  by (induction n arbitrary: entries) (auto intro!: doc_intros)

lemma ends_mask_fields [doc_intros]: "ends n (mask_fields n entries)"
proof (induction n arbitrary: entries)
  case (Suc n)
  show ?case
    unfolding mask_fields.simps
    by (intro ends_if_match ends_pbind [OF ends_selector shrinks_selector] ends_expect_bind
        ends_steps ends_presult Suc) simp_all
qed (intro doc_intros)

lemma shrinks_mask_block [doc_intros]: "shrinks (parse_mask_block n)"
  unfolding parse_mask_block_def by (intro doc_intros)

lemma ends_mask_block [doc_intros]: "ends n (parse_mask_block n)"
  unfolding parse_mask_block_def by (intro ends_pbind doc_intros)

lemma shrinks_once [doc_intros]: "shrinks m \<Longrightarrow> shrinks (once slot message m)"
  by (auto simp: once_def intro!: doc_intros)

lemma ends_once [doc_intros]: "ends n m \<Longrightarrow> ends n (once slot message m)"
  by (auto simp: once_def intro!: doc_intros)

lemma shrinks_string_value [doc_intros]: "shrinks (string_value c)"
  unfolding string_value_def by (intro doc_intros)

lemma ends_string_value [doc_intros]: "ends n (string_value c)"
  unfolding string_value_def by (intro ends_pbind doc_intros)

lemma shrinks_logic_step [doc_intros]: "shrinks (logic_attribute_step n decl name a)"
  unfolding logic_attribute_step_def Let_def
  by (simp split: if_split) (intro conjI impI doc_intros)

lemma ends_logic_step:
  assumes "k \<le> n"
  shows "ends k (logic_attribute_step n decl name a)"
  using ends_mono [OF ends_mask_block assms] ends_mono [OF ends_subfields assms]
  unfolding logic_attribute_step_def Let_def
  by (simp split: if_split) (intro conjI impI ends_once ends_pbind doc_intros; assumption)

lemma shrinks_qualifier [doc_intros]:
  "shrinks (pbind (doc_match DoubleColon) (\<lambda>m.
     if m then pbind (doc_expect_identifier c) (\<lambda>q. presult (Inr (Some q))) else presult (Inr None)))"
  "ends n (pbind (doc_match DoubleColon) (\<lambda>m.
     if m then pbind (doc_expect_identifier c) (\<lambda>q. presult (Inr (Some q))) else presult (Inr None)))"
  by (auto intro!: doc_intros ends_pbind)

lemma shrinks_if_check [doc_intros]:
  "shrinks A \<Longrightarrow> shrinks B \<Longrightarrow> shrinks (pbind (doc_check kind) (\<lambda>b. if b then A else B))"
  by (auto intro!: doc_intros)

lemma shrinks_logic [doc_intros]: "shrinks (parse_logic_context_directive n space)"
  unfolding parse_logic_context_directive_def by (intro doc_intros)

lemma ends_logic [doc_intros]: "ends n (parse_logic_context_directive n space)"
  unfolding parse_logic_context_directive_def
  by (intro ends_pbind [OF shrinks_qualifier(2,1)] ends_pbind [OF ends_if_check shrinks_if_check]
      ends_pbind ends_attribute_loop ends_logic_step doc_intros)

lemma shrinks_doc_number [doc_intros]: "shrinks (parse_doc_number c)"
  unfolding parse_doc_number_def by (intro doc_intros)

lemma ends_doc_number [doc_intros]: "ends n (parse_doc_number c)"
  unfolding parse_doc_number_def by (intro ends_pbind doc_intros)

lemma shrinks_segments [doc_intros]: "shrinks (reference_segments n segs)"
  by (induction n arbitrary: segs) (auto intro!: doc_intros)

lemma ends_segments [doc_intros]: "ends n (reference_segments n segs)"
proof (induction n arbitrary: segs)
  case (Suc n)
  then show ?case
    unfolding reference_segments.simps by (intro ends_if_match ends_steps doc_intros) simp_all
qed (intro doc_intros)

lemma shrinks_reference [doc_intros]: "shrinks (parse_context_reference n)"
  unfolding parse_context_reference_def by (intro doc_intros)

lemma ends_reference [doc_intros]: "ends n (parse_context_reference n)"
  unfolding parse_context_reference_def by (intro ends_pbind doc_intros)

lemma ensure_intros [doc_intros]:
  "shrinks m \<Longrightarrow> shrinks (ensure_unique attr slot m)"
  "ends n m \<Longrightarrow> ends n (ensure_unique attr slot m)"
  "shrinks m \<Longrightarrow> shrinks (ensure_redirect_compatible attr redirect m)"
  "ends n m \<Longrightarrow> ends n (ensure_redirect_compatible attr redirect m)"
  by (simp_all add: ensure_unique_def ensure_redirect_compatible_def shrinks_once ends_once)

lemma shrinks_field_step [doc_intros]: "shrinks (field_attribute_step n decl attr a)"
  unfolding field_attribute_step_def Let_def
  by (simp split: if_split) (intro conjI impI doc_intros)

lemma ends_field_step:
  assumes "k \<le> n"
  shows "ends k (field_attribute_step n decl attr a)"
  using ends_mono [OF ends_reference assms] ends_mono [OF ends_subfields assms]
  unfolding field_attribute_step_def Let_def
  by (simp split: if_split) (intro conjI impI ensure_intros ends_once ends_pbind doc_intros; assumption)

lemma shrinks_field [doc_intros]: "shrinks (parse_register_form n space)"
  unfolding parse_register_form_def by (intro doc_intros)

lemma ends_field [doc_intros]: "ends n (parse_register_form n space)"
  unfolding parse_register_form_def
  by (intro ends_pbind [OF ends_if_check shrinks_if_check]
      ends_pbind ends_attribute_loop ends_field_step doc_intros)

lemma member_intros [doc_intros]:
  "shrinks (parse_space_context_directive n space kind)"
  "ends n (parse_space_context_directive n space kind)"
  unfolding parse_space_context_directive_def by (auto intro!: doc_intros)

subsection \<open>Directives\<close>

lemma simple_directive_intros [doc_intros]:
  "shrinks parse_param_directive" "ends n parse_param_directive"
  "shrinks parse_fileset_directive" "ends n parse_fileset_directive"
  unfolding parse_param_directive_def parse_fileset_directive_def
  by (intro ends_pbind doc_intros)+

lemma include_intros [doc_intros]:
  "shrinks parse_include_directive" "ends n parse_include_directive"
proof -
  have m: "shrinks (pbind (doc_expect StringTok c) (\<lambda>t. presult (f t)))"
    "ends n (pbind (doc_expect StringTok c) (\<lambda>t. presult (f t)))" for c and f :: "_ \<Rightarrow> _ + isa_item"
    by (intro ends_pbind doc_intros)+
  show "shrinks parse_include_directive" "ends n parse_include_directive"
    using m by (auto simp: parse_include_directive_def shrinks_def ends_def)
qed

lemma shrinks_macro_parameters [doc_intros]: "shrinks (macro_parameters n params)"
  by (induction n arbitrary: params) (auto intro!: doc_intros)

lemma ends_macro_parameters [doc_intros]: "ends n (macro_parameters n params)"
proof (induction n arbitrary: params)
  case (Suc n)
  have "ends n (pbind (doc_match Comma) (\<lambda>comma. if comma then macro_parameters n (params @ [p])
      else pbind (doc_expect RParen c) (\<lambda>t. presult (Inr (params @ [p])))))" for p c
    by (rule ends_steps(3)) (auto intro!: Suc ends_steps doc_intros)
  then show ?case
    unfolding macro_parameters.simps by (intro ends_identifier_bind)
qed (intro doc_intros)

lemma macro_intros [doc_intros]:
  "shrinks (parse_macro_parameters n)" "ends n (parse_macro_parameters n)"
  "shrinks (parse_macro_directive n)" "ends n (parse_macro_directive n)"
proof -
  show p: "shrinks (parse_macro_parameters n)" "ends n (parse_macro_parameters n)"
    unfolding parse_macro_parameters_def by (auto intro!: ends_pbind doc_intros)
  show "shrinks (parse_macro_directive n)" "ends n (parse_macro_directive n)"
    unfolding parse_macro_directive_def by (intro ends_pbind doc_intros p)+
qed

lemma space_context_intros [doc_intros]:
  "shrinks (parse_space_context n name)" "ends n (parse_space_context n name)"
  using member_intros
  by (auto simp: parse_space_context_def shrinks_def ends_def split: option.splits)

lemma body_intros [doc_intros]: "shrinks (directive_body n name)" "ends n (directive_body n name)"
proof -
  have "shrinks (\<lambda>p. if is_known_space name p then parse_space_context n name p else Some (Inl e, p))"
    "ends n (\<lambda>p. if is_known_space name p then parse_space_context n name p else Some (Inl e, p))" for e
    using space_context_intros by (auto simp: shrinks_def ends_def)
  then show "shrinks (directive_body n name)" "ends n (directive_body n name)"
    unfolding directive_body_def by (auto intro!: doc_intros)
qed

text \<open>A token that is not the end of a directive is consumed.\<close>

lemma ends_not_end:
  assumes "ends (Suc n) A" and "\<And>t. ends n (f t)"
  shows "ends (Suc n) (pbind directive_end (\<lambda>e. if e then A else pbind doc_consume f))"
  unfolding ends_def
proof (intro allI impI)
  fix p assume p: "dsize p < Suc n"
  obtain r p1 where r: "directive_end p = Some (r, p1)"
    using ends_end [of "Suc n"] p by (fastforce simp: ends_def)
  then have le: "dsize p1 \<le> dsize p" using shrinks_end by (auto simp: shrinks_def)
  consider (err) e where "r = Inl e" | (stop) "r = Inr True" | (goes) "r = Inr False"
    by (cases r) auto
  then show "pbind directive_end (\<lambda>e. if e then A else pbind doc_consume f) p \<noteq> None"
  proof cases
    case goes
    obtain t where t: "dp_peeked p1 = Some t" "tok_kind t \<noteq> EOF" using end_peeked r goes by blast
    obtain s p2 where s: "doc_consume p1 = Some (s, p2)"
      using ends_consume [of "Suc n"] p le by (fastforce simp: ends_def)
    have "dsize p2 < dsize p1" "s = Inr t" using doc_consume_peeked [OF t s] by blast+
    then show ?thesis using assms(2) p le s by (auto simp: pbind_def r goes ends_def)
  next
    case stop
    then show ?thesis using assms(1) p le by (simp add: pbind_def r ends_def)
  qed (simp add: pbind_def r)
qed

lemma shrinks_trailing [doc_intros]: "shrinks (trailing_tokens n extras)"
  by (induction n arbitrary: extras) (auto intro!: doc_intros)

lemma ends_trailing [doc_intros]: "ends n (trailing_tokens n extras)"
  by (induction n arbitrary: extras) (auto intro!: ends_not_end doc_intros)

lemma boundary_intros [doc_intros]:
  "shrinks (ensure_directive_boundary n d)" "ends n (ensure_directive_boundary n d)"
  unfolding ensure_directive_boundary_def Let_def by (auto intro!: ends_pbind doc_intros)

lemma directive_intros [doc_intros]: "shrinks (parse_directive n)" "ends n (parse_directive n)"
  unfolding parse_directive_def by (intro ends_pbind doc_intros)+

section \<open>Recovery and documents\<close>

lemma peek_returns: "\<exists>r p'. doc_peek p = Some (r, p')"
  using ends_peek [of "Suc (dsize p)"] by (fastforce simp: ends_def)

lemma consume_returns: "\<exists>r p'. doc_consume p = Some (r, p')"
  using ends_consume [of "Suc (dsize p)"] by (fastforce simp: ends_def)

text \<open>One turn of \<open>synchronize_directive\<close>: it stops, or consumes a token and goes on.\<close>

lemma synchronize_cases:
  obtains (stop) p1 where "synchronize_directive (Suc n) p = Some p1" "dsize p1 \<le> dsize p"
      "dp_include p1 = dp_include p"
    | (goes) p1 where "synchronize_directive (Suc n) p = synchronize_directive n p1"
      "dsize p1 < dsize p" "dp_include p1 = dp_include p"
proof -
  obtain r p1 where r: "doc_peek p = Some (r, p1)" using peek_returns by blast
  note s1 = peek_step [OF r]
  show ?thesis
  proof (cases r)
    case (Inr t)
    show ?thesis
    proof (cases "tok_kind t = Colon \<or> tok_kind t = EOF")
      case False
      obtain u p2 where u: "doc_consume p1 = Some (u, p2)" using consume_returns by blast
      have "u = Inr t" "dsize p2 < dsize p1"
        using doc_consume_peeked [OF s1(3) [OF Inr] _ u] False by auto
      then show ?thesis
        using goes [of p2] s1 r Inr u False consume_step(2) [OF u] by auto
    qed (use stop s1 r Inr in auto)
  qed (use stop s1 r in auto)
qed

lemma synchronize_step:
  "synchronize_directive n p = Some p' \<Longrightarrow> dsize p' \<le> dsize p \<and> dp_include p' = dp_include p"
proof (induction n arbitrary: p)
  case (Suc n)
  show ?case
    by (rule synchronize_cases [of n p]) (use Suc in fastforce)+
qed simp

lemma synchronize_ends: "dsize p < n \<Longrightarrow> synchronize_directive n p \<noteq> None"
proof (induction n arbitrary: p)
  case (Suc n)
  show ?case
    by (rule synchronize_cases [of n p]) (use Suc in fastforce)+
qed simp

lemma dsize_diagnostics [simp]: "dsize (p\<lparr>dp_diagnostics := d\<rparr>) = dsize p"
  by (simp add: dsize_def)

lemma push_diagnostic_step:
  "dsize (push_parser_diagnostic msg p) \<le> dsize p"
  "dp_include (push_parser_diagnostic msg p) = dp_include p"
proof -
  obtain r q where r: "doc_peek p = Some (r, q)" using peek_returns by blast
  have "snd (current_error_span p) = p \<or> snd (current_error_span p) = q"
    by (cases r) (simp_all add: current_error_span_def r split: option.split)
  then show "dsize (push_parser_diagnostic msg p) \<le> dsize p"
    "dp_include (push_parser_diagnostic msg p) = dp_include p"
    using peek_step(1,2) [OF r]
    by (auto simp: push_parser_diagnostic_def case_prod_unfold Let_def)
qed

lemma handle_cases:
  obtains (abort) "handle_parse_error n err p = Some (Inl err, p)"
    | (resume) q where "dsize q \<le> dsize p" "dp_include q = dp_include p"
      "handle_parse_error n err p = map_option (Pair (Inr ())) (synchronize_directive n q)"
proof (cases err)
  case (Parser msg)
  then show ?thesis
    using resume push_diagnostic_step [of msg p] by (simp add: handle_parse_error_def)
next
  case (Diagnostics phase diags)
  then show ?thesis
    using abort resume [of "p\<lparr>dp_diagnostics := dp_diagnostics p @ diags\<rparr>"]
    by (cases "phase = ParserPhase") (simp_all add: handle_parse_error_def)
qed (use abort in \<open>simp_all add: handle_parse_error_def\<close>)

lemma shrinks_handle [doc_intros]: "shrinks (handle_parse_error n err)"
  unfolding shrinks_def
proof (intro allI impI)
  fix p r p' assume run: "handle_parse_error n err p = Some (r, p')"
  show "dsize p' \<le> dsize p \<and> dp_include p' = dp_include p"
  proof (cases rule: handle_cases [of n err p])
    case (resume q)
    then have "synchronize_directive n q = Some p'"
      using run by (cases "synchronize_directive n q") auto
    from synchronize_step [OF this] resume show ?thesis by simp
  qed (use run in simp)
qed

lemma ends_handle [doc_intros]: "ends n (handle_parse_error n err)"
  unfolding ends_def
proof (intro allI impI)
  fix p assume p: "dsize p < n"
  show "handle_parse_error n err p \<noteq> None"
  proof (cases rule: handle_cases [of n err p])
    case (resume q)
    then show ?thesis using synchronize_ends [of q n] p by simp
  qed simp
qed

text \<open>A directive that starts at a token other than the end takes that token, error or not.\<close>

lemma directive_eats:
  assumes t: "dp_peeked p = Some t" "tok_kind t \<noteq> EOF" and run: "parse_directive n p = Some (r, p')"
  shows "dsize p' < dsize p" and "dp_include p' = dp_include p"
proof -
  let ?f = "\<lambda>t. pbind (doc_expect_identifier ''directive name'') (\<lambda>name.
     pbind (directive_body n name) (\<lambda>item.
     pbind (ensure_directive_boundary n name) (\<lambda>u. presult (Inr item))))"
  obtain p1 where c: "doc_consume p = Some (Inr t, p1)"
    using t by (simp add: doc_consume_def)
  have lt: "dsize p1 < dsize p" using doc_consume_peeked(1) [OF t c] .
  have "shrinks (?f u)" for u by (intro doc_intros)
  moreover have "(r, p') = (Inl (Parser (fmt ''expected {}'' [''directive introducer '' @ quoted '':''])), p1)
      \<or> ?f t p1 = Some (r, p')"
    using run c unfolding parse_directive_def doc_expect_def
    by (auto simp: pbind_def presult_def split: if_splits)
  ultimately show "dsize p' < dsize p" and "dp_include p' = dp_include p"
    using lt consume_step(2) [OF c] by (auto simp: shrinks_def; fastforce)+
qed

lemma document_step_eats:
  assumes t: "dp_peeked p = Some t" "tok_kind t \<noteq> EOF" and run: "document_step n items p = Some (r, p')"
  shows "dsize p' < dsize p" and "dp_include p' = dp_include p"
proof -
  obtain s p1 where s: "parse_directive n p = Some (s, p1)"
    using run by (auto simp: document_step_def split: option.splits)
  note d = directive_eats [OF t s]
  have "shrinks (pbind (handle_parse_error n err) (\<lambda>u. presult (Inr items)))" for err
    by (intro doc_intros)
  then show "dsize p' < dsize p" and "dp_include p' = dp_include p"
    using run s d by (auto simp: document_step_def shrinks_def split: sum.splits; fastforce)+
qed

lemma document_step_ends: "ends n (document_step n items)"
  unfolding ends_def
proof (intro allI impI)
  fix p assume p: "dsize p < n"
  then obtain s p1 where s: "parse_directive n p = Some (s, p1)"
    using directive_intros(2) [of n] by (fastforce simp: ends_def)
  then have "dsize p1 < n" using directive_intros(1) [of n] p by (fastforce simp: shrinks_def)
  then have "pbind (handle_parse_error n err) (\<lambda>u. presult (Inr items)) p1 \<noteq> None" for err
    using ends_pbind [OF ends_handle shrinks_handle ends_presult, of n err "\<lambda>u. Inr items"]
    by (simp add: ends_def)
  then show "document_step n items p \<noteq> None"
    using s by (cases s) (simp_all add: document_step_def)
qed

lemma document_loop_ends: "k \<le> n \<Longrightarrow> dsize p < k \<Longrightarrow> document_loop k n items p \<noteq> None"
proof (induction k arbitrary: items p)
  case (Suc k)
  obtain r p1 where r: "doc_check EOF p = Some (r, p1)"
    using ends_check [of "Suc k" EOF] Suc.prems by (fastforce simp: ends_def)
  then have le: "dsize p1 \<le> dsize p" using shrinks_check by (auto simp: shrinks_def)
  consider (err) e where "r = Inl e" | (stop) "r = Inr True" | (goes) "r = Inr False"
    by (cases r) auto
  then show ?case
  proof cases
    case goes
    obtain t where t: "dp_peeked p1 = Some t" "tok_kind t \<noteq> EOF" using check_peeked [of EOF p False p1] r goes by auto
    obtain s p2 where s: "document_step n items p1 = Some (s, p2)"
      using document_step_ends [of n items] Suc.prems le by (fastforce simp: ends_def)
    have "dsize p2 < k" using document_step_eats(1) [OF t s] le Suc.prems by simp
    then show ?thesis
      using Suc.IH Suc.prems r goes s by (cases s) (auto simp: pbind_def)
  qed (simp_all add: pbind_def presult_def r)
qed simp

lemma dsize_new: "dsize (seed_known_spaces spaces (doc_parser_new src path)) = length src"
  by (simp add: dsize_def seed_known_spaces_def doc_parser_new_def lexer_new_def lexer_with_origin_def)

lemma parse_str_returns: "parse_str_with_spaces path src spaces \<noteq> None"
proof -
  let ?p = "seed_known_spaces spaces (doc_parser_new src path)"
  obtain r p' where "document_loop (doc_fuel src) (doc_fuel src) [] ?p = Some (r, p')"
    using document_loop_ends [of "doc_fuel src" "doc_fuel src" ?p "[]"] dsize_new [of spaces src path]
    by (auto simp: doc_fuel_def)
  then show ?thesis
    by (cases r) (auto simp: parse_str_with_spaces_def parse_document_def pbind_def)
qed

end
