(* ===== verification/LoaderFacts.thy ===== *)
theory LoaderFacts
  imports Loader DocFacts
begin

text \<open>
  The loader always returns, whatever the file system holds: only a core definition may include files,
  the files it may include are no core definitions, and the parser returns on every text.
\<close>

section \<open>Documents without includes\<close>

definition no_include :: "isa_item \<Rightarrow> bool" where
  "no_include item = (case item of IncludeItem inc \<Rightarrow> False | _ \<Rightarrow> True)"

definition yields :: "('a \<Rightarrow> bool) \<Rightarrow> 'a doc \<Rightarrow> bool" where
  "yields P m \<longleftrightarrow> (\<forall>p a p'. m p = Some (Inr a, p') \<longrightarrow> P a)"

lemma yieldsD: "yields P m \<Longrightarrow> m p = Some (Inr a, p') \<Longrightarrow> P a"
  by (auto simp: yields_def)

lemma yields_pbind: "(\<And>a. yields P (f a)) \<Longrightarrow> yields P (pbind m f)"
  by (auto simp: yields_def elim!: pbind_cases)

lemma yields_presult: "(\<And>a. r = Inr a \<Longrightarrow> P a) \<Longrightarrow> yields P (presult r)"
  by (auto simp: yields_def presult_def)

lemma yields_space: "yields no_include (parse_space_directive n)"
proof -
  have "yields no_include (\<lambda>p. pbind (declaration_span t) (\<lambda>s. presult (Inr (SpaceItem (f s))))
      (doc_register_space name kind p))" for t f name kind
    by (simp add: yields_def no_include_def pbind_def declaration_span_def presult_def)
  then show ?thesis
    unfolding parse_space_directive_def
    by (auto intro!: yields_pbind yields_presult)
qed

lemma yields_parameter:
  "yields no_include parse_param_directive" "yields no_include parse_fileset_directive"
  unfolding parse_param_directive_def parse_fileset_directive_def
  by (auto intro!: yields_pbind yields_presult simp: no_include_def)

lemma yields_macro: "yields no_include (parse_macro_directive n)"
  unfolding parse_macro_directive_def
  by (auto intro!: yields_pbind yields_presult simp: no_include_def)

lemma logic_item_member: "logic_item space q name ops a span = Inr item \<Longrightarrow> no_include item"
  by (auto simp: logic_item_def Let_def no_include_def split: if_splits option.splits)

lemma yields_member: "yields no_include (parse_space_context_directive n space kind)"
  unfolding parse_space_context_directive_def parse_logic_context_directive_def parse_register_form_def
  by (auto intro!: yields_pbind yields_presult dest: logic_item_member simp: no_include_def)

lemma body_no_include:
  assumes "directive_body n name p = Some (Inr item, p')" and "\<not> dp_include p"
  shows "no_include item"
  using assms
  by (auto simp: directive_body_def parse_include_directive_def parse_space_context_def
      split: if_splits option.splits dest: yieldsD [OF yields_space] yieldsD [OF yields_parameter(1)]
        yieldsD [OF yields_parameter(2)] yieldsD [OF yields_macro] yieldsD [OF yields_member])

lemma directive_no_include:
  assumes "parse_directive n p = Some (Inr item, p')" and "\<not> dp_include p"
  shows "no_include item"
proof -
  obtain t p1 name p2 i p3 u p4 where
    s: "doc_expect Colon (''directive introducer '' @ quoted '':'') p = Some (Inr t, p1)"
      "doc_expect_identifier ''directive name'' p1 = Some (Inr name, p2)"
      "directive_body n name p2 = Some (Inr i, p3)"
      "ensure_directive_boundary n name p3 = Some (Inr u, p4)" "item = i"
    using assms(1) unfolding parse_directive_def
    by (auto simp: presult_def elim!: pbind_cases)
  have "dp_include p1 = dp_include p" using shrinks_expect s(1) unfolding shrinks_def by blast
  moreover have "dp_include p2 = dp_include p1" using shrinks_identifier s(2) unfolding shrinks_def by blast
  ultimately show ?thesis using body_no_include [OF s(3)] assms(2) s(5) by simp
qed

lemma loop_no_include:
  "document_loop k n items p = Some (Inr items', p') \<Longrightarrow> \<not> dp_include p \<Longrightarrow> list_all no_include items \<Longrightarrow>
    list_all no_include items'"
proof (induction k arbitrary: items p)
  case (Suc k)
  obtain b p1 where b: "doc_check EOF p = Some (Inr b, p1)"
    and r: "(if b then presult (Inr items) else pbind (document_step n items) (document_loop k n)) p1
      = Some (Inr items', p')"
    using Suc.prems(1) by (auto elim!: pbind_cases)
  have inc: "\<not> dp_include p1" using shrinks_check b Suc.prems(2) by (metis shrinks_def)
  show ?case
  proof (cases b)
    case False
    then obtain xs p2 where x: "document_step n items p1 = Some (Inr xs, p2)"
      "document_loop k n xs p2 = Some (Inr items', p')"
      using r by (auto elim!: pbind_cases)
    obtain t where t: "dp_peeked p1 = Some t" "tok_kind t \<noteq> EOF"
      using check_peeked [of EOF p False p1] b False by auto
    have "\<not> dp_include p2" using document_step_eats(2) [OF t x(1)] inc by simp
    moreover have "list_all no_include xs"
      using x(1) Suc.prems(3) directive_no_include [OF _ inc]
      by (auto simp: document_step_def presult_def split: option.splits sum.splits elim!: pbind_cases)
    ultimately show ?thesis using Suc.IH x(2) by blast
  qed (use r Suc.prems(3) in \<open>simp add: presult_def\<close>)
qed simp

lemma parsed_no_include:
  assumes "parse_str_with_spaces path src spaces = Some (Inr doc)" and "\<not> is_coredef path"
  shows "list_all no_include (is_items doc)"
proof -
  let ?p = "seed_known_spaces spaces (doc_parser_new src path)"
  obtain p' where "parse_document (doc_fuel src) ?p = Some (Inr doc, p')"
    using assms(1) by (auto simp: parse_str_with_spaces_def)
  then obtain items p1 where "document_loop (doc_fuel src) (doc_fuel src) [] ?p = Some (Inr items, p1)"
      "is_items doc = items"
    by (auto simp: parse_document_def split: if_splits elim!: pbind_cases)
  moreover have "\<not> dp_include ?p" using assms(2) by (simp add: seed_known_spaces_def doc_parser_new_def)
  ultimately show ?thesis using loop_no_include by fastforce
qed

section \<open>Two levels of files\<close>

lemma collect_no_includes:
  "list_all no_include items \<Longrightarrow> collect_includes recurse path items docs l = Some (Inr docs, l)"
proof (induction items)
  case (Cons item items)
  then show ?case by (cases item) (simp_all add: no_include_def)
qed (simp add: presult_def)

lemma load_document_returns: "load_document fs path l \<noteq> None"
proof (cases "fs path")
  case (Inr src)
  obtain r where "parse_str_with_spaces path src (ld_spaces l) = Some r"
    using parse_str_returns by blast
  then show ?thesis by (cases r) (simp_all add: load_document_def Inr)
qed (simp add: load_document_def)

lemma collect_returns:
  assumes "is_coredef path \<Longrightarrow> (\<And>doc l. collect_coredef recurse path doc l \<noteq> None)"
  shows "enter_file (collect_file recurse fs path) path l \<noteq> None"
proof -
  have "collect_file recurse fs path l \<noteq> None" for l
  proof (cases "load_document fs path l")
    case None
    then show ?thesis using load_document_returns by blast
  next
    case (Some rl)
    obtain r l1 where rl: "rl = (r, l1)" by force
    show ?thesis
    proof (cases r)
      case (Inr doc)
      have "collect_includes recurse path (is_items doc) [doc] l1 = Some (Inr [doc], l1)"
        if "\<not> is_coredef path"
        using collect_no_includes parsed_no_include [OF _ that] Some rl Inr
        by (auto simp: load_document_def split: sum.splits option.splits)
      then show ?thesis
        using assms [of doc l1] Some rl Inr
        by (auto simp: collect_file_def pbind_def split: option.splits sum.splits)
    qed (simp add: collect_file_def pbind_def Some rl)
  qed
  then show ?thesis by (simp add: enter_file_def Let_def)
qed

lemma isa_not_coredef:
  assumes "check_coredef_include parent seen path = Inr b"
  shows "\<not> is_coredef path"
proof -
  have "lower_extension path = ''isa'' \<or> lower_extension path = ''isaext''"
    using assms by (auto simp: check_coredef_include_def Let_def split: if_splits)
  then show ?thesis
    by (auto simp: is_coredef_def lower_extension_def eq_ignore_ascii_case_def ascii_lower_def
        split: option.splits)
qed

lemma coredef_includes_return:
  assumes "\<And>path l. \<not> is_coredef path \<Longrightarrow> recurse path l \<noteq> None"
  shows "collect_coredef_includes recurse parent seen incs acc l \<noteq> None"
proof (induction incs arbitrary: seen acc l)
  case (Cons inc incs)
  show ?case
  proof (cases "check_coredef_include parent seen (resolve_include_path parent inc)")
    case (Inr b)
    obtain r l1 where "recurse (resolve_include_path parent inc) l = Some (r, l1)"
      using assms [OF isa_not_coredef [OF Inr], of l] by auto
    then show ?thesis
      using Cons.IH Inr
      by (cases r) (auto simp: Let_def pbind_def presult_def collect_include_def split: sum.splits)
  qed (simp add: Let_def pbind_def presult_def)
qed (simp add: presult_def)

lemma collect_files_return: "collect_files include_depth fs path l \<noteq> None"
proof -
  have one: "collect_files (Suc 0) fs path l \<noteq> None" if "\<not> is_coredef path" for path l
    using collect_returns [of path] that by simp
  have "collect_coredef (collect_files (Suc 0) fs) path doc l \<noteq> None" for doc l
    using coredef_includes_return [of "collect_files (Suc 0) fs"] one
    by (auto simp: collect_coredef_def presult_def simp del: collect_coredef_includes.simps
        collect_files.simps split: option.splits list.splits)
  then show ?thesis
    using collect_returns [of path "collect_files (Suc 0) fs" fs l]
    by (simp add: include_depth_def numeral_2_eq_2)
qed

text \<open>C5: Loading a machine always returns, on every file system and every entry: the tokenizer, the
  parser of documents and of semantic programs and the recovery from errors end on every text, and
  the includes end after two levels of files.\<close>

theorem load_machine_returns: "\<exists>r. load_machine fs entry = Some r"
  using collect_files_return [of fs entry loader_new] by (auto simp: load_machine_def)

section \<open>Include loops\<close>

text \<open>The test for include loops comes after the test for files already visited, and a file on the
  stack was visited: it can never fire.\<close>

definition stack_visited :: "isa_loader \<Rightarrow> bool" where
  "stack_visited l \<longleftrightarrow> path_components ` set (ld_stack l) \<subseteq> ld_visited l"

lemma enter_file_no_loop:
  assumes "stack_visited l"
  shows "enter_file body path l =
    (if path_components path \<in> ld_visited l then Some (Inr [], l)
     else body (l\<lparr>ld_visited := insert (path_components path) (ld_visited l),
                  ld_stack := ld_stack l @ [path]\<rparr>))"
  using assms by (auto simp: enter_file_def Let_def stack_visited_def)

end
