(* ===== verification/MachineDecodeFacts.thy ===== *)
theory MachineDecodeFacts
  imports MachineCoreFacts
begin

text \<open>
  Facts about the tables of a machine: words and their bytes, the literals of a mask against its
  pattern, the fields operands are written to, and what \<open>from_documents\<close> guarantees of the patterns and
  the decode spaces it builds.
\<close>

unbundle bit_operations_syntax

section \<open>Words and bytes\<close>

lemma bit_decode_little:
  "k + length bs \<le> 8 \<Longrightarrow> bit (fold (\<lambda>(idx, b) acc. acc OR shl (ucast b) (idx * 8)) (List.enumerate k bs) (acc :: u64)) n \<longleftrightarrow>
     bit acc n \<or> (n < 64 \<and> k * 8 \<le> n \<and> n div 8 - k < length bs \<and> bit ((bs :: u8 list) ! (n div 8 - k)) (n mod 8))"
proof (induction bs arbitrary: k acc)
  case (Cons b bs)
  have b8: "bit b j \<Longrightarrow> j < 8" for j using bit_imp_le_length [of b j] by simp
  show ?case
  proof (cases "n < k * 8")
    case True
    then show ?thesis using Cons.prems by (simp add: Cons.IH bit_or_iff bit_shl_iff)
  next
    case False
    then have le: "k * 8 \<le> n" by simp
    show ?thesis
    proof (cases "n < k * 8 + 8")
      case True
      then obtain j where "n = j + k * 8" "j < 8" using le by (metis add.commute le_iff_add nat_add_left_cancel_less)
      then have d: "n div 8 = k" "n mod 8 = n - k * 8" by simp_all
      show ?thesis using True le Cons.prems by (auto simp: Cons.IH bit_or_iff bit_shl_iff bit_ucast_iff d)
    next
      case False
      then obtain j where "n = j + (k * 8 + 8)" by (metis add.commute le_iff_add not_less)
      then have d: "n div 8 - k = Suc (n div 8 - Suc k)" "Suc k * 8 \<le> n" by simp_all
      have "\<not> bit b (n - k * 8)" using False b8 [of "n - k * 8"] by auto
      then show ?thesis using le d(2) Cons.prems
        by (auto simp: Cons.IH bit_or_iff bit_shl_iff bit_ucast_iff d(1))
    qed
  qed
qed (simp)

lemma bit_decode_big:
  "bit (fold (\<lambda>b acc. shl acc 8 OR ucast b) bs (acc :: u64)) n \<longleftrightarrow>
     n < 64 \<and> (if n < 8 * length bs then bit ((bs :: u8 list) ! (length bs - 1 - n div 8)) (n mod 8)
               else bit acc (n - 8 * length bs))"
proof (induction bs arbitrary: n rule: rev_induct)
  case Nil
  then show ?case using bit_imp_le_length [of acc n] by auto
next
  case (snoc b bs)
  have b8: "bit b j \<Longrightarrow> j < 8" for j using bit_imp_le_length [of b j] by simp
  show ?case
  proof (cases "n < 8")
    case True
    then show ?thesis by (auto simp: bit_or_iff bit_shl_iff bit_ucast_iff)
  next
    case False
    then obtain j where "n = j + 8" by (metis add.commute le_Suc_ex not_less)
    then have d: "(n - 8) div 8 = n div 8 - 1" "(n - 8) mod 8 = n mod 8" "1 \<le> n div 8" by simp_all
    let ?f = "fold (\<lambda>b acc. shl acc 8 OR ucast b)"
    have "bit (?f (bs @ [b]) acc) n \<longleftrightarrow> n < 64 \<and> bit (?f bs acc) (n - 8)"
    proof -
      have "\<not> bit b n" using False b8 by blast
      then show ?thesis using False by (simp add: bit_or_iff bit_shl_iff bit_ucast_iff)
    qed
    also have "\<dots> \<longleftrightarrow> n < 64 \<and>
        (if n < 8 * length (bs @ [b]) then bit (bs ! (length bs - n div 8)) (n mod 8)
         else bit acc (n - 8 * length (bs @ [b])))"
    proof -
      have "length bs - 1 - (n div 8 - 1) = length bs - n div 8" using d(3) by simp
      moreover have "n - 8 < 8 * length bs \<longleftrightarrow> n < 8 * length (bs @ [b])"
        "n - 8 - 8 * length bs = n - 8 * length (bs @ [b])" using False by auto
      ultimately show ?thesis using snoc.IH [of "n - 8"] by (simp only: d) auto
    qed
    also have "\<dots> \<longleftrightarrow> n < 64 \<and>
        (if n < 8 * length (bs @ [b]) then bit ((bs @ [b]) ! (length (bs @ [b]) - 1 - n div 8)) (n mod 8)
         else bit acc (n - 8 * length (bs @ [b])))"
    proof -
      have "length bs - n div 8 < length bs \<or> length bs = 0" using d(3) by auto
      then show ?thesis using d(3) by (auto simp: nth_append)
    qed
    finally show ?thesis .
  qed
qed

lemma length_write_word [simp]: "length (write_word bits width e) = width"
  by (cases e) (simp_all add: write_word_def)

lemma bit_write_byte: "k < 64 \<Longrightarrow> bit (ucast (shr (bits :: u64) k AND 0xFF) :: u8) n \<longleftrightarrow> n < 8 \<and> bit bits (k + n)"
proof -
  assume k: "k < 64"
  have "(0xFF :: u64) = mask 8" by (simp add: mask_eq_exp_minus_1)
  then have m: "bit (0xFF :: u64) n \<longleftrightarrow> n < 8" by (simp only: bit_mask_iff) auto
  show ?thesis unfolding bit_ucast_iff bit_and_iff m bit_shr_iff using k by (auto simp: ac_simps)
qed

lemma decode_write_word:
  assumes "8 * width \<le> 64" and hi: "\<And>j. bit bits j \<Longrightarrow> j < 8 * width"
  shows "decode_word (write_word bits width e) e = bits"
proof (rule bit_eqI)
  fix n :: nat
  have s: "8 * (n div 8) + n mod 8 = n" by simp
  show "bit (decode_word (write_word bits width e) e) n = bit bits n"
  proof (cases "n < 8 * width")
    case True
    then have i: "n div 8 < width" by presburger
    have j: "width - 1 - (width - 1 - n div 8) = n div 8" using i by simp
    have n: "n div 8 < width" by (rule i)
    show ?thesis using True j assms(1) s
      by (cases e) (simp_all add: n decode_word_def write_word_def bit_decode_little bit_decode_big
          bit_write_byte)
  next
    case False
    moreover have "\<not> n div 8 < width" using False by presburger
    moreover have "\<not> bit bits n" using False hi by blast
    ultimately show ?thesis using assms(1)
      by (cases e) (simp_all add: decode_word_def bit_decode_little bit_decode_big)
  qed
qed

section \<open>The literals of a mask and the fields of operands\<close>

lemma encode_constant_mask:
  assumes "encode_constant spec v = Inr (m, enc)"
  shows "m = slices_mask (bf_segments spec)" and "enc AND NOT m = 0"
proof -
  have "fold (\<lambda>seg acc. case seg of Slice sl \<Rightarrow> acc OR bs_mask sl | Literal l w \<Rightarrow> acc) segs a =
      a OR slices_mask segs" for segs and a :: u64
  proof (induction segs arbitrary: a)
    case (Cons seg segs)
    then show ?case by (cases seg) (simp_all add: or.assoc)
  qed simp
  then have "m = slices_mask (bf_segments spec)" "\<exists>e. enc = e AND m"
    using assms by (auto simp: encode_constant_def Let_def rbind_Inr_iff)
  then show "m = slices_mask (bf_segments spec)" "enc AND NOT m = 0"
    by (auto simp: bit_eq_iff bit_simps)
qed

lemma mask_field_bits_template:
  "mask_field_bits t instr space n f = Inr r \<longleftrightarrow> mask_field_bits t' instr space n f = Inr r"
  by (cases "mf_selector f") (auto simp: mask_field_bits_def rbind_Inr_iff)

lemma mask_field_bits_Inr:
  assumes "mask_field_bits t instr space n f = Inr (m, enc)"
  shows "enc AND NOT m = 0"
  using assms by (auto simp: mask_field_bits_def rbind_Inr_iff dest: encode_constant_mask)

text \<open>The assembler puts the literals of the mask where the pattern expects them.\<close>

lemma encode_mask_pattern:
  assumes "encode_mask instr space n fs bits = Inr bits'"
    and "pattern_bits instr space n fs (m, v) = Inr (m', v')"
    and "bits AND m = v" and "v AND NOT m = 0"
  shows "bits' AND m' = v' \<and> v' AND NOT m' = 0 \<and> (bits AND NOT m = 0 \<longrightarrow> bits' AND NOT m' = 0)"
  using assms
proof (induction instr space n fs bits arbitrary: m v rule: encode_mask.induct)
  case (2 instr space n f fs bits)
  obtain fm enc where f: "mask_field_bits ''invalid bit selector {} on instruction {}: {}'' instr space n f
      = Inr (fm, enc)"
    and e: "encode_mask instr space n fs ((bits AND NOT fm) OR (enc AND fm)) = Inr bits'"
    using "2.prems"(1) by (auto simp: rbind_Inr_iff)
  have p: "pattern_bits instr space n fs (m OR fm, (v AND NOT fm) OR enc) = Inr (m', v')"
    using "2.prems"(2) f [THEN mask_field_bits_template [THEN iffD1], of "''invalid bit expression {} in instruction {}: {}''"]
    by simp
  have enc: "bit enc i \<Longrightarrow> bit fm i" for i
    using mask_field_bits_Inr [OF f] bit_imp_le_length [of enc i] by (auto simp: bit_eq_iff bit_simps)
  have bv: "bit v i \<longleftrightarrow> bit bits i \<and> bit m i" for i
    by (simp only: "2.prems"(3) [symmetric] bit_and_iff)
  have "((bits AND NOT fm) OR (enc AND fm)) AND (m OR fm) = (v AND NOT fm) OR enc"
    "((v AND NOT fm) OR enc) AND NOT (m OR fm) = 0"
    "bits AND NOT m = 0 \<longrightarrow> ((bits AND NOT fm) OR (enc AND fm)) AND NOT (m OR fm) = 0"
    using enc by (auto simp: bit_eq_iff bit_simps bv)
  then show ?case using "2.IH" [OF _ refl e p] f by auto
qed auto

text \<open>Operands are put into fields apart from each other and from what is taken.\<close>

fun fields_apart :: "u64 \<Rightarrow> bitfield_spec list \<Rightarrow> bool" where
  "fields_apart taken [] = True"
| "fields_apart taken (spec # specs) =
     (spec_ok spec \<and> disjoint_slices (slices (bf_segments spec)) \<and>
      taken AND slices_mask (bf_segments spec) = 0 \<and>
      fields_apart (taken OR slices_mask (bf_segments spec)) specs)"

definition operand_specs :: "form_info \<Rightarrow> (string \<times> i64) list \<Rightarrow> bitfield_spec list" where
  "operand_specs form ops =
     List.map_filter (\<lambda>(name, v). map_option fe_spec (form_subfield form name)) ops"

definition field_holds :: "form_info \<Rightarrow> u64 \<Rightarrow> string \<times> i64 \<Rightarrow> bool" where
  "field_holds form bits = (\<lambda>(name, v).
     \<exists>field. form_subfield form name = Some field \<and> fst (bf_read_bits (fe_spec field) bits) = v)"

lemma read_depends_on_slices:
  assumes "spec_ok spec" and "\<forall>i. bit (slices_mask (bf_segments spec)) i \<longrightarrow> bit b i = bit c i"
  shows "bf_read_bits spec b = bf_read_bits spec c"
proof -
  have "seg_value b segs = seg_value c segs"
    if "list_all segment_ok segs" and "\<forall>i. bit (slices_mask segs) i \<longrightarrow> bit b i = bit c i" for segs
    using that
  proof (induction segs)
    case (Cons seg segs)
    show ?case
    proof (cases seg)
      case (Slice s)
      have "seg_part b seg = seg_part c seg"
        using Cons.prems Slice
        by (auto simp: bit_eq_iff bit_simps bit_bs_mask) 
      then show ?thesis using Cons Slice by (simp add: bit_simps)
    next
      case (Literal v w)
      then show ?thesis using Cons by simp
    qed
  qed simp
  then have "seg_value b (bf_segments spec) = seg_value c (bf_segments spec)"
    using assms by (simp add: spec_ok_def)
  then show ?thesis
    by (metis bf_read_bits_iff [OF assms(1) refl] surj_pair)
qed

text \<open>What was put into the fields is read back, and the bits taken before are kept.\<close>

lemma encode_operands_fields:
  assumes "encode_operands instr form ops bits = Inr bits'"
    and "fields_apart taken (operand_specs form ops)"
  shows "(\<forall>i. bit taken i \<longrightarrow> bit bits' i = bit bits i) \<and> (\<forall>op \<in> set ops. field_holds form bits' op)"
  using assms
proof (induction instr form ops bits arbitrary: taken rule: encode_operands.induct)
  case (2 instr form name v ops bits)
  obtain field b where f: "form_subfield form name = Some field"
    and w: "bf_write_bits (fe_spec field) bits v = Inr b"
    and r: "encode_operands instr form ops b = Inr bits'"
    using "2.prems"(1) by (auto simp: rbind_Inr_iff)
  define used where "used = slices_mask (bf_segments (fe_spec field))"
  have ok: "spec_ok (fe_spec field)" "disjoint_slices (slices (bf_segments (fe_spec field)))"
    "taken AND used = 0" and rest: "fields_apart (taken OR used) (operand_specs form ops)"
    using "2.prems"(2) f by (simp_all add: operand_specs_def used_def map_filter_simps)
  have ih: "\<forall>i. bit (taken OR used) i \<longrightarrow> bit bits' i = bit b i"
    "\<forall>op \<in> set ops. field_holds form bits' op"
    using "2.IH" [OF _ _ r rest] f w by auto
  note written = bitfield_write_then_read [OF ok(1,2) w, folded used_def]
  have "bf_read_bits (fe_spec field) bits' = bf_read_bits (fe_spec field) b"
    using ih(1) by (intro read_depends_on_slices [OF ok(1)]) (auto simp: bit_or_iff used_def)
  then have "field_holds form bits' (name, v)" using f written(1) by (simp add: field_holds_def)
  moreover have "bit bits' i = bit bits i" if "bit taken i" for i
  proof -
    have "\<not> bit used i" using ok(3) that by (metis bit_and_iff bit_0_eq bot_apply bot_bool_def)
    then show ?thesis using ih(1) written(2) that by (auto simp: bit_or_iff)
  qed
  ultimately show ?case using ih(2) by simp
qed simp

lemma encode_operands_within:
  assumes "encode_operands instr form ops bits = Inr bits'"
    and "fields_apart taken (operand_specs form ops)"
    and "\<forall>spec \<in> set (operand_specs form ops). slices_mask (bf_segments spec) AND NOT word = 0"
    and "bits AND NOT word = 0"
  shows "bits' AND NOT word = 0"
  using assms
proof (induction instr form ops bits arbitrary: taken rule: encode_operands.induct)
  case (2 instr form name v ops bits)
  obtain field b where f: "form_subfield form name = Some field"
    and w: "bf_write_bits (fe_spec field) bits v = Inr b"
    and r: "encode_operands instr form ops b = Inr bits'"
    using "2.prems"(1) by (auto simp: rbind_Inr_iff)
  define used where "used = slices_mask (bf_segments (fe_spec field))"
  have ok: "spec_ok (fe_spec field)" "disjoint_slices (slices (bf_segments (fe_spec field)))"
    and rest: "fields_apart (taken OR used) (operand_specs form ops)"
    and u: "used AND NOT word = 0"
    and us: "\<forall>spec \<in> set (operand_specs form ops). slices_mask (bf_segments spec) AND NOT word = 0"
    using "2.prems"(2,3) f by (simp_all add: operand_specs_def used_def map_filter_simps)
  note written = bitfield_write_then_read [OF ok(1,2) w, folded used_def]
  have "b AND NOT word = 0"
  proof (rule bit_word_eqI)
    fix i
    have "\<not> (bit used i \<and> \<not> bit word i)" if "i < 64"
      using u that by (auto simp: bit_eq_iff bit_simps)
    moreover have "\<not> (bit bits i \<and> \<not> bit word i)" if "i < 64"
      using "2.prems"(4) that by (auto simp: bit_eq_iff bit_simps)
    ultimately show "i < LENGTH(64) \<Longrightarrow> bit (b AND NOT word) i = bit 0 i"
      using written(2) [of i] by (auto simp: bit_simps)
  qed
  then show ?case using "2.IH" [OF _ _ r rest us] f w by auto
qed simp

section \<open>What building a machine leaves of its logic spaces\<close>

definition same_logic :: "space_info string_map \<Rightarrow> space_info string_map \<Rightarrow> bool" where
  "same_logic = list_all2 (\<lambda>x y. fst x = fst y \<and>
     (sp_kind (snd x) = LogicSpace \<or> sp_kind (snd y) = LogicSpace \<longrightarrow> x = y))"

lemma same_logic_keys: "same_logic sps sps' \<Longrightarrow> map fst sps = map fst sps'"
  unfolding same_logic_def by (induction sps sps' rule: list_all2_induct) simp_all

lemma same_logic_sym: "same_logic sps sps' \<Longrightarrow> same_logic sps' sps"
  unfolding same_logic_def
proof (induction sps sps' rule: list_all2_induct)
  case (Cons x xs y ys)
  have a: "fst x = fst y" and b: "sp_kind (snd x) = LogicSpace \<or> sp_kind (snd y) = LogicSpace \<Longrightarrow> x = y"
    using Cons.hyps(1) by blast+
  have "fst y = fst x \<and> (sp_kind (snd y) = LogicSpace \<or> sp_kind (snd x) = LogicSpace \<longrightarrow> y = x)"
  proof (intro conjI impI)
    show "fst y = fst x" by (rule a [symmetric])
    show "y = x" if "sp_kind (snd y) = LogicSpace \<or> sp_kind (snd x) = LogicSpace"
      by (rule b [symmetric]) (use that in blast)
  qed
  then show ?case using Cons.IH by (rule list.rel_intros(2))
qed simp

lemma same_logic_map_of:
  assumes "same_logic sps sps'" and "map_of sps k = Some s" and "sp_kind s = LogicSpace"
  shows "map_of sps' k = Some s"
  using assms(1,2) unfolding same_logic_def
proof (induction sps sps' rule: list_all2_induct)
  case (Cons x xs y ys)
  show ?case
  proof (cases "k = fst x")
    case True
    then have "snd x = s" using Cons.prems by (cases x) simp
    then have "x = y" using Cons.hyps(1) assms(3) by blast
    then show ?thesis using True \<open>snd x = s\<close> by (cases y) simp
  next
    case False
    then have "map_of xs k = Some s" using Cons.prems by (cases x) simp
    moreover have "k \<noteq> fst y" using False Cons.hyps(1) by simp
    ultimately show ?thesis using Cons.IH by (cases y) simp
  qed
qed simp

lemma build_spaces_logic:
  "build_spaces sps s = Inr ((ps, sps'), s') \<Longrightarrow> same_logic sps sps'"
proof (induction sps s arbitrary: ps sps' s' rule: build_spaces.induct)
  case (2 name space sps s)
  show ?case
  proof (cases "sp_kind space = RegisterSpace")
    case True
    then obtain ps1 rs s1 qs sps1 where e:
        "build_registers name (sp_endianness space)
           (case sp_size_bits space of Some b \<Rightarrow> b | None \<Rightarrow> default_register_bits)
           (sp_registers space) s = Inr ((ps1, rs), s1)"
        "build_spaces sps s1 = Inr ((qs, sps1), s')" "sps' = (name, space\<lparr>sp_registers := rs\<rparr>) # sps1"
      using 2(3) by (auto simp: rbind_Inr_iff Let_def)
    show ?thesis using 2(2) [OF _ refl e(1) refl refl e(2)] True by (simp add: same_logic_def e(3))
  next
    case False
    then show ?thesis using 2(1,3) by (auto simp: rbind_Inr_iff same_logic_def)
  qed
qed (simp add: same_logic_def)

section \<open>Logic spaces fit their words\<close>

definition word_fits :: "u32 \<Rightarrow> u64 \<Rightarrow> bool" where
  "word_fits n w \<longleftrightarrow> w AND NOT (space_mask_for_bits n) = 0"

definition spec_fits :: "u32 \<Rightarrow> bitfield_spec \<Rightarrow> bool" where
  "spec_fits n spec \<longleftrightarrow> word_fits n (slices_mask (bf_segments spec))"

definition form_fits :: "u32 \<Rightarrow> form_info \<Rightarrow> bool" where
  "form_fits n form \<longleftrightarrow> (\<forall>f \<in> set (fi_fields form). spec_fits n (fe_spec f))"

definition space_fits :: "string \<times> space_info \<Rightarrow> bool" where
  "space_fits x \<longleftrightarrow> (sp_kind (snd x) = LogicSpace \<longrightarrow>
     sp_name (snd x) = fst x \<and>
     (\<forall>n. sp_size_bits (snd x) = Some n \<longrightarrow> (\<forall>form \<in> set (sp_forms (snd x)). form_fits n (snd form))))"

lemma bit_space_mask: "bit (space_mask_for_bits n) i \<longleftrightarrow> i < unat n \<and> i < 64"
proof (cases "64 \<le> n")
  case True
  then have "64 \<le> unat n" by (simp add: word_le_nat_alt)
  then show ?thesis using True by (auto simp: space_mask_for_bits_def bit_minus_1_iff)
next
  case False
  then have "space_mask_for_bits n = mask (unat n)"
    by (simp add: space_mask_for_bits_def mask_eq_exp_minus_1 push_bit_eq_mult)
  then show ?thesis by (auto simp: bit_mask_iff)
qed

lemma word_fits_iff: "word_fits n w \<longleftrightarrow> (\<forall>i. bit w i \<longrightarrow> i < unat n)"
  using bit_imp_le_length [of w]
  by (auto simp: word_fits_def bit_eq_iff bit_simps bit_space_mask)

lemma word_fits_or [simp]: "word_fits n (a OR b) \<longleftrightarrow> word_fits n a \<and> word_fits n b"
  by (auto simp: word_fits_iff bit_or_iff)

lemma word_fits_0 [simp]: "word_fits n 0"
  by (simp add: word_fits_iff)

lemma slices_fit:
  assumes "list_all segment_ok segs" and "list_all (segment_within (unat n)) segs"
  shows "word_fits n (slices_mask segs)"
  using assms
proof (induction segs)
  case (Cons seg segs)
  then show ?case
  proof (cases seg)
    case (Slice s)
    then have "word_fits n (bs_mask s)"
      using Cons.prems by (auto simp: word_fits_iff bit_bs_mask segment_within_def)
    then show ?thesis using Cons Slice by simp
  qed simp
qed simp

lemma from_spec_str_within:
  assumes "from_spec_str container n s = Inr spec"
  shows "list_all segment_ok (bf_segments spec)" "list_all (segment_within (unat n)) (bf_segments spec)"
proof -
  obtain body pad raw segs base where
        scan: "scan_tokens (split_char CHR ''|'' body) None [] = Inr (pad, raw)"
    and lower: "lower_tokens n raw = Inr segs"
    and base: "base = \<lparr>bf_container = container, bf_segments = segs, bf_pad = None, bf_signed = False\<rparr>"
    and fin: "finish_pad n pad base = Inr spec"
    using assms by (auto simp: from_spec_str_def rbind_Inr_iff split: if_splits)
  have "list_all token_ok raw" using scan_tokens_ok [OF scan] by simp
  moreover have "bf_segments spec = segs"
    using fin by (auto simp: finish_pad_def Let_def base split: option.splits if_splits)
  ultimately show "list_all segment_ok (bf_segments spec)"
    "list_all (segment_within (unat n)) (bf_segments spec)"
    using lower_tokens_ok [OF lower] by auto
qed

lemma parse_bit_spec_fits:
  assumes "parse_bit_spec n s = Inr spec"
  shows "spec_fits n spec"
proof -
  have n: "unat n < 2 ^ 16" and f: "from_spec_str 0 (ucast n) s = Inr spec"
    using assms by (auto simp: parse_bit_spec_def split: if_splits)
  have "unat (ucast n :: u16) = unat n" using n by (simp add: unat_ucast)
  then show ?thesis using slices_fit from_spec_str_within [OF f] by (simp add: spec_fits_def)
qed

lemma add_subfields_fits:
  "add_subfields space form n subs info = Inr info' \<Longrightarrow> form_fits n info \<Longrightarrow> form_fits n info'"
proof (induction space form n subs info rule: add_subfields.induct)
  case (2 space form n sub subs info)
  then show ?case
    by (auto simp: rbind_Inr_iff Let_def form_fits_def push_field_def parse_bit_spec_fits split: if_splits)
qed simp

lemma add_form_fits:
  assumes "add_form form s = Inr s'" and "space_fits (k, s)"
  shows "space_fits (k, s')" and "sp_kind s' = sp_kind s"
proof -
  obtain n base info where nb: "word_bits s = Inr n"
    and b: "(case fm_parent form of
              None \<Rightarrow> Inr form_new
            | Some parent \<Rightarrow>
                ok_or (map_of (sp_forms s) parent)
                  (Machine (fmt ''form {} inherits from undefined form {}''
                     [quoted (fm_name form), quoted (sp_name s @ ''::'' @ parent)]))) = Inr base"
    and info: "add_subfields (sp_name s) (fm_name form) n (fm_subfields form) base = Inr info"
    and s': "s' = s\<lparr>sp_forms := map_insert (fm_name form)
        (case fm_display form of None \<Rightarrow> info | Some t \<Rightarrow> info\<lparr>fi_display := Some t\<rparr>) (sp_forms s)\<rparr>"
    using assms(1) unfolding add_form_def rbind_Inr_iff Let_def by blast
  have n: "sp_size_bits s = Some n" using nb by (simp add: word_bits_def)
  have base: "base = form_new \<or> (\<exists>fn. (fn, base) \<in> set (sp_forms s))"
    using b by (auto dest: map_of_SomeD split: option.splits)
  show "sp_kind s' = sp_kind s" by (simp add: s')
  show "space_fits (k, s')"
  proof (cases "sp_kind s = LogicSpace")
    case True
    then have "form_fits n base" using base assms(2) n by (auto simp: space_fits_def form_fits_def form_new_def)
    then have "form_fits n info" using add_subfields_fits [OF info] by simp
    then have "form_fits n (case fm_display form of None \<Rightarrow> info | Some t \<Rightarrow> info\<lparr>fi_display := Some t\<rparr>)"
      by (simp add: form_fits_def split: option.split)
    then show ?thesis using assms(2) True n
      by (auto simp: space_fits_def s' dest!: set_map_insert)
  qed (simp add: space_fits_def s')
qed

definition machine_fits :: "machine_description \<Rightarrow> bool" where
  "machine_fits m \<longleftrightarrow> map_ok (mc_spaces m) \<and> (\<forall>x \<in> set (mc_spaces m). space_fits x)"

lemma machine_fits_insert:
  "machine_fits m \<Longrightarrow> space_fits (k, s) \<Longrightarrow> machine_fits (m\<lparr>mc_spaces := map_insert k s (mc_spaces m)\<rparr>)"
  by (auto simp: machine_fits_def dest: set_map_insert)

lemma register_space_fits: "machine_fits m \<Longrightarrow> machine_fits (register_space d m)"
  unfolding register_space_def Let_def
  by (rule machine_fits_insert) (simp_all add: space_fits_def space_from_decl_def split: prod.split)

lemma register_form_fits:
  assumes "register_form form m = Inr m'" and "machine_fits m"
  shows "machine_fits m'"
proof (cases "map_of (mc_spaces m) (fm_space form)")
  case (Some s)
  then have "space_fits (fm_space form, s)"
    using assms(2) by (auto simp: machine_fits_def dest: map_of_SomeD)
  then show ?thesis
    using assms Some add_form_fits machine_fits_insert
    by (auto simp: register_form_def rbind_Inr_iff split: if_splits)
qed (use assms in \<open>simp add: register_form_def\<close>)

lemma register_field_fits:
  assumes "register_field field m = Inr m'" and "machine_fits m"
  shows "machine_fits m'"
proof (cases "map_of (mc_spaces m) (fd_space field)")
  case (Some s)
  then have "space_fits (fd_space field, s)"
    using assms(2) by (auto simp: machine_fits_def dest: map_of_SomeD)
  then have "space_fits (fd_space field, add_register_field field s)"
    by (simp add: add_register_field_def space_fits_def Let_def)
  then show ?thesis
    using assms Some machine_fits_insert by (auto simp: register_field_def)
qed (use assms in \<open>simp add: register_field_def\<close>)

lemma rfold_invariant:
  assumes "rfold f xs b = Inr b'" and "P b" and "\<And>x b b'. f x b = Inr b' \<Longrightarrow> P b \<Longrightarrow> P b'"
  shows "P b'"
  using assms(1,2) by (induction xs arbitrary: b) (auto simp: rbind_Inr_iff intro: assms(3))

lemma fold_invariant_simple:
  assumes "P b" and "\<And>x b. P b \<Longrightarrow> P (f x b)"
  shows "P (fold f xs b)"
  using assms(1) by (induction xs arbitrary: b) (auto intro: assms(2))

lemma collected_fits:
  assumes "rfold register_form forms (fold register_space spaces machine_new) = Inr m1"
    and "rfold register_field fds (fold register_instruction instrs m1) = Inr m2"
  shows "machine_fits m2"
proof -
  have "machine_fits (fold register_space spaces machine_new)"
    by (rule fold_invariant_simple [where P = machine_fits, OF _ register_space_fits])
      (simp_all add: machine_fits_def machine_new_def)
  then have "machine_fits m1" using rfold_invariant [OF assms(1)] register_form_fits by metis
  then have "machine_fits (fold register_instruction instrs m1)"
    by (rule fold_invariant_simple [where P = machine_fits])
      (simp add: register_instruction_def machine_fits_def)
  then show ?thesis using rfold_invariant [OF assms(2)] register_field_fits by metis
qed

section \<open>The patterns and decode spaces of a machine\<close>

lemma resolve_form_field_semantics [simp]:
  "resolve_form_field (i\<lparr>in_semantics := b\<rparr>) = resolve_form_field i"
  by (intro ext) (simp add: resolve_form_field_def)

lemma mask_field_bits_semantics [simp]:
  "mask_field_bits t (i\<lparr>in_semantics := b\<rparr>) = mask_field_bits t i"
  by (intro ext, rename_tac space n f, case_tac "mf_selector f") (simp_all add: mask_field_bits_def)

lemma pattern_bits_semantics [simp]:
  "pattern_bits (i\<lparr>in_semantics := b\<rparr>) space n fs acc = pattern_bits i space n fs acc"
  by (induction i space n fs acc rule: pattern_bits.induct) (auto simp: rbind_def split: sum.split)

lemma build_pattern_semantics [simp]:
  "build_pattern m idx (i\<lparr>in_semantics := b\<rparr>) = build_pattern m idx i"
  by (cases "in_mask i") (simp_all add: build_pattern_def instruction_form_def cong: if_cong)

lemma build_pattern_logic:
  assumes "same_logic (mc_spaces m) (mc_spaces m')" and "build_pattern m idx i = Inr r"
  shows "build_pattern m' idx i = Inr r"
proof (cases "in_mask i")
  case (Some fs)
  then obtain s where s: "map_of (mc_spaces m) (in_space i) = Some s"
    using assms(2) by (auto simp: build_pattern_def rbind_Inr_iff)
  have "in_space i \<in> fst ` set (mc_spaces m')"
    using s same_logic_keys [OF assms(1)] by (metis map_of_eq_None_iff option.distinct(1) set_map)
  then obtain s' where s': "map_of (mc_spaces m') (in_space i) = Some s'"
    by (metis map_of_eq_None_iff not_Some_eq)
  show ?thesis
  proof (cases "sp_kind s = LogicSpace \<or> sp_kind s' = LogicSpace")
    case True
    then have "s = s'"
      using s s' same_logic_map_of [OF assms(1) s] same_logic_map_of [OF same_logic_sym [OF assms(1)] s'] by auto
    then show ?thesis using assms(2) s s' Some by (simp add: build_pattern_def)
  next
    case False
    then show ?thesis using assms(2) s s' Some by (simp add: build_pattern_def)
  qed
qed (use assms in \<open>simp add: build_pattern_def\<close>)

lemma build_pattern_idx: "build_pattern m idx i = Inr (Some p) \<Longrightarrow> ip_instruction_idx p = idx"
  by (auto simp: build_pattern_def rbind_Inr_iff Let_def with_display_override_def
      split: option.splits if_splits)

lemma build_patterns_from_built:
  "build_patterns_from m idx instrs = Inr ps \<Longrightarrow>
     (\<forall>p \<in> set ps. \<exists>(j, i) \<in> set (List.enumerate idx instrs). build_pattern m j i = Inr (Some p)) \<and>
     (\<forall>(j, i) \<in> set (List.enumerate idx instrs). in_mask i \<noteq> None \<longrightarrow>
        (\<exists>r. build_pattern m j i = Inr r \<and> (\<forall>p. r = Some p \<longrightarrow> p \<in> set ps)))"
proof (induction m idx instrs arbitrary: ps rule: build_patterns_from.induct)
  case (2 m idx i instrs)
  show ?case
  proof (cases "in_mask i")
    case None
    then have "build_patterns_from m (idx + 1) instrs = Inr ps" using "2.prems" by simp
    from "2.IH"(1) [OF None this] None show ?thesis by auto
  next
    case (Some fs)
    then obtain r qs where r: "build_pattern m idx i = Inr r"
      and q: "build_patterns_from m (idx + 1) instrs = Inr qs"
      and ps: "ps = (case r of None \<Rightarrow> qs | Some x \<Rightarrow> x # qs)"
      using "2.prems" by (auto simp: rbind_Inr_iff)
    have "in_mask i \<noteq> None" using Some by simp
    note ih = "2.IH"(2) [OF this r q]
    show ?thesis
    proof (cases r)
      case None
      then show ?thesis using ih r by (auto simp: ps)
    next
      case (Some x)
      then show ?thesis using ih r by (auto simp: ps)
    qed
  qed
qed simp

text \<open>The compiled semantics are the only difference of the instructions.\<close>

lemma rmap_semantics:
  assumes "rmap f xs = Inr ys" and "\<And>x y. f x = Inr y \<Longrightarrow> \<exists>b. y = g b x"
  shows "list_all2 (\<lambda>x y. \<exists>b. y = g b x) xs ys"
  using assms(1) by (induction xs arbitrary: ys) (auto simp: rbind_Inr_iff dest: assms(2))

lemma compile_instruction_semantics:
  assumes "compile_instruction m i = Inr i'"
  shows "\<exists>b. i' = i\<lparr>in_semantics := b\<rparr>"
proof (cases "in_semantics i")
  case None
  then have "i' = i\<lparr>in_semantics := None\<rparr>" using assms by (simp add: compile_instruction_def)
  then show ?thesis by blast
next
  case (Some b)
  then show ?thesis
    using assms by (auto simp: compile_instruction_def rbind_Inr_iff split: prod.splits)
qed

lemma collect_decode_spaces_built:
  "collect_decode_spaces infos = Inr ds \<Longrightarrow>
     d \<in> set ds \<Longrightarrow> \<exists>info \<in> set infos. sp_kind info = LogicSpace \<and> decode_space_of info = Inr d"
  by (induction infos arbitrary: ds) (fastforce simp: rbind_Inr_iff split: if_splits)+

definition machine_built :: "machine_description \<Rightarrow> bool" where
  "machine_built m \<longleftrightarrow>
     (\<forall>p \<in> set (mc_patterns m). ip_instruction_idx p < length (mc_instructions m) \<and>
        build_pattern m (ip_instruction_idx p) (mc_instructions m ! ip_instruction_idx p) = Inr (Some p)) \<and>
     (\<forall>j < length (mc_instructions m). in_mask (mc_instructions m ! j) \<noteq> None \<longrightarrow>
        (\<exists>r. build_pattern m j (mc_instructions m ! j) = Inr r \<and>
           (\<forall>p. r = Some p \<longrightarrow> p \<in> set (mc_patterns m)))) \<and>
     (\<forall>d \<in> set (mc_decode_spaces m). \<exists>info. map_of (mc_spaces m) (ds_name d) = Some info \<and>
        sp_kind info = LogicSpace \<and> decode_space_of info = Inr d) \<and>
     (\<forall>k info. map_of (mc_spaces m) k = Some info \<longrightarrow> space_fits (k, info))"

lemma from_documents_built:
  assumes "from_documents docs = Inr m"
  shows "machine_built m"
proof -
  define c where "c = collect_documents docs"
  obtain m1 m2 m3 m4 m5 where
      m1: "rfold register_form (ci_forms c) (fold register_space (ci_spaces c) machine_new) = Inr m1"
    and m2: "rfold register_field (ci_fields c) (fold register_instruction (ci_instructions c) m1) = Inr m2"
    and m3: "build_patterns ((fold register_macro (ci_macros c) m2)\<lparr>mc_parameters := ci_parameters c\<rparr>)
        = Inr m3"
    and m4: "build_decode_spaces m3 = Inr m4" and m5: "rebuild_register_schema m4 = Inr m5"
    and m: "compile_semantics m5 = Inr m"
    using assms unfolding from_documents_def Let_def c_def by (auto simp: rbind_Inr_iff)
  define m0 where "m0 = (fold register_macro (ci_macros c) m2)\<lparr>mc_parameters := ci_parameters c\<rparr>"
  have macros: "mc_spaces (fold register_macro ds x) = mc_spaces x \<and>
      mc_instructions (fold register_macro ds x) = mc_instructions x" for ds x
    by (induction ds arbitrary: x) (simp_all add: register_macro_def)
  have fits: "machine_fits m0"
    using collected_fits [OF m1 m2] macros by (simp add: m0_def machine_fits_def)
  have sp: "mc_spaces m4 = mc_spaces m0" "mc_spaces m = mc_spaces m5"
    and ins: "mc_instructions m5 = mc_instructions m0"
    and ps: "build_patterns_from m0 0 (mc_instructions m0) = Inr (mc_patterns m)"
    and ds: "\<exists>ds. collect_decode_spaces (map snd (mc_spaces m0)) = Inr ds \<and>
        set (mc_decode_spaces m) = set ds"
    using m3 m4 m5 m unfolding m0_def [symmetric]
    by (auto simp: build_patterns_def build_decode_spaces_def rebuild_register_schema_def
        compile_semantics_def rbind_Inr_iff)
  have logic: "same_logic (mc_spaces m0) (mc_spaces m)"
    using m5 sp build_spaces_logic
    by (auto simp: rebuild_register_schema_def schema_build_def rbind_Inr_iff Let_def)
  have same: "list_all2 (\<lambda>i i'. \<exists>b. i' = i\<lparr>in_semantics := b\<rparr>) (mc_instructions m0) (mc_instructions m)"
    using m unfolding compile_semantics_def ins [symmetric]
    by (auto simp: rbind_Inr_iff intro!: rmap_semantics [where g = "\<lambda>b. in_semantics_update (\<lambda>_. b)"]
        compile_instruction_semantics)
  note len = list_all2_lengthD [OF same]
  have moved: "build_pattern m j (mc_instructions m ! j) = Inr r"
    if j: "j < length (mc_instructions m0)" "build_pattern m0 j (mc_instructions m0 ! j) = Inr r" for j r
  proof -
    obtain b where b: "mc_instructions m ! j = (mc_instructions m0 ! j)\<lparr>in_semantics := b\<rparr>"
      using list_all2_nthD [OF same j(1)] by blast
    show ?thesis unfolding b using build_pattern_logic [OF logic j(2)] by simp
  qed
  have mask: "in_mask (mc_instructions m ! j) = in_mask (mc_instructions m0 ! j)"
    if "j < length (mc_instructions m0)" for j
    using list_all2_nthD [OF same that] by auto
  note built = build_patterns_from_built [OF ps]
  have old: "space_fits (k, info)" if "map_of (mc_spaces m0) k = Some info" for k info
    using fits that by (auto simp: machine_fits_def dest: map_of_SomeD)
  show ?thesis
    unfolding machine_built_def
  proof (intro conjI ballI allI impI)
    fix p assume "p \<in> set (mc_patterns m)"
    then obtain j where j: "j < length (mc_instructions m0)"
        "build_pattern m0 j (mc_instructions m0 ! j) = Inr (Some p)"
      using built by (fastforce simp: in_set_enumerate_eq)
    then show "ip_instruction_idx p < length (mc_instructions m)"
      "build_pattern m (ip_instruction_idx p) (mc_instructions m ! ip_instruction_idx p) = Inr (Some p)"
      using build_pattern_idx [OF j(2)] moved [OF j] len by simp_all
  next
    fix j assume j: "j < length (mc_instructions m)" "in_mask (mc_instructions m ! j) \<noteq> None"
    then have j0: "j < length (mc_instructions m0)" "in_mask (mc_instructions m0 ! j) \<noteq> None"
      using len mask by simp_all
    have "(j, mc_instructions m0 ! j) \<in> set (List.enumerate 0 (mc_instructions m0))"
      using j0 by (simp add: in_set_enumerate_eq)
    then obtain r where "build_pattern m0 j (mc_instructions m0 ! j) = Inr r"
        "\<forall>p. r = Some p \<longrightarrow> p \<in> set (mc_patterns m)"
      using built j0(2) by blast
    then show "\<exists>r. build_pattern m j (mc_instructions m ! j) = Inr r \<and>
        (\<forall>p. r = Some p \<longrightarrow> p \<in> set (mc_patterns m))"
      using moved [OF j0(1)] by blast
  next
    fix d assume "d \<in> set (mc_decode_spaces m)"
    then obtain k info where info: "(k, info) \<in> set (mc_spaces m0)" "sp_kind info = LogicSpace"
        "decode_space_of info = Inr d"
      using ds collect_decode_spaces_built by fastforce
    have k: "map_of (mc_spaces m0) k = Some info"
      using info(1) fits map_ok_distinct by (auto simp: machine_fits_def intro: map_of_is_SomeI)
    have "ds_name d = k"
      using info(2,3) old [OF k] by (auto simp: space_fits_def decode_space_of_def rbind_Inr_iff)
    then show "\<exists>info. map_of (mc_spaces m) (ds_name d) = Some info \<and>
        sp_kind info = LogicSpace \<and> decode_space_of info = Inr d"
      using same_logic_map_of [OF logic k info(2)] info by blast
  next
    fix k info assume k: "map_of (mc_spaces m) k = Some info"
    show "space_fits (k, info)"
    proof (cases "sp_kind info = LogicSpace")
      case True
      then show ?thesis using old same_logic_map_of [OF same_logic_sym [OF logic] k] by blast
    qed (simp add: space_fits_def)
  qed
qed

end
