(* ===== verification/AssemblyFacts.thy ===== *)
theory AssemblyFacts
  imports MachineDecodeFacts Assembly IsaBuild
begin

text \<open>
  The assembler against the disassembler: what an instruction is encoded to is listed as that
  instruction with the operands it was given; and the listing ends and covers the bytes.
\<close>

unbundle bit_operations_syntax

section \<open>An encoded instruction is listed as itself\<close>

lemma mask_field_fits:
  assumes "mask_field_bits t instr space n f = Inr (m, enc)" and "space_fits (k, space)"
    and "sp_kind space = LogicSpace" and "sp_size_bits space = Some n"
  shows "word_fits n m"
proof -
  obtain spec where sel: "(case mf_selector f of
              SelectField name \<Rightarrow> resolve_form_field instr space name
            | SelectBitExpr e \<Rightarrow>
                map_err (\<lambda>err. machine_err t [quoted e, quoted (in_name instr), spec_parse_error_text err])
                  (parse_bit_spec n e)) = Inr spec"
    and enc: "encode_constant spec (mf_value f) = Inr (m, enc)"
    using assms(1) unfolding mask_field_bits_def by (auto simp: rbind_Inr_iff)
  have "spec_fits n spec"
  proof (cases "mf_selector f")
    case (SelectField name)
    then obtain form field where "form_subfield form name = Some field" "spec = fe_spec field"
        "\<exists>fn. (fn, form) \<in> set (sp_forms space)"
      using sel by (auto simp: resolve_form_field_def rbind_Inr_iff dest: map_of_SomeD)
    then show ?thesis
      using assms(2-4)
      by (fastforce simp: space_fits_def form_fits_def form_subfield_def bind_eq_Some_conv
          nth_opt_Some_iff)
  next
    case (SelectBitExpr e)
    then show ?thesis using sel parse_bit_spec_fits by simp
  qed
  then show ?thesis using encode_constant_mask(1) [OF enc] by (simp add: spec_fits_def)
qed

lemma pattern_fits:
  assumes "pattern_bits instr space n fs (m, v) = Inr (m', v')" and "word_fits n m"
    and "space_fits (k, space)" and "sp_kind space = LogicSpace" and "sp_size_bits space = Some n"
  shows "word_fits n m'"
  using assms(1,2)
proof (induction fs arbitrary: m v)
  case (Cons f fs)
  then show ?case
    by (auto simp: rbind_Inr_iff dest!: mask_field_fits [OF _ assms(3-5)])
qed simp

lemma max_by_key_None: "max_by_key key xs = None \<longleftrightarrow> xs = []"
  by (cases xs) (auto split: option.split)

lemma max_by_key_max:
  "max_by_key key xs = Some y \<Longrightarrow> y \<in> set xs \<and> (\<forall>x \<in> set xs. key x \<le> key y)"
proof (induction xs arbitrary: y)
  case (Cons x xs)
  show ?case
  proof (cases "max_by_key key xs")
    case None
    then show ?thesis using Cons.prems by (simp add: max_by_key_None)
  next
    case (Some z)
    note ih = Cons.IH [OF Some]
    show ?thesis
      using Cons.prems Some ih
      by (cases "key z < key x") (auto intro: order.strict_implies_order le_less_trans)
  qed
qed simp

definition machine_form :: "machine_description \<Rightarrow> isa_instruction \<Rightarrow> form_info option" where
  "machine_form m instr = Option.bind (map_of (mc_spaces m) (in_space instr)) (instruction_form instr)"

text \<open>The operands of an instruction are in fields apart from each other and from its mask.\<close>

definition operands_apart :: "machine_description \<Rightarrow> isa_instruction \<Rightarrow> (string \<times> i64) list \<Rightarrow> bool" where
  "operands_apart m instr ops \<longleftrightarrow>
     (\<forall>p \<in> set (mc_patterns m). mc_instructions m ! ip_instruction_idx p = instr \<longrightarrow>
        (case machine_form m instr of
           None \<Rightarrow> True
         | Some form \<Rightarrow> fields_apart (ip_mask p) (operand_specs form ops)))"

text \<open>No instruction of another name matches the word as specifically.\<close>

definition unrivalled :: "machine_description \<Rightarrow> isa_instruction \<Rightarrow> u64 \<Rightarrow> bool" where
  "unrivalled m instr w \<longleftrightarrow>
     (\<forall>q \<in> set (mc_patterns m). pattern_matches (in_space instr) w q \<longrightarrow>
        in_name (mc_instructions m ! ip_instruction_idx q) \<noteq> in_name instr \<longrightarrow>
        (\<forall>p \<in> set (mc_patterns m). mc_instructions m ! ip_instruction_idx p = instr \<longrightarrow>
           ip_specificity q < ip_specificity p))"

text \<open>What encoding returns, in the terms of the instruction's pattern.\<close>

lemma aligned_width:
  assumes "ensure_byte_aligned n name = Inr width"
  shows "8 * width = unat n"
proof -
  have n: "n mod 8 = 0" and w: "width = unat n div 8"
    using assms by (auto simp: ensure_byte_aligned_def unat_div split: if_splits)
  have "unat n mod 8 = 0" using arg_cong [OF n, of unat] by (simp add: unat_mod)
  then show ?thesis using div_mult_mod_eq [of "unat n" 8] by (simp add: w)
qed

lemma own_pattern:
  assumes "build_pattern m j instr = Inr r" and "in_mask instr = Some fs"
    and "map_of (mc_spaces m) (in_space instr) = Some space" and "sp_kind space = LogicSpace"
    and "sp_size_bits space = Some n"
  obtains p where "r = Some p" "ip_space p = in_space instr" "ip_instruction_idx p = j"
    "pattern_bits instr space n fs (0, 0) = Inr (ip_mask p, ip_value p)"
proof -
  obtain mask v where mv: "pattern_bits instr space n fs (0, 0) = Inr (mask, v)"
    using assms by (auto simp: build_pattern_def rbind_Inr_iff word_bits_def)
  obtain p where "r = Some p" "ip_space p = in_space instr" "ip_instruction_idx p = j"
      "ip_mask p = mask" "ip_value p = v"
    using assms mv
    by (auto simp: build_pattern_def rbind_Inr_iff word_bits_def Let_def with_display_override_def
        simp del: fun_upd_apply)
  then show thesis using that mv by simp
qed

lemma operand_specs_fit:
  assumes "form_fits n form" and "spec \<in> set (operand_specs form ops)"
  shows "spec_fits n spec"
  using assms
  by (induction ops)
    (auto simp: operand_specs_def form_fits_def form_subfield_def map_filter_simps
      bind_eq_Some_conv nth_opt_Some_iff split: option.splits)

lemma machine_form_fits:
  assumes "space_fits (k, space)" and "sp_kind space = LogicSpace" and "sp_size_bits space = Some n"
    and "instruction_form instr space = Some form"
  shows "form_fits n form"
  using assms by (fastforce simp: instruction_form_def space_fits_def bind_eq_Some_conv dest: map_of_SomeD)

lemma encoded_word:
  assumes built: "machine_built m" and enc: "encode_with_operands m instr ops = Inr bytes"
    and instr: "j < length (mc_instructions m)" "mc_instructions m ! j = instr" "in_mask instr \<noteq> None"
    and apart: "operands_apart m instr ops"
    and d: "d \<in> set (mc_decode_spaces m)" "ds_name d = in_space instr"
    and bits: "0 < ds_word_bits d" "ds_word_bits d \<le> 64"
  obtains p w where "p \<in> set (mc_patterns m)" "mc_instructions m ! ip_instruction_idx p = instr"
    "pattern_matches (in_space instr) w p" "length bytes = ds_word_bytes d" "0 < ds_word_bytes d"
    "space_bits d bytes = w"
    "\<forall>op \<in> set ops. \<exists>form. machine_form m instr = Some form \<and> field_holds form w op"
proof -
  obtain space where space: "map_of (mc_spaces m) (in_space instr) = Some space"
    and logic: "sp_kind space = LogicSpace" and ds: "decode_space_of space = Inr d"
    and fits: "space_fits (in_space instr, space)"
    using built d unfolding machine_built_def by metis
  obtain fs where fs: "in_mask instr = Some fs" using instr(3) by blast
  obtain n where n: "sp_size_bits space = Some n" "ds_word_bits d = n" "ds_mask d = space_mask_for_bits n"
      "ds_endianness d = sp_endianness space" "ensure_byte_aligned n (sp_name space) = Inr (ds_word_bytes d)"
    using ds by (auto simp: decode_space_of_def rbind_Inr_iff word_bits_def)
  define width where "width = ds_word_bytes d"
  have width: "8 * width = unat n" using aligned_width [OF n(5)] by (simp add: width_def)
  have n64: "0 < unat n" "unat n \<le> 64"
    using bits n(2) by (simp_all add: word_less_nat_alt word_le_nat_alt unat_gt_0)
  obtain r where r: "build_pattern m j instr = Inr r" "\<forall>p. r = Some p \<longrightarrow> p \<in> set (mc_patterns m)"
    using built instr unfolding machine_built_def by blast
  obtain p where p: "r = Some p" "ip_space p = in_space instr" "ip_instruction_idx p = j"
    and pat: "pattern_bits instr space n fs (0, 0) = Inr (ip_mask p, ip_value p)"
    using own_pattern [OF r(1) fs space logic n(1)] by blast
  have pm: "p \<in> set (mc_patterns m)" using r(2) p(1) by blast
  have own: "mc_instructions m ! ip_instruction_idx p = instr" using p(3) instr(2) by simp
  obtain w0 w wd where wd: "ensure_byte_aligned n (in_name instr) = Inr wd"
    and w0: "encode_mask instr space n fs 0 = Inr w0"
    and w: "(case in_form instr of
              Some form_name \<Rightarrow>
                rbind (ok_or (map_of (sp_forms space) form_name)
                         (machine_err ''instruction {} references missing form {}''
                            [quoted (in_name instr), quoted form_name])) (\<lambda>form.
                  encode_operands instr form ops w0)
            | None \<Rightarrow>
                if ops \<noteq> [] then
                  Inl (machine_err ''instruction {} does not take operands'' [quoted (in_name instr)])
                else Inr w0) = Inr w"
    and bytes0: "bytes = write_word w wd (sp_endianness space)"
    using enc unfolding encode_with_operands_def
    by (auto simp: rbind_Inr_iff space word_bits_def n(1) fs)
  have bytes: "bytes = write_word w width (sp_endianness space)"
  proof -
    have "wd = width" using aligned_width [OF wd] width by linarith
    then show ?thesis by (simp add: bytes0)
  qed
  note mask = encode_mask_pattern [OF w0 pat, simplified]
  have fit0: "word_fits n w0"
  proof -
    have m: "word_fits n (ip_mask p)" using pattern_fits [OF pat _ fits logic n(1)] by simp
    have "bit (ip_mask p) i" if "bit w0 i" for i
    proof (rule ccontr)
      assume "\<not> bit (ip_mask p) i"
      then have "bit (w0 AND NOT (ip_mask p)) i"
        using that bit_imp_le_length [OF that] by (simp add: bit_simps)
      then show False using mask by simp
    qed
    then show ?thesis using m by (auto simp: word_fits_iff)
  qed
  have res: "word_fits n w \<and> (\<forall>i. bit (ip_mask p) i \<longrightarrow> bit w i = bit w0 i) \<and>
    (\<forall>op \<in> set ops. \<exists>form. machine_form m instr = Some form \<and> field_holds form w op)"
  proof (cases "in_form instr")
    case None
    then show ?thesis using w fit0 by (simp split: if_splits)
  next
    case (Some form_name)
    then obtain form where form: "map_of (sp_forms space) form_name = Some form"
      and ops: "encode_operands instr form ops w0 = Inr w"
      using w by (auto simp: rbind_Inr_iff)
    have iform: "instruction_form instr space = Some form" and mform: "machine_form m instr = Some form"
      using Some form space by (simp_all add: instruction_form_def machine_form_def)
    have ap: "fields_apart (ip_mask p) (operand_specs form ops)"
      using apart pm own mform unfolding operands_apart_def by fastforce
    have "\<forall>spec \<in> set (operand_specs form ops).
        slices_mask (bf_segments spec) AND NOT (space_mask_for_bits n) = 0"
      using operand_specs_fit [OF machine_form_fits [OF fits logic n(1) iform]]
      by (simp add: spec_fits_def word_fits_def)
    then have "word_fits n w"
      using encode_operands_within [OF ops ap] fit0 unfolding word_fits_def by blast
    then show ?thesis using encode_operands_fields [OF ops ap] mform by auto
  qed
  have dec: "decode_word bytes (sp_endianness space) = w"
    unfolding bytes using res n64 width by (intro decode_write_word) (auto simp: word_fits_iff)
  have len: "length bytes = ds_word_bytes d" by (simp add: bytes width_def)
  have "w AND space_mask_for_bits n = w"
    by (rule bit_word_eqI) (use res in \<open>auto simp: bit_and_iff bit_space_mask word_fits_iff\<close>)
  then have "space_bits d bytes = w"
    using dec by (simp add: space_bits_def n(3,4) len [symmetric])
  moreover have "w AND ip_mask p = ip_value p"
  proof -
    have "w AND ip_mask p = w0 AND ip_mask p" using res by (auto simp: bit_eq_iff bit_simps)
    then show ?thesis using mask by simp
  qed
  then have "pattern_matches (in_space instr) w p" using p(2) by (simp add: pattern_matches_def)
  moreover have "0 < ds_word_bytes d" using width n64 unfolding width_def by (cases "ds_word_bytes d") auto
  ultimately show thesis using that [OF pm own] res len by blast
qed

lemma best_match_own:
  assumes "p \<in> set (mc_patterns m)" and "mc_instructions m ! ip_instruction_idx p = instr"
    and "pattern_matches (in_space instr) w p" and "unrivalled m instr w"
  obtains q where "best_match m (in_space instr) w = Some q"
    "in_name (mc_instructions m ! ip_instruction_idx q) = in_name instr"
proof -
  let ?ps = "filter (pattern_matches (in_space instr) w) (mc_patterns m)"
  have p: "p \<in> set ?ps" using assms(1,3) by simp
  then obtain q where q: "best_match m (in_space instr) w = Some q"
    unfolding best_match_def
    by (cases "max_by_key ip_specificity ?ps") (auto simp: max_by_key_None filter_empty_conv)
  then have "q \<in> set ?ps" "ip_specificity p \<le> ip_specificity q"
    using max_by_key_max p unfolding best_match_def by metis+
  then have "in_name (mc_instructions m ! ip_instruction_idx q) = in_name instr"
    using assms unfolding unrivalled_def by (auto simp: not_le [symmetric])
  then show thesis using that q by blast
qed

text \<open>C3: An instruction encoded by the assembler is listed by the disassembler as one instruction
  of that name at the base address, and its operand fields hold the values it was given; provided
  its operands are in fields apart, the first decode space that accepts the bytes is its own, and no
  instruction of another name matches the word as specifically.\<close>

theorem encoded_instruction_is_listed:
  assumes "from_documents docs = Inr m" and "find_instruction m mnemonic = Inr instr"
    and "encode_with_operands m instr ops = Inr bytes" and "in_mask instr \<noteq> None"
    and "operands_apart m instr ops"
    and "select_space m bytes = Some d" and "ds_name d = in_space instr"
    and "0 < ds_word_bits d" and "ds_word_bits d \<le> 64"
    and "unrivalled m instr (space_bits d bytes)"
  shows "\<exists>listed. disassemble_from (length bytes + 1) m bytes base = Some [listed] \<and>
    da_address listed = base \<and> da_mnemonic listed = mnemonic \<and>
    (\<forall>op \<in> set ops. \<exists>form. machine_form m instr = Some form \<and> field_holds form (da_opcode listed) op)"
proof -
  have d: "d \<in> set (mc_decode_spaces m)" using assms(6) by (auto simp: select_space_def find_Some_iff)
  obtain j where j: "j < length (mc_instructions m)" "mc_instructions m ! j = instr"
    and name: "in_name instr = mnemonic"
    using assms(2) by (auto simp: find_instruction_def find_Some_iff)
  obtain p where p: "p \<in> set (mc_patterns m)" "mc_instructions m ! ip_instruction_idx p = instr"
      "pattern_matches (in_space instr) (space_bits d bytes) p"
    and len: "length bytes = ds_word_bytes d" "0 < ds_word_bytes d"
    and ops: "\<forall>op \<in> set ops. \<exists>form. machine_form m instr = Some form \<and>
      field_holds form (space_bits d bytes) op"
    using encoded_word [OF from_documents_built [OF assms(1)] assms(3) j assms(4,5) d assms(7-9)] by metis
  obtain q where q: "best_match m (in_space instr) (space_bits d bytes) = Some q"
      "in_name (mc_instructions m ! ip_instruction_idx q) = in_name instr"
    using best_match_own [OF p assms(10)] by blast
  define listed where "listed = disassemble_word m d base (space_bits d bytes)"
  have "disassemble_from (length bytes + 1) m bytes base = Some [listed]"
  proof -
    obtain k where k: "ds_word_bytes d = Suc k" using len(2) by (metis Suc_pred)
    then have "bytes \<noteq> []" "mc_decode_spaces m \<noteq> []" using len d by auto
    then show ?thesis
      using assms(6) len(1) k by (simp add: disassemble_from_def listed_def)
  qed
  moreover have "da_address listed = base" "da_mnemonic listed = mnemonic"
    "da_opcode listed = space_bits d bytes"
    using q name assms(7) by (simp_all add: listed_def disassemble_word_def Let_def)
  ultimately show ?thesis using ops by auto
qed

text \<open>A machine of two instructions: an opcode in the high bits and an immediate in the low ones.\<close>

definition tiny_isa :: isa_specification where
  "tiny_isa =
     (let b = isa_builder_new ''tiny.isa'';
          b = add_space ''code'' LogicSpace [WordSize 8, EndiannessAttr Little] b;
          b = builder_add_form ''code'' ''F'' None
                [simple_subfield ''OPC'' ''@(0..3)'', simple_subfield ''imm'' ''@(4..7)''] b;
          b = finish_instruction (with_mask_field (mask_field_selector ''OPC'') 0
                (with_form ''F'' (builder_instruction ''code'' ''nop'' b))) b;
          b = finish_instruction (with_mask_field (mask_field_selector ''OPC'') 1
                (with_operands [''imm''] (with_form ''F'' (builder_instruction ''code'' ''ldi'' b)))) b
      in builder_document b)"

definition tiny_machine :: machine_description where
  "tiny_machine = projr (from_documents [tiny_isa])"

lemma parse_bit_spec_code [code]:
  "parse_bit_spec w spec =
     (if 65536 \<le> uint w then Inl TooWideSpec else map_err SpecError (from_spec_str 0 (ucast w) spec))"
proof -
  have "2 ^ 16 \<le> unat w \<longleftrightarrow> 65536 \<le> uint w" unfolding power_le_unat by simp
  then show ?thesis by (simp add: parse_bit_spec_def)
qed

lemma tiny_machine_evaluated:
  "case from_documents [tiny_isa] of
     Inl e \<Rightarrow> False
   | Inr m \<Rightarrow>
       (case find_instruction m ''ldi'' of
          Inl e \<Rightarrow> False
        | Inr instr \<Rightarrow>
            in_mask instr \<noteq> None \<and>
            encode_with_operands m instr [(''imm'', 5)] = Inr [0x15] \<and>
            operands_apart m instr [(''imm'', 5)] \<and>
            (case select_space m [0x15] of
               None \<Rightarrow> False
             | Some d \<Rightarrow>
                 ds_name d = in_space instr \<and> 0 < ds_word_bits d \<and> ds_word_bits d \<le> 64 \<and>
                 unrivalled m instr (space_bits d [0x15])))"
  by code_simp

theorem encoded_instruction_is_listed_witness:
  "\<exists>listed. disassemble_from 2 tiny_machine [0x15] 0x100 = Some [listed] \<and>
     da_address listed = 0x100 \<and> da_mnemonic listed = ''ldi''"
proof -
  obtain m where m: "from_documents [tiny_isa] = Inr m"
    using tiny_machine_evaluated by (cases "from_documents [tiny_isa]") simp_all
  obtain instr where i: "find_instruction m ''ldi'' = Inr instr"
    using tiny_machine_evaluated m by (cases "find_instruction m ''ldi''") simp_all
  obtain d where d: "select_space m [0x15] = Some d"
    using tiny_machine_evaluated m i by (cases "select_space m [0x15]") simp_all
  note facts = tiny_machine_evaluated [unfolded m sum.case i d option.case]
  have "tiny_machine = m" by (simp add: tiny_machine_def m)
  then show ?thesis
    using encoded_instruction_is_listed [where ops = "[(''imm'', 5)]" and base = "0x100", OF m i _ _ _ d] facts
    by (auto simp: numeral_2_eq_2)
qed

section \<open>The listing ends and covers the bytes\<close>

lemma select_space_Some:
  assumes "select_space m bytes = Some s"
  shows "s \<in> set (mc_decode_spaces m)" and "ds_word_bytes s \<le> length bytes"
  using assms by (auto simp: select_space_def find_Some_iff space_selected_def)

text \<open>The listing of some bytes from an address on, and the bytes left over: word by word, until the
  bytes end or no decode space accepts what is left.\<close>

inductive lists_words ::
    "machine_description \<Rightarrow> u64 \<Rightarrow> u8 list \<Rightarrow> disassembly list \<Rightarrow> u8 list \<Rightarrow> bool"
  for m :: machine_description where
  stop: "bytes = [] \<or> select_space m bytes = None \<Longrightarrow> lists_words m address bytes [] bytes"
| word: "select_space m (w @ rest) = Some s \<Longrightarrow> length w = ds_word_bytes s \<Longrightarrow> w \<noteq> [] \<Longrightarrow>
         lists_words m (address + of_nat (length w)) rest listing left \<Longrightarrow>
         lists_words m address (w @ rest)
           (disassemble_word m s address (space_bits s (w @ rest)) # listing) left"

lemma walk_words_lists:
  assumes "\<forall>s \<in> set (mc_decode_spaces m). 0 < ds_word_bytes s" and "length bytes < n"
  shows "\<exists>listing left.
    walk_words n m (\<lambda>s address bits. [disassemble_word m s address bits]) bytes address = Some listing \<and>
    lists_words m address bytes listing left"
  using assms(2)
proof (induction n arbitrary: bytes address)
  case (Suc n)
  show ?case
  proof (cases "bytes = [] \<or> select_space m bytes = None")
    case True
    then have "lists_words m address bytes [] bytes" by (rule stop)
    then show ?thesis using True by auto
  next
    case False
    then obtain s where s: "select_space m bytes = Some s" and ne: "bytes \<noteq> []" by auto
    define w rest where "w = take (ds_word_bytes s) bytes" and "rest = drop (ds_word_bytes s) bytes"
    note sel = select_space_Some [OF s]
    have bytes: "bytes = w @ rest" and w: "length w = ds_word_bytes s" "w \<noteq> []"
      using sel assms(1) ne by (auto simp: w_def rest_def)
    have "length rest < n" using Suc.prems w bytes by (cases w) auto
    then obtain listing left where
        walk: "walk_words n m (\<lambda>s address bits. [disassemble_word m s address bits]) rest
          (address + of_nat (length w)) = Some listing"
      and l: "lists_words m (address + of_nat (length w)) rest listing left"
      using Suc.IH by blast
    have "lists_words m address bytes (disassemble_word m s address (space_bits s bytes) # listing) left"
      using word [OF _ w l] s by (simp add: bytes)
    then show ?thesis using s ne sel(2) walk w(1) by (auto simp: rest_def)
  qed
qed simp

text \<open>C4: The disassembler ends on every input when no decode space has word size zero: its listing
  is the word-by-word listing of the bytes, each entry at the address of its word, and it stops only
  where the bytes end or no space accepts the rest.\<close>

theorem disassembly_covers_the_bytes:
  assumes "\<forall>s \<in> set (mc_decode_spaces m). 0 < ds_word_bytes s"
  shows "\<exists>listing left. disassemble_from (length bytes + 1) m bytes base = Some listing \<and>
    lists_words m base bytes listing left"
proof (cases "mc_decode_spaces m")
  case Nil
  then have "lists_words m base bytes [] bytes" by (intro stop) (simp add: select_space_def)
  then show ?thesis using Nil by (auto simp: disassemble_from_def)
next
  case (Cons s ss)
  then show ?thesis
    using walk_words_lists [OF assms, of bytes "length bytes + 1" base]
    by (simp add: disassemble_from_def)
qed

text \<open>A selected space of word size zero makes the loop run for ever.\<close>

lemma empty_words_never_end:
  assumes "bytes \<noteq> []" and "select_space m bytes = Some s" and "ds_word_bytes s = 0"
  shows "disassemble_from n m bytes base = None"
proof -
  have "walk_words n m entry bytes a = None" for entry :: "logic_decode_space \<Rightarrow> u64 \<Rightarrow> u64 \<Rightarrow> 'a list" and a
    using assms by (induction n arbitrary: a) simp_all
  then show ?thesis using assms(2) by (auto simp: disassemble_from_def select_space_def)
qed

theorem disassembly_covers_the_bytes_witness:
  "\<exists>listing left. disassemble_from 4 tiny_machine [0x15, 0x00, 0x1F] 0 = Some listing \<and>
     lists_words tiny_machine 0 [0x15, 0x00, 0x1F] listing left"
proof -
  have "case from_documents [tiny_isa] of
      Inl e \<Rightarrow> False | Inr m \<Rightarrow> list_all (\<lambda>s. 0 < ds_word_bytes s) (mc_decode_spaces m)"
    by code_simp
  then have "\<forall>s \<in> set (mc_decode_spaces tiny_machine). 0 < ds_word_bytes s"
    by (cases "from_documents [tiny_isa]") (simp_all add: tiny_machine_def list_all_iff)
  from disassembly_covers_the_bytes [OF this, of "[0x15, 0x00, 0x1F]" 0] show ?thesis
    by (simp add: numeral_eq_Suc)
qed

end
