(* ===== verification/BusExt.thy ===== *)
theory BusExt
  imports DataHandle Strings
begin

text \<open>
  Typed views of the bus (\<open>src/soc/system/bus/ext/\<close> and the \<open>io\<close> traits of \<open>data.rs\<close>): byte
  streams in chunks of the codec's width, integers of 1 to 64 bits, LEB128 numbers, strings and their
  printable forms.  A handle works on the bus behind it, so an operation threads the pair of both.
  Floating-point numbers are kept as their bit patterns; the digest of \<open>sha2\<close> is a parameter.
\<close>

type_synonym 'd view = "'d device_bus \<times> data_handle"

type_synonym ('d, 'a) view_op = "'d view \<Rightarrow> (bus_error + 'a) \<times> 'd view"

definition se_map :: "('a \<Rightarrow> 'b) \<Rightarrow> ('s \<Rightarrow> ('e + 'a) \<times> 's) \<Rightarrow> 's \<Rightarrow> ('e + 'b) \<times> 's" where
  "se_map f m = se_bind m (\<lambda>a. se_lift (Inr (f a)))"

definition view_jump :: "u64 \<Rightarrow> ('d, unit) view_op" where
  "view_jump address v =
     (case v of (bus, h) \<Rightarrow>
       let (r, ah) = jump bus (dh_address h) address in (r, (bus, h\<lparr>dh_address := ah\<rparr>)))"

definition view_advance :: "u64 \<Rightarrow> ('d, unit) view_op" where
  "view_advance n v =
     (case v of (bus, h) \<Rightarrow>
       let (r, ah) = advance (dh_address h) n in (r, (bus, h\<lparr>dh_address := ah\<rparr>)))"

definition view_bits :: "'d device_ops \<Rightarrow> u8 \<Rightarrow> u16 \<Rightarrow> ('d, u128) view_op" where
  "view_bits ops off len v =
     (case v of (bus, h) \<Rightarrow> let (r, bus', h') = read_bits ops bus h off len in (r, (bus', h')))"

definition view_write_bits :: "'d device_ops \<Rightarrow> u8 \<Rightarrow> u16 \<Rightarrow> u128 \<Rightarrow> ('d, unit) view_op" where
  "view_write_bits ops off len x v =
     (case v of (bus, h) \<Rightarrow> let (r, bus', h') = write_bits ops bus h off len x in (r, (bus', h')))"

section \<open>Byte streams\<close>

text \<open>A buffer that is read into keeps what an error left of it: the chunks filled before, the rest as
  it was.\<close>

fun read_chunks ::
    "'d device_ops \<Rightarrow> u8 list list \<Rightarrow> 'd view \<Rightarrow> (bus_error + unit) \<times> u8 list \<times> 'd view" where
  "read_chunks ops [] v = (Inr (), [], v)"
| "read_chunks ops (c # cs) (bus, h) =
     (case dh_read ops bus h c of
        (Inl e, out, bus', h') \<Rightarrow> (Inl e, out @ concat cs, (bus', h'))
      | (Inr u, out, bus', h') \<Rightarrow>
          (case read_chunks ops cs (bus', h') of (r, outs, v) \<Rightarrow> (r, out @ outs, v)))"

definition read_bytes ::
    "'d device_ops \<Rightarrow> u8 list \<Rightarrow> 'd view \<Rightarrow> (bus_error + unit) \<times> u8 list \<times> 'd view" where
  "read_bytes ops out v =
     (if out = [] then (Inr (), [], v) else read_chunks ops (chunks max_endian_bytes out) v)"

fun write_chunks :: "'d device_ops \<Rightarrow> u8 list list \<Rightarrow> ('d, unit) view_op" where
  "write_chunks ops [] v = (Inr (), v)"
| "write_chunks ops (c # cs) (bus, h) =
     (case dh_write ops bus h c of
        (Inl e, bus', h') \<Rightarrow> (Inl e, (bus', h'))
      | (Inr u, bus', h') \<Rightarrow> write_chunks ops cs (bus', h'))"

definition write_bytes :: "'d device_ops \<Rightarrow> u8 list \<Rightarrow> ('d, unit) view_op" where
  "write_bytes ops data v =
     (if data = [] then (Inr (), v) else write_chunks ops (chunks max_endian_bytes data) v)"

definition stream_read_exact :: "'d device_ops \<Rightarrow> nat \<Rightarrow> ('d, u8 list) view_op" where
  "stream_read_exact ops n v =
     (case read_bytes ops (replicate n 0) v of (r, out, v') \<Rightarrow> (rbind r (\<lambda>u. Inr out), v'))"

definition stream_skip :: "u64 \<Rightarrow> ('d, unit) view_op" where
  "stream_skip n = view_advance n"

definition stream_fill_slice ::
    "'d device_ops \<Rightarrow> u8 list \<Rightarrow> 'd view \<Rightarrow> (bus_error + unit) \<times> u8 list \<times> 'd view" where
  "stream_fill_slice ops out v = read_bytes ops out v"

text \<open>\<open>io::Read\<close> and \<open>io::Write\<close> of a handle: as many bytes as the mapping has left.\<close>

definition io_count :: "data_handle \<Rightarrow> nat \<Rightarrow> nat" where
  "io_count h n = min (unat (ah_bytes_to_end (dh_address h))) n"

definition io_read ::
    "'d device_ops \<Rightarrow> u8 list \<Rightarrow> 'd view \<Rightarrow> (bus_error + nat) \<times> u8 list \<times> 'd view" where
  "io_read ops buf v =
     (if buf = [] \<or> ah_bytes_to_end (dh_address (snd v)) = 0 then (Inr 0, buf, v)
      else
        let count = io_count (snd v) (length buf);
            (r, out, v') = read_bytes ops (take count buf) v
        in (rbind r (\<lambda>u. Inr count), out @ drop count buf, v'))"

definition io_write :: "'d device_ops \<Rightarrow> u8 list \<Rightarrow> ('d, nat) view_op" where
  "io_write ops buf v =
     (if buf = [] \<or> ah_bytes_to_end (dh_address (snd v)) = 0 then (Inr 0, v)
      else
        let count = io_count (snd v) (length buf);
            (r, v') = write_bytes ops (take count buf) v
        in (rbind r (\<lambda>u. Inr count), v'))"

section \<open>Integers\<close>

definition ensure_width :: "nat \<Rightarrow> bus_error + unit" where
  "ensure_width width_bits =
     (if width_bits = 0 \<or> width_bits > 64
      then Inl (DeviceFault ''bus-ext-int''
                  (FaultInvalidInput ''integer width must be between 1 and 64 bits''))
      else Inr ())"

definition sign_extend :: "u64 \<Rightarrow> nat \<Rightarrow> i64" where
  "sign_extend v bits =
     (if bits = 0 then 0 else let shift = 64 - bits in sar (shl v shift) shift)"

definition read_unsigned :: "'d device_ops \<Rightarrow> u8 \<Rightarrow> nat \<Rightarrow> ('d, u64) view_op" where
  "read_unsigned ops bit_off width_bits =
     se_bind (se_lift (ensure_width width_bits)) (\<lambda>u.
       se_map ucast (view_bits ops bit_off (of_nat width_bits)))"

definition read_signed_bits :: "'d device_ops \<Rightarrow> u8 \<Rightarrow> nat \<Rightarrow> ('d, i64) view_op" where
  "read_signed_bits ops bit_off width_bits =
     se_map (\<lambda>v. sign_extend v width_bits) (read_unsigned ops bit_off width_bits)"

definition write_unsigned :: "'d device_ops \<Rightarrow> u8 \<Rightarrow> nat \<Rightarrow> u64 \<Rightarrow> ('d, unit) view_op" where
  "write_unsigned ops bit_off width_bits v =
     se_bind (se_lift (ensure_width width_bits)) (\<lambda>u.
       view_write_bits ops bit_off (of_nat width_bits) (ucast v))"

definition read_u8 :: "'d device_ops \<Rightarrow> ('d, u8) view_op" where
  "read_u8 ops = se_map ucast (view_bits ops 0 8)"

definition read_u16 :: "'d device_ops \<Rightarrow> ('d, u16) view_op" where
  "read_u16 ops = se_map ucast (view_bits ops 0 16)"

definition read_u32 :: "'d device_ops \<Rightarrow> ('d, u32) view_op" where
  "read_u32 ops = se_map ucast (view_bits ops 0 32)"

definition read_u64 :: "'d device_ops \<Rightarrow> ('d, u64) view_op" where
  "read_u64 ops = se_map ucast (view_bits ops 0 64)"

definition write_u8 :: "'d device_ops \<Rightarrow> u8 \<Rightarrow> ('d, unit) view_op" where
  "write_u8 ops v = view_write_bits ops 0 8 (ucast v)"

definition write_u16 :: "'d device_ops \<Rightarrow> u16 \<Rightarrow> ('d, unit) view_op" where
  "write_u16 ops v = view_write_bits ops 0 16 (ucast v)"

definition write_u32 :: "'d device_ops \<Rightarrow> u32 \<Rightarrow> ('d, unit) view_op" where
  "write_u32 ops v = view_write_bits ops 0 32 (ucast v)"

definition write_u64 :: "'d device_ops \<Rightarrow> u64 \<Rightarrow> ('d, unit) view_op" where
  "write_u64 ops v = view_write_bits ops 0 64 (ucast v)"

text \<open>The bit patterns of an \<open>f32\<close> and of an \<open>f64\<close>.\<close>

definition read_f32 :: "'d device_ops \<Rightarrow> ('d, u32) view_op" where
  "read_f32 ops = read_u32 ops"

definition read_f64 :: "'d device_ops \<Rightarrow> ('d, u64) view_op" where
  "read_f64 ops = read_u64 ops"

section \<open>LEB128\<close>

text \<open>The loops have no bound of their own; a call that did not return would be \<open>None\<close>.\<close>

partial_function (option) uleb_loop ::
    "'d device_ops \<Rightarrow> u64 \<Rightarrow> nat \<Rightarrow> 'd view \<Rightarrow> ((bus_error + u64) \<times> 'd view) option" where
  "uleb_loop ops result shift v =
     (case read_u8 ops v of
        (Inl e, v') \<Rightarrow> Some (Inl e, v')
      | (Inr byte, v') \<Rightarrow>
          (let result' = result OR shl (ucast (byte AND 0x7F)) shift
           in if byte AND 0x80 = 0 then Some (Inr result', v')
              else uleb_loop ops result' (shift + 7) v'))"

definition read_uleb128 ::
    "'d device_ops \<Rightarrow> 'd view \<Rightarrow> ((bus_error + u64) \<times> 'd view) option" where
  "read_uleb128 ops v = uleb_loop ops 0 0 v"

definition sleb_finish :: "u64 \<Rightarrow> u8 \<Rightarrow> nat \<Rightarrow> i64" where
  "sleb_finish result byte shift =
     (if shift < 64 \<and> byte AND 0x40 \<noteq> 0 then result OR shl (NOT 0) shift else result)"

partial_function (option) sleb_loop ::
    "'d device_ops \<Rightarrow> u64 \<Rightarrow> nat \<Rightarrow> 'd view \<Rightarrow> ((bus_error + i64) \<times> 'd view) option" where
  "sleb_loop ops result shift v =
     (case read_u8 ops v of
        (Inl e, v') \<Rightarrow> Some (Inl e, v')
      | (Inr byte, v') \<Rightarrow>
          (let result' = result OR shl (ucast (byte AND 0x7F)) shift
           in if byte AND 0x80 = 0 then Some (Inr (sleb_finish result' byte (shift + 7)), v')
              else sleb_loop ops result' (shift + 7) v'))"

definition read_sleb128 ::
    "'d device_ops \<Rightarrow> 'd view \<Rightarrow> ((bus_error + i64) \<times> 'd view) option" where
  "read_sleb128 ops v = sleb_loop ops 0 0 v"

section \<open>Strings\<close>

text \<open>\<open>String::from_utf8_lossy\<close> of the standard library, on the bytes of the text: every maximal
  prefix of a well-formed sequence that is not one becomes the replacement character.  \<open>utf8_step\<close>
  says whether a sequence is well formed at the head of the bytes and how many bytes it takes.\<close>

definition byte_in :: "u8 \<Rightarrow> u8 \<Rightarrow> u8 \<Rightarrow> bool" where
  "byte_in lo hi b \<longleftrightarrow> lo \<le> b \<and> b \<le> hi"

definition byte_at :: "u8 list \<Rightarrow> nat \<Rightarrow> u8" where
  "byte_at bs i = (if i < length bs then bs ! i else 0)"

definition is_continuation :: "u8 \<Rightarrow> bool" where
  "is_continuation b \<longleftrightarrow> b AND 192 = 128"

definition second_ok :: "u8 \<Rightarrow> u8 \<Rightarrow> bool" where
  "second_ok b c =
     (if b = 0xE0 then byte_in 0xA0 0xBF c
      else if byte_in 0xE1 0xEC b \<or> byte_in 0xEE 0xEF b then byte_in 0x80 0xBF c
      else if b = 0xED then byte_in 0x80 0x9F c
      else if b = 0xF0 then byte_in 0x90 0xBF c
      else if byte_in 0xF1 0xF3 b then byte_in 0x80 0xBF c
      else b = 0xF4 \<and> byte_in 0x80 0x8F c)"

definition utf8_step :: "u8 list \<Rightarrow> bool \<times> nat" where
  "utf8_step bs =
     (let b = byte_at bs 0 in
      if b < 0x80 then (True, 1)
      else if byte_in 0xC2 0xDF b then
        (if is_continuation (byte_at bs 1) then (True, 2) else (False, 1))
      else if byte_in 0xE0 0xEF b then
        (if \<not> second_ok b (byte_at bs 1) then (False, 1)
         else if is_continuation (byte_at bs 2) then (True, 3) else (False, 2))
      else if byte_in 0xF0 0xF4 b then
        (if \<not> second_ok b (byte_at bs 1) then (False, 1)
         else if \<not> is_continuation (byte_at bs 2) then (False, 2)
         else if is_continuation (byte_at bs 3) then (True, 4) else (False, 3))
      else (False, 1))"

definition utf8_replacement :: "u8 list" where
  "utf8_replacement = [0xEF, 0xBF, 0xBD]"

function utf8_lossy :: "u8 list \<Rightarrow> u8 list" where
  "utf8_lossy bs =
     (if bs = [] then []
      else (let (ok, n) = utf8_step bs in
        (if ok then take n bs else utf8_replacement) @ utf8_lossy (drop (max 1 n) bs)))"
  by pat_completeness auto
termination
  by (relation "measure length") auto

declare utf8_lossy.simps [simp del]

definition text_of_bytes :: "u8 list \<Rightarrow> string" where
  "text_of_bytes bs = map (\<lambda>b. char_of (unat b)) (utf8_lossy bs)"

definition trim_nul :: "u8 list \<Rightarrow> string" where
  "trim_nul bs = text_of_bytes (takeWhile (\<lambda>b. b \<noteq> 0) bs)"

definition read_utf8 :: "'d device_ops \<Rightarrow> nat \<Rightarrow> ('d, string) view_op" where
  "read_utf8 ops len = se_map trim_nul (stream_read_exact ops len)"

fun c_string_loop :: "'d device_ops \<Rightarrow> nat \<Rightarrow> u8 list \<Rightarrow> ('d, u8 list) view_op" where
  "c_string_loop ops 0 bytes = se_lift (Inr bytes)"
| "c_string_loop ops (Suc n) bytes =
     se_bind (read_u8 ops) (\<lambda>byte.
       if byte = 0 then se_lift (Inr bytes) else c_string_loop ops n (bytes @ [byte]))"

definition read_c_string :: "'d device_ops \<Rightarrow> nat \<Rightarrow> ('d, string) view_op" where
  "read_c_string ops max_len = se_map text_of_bytes (c_string_loop ops max_len [])"

definition hex_byte :: "u8 \<Rightarrow> string" where
  "hex_byte b = (let s = upper_hex (unat b) in if length s < 2 then ''0'' @ s else s)"

definition read_hex :: "'d device_ops \<Rightarrow> nat \<Rightarrow> ('d, string) view_op" where
  "read_hex ops len = se_map (\<lambda>buf. concat (map hex_byte buf)) (stream_read_exact ops len)"

definition is_ascii_graphic :: "u8 \<Rightarrow> bool" where
  "is_ascii_graphic b \<longleftrightarrow> 0x21 \<le> b \<and> b \<le> 0x7E"

definition read_ascii :: "'d device_ops \<Rightarrow> nat \<Rightarrow> ('d, string) view_op" where
  "read_ascii ops len =
     se_map (map (\<lambda>b. if is_ascii_graphic b then char_of (unat b) else CHR ''.''))
       (stream_read_exact ops len)"

definition read_sha256 :: "(u8 list \<Rightarrow> u8 list) \<Rightarrow> 'd device_ops \<Rightarrow> nat \<Rightarrow> ('d, u8 list) view_op" where
  "read_sha256 digest ops len = se_map digest (stream_read_exact ops len)"

section \<open>What a chunked transfer does\<close>

text \<open>The handle stands at a place with \<open>n\<close> bytes ahead of it, in the mapping and in the device.\<close>

definition span_ok ::
    "('d \<Rightarrow> u8 list) \<Rightarrow> 'd device_bus \<Rightarrow> data_handle \<Rightarrow> active_range \<Rightarrow> nat \<Rightarrow> bool" where
  "span_ok bytes bus h ar n \<longleftrightarrow>
     ah_active (dh_address h) = Some ar \<and>
     rr_device_id (ar_resolved ar) < length (bus_devices bus) \<and>
     n \<le> unat (ar_bytes_remaining ar) \<and>
     unat (ar_device_offset ar) + n
       \<le> length (bytes (bus_devices bus ! rr_device_id (ar_resolved ar))) \<and>
     length (bytes (bus_devices bus ! rr_device_id (ar_resolved ar))) < 2 ^ 64"

definition step_range :: "active_range \<Rightarrow> nat \<Rightarrow> active_range" where
  "step_range ar k = ar\<lparr>ar_cursor := ar_cursor ar + of_nat k\<rparr>"

lemma moved_step: "moved ah ar k = ah\<lparr>ah_active := Some (step_range ar k)\<rparr>"
  by (simp add: moved_def step_range_def)

lemma moved_moved: "moved (moved ah ar k) (step_range ar k) n = moved ah ar (k + n)"
  by (simp add: moved_def step_range_def)

lemma step_resolved [simp]: "ar_resolved (step_range ar k) = ar_resolved ar"
  by (simp add: step_range_def)

lemma step_remaining:
  assumes "k \<le> unat (ar_bytes_remaining ar)"
  shows "unat (ar_bytes_remaining (step_range ar k)) = unat (ar_bytes_remaining ar) - k"
proof -
  have "ar_bytes_remaining (step_range ar k) = ar_bytes_remaining ar - of_nat k"
    by (simp add: ar_bytes_remaining_def ar_bus_address_def step_range_def)
  moreover have "unat (of_nat k :: u64) = k"
    using assms unat_u64_less [of "ar_bytes_remaining ar"] by (simp add: unat_of_nat)
  ultimately show ?thesis using assms by (simp add: unat_sub word_le_nat_alt)
qed

lemma step_offset:
  assumes "unat (ar_device_offset ar) + k < 2 ^ 64"
  shows "unat (ar_device_offset (step_range ar k)) = unat (ar_device_offset ar) + k"
proof -
  have "ar_device_offset (step_range ar k) = ar_device_offset ar + of_nat k"
    by (simp add: ar_device_offset_def step_range_def)
  moreover have "unat (of_nat k :: u64) = k"
    using assms by (simp add: unat_of_nat)
  ultimately show ?thesis using assms by (simp add: unat_word_ariths)
qed

lemma span_ok_step:
  assumes "span_ok bytes bus h ar (k + n)" and "dh_address h' = moved (dh_address h) ar k"
    and "bus_devices bus' = (bus_devices bus)[rr_device_id (ar_resolved ar) := d]"
    and "length (bytes d) = length (bytes (bus_devices bus ! rr_device_id (ar_resolved ar)))"
  shows "span_ok bytes bus' h' (step_range ar k) n"
  using assms step_remaining [of k ar] step_offset [of ar k]
  by (auto simp: span_ok_def moved_step)

lemma span_ok_prefix: "span_ok bytes bus h ar n \<Longrightarrow> k \<le> n \<Longrightarrow> span_ok bytes bus h ar k"
  by (simp add: span_ok_def)

lemma span_ok_le: "span_ok bytes bus h ar n \<Longrightarrow> of_nat n \<le> ar_bytes_remaining ar"
  by (simp add: span_ok_def word_le_nat_alt unat_of_nat le_trans [OF mod_less_eq_dividend])

text \<open>Splicing in two pieces, and a window in two pieces.\<close>

lemma splice_splice:
  assumes "i + length (ys @ zs) \<le> length xs"
  shows "splice (splice xs i ys) (i + length ys) zs = splice xs i (ys @ zs)"
  using assms by (simp add: splice_def ac_simps)

lemma take_window_split:
  "take (k + n) (drop i xs) = take k (drop i xs) @ take n (drop (i + k) xs)"
  by (simp add: take_add add.commute)

context byte_device
begin

lemma read_chunks_ok:
  assumes "span_ok bytes bus h ar (length (concat cs))" and "[] \<notin> set cs"
  obtains h' where "read_chunks ops cs (bus, h) =
      (Inr (), take (length (concat cs)) (drop (unat (ar_device_offset ar))
         (bytes (bus_devices bus ! rr_device_id (ar_resolved ar)))), (bus, h'))"
    "ah_active (dh_address h') = Some (step_range ar (length (concat cs)))"
proof -
  have "\<exists>h'. read_chunks ops cs (bus, h) =
      (Inr (), take (length (concat cs)) (drop (unat (ar_device_offset ar))
         (bytes (bus_devices bus ! rr_device_id (ar_resolved ar)))), (bus, h')) \<and>
    ah_active (dh_address h') = Some (step_range ar (length (concat cs)))"
    using assms
  proof (induction cs arbitrary: h ar)
    case Nil
    then show ?case by (simp add: span_ok_def step_range_def)
  next
    case (Cons c cs)
    let ?n = "length (concat cs)"
    have span: "span_ok bytes bus h ar (length c + ?n)" using Cons.prems(1) by simp
    then have here: "span_ok bytes bus h ar (length c)" by (rule span_ok_prefix) simp
    define h1 where
      "h1 = \<lparr>dh_address = moved (dh_address h) ar (length c), dh_cache = invalidate (dh_cache h)\<rparr>"
    have r: "dh_read ops bus h c = (Inr (), take (length c) (drop (unat (ar_device_offset ar))
         (bytes (bus_devices bus ! rr_device_id (ar_resolved ar)))), bus, h1)"
      unfolding h1_def
      by (rule dh_read_ok) (use here Cons.prems(2) in \<open>auto simp: span_ok_def span_ok_le [OF here]\<close>)
    have ahead: "span_ok bytes bus h1 (step_range ar (length c)) ?n"
      by (rule span_ok_step [OF span, where d = "bus_devices bus ! rr_device_id (ar_resolved ar)"])
        (simp_all add: h1_def)
    have off: "unat (ar_device_offset (step_range ar (length c))) = unat (ar_device_offset ar) + length c"
      using span by (intro step_offset) (simp add: span_ok_def)
    obtain h' where h': "read_chunks ops cs (bus, h1) =
        (Inr (), take ?n (drop (unat (ar_device_offset ar) + length c)
           (bytes (bus_devices bus ! rr_device_id (ar_resolved ar)))), (bus, h'))"
      "ah_active (dh_address h') = Some (step_range (step_range ar (length c)) ?n)"
      using Cons.IH [OF ahead] Cons.prems(2) by (auto simp: off)
    then show ?case
      using r by (simp add: take_window_split step_range_def add.assoc)
  qed
  then show thesis using that by blast
qed

lemma write_chunks_ok:
  assumes "span_ok bytes bus h ar (length (concat cs))" and "[] \<notin> set cs"
  obtains d' h' where "write_chunks ops cs (bus, h) =
      (Inr (), (bus\<lparr>bus_devices := (bus_devices bus)[rr_device_id (ar_resolved ar) := d']\<rparr>, h'))"
    "bytes d' = splice (bytes (bus_devices bus ! rr_device_id (ar_resolved ar)))
       (unat (ar_device_offset ar)) (concat cs)"
proof -
  have "\<exists>d' h'. write_chunks ops cs (bus, h) =
      (Inr (), (bus\<lparr>bus_devices := (bus_devices bus)[rr_device_id (ar_resolved ar) := d']\<rparr>, h')) \<and>
    bytes d' = splice (bytes (bus_devices bus ! rr_device_id (ar_resolved ar)))
       (unat (ar_device_offset ar)) (concat cs)"
    using assms
  proof (induction cs arbitrary: bus h ar)
    case Nil
    then show ?case
      by (intro exI [of _ "bus_devices bus ! rr_device_id (ar_resolved ar)"] exI [of _ h])
        (simp add: splice_def)
  next
    case (Cons c cs)
    let ?n = "length (concat cs)" and ?i = "rr_device_id (ar_resolved ar)"
    let ?off = "unat (ar_device_offset ar)"
    have span: "span_ok bytes bus h ar (length c + ?n)" using Cons.prems(1) by simp
    then have here: "span_ok bytes bus h ar (length c)" by (rule span_ok_prefix) simp
    define h1 where
      "h1 = \<lparr>dh_address = moved (dh_address h) ar (length c), dh_cache = invalidate (dh_cache h)\<rparr>"
    obtain d1 where w: "dh_write ops bus h c =
        (Inr (), bus\<lparr>bus_devices := (bus_devices bus)[?i := d1]\<rparr>, h1)"
      "bytes d1 = splice (bytes (bus_devices bus ! ?i)) ?off c"
    proof (rule dh_write_ok [of h ar bus c])
      show "ah_active (dh_address h) = Some ar" "?i < length (bus_devices bus)"
        "of_nat (length c) \<le> ar_bytes_remaining ar"
        "?off + length c \<le> length (bytes (bus_devices bus ! ?i))"
        "length (bytes (bus_devices bus ! ?i)) < 2 ^ 64" "c \<noteq> []"
        using here Cons.prems(2) span_ok_le [OF here] by (auto simp: span_ok_def)
    qed (auto simp: h1_def intro: that)
    let ?bus = "bus\<lparr>bus_devices := (bus_devices bus)[?i := d1]\<rparr>"
    have ahead: "span_ok bytes ?bus h1 (step_range ar (length c)) ?n"
      by (rule span_ok_step [OF span, where d = d1])
        (use here in \<open>simp_all add: h1_def w(2) span_ok_def\<close>)
    have off: "unat (ar_device_offset (step_range ar (length c))) = ?off + length c"
      using span by (intro step_offset) (simp add: span_ok_def)
    have i: "?i < length (bus_devices bus)" using span by (simp add: span_ok_def)
    obtain d' h' where h': "write_chunks ops cs (?bus, h1) =
        (Inr (), (?bus\<lparr>bus_devices := (bus_devices ?bus)[?i := d']\<rparr>, h'))"
      "bytes d' = splice (bytes d1) (?off + length c) (concat cs)"
      using Cons.IH [OF ahead] Cons.prems(2) i by (auto simp: off)
    have "bytes d' = splice (bytes (bus_devices bus ! ?i)) ?off (concat (c # cs))"
      using h'(2) w(2) span by (simp add: splice_splice span_ok_def)
    then show ?case
      using w(1) h'(1) by (intro exI [of _ d'] exI [of _ h']) simp
  qed
  then show thesis using that by blast
qed

lemma write_then_read_bytes_ok:
  assumes span: "span_ok bytes bus h ar (length data)"
    and jump: "jump bus ah0 a = (Inr (), dh_address h)" and len: "length out = length data"
  obtains d' h' h2 h3 where
    "write_bytes ops data (bus, h) =
       (Inr (), (bus\<lparr>bus_devices := (bus_devices bus)[rr_device_id (ar_resolved ar) := d']\<rparr>, h'))"
    "bytes d' = splice (bytes (bus_devices bus ! rr_device_id (ar_resolved ar)))
       (unat (ar_device_offset ar)) data"
    "view_jump a (bus\<lparr>bus_devices := (bus_devices bus)[rr_device_id (ar_resolved ar) := d']\<rparr>, h') =
       (Inr (), (bus\<lparr>bus_devices := (bus_devices bus)[rr_device_id (ar_resolved ar) := d']\<rparr>, h2))"
    "read_bytes ops out
       (bus\<lparr>bus_devices := (bus_devices bus)[rr_device_id (ar_resolved ar) := d']\<rparr>, h2) =
       (Inr (), data, (bus\<lparr>bus_devices := (bus_devices bus)[rr_device_id (ar_resolved ar) := d']\<rparr>, h3))"
proof -
  let ?i = "rr_device_id (ar_resolved ar)" and ?off = "unat (ar_device_offset ar)"
  have whole: "concat (chunks max_endian_bytes xs) = xs" "[] \<notin> set (chunks max_endian_bytes xs)"
    for xs :: "u8 list"
    using chunks_bounds [of "[]" max_endian_bytes xs] by (auto simp: concat_chunks)
  have w: "write_bytes ops data v = write_chunks ops (chunks max_endian_bytes data) v"
    "read_bytes ops out v = read_chunks ops (chunks max_endian_bytes out) v" for v
    by (simp_all add: write_bytes_def read_bytes_def)
  obtain d' h' where wr: "write_chunks ops (chunks max_endian_bytes data) (bus, h) =
      (Inr (), (bus\<lparr>bus_devices := (bus_devices bus)[?i := d']\<rparr>, h'))"
    "bytes d' = splice (bytes (bus_devices bus ! ?i)) ?off data"
    using write_chunks_ok [of bus h ar "chunks max_endian_bytes data", unfolded whole(1),
        OF span whole(2)] .
  let ?bus = "bus\<lparr>bus_devices := (bus_devices bus)[?i := d']\<rparr>"
  obtain ah2 where j: "jump ?bus (dh_address h') a = (Inr (), ah2)"
    and act: "ah_active ah2 = ah_active (dh_address h)"
    using jump_active [OF jump, of "dh_address h'"] unfolding jump_update_device by blast
  define h2 where "h2 = h'\<lparr>dh_address := ah2\<rparr>"
  have bytes': "take (length data) (drop ?off (bytes (bus_devices ?bus ! ?i))) = data"
    using span wr(2) by (simp add: span_ok_def take_drop_splice_same)
  have "span_ok bytes ?bus h2 ar (length out)"
    using span wr(2) act len by (simp add: span_ok_def h2_def)
  then obtain h3 where rd: "read_chunks ops (chunks max_endian_bytes out) (?bus, h2) =
      (Inr (), take (length out) (drop ?off (bytes (bus_devices ?bus ! ?i))), (?bus, h3))"
    using read_chunks_ok [of ?bus h2 ar "chunks max_endian_bytes out", unfolded whole(1),
        OF _ whole(2)] by blast
  show thesis
  proof (rule that)
    show "write_bytes ops data (bus, h) = (Inr (), (?bus, h'))" using wr(1) by (simp add: w)
    show "bytes d' = splice (bytes (bus_devices bus ! ?i)) ?off data" by (rule wr(2))
    show "view_jump a (?bus, h') = (Inr (), (?bus, h2))" using j by (simp add: view_jump_def h2_def)
    show "read_bytes ops out (?bus, h2) = (Inr (), data, (?bus, h3))"
      unfolding w rd len bytes' ..
  qed
qed

end

end
