(* ===== verification/Harness.thy ===== *)
theory Harness
  imports Runtime MachineCore Loader BusExt
begin

text \<open>
  Running instructions on a core (\<open>src/soc/core/harness.rs\<close>) and the bundle of a machine with its core
  layout (\<open>src/soc/core/isa.rs\<close>).  The harness owns a machine, its layout and the world a program
  runs in.  The fuel of \<open>execute_block\<close> is that of the disassembler.
\<close>

section \<open>Errors\<close>

definition debug_char :: "char \<Rightarrow> string" where
  "debug_char c =
     (if c = CHR 0x22 then [CHR 0x5C, CHR 0x22]
      else if c = CHR 0x5C then [CHR 0x5C, CHR 0x5C]
      else if c = CHR 0x0A then [CHR 0x5C] @ ''n''
      else if c = CHR 0x0D then [CHR 0x5C] @ ''r''
      else if c = CHR 0x09 then [CHR 0x5C] @ ''t''
      else if c = CHR 0x00 then [CHR 0x5C] @ ''0''
      else if of_char c < (32 :: nat) \<or> of_char c = (127 :: nat) then
        [CHR 0x5C] @ ''u{'' @ map ascii_lower (upper_hex (of_char c)) @ ''}''
      else [c])"

definition debug_string :: "string \<Rightarrow> string" where
  "debug_string s = [CHR 0x22] @ concat (map debug_char s) @ [CHR 0x22]"

definition phase_name :: "diagnostic_phase \<Rightarrow> string" where
  "phase_name p =
     (case p of LexerPhase \<Rightarrow> ''Lexer'' | ParserPhase \<Rightarrow> ''Parser'' | ValidationPhase \<Rightarrow> ''Validation'')"

definition isa_error_text :: "isa_error \<Rightarrow> string" where
  "isa_error_text e =
     (case e of
        Io err \<Rightarrow> ''I/O error: '' @ err
      | Parser msg \<Rightarrow> ''parser error: '' @ msg
      | Validation msg \<Rightarrow> ''validation error: '' @ msg
      | IncludeLoop chain \<Rightarrow>
          ''cyclic include detected: ['' @ join '', '' (map debug_string chain) @ '']''
      | Machine msg \<Rightarrow> ''machine construction error: '' @ msg
      | Diagnostics phase ds \<Rightarrow>
          fmt ''{} produced {} issue(s):'' [phase_name phase, dec (length ds)] @ [CHR 0x0A] @
          concat (map (\<lambda>d. ''  - '' @ format_human d @ [CHR 0x0A]) ds))"

datatype harness_error =
    HarnessIsa isa_error
  | HarnessCore "core_spec_error list"
  | HarnessState state_error

definition harness_error_text :: "harness_error \<Rightarrow> string" where
  "harness_error_text e =
     (case e of
        HarnessIsa err \<Rightarrow> ''ISA error: '' @ isa_error_text err
      | HarnessCore err \<Rightarrow> ''core spec error: '' @ core_spec_build_error_text err
      | HarnessState err \<Rightarrow> ''core state error: '' @ state_error_text err)"

section \<open>The harness\<close>

record 'h harness =
  hn_machine :: machine_description
  hn_spec :: core_spec
  hn_world :: "'h world"

definition harness_from_machine ::
    "string \<Rightarrow> machine_description \<Rightarrow> endianness option \<Rightarrow> 'h \<Rightarrow> harness_error + 'h harness" where
  "harness_from_machine name machine eo host =
     rbind (map_err HarnessCore (from_machine name machine eo)) (\<lambda>spec.
     rbind (map_err HarnessState (core_state_new spec)) (\<lambda>st.
       Inr \<lparr>hn_machine = machine, hn_spec = spec,
            hn_world = \<lparr>w_core = st, w_host = host, w_tracer = None\<rparr>\<rparr>))"

text \<open>With the software host, whose state is nothing.\<close>

definition from_coredef ::
    "file_system \<Rightarrow> string \<Rightarrow> string \<Rightarrow> endianness option \<Rightarrow> (harness_error + unit harness) option" where
  "from_coredef fs name path eo =
     map_option (\<lambda>r. rbind (map_err HarnessIsa r) (\<lambda>machine. harness_from_machine name machine eo ()))
       (load_machine fs path)"

definition enable_tracer :: "'h harness \<Rightarrow> 'h harness" where
  "enable_tracer h = h\<lparr>hn_world := (hn_world h)\<lparr>w_tracer := Some []\<rparr>\<rparr>"

definition disable_tracer :: "'h harness \<Rightarrow> 'h harness" where
  "disable_tracer h = h\<lparr>hn_world := (hn_world h)\<lparr>w_tracer := None\<rparr>\<rparr>"

section \<open>Registers\<close>

definition harness_reference :: "string \<Rightarrow> string \<Rightarrow> string option \<Rightarrow> register_ref" where
  "harness_reference space name subfield =
     \<lparr>rr_space = space, rr_name = name, rr_subfield = subfield, rr_index = None, rr_span = None\<rparr>"

definition read_register_value ::
    "string \<Rightarrow> string \<Rightarrow> string option \<Rightarrow> i64 option \<Rightarrow> 'h harness \<Rightarrow>
     (harness_error + semantic_value) \<times> 'h harness" where
  "read_register_value space name subfield index h =
     (let (r, w) =
        se_bind (se_lift (resolve_register (hn_machine h) (harness_reference space name subfield) index))
          (\<lambda>resolved. on_core (resolved_read resolved)) (hn_world h)
      in (map_err HarnessIsa r, h\<lparr>hn_world := w\<rparr>))"

definition write_register_value ::
    "string \<Rightarrow> string \<Rightarrow> string option \<Rightarrow> i64 option \<Rightarrow> i64 \<Rightarrow> 'h harness \<Rightarrow>
     (harness_error + unit) \<times> 'h harness" where
  "write_register_value space name subfield index v h =
     (let (r, w) =
        se_bind (se_lift (resolve_register (hn_machine h) (harness_reference space name subfield) index))
          (\<lambda>resolved. on_core (resolved_write resolved v)) (hn_world h)
      in (map_err HarnessIsa r, h\<lparr>hn_world := w\<rparr>))"

section \<open>Instructions\<close>

record instruction_execution =
  ie_address :: u64
  ie_mnemonic :: string
  ie_bits :: u64
  ie_return_value :: "semantic_value option"

text \<open>The bindings of an instruction word: the parameters of the machine, then every field of the
  form, read as a signed number.\<close>

definition bind_form_fields :: "form_info \<Rightarrow> u64 \<Rightarrow> bindings \<Rightarrow> bindings" where
  "bind_form_fields form bits =
     fold (\<lambda>field b. snd (insert_int (fe_name field) (read_signed (fe_spec field) bits) b)) (fi_fields form)"

definition bind_parameters ::
    "machine_description \<Rightarrow> decoded_instruction \<Rightarrow> isa_error + bindings" where
  "bind_parameters m d =
     (let space = ip_space (di_pattern d); name = in_name (di_instruction d)
      in rbind (extend_from_parameters (mc_parameters m) bindings_new) (\<lambda>b.
         case ip_form (di_pattern d) of
           None \<Rightarrow> Inr b
         | Some form_name \<Rightarrow>
             rbind (ok_or (map_of (mc_spaces m) space)
                      (machine_err ''instruction {} references unknown space {}''
                         [quoted name, quoted space])) (\<lambda>s.
             rbind (ok_or (map_of (sp_forms s) form_name)
                      (machine_err ''instruction {} references undefined form {}''
                         [quoted (space @ ''::'' @ name), quoted (space @ ''::'' @ form_name)])) (\<lambda>form.
               Inr (bind_form_fields form (di_bits d) b)))))"

definition run_semantics ::
    "'h host_services \<Rightarrow> machine_description \<Rightarrow> decoded_instruction \<Rightarrow> 'h world \<Rightarrow>
     (isa_error + semantic_value option) \<times> 'h world" where
  "run_semantics hs m d =
     (case in_semantics (di_instruction d) of
        None \<Rightarrow> se_lift (Inr None)
      | Some block \<Rightarrow>
          se_bind (se_lift (block_program block)) (\<lambda>program.
          se_bind (se_lift (bind_parameters m d)) (\<lambda>params.
            execute_program hs m params program)))"

definition fetch_event :: "disassembly \<Rightarrow> trace_event" where
  "fetch_event listing =
     Fetch (da_address listing) (da_opcode listing) (da_mnemonic listing)
       (case da_display listing of Some d \<Rightarrow> d | None \<Rightarrow> join '', '' (da_operands listing))"

definition execute_entry ::
    "'h host_services \<Rightarrow> machine_description \<Rightarrow> decoded_instruction \<Rightarrow> disassembly \<Rightarrow> 'h world \<Rightarrow>
     (isa_error + instruction_execution) \<times> 'h world" where
  "execute_entry hs m d listing =
     se_bind (trace_step (fetch_event listing)) (\<lambda>u.
     se_bind (run_semantics hs m d) (\<lambda>v.
       se_lift (Inr \<lparr>ie_address = di_address d, ie_mnemonic = in_name (di_instruction d),
                     ie_bits = di_bits d, ie_return_value = v\<rparr>)))"

fun execute_entries ::
    "'h host_services \<Rightarrow> machine_description \<Rightarrow> (decoded_instruction \<times> disassembly) list \<Rightarrow>
     instruction_execution list \<Rightarrow> 'h world \<Rightarrow>
     (isa_error + instruction_execution list) \<times> 'h world" where
  "execute_entries hs m [] executions = se_lift (Inr executions)"
| "execute_entries hs m ((d, listing) # entries) executions =
     se_bind (execute_entry hs m d listing) (\<lambda>e. execute_entries hs m entries (executions @ [e]))"

text \<open>The decoded instructions are paired with the listing by position.\<close>

definition execute_block ::
    "nat \<Rightarrow> 'h host_services \<Rightarrow> u64 \<Rightarrow> u8 list \<Rightarrow> 'h harness \<Rightarrow>
     ((harness_error + instruction_execution list) \<times> 'h harness) option" where
  "execute_block n hs base rom h =
     Option.bind (decode_instructions n (hn_machine h) rom base) (\<lambda>decoded.
     Option.bind (disassemble_from n (hn_machine h) rom base) (\<lambda>listing.
       let (r, w) = execute_entries hs (hn_machine h) (zip decoded listing) [] (hn_world h)
       in Some (map_err HarnessIsa r, h\<lparr>hn_world := w\<rparr>)))"

section \<open>A machine with its layout\<close>

record instruction_semantics =
  is_name :: string
  is_space :: string
  is_operands :: "string list"
  is_semantics :: "semantic_block option"

definition from_instruction :: "isa_instruction \<Rightarrow> instruction_semantics" where
  "from_instruction i =
     \<lparr>is_name = in_name i, is_space = in_space i, is_operands = in_operands i,
      is_semantics = in_semantics i\<rparr>"

record isa_spec =
  iz_machine :: machine_description
  iz_core :: core_spec
  iz_instructions :: "instruction_semantics list"

definition isa_spec_from_machine ::
    "string \<Rightarrow> machine_description \<Rightarrow> endianness option \<Rightarrow> core_spec_error list + isa_spec" where
  "isa_spec_from_machine name machine eo =
     rbind (from_machine name machine eo) (\<lambda>core.
       Inr \<lparr>iz_machine = machine, iz_core = core,
            iz_instructions = map from_instruction (mc_instructions machine)\<rparr>)"

definition isa_spec_error_text :: "core_spec_error list \<Rightarrow> string" where
  "isa_spec_error_text e = ''core spec build failed: '' @ core_spec_build_error_text e"

definition isa_spec_disassemble :: "nat \<Rightarrow> isa_spec \<Rightarrow> u8 list \<Rightarrow> disassembly list option" where
  "isa_spec_disassemble n spec = disassemble n (iz_machine spec)"

section \<open>The ISA handle\<close>

text \<open>\<open>src/soc/isa/handle.rs\<close>: a machine loaded from files; it disassembles bytes read through a data
  handle.\<close>

definition isa_handle_from_files :: "file_system \<Rightarrow> string \<Rightarrow> (isa_error + machine_description) option" where
  "isa_handle_from_files fs entry_path = load_machine fs entry_path"

definition disassemble_range ::
    "nat \<Rightarrow> 'd device_ops \<Rightarrow> machine_description \<Rightarrow> nat \<Rightarrow> 'd view \<Rightarrow>
     ((isa_error + disassembly list) \<times> 'd view) option" where
  "disassemble_range n ops m len v =
     (case stream_read_exact ops len v of
        (Inl e, v') \<Rightarrow> Some (Inl (Machine (fmt ''bus error: {}'' [bus_error_text e])), v')
      | (Inr buf, v') \<Rightarrow> map_option (\<lambda>listing. (Inr listing, v')) (disassemble n m buf))"

end
