(* ===== verification/HarnessFacts.thy ===== *)
theory HarnessFacts
  imports Emulator AssemblyFacts Harness
begin

text \<open>
  What the harness promises when it runs a block of instruction bytes: every decoded instruction is
  executed when the checker accepts the programs, and the events traced for the fetches are those of
  the words in the same position, which are others once a word does not decode.
\<close>

section \<open>A block of accepted instructions\<close>

text \<open>An instruction whose program the checker accepts under the types of its bindings.\<close>

definition instruction_accepted :: "machine_description \<Rightarrow> core_state \<Rightarrow> decoded_instruction \<Rightarrow> bool" where
  "instruction_accepted m st d \<longleftrightarrow>
     (case in_semantics (di_instruction d) of
        None \<Rightarrow> True
      | Some block \<Rightarrow>
          (case (block_program block, bind_parameters m d) of
             (Inr program, Inr params) \<Rightarrow>
               check_program m (writable st) (call_signature m st 31) (map_option type_of \<circ> params) program
                 \<noteq> None
           | _ \<Rightarrow> False))"

lemma trace_keeps_world [simp]: "world_ok st (emit_trace ev w) \<longleftrightarrow> world_ok st w"
  by (simp add: emit_trace_def world_ok_def split: option.split)

lemma run_semantics_ok:
  assumes "instruction_accepted m st d" and "world_ok st w"
  shows "succeeds (world_ok st) (run_semantics hs m d) (\<lambda>r. True) w"
proof (cases "in_semantics (di_instruction d)")
  case None
  then show ?thesis using assms(2) by (simp add: run_semantics_def succeeds_lift)
next
  case (Some block)
  then obtain program params t where p: "block_program block = Inr program"
      "bind_parameters m d = Inr params"
      "check_program m (writable st) (call_signature m st 31) (map_option type_of \<circ> params) program = Some t"
    using assms(1) by (auto simp: instruction_accepted_def split: sum.splits)
  from program_runs [OF assms(2) ctx_typed_params p(3), where hs = hs] show ?thesis
    by (auto simp: run_semantics_def Some p(1,2) succeeds_def)
qed

lemma execute_entry_ok:
  assumes "instruction_accepted m st d" and "world_ok st w"
  obtains e w' where "execute_entry hs m d listing w = (Inr e, w')" "world_ok st w'"
    "ie_address e = di_address d" "ie_mnemonic e = in_name (di_instruction d)" "ie_bits e = di_bits d"
proof -
  have "world_ok st (emit_trace (fetch_event listing) w)" using assms(2) by simp
  from run_semantics_ok [OF assms(1) this, where hs = hs] obtain r w' where
    "run_semantics hs m d (emit_trace (fetch_event listing) w) = (Inr r, w')" "world_ok st w'"
    by (auto simp: succeeds_def)
  then show thesis using that by (simp add: execute_entry_def trace_step_def se_bind_def)
qed

lemma execute_entries_ok:
  assumes "\<forall>(d, listing) \<in> set entries. instruction_accepted m st d" and "world_ok st w"
  shows "\<exists>es w'. execute_entries hs m entries earlier w = (Inr (earlier @ es), w') \<and> world_ok st w' \<and>
    list_all2 (\<lambda>e (d, listing). ie_address e = di_address d \<and> ie_mnemonic e = in_name (di_instruction d) \<and>
      ie_bits e = di_bits d) es entries"
  using assms
proof (induction entries arbitrary: earlier w)
  case (Cons entry entries)
  obtain d listing where entry: "entry = (d, listing)" by force
  have "instruction_accepted m st d" using Cons.prems(1) by (simp add: entry)
  from execute_entry_ok [OF this Cons.prems(2), where hs = hs] obtain e w1 where e:
      "execute_entry hs m d listing w = (Inr e, w1)" "world_ok st w1"
      "ie_address e = di_address d \<and> ie_mnemonic e = in_name (di_instruction d) \<and> ie_bits e = di_bits d"
    by metis
  from Cons.IH [OF _ e(2), of "earlier @ [e]"] Cons.prems(1) obtain es w' where
      "execute_entries hs m entries (earlier @ [e]) w1 = (Inr ((earlier @ [e]) @ es), w')"
      "world_ok st w'"
      "list_all2 (\<lambda>e (d, listing). ie_address e = di_address d \<and>
         ie_mnemonic e = in_name (di_instruction d) \<and> ie_bits e = di_bits d) es entries"
    by auto
  then show ?case using e(1,3) by (intro exI [of _ "e # es"]) (simp add: entry se_bind_def)
qed simp

text \<open>The decoder and the disassembler walk the same words; the listing has an entry for each.\<close>

lemma walk_words_both:
  assumes "\<forall>s \<in> set (mc_decode_spaces m). 0 < ds_word_bytes s" and "length bytes < n"
  shows "\<exists>ds ls. walk_words n m (decode_entry m) bytes address = Some ds \<and>
    walk_words n m (\<lambda>s a bits. [disassemble_word m s a bits]) bytes address = Some ls \<and>
    length ds \<le> length ls"
  using assms(2)
proof (induction n arbitrary: bytes address)
  case (Suc n)
  show ?case
  proof (cases "bytes = [] \<or> select_space m bytes = None")
    case False
    then obtain s where s: "select_space m bytes = Some s" and ne: "bytes \<noteq> []" by auto
    have pos: "0 < ds_word_bytes s" using select_space_Some(1) [OF s] assms(1) by blast
    then have "length (drop (ds_word_bytes s) bytes) < n" using Suc.prems ne by (cases bytes) auto
    from Suc.IH [OF this, of "address + of_nat (ds_word_bytes s)"] obtain ds ls where
      "walk_words n m (decode_entry m) (drop (ds_word_bytes s) bytes) (address + of_nat (ds_word_bytes s)) = Some ds"
      "walk_words n m (\<lambda>s a bits. [disassemble_word m s a bits]) (drop (ds_word_bytes s) bytes)
        (address + of_nat (ds_word_bytes s)) = Some ls" "length ds \<le> length ls"
      by blast
    moreover have "length (decode_entry m s address (space_bits s bytes)) \<le> 1"
      by (simp add: decode_entry_def split: option.split)
    ultimately show ?thesis using s ne select_space_Some(2) [OF s] by simp
  qed auto
qed simp

lemma decoded_and_listed:
  assumes "\<forall>s \<in> set (mc_decode_spaces m). 0 < ds_word_bytes s" and "length bytes < n"
  obtains ds ls where "decode_instructions n m bytes base = Some ds"
    "disassemble_from n m bytes base = Some ls" "length ds \<le> length ls"
  using walk_words_both [OF assms, of base] that
  by (cases "mc_decode_spaces m = []") (auto simp: decode_instructions_def disassemble_from_def)

text \<open>C2: When the checker accepts the program of every instruction the block decodes to, the harness
  executes the whole block: it ends without an error whatever the host services compute and whether or
  not a tracer is set, executes exactly the decoded instructions in order, and leaves a good core of
  the same layout.\<close>
theorem execute_block_safe:
  assumes "core_ok (w_core (hn_world h))"
    and "\<forall>s \<in> set (mc_decode_spaces (hn_machine h)). 0 < ds_word_bytes s"
    and "decode_instructions (length rom + 1) (hn_machine h) rom base = Some decoded"
    and "\<forall>d \<in> set decoded. instruction_accepted (hn_machine h) (w_core (hn_world h)) d"
  shows "\<exists>es h'. execute_block (length rom + 1) hs base rom h = Some (Inr es, h') \<and>
    map (\<lambda>e. (ie_address e, ie_mnemonic e, ie_bits e)) es =
      map (\<lambda>d. (di_address d, in_name (di_instruction d), di_bits d)) decoded \<and>
    core_ok (w_core (hn_world h')) \<and>
    st_registers (w_core (hn_world h')) = st_registers (w_core (hn_world h)) \<and>
    hn_machine h' = hn_machine h"
proof -
  let ?m = "hn_machine h" and ?st = "w_core (hn_world h)"
  obtain listing where listing: "disassemble_from (length rom + 1) ?m rom base = Some listing"
    "length decoded \<le> length listing"
    using decoded_and_listed [OF assms(2), of rom "length rom + 1" base] assms(3) by force
  have ok: "world_ok ?st (hn_world h)" using assms(1) by (simp add: world_ok_def)
  have "\<forall>(d, l) \<in> set (zip decoded listing). instruction_accepted ?m ?st d"
    using assms(4) by (auto dest: set_zip_leftD)
  from execute_entries_ok [OF this ok, of hs "[]"] obtain es w' where es:
      "execute_entries hs ?m (zip decoded listing) [] (hn_world h) = (Inr es, w')" "world_ok ?st w'"
      "list_all2 (\<lambda>e (d, listing). ie_address e = di_address d \<and> ie_mnemonic e = in_name (di_instruction d) \<and>
        ie_bits e = di_bits d) es (zip decoded listing)"
    by auto
  have "map (\<lambda>e. (ie_address e, ie_mnemonic e, ie_bits e)) es =
      map (\<lambda>(d, l). (di_address d, in_name (di_instruction d), di_bits d)) (zip decoded listing)"
    using es(3) by (induction rule: list_all2_induct) auto
  also have "\<dots> = map (\<lambda>d. (di_address d, in_name (di_instruction d), di_bits d)) (map fst (zip decoded listing))"
    by (simp add: case_prod_beta)
  also have "map fst (zip decoded listing) = decoded"
    using listing(2) by (simp add: map_fst_zip_take)
  finally have executed: "map (\<lambda>e. (ie_address e, ie_mnemonic e, ie_bits e)) es =
      map (\<lambda>d. (di_address d, in_name (di_instruction d), di_bits d)) decoded" .
  have "execute_block (length rom + 1) hs base rom h = Some (Inr es, h\<lparr>hn_world := w'\<rparr>)"
    using assms(3) listing(1) es(1) by (simp add: execute_block_def)
  then show ?thesis
    using executed es(2)
    by (intro exI [of _ es] exI [of _ "h\<lparr>hn_world := w'\<rparr>"]) (simp add: world_ok_def)
qed

text \<open>The machine of two instructions, its load returning the immediate: \<open>return #imm\<close>.\<close>

definition returning_ldi :: "machine_description \<Rightarrow> machine_description" where
  "returning_ldi m = m\<lparr>mc_instructions := map (\<lambda>i.
     if in_name i = ''ldi'' then i\<lparr>in_semantics := Some (set_program [Return (Parameter ''imm'' demo_span)] block_empty)\<rparr>
     else i) (mc_instructions m)\<rparr>"

definition returns_imm :: "machine_description \<Rightarrow> decoded_instruction \<Rightarrow> bool" where
  "returns_imm m d \<longleftrightarrow>
     (case in_semantics (di_instruction d) of
        None \<Rightarrow> True
      | Some block \<Rightarrow>
          block_program block = Inr [Return (Parameter ''imm'' demo_span)] \<and>
          (case bind_parameters m d of Inl e \<Rightarrow> False | Inr params \<Rightarrow> params ''imm'' \<noteq> None))"

lemma returns_imm_accepted: "returns_imm m d \<Longrightarrow> instruction_accepted m st d"
  by (auto simp: returns_imm_def instruction_accepted_def split: option.splits sum.splits)

lemma returning_ldi_evaluated:
  "case from_documents [tiny_isa] of
     Inl e \<Rightarrow> False
   | Inr m \<Rightarrow>
       list_all (\<lambda>s. 0 < ds_word_bytes s) (mc_decode_spaces (returning_ldi m)) \<and>
       (case decode_instructions 3 (returning_ldi m) [0x15, 0x07] 0 of
          None \<Rightarrow> False
        | Some ds \<Rightarrow>
            map (\<lambda>d. (di_address d, in_name (di_instruction d), di_bits d)) ds =
              [(0, ''ldi'', 0x15), (1, ''nop'', 0x07)] \<and>
            list_all (returns_imm (returning_ldi m)) ds)"
  by code_simp

theorem execute_block_safe_witness:
  "\<exists>st es h'. core_state_new demo_layout = Inr st \<and>
     execute_block 3 software_host 0 [0x15, 0x07]
       \<lparr>hn_machine = returning_ldi tiny_machine, hn_spec = demo_layout,
        hn_world = \<lparr>w_core = st, w_host = (), w_tracer = None\<rparr>\<rparr> = Some (Inr es, h') \<and>
     map (\<lambda>e. (ie_address e, ie_mnemonic e, ie_bits e)) es = [(0, ''ldi'', 0x15), (1, ''nop'', 0x07)]"
proof -
  obtain st where st: "core_state_new demo_layout = Inr st" "core_ok st" by (rule demo_state)
  obtain m where m: "from_documents [tiny_isa] = Inr m"
    using returning_ldi_evaluated by (cases "from_documents [tiny_isa]") simp_all
  have tiny: "tiny_machine = m" by (simp add: tiny_machine_def m)
  let ?m = "returning_ldi tiny_machine"
  let ?h = "\<lparr>hn_machine = ?m, hn_spec = demo_layout,
    hn_world = \<lparr>w_core = st, w_host = (), w_tracer = None\<rparr>\<rparr>"
  note facts = returning_ldi_evaluated [unfolded m sum.case, folded tiny]
  obtain ds where ds: "decode_instructions 3 ?m [0x15, 0x07] 0 = Some ds"
    using facts by (cases "decode_instructions 3 ?m [0x15, 0x07] 0") simp_all
  have core: "core_ok (w_core (hn_world ?h))"
    and words: "\<forall>s \<in> set (mc_decode_spaces (hn_machine ?h)). 0 < ds_word_bytes s"
    and decoded: "decode_instructions (length [0x15, 0x07 :: u8] + 1) (hn_machine ?h) [0x15, 0x07] 0 = Some ds"
    and accepted: "\<forall>d \<in> set ds. instruction_accepted (hn_machine ?h) (w_core (hn_world ?h)) d"
    and executed: "map (\<lambda>d. (di_address d, in_name (di_instruction d), di_bits d)) ds =
      [(0, ''ldi'', 0x15), (1, ''nop'', 0x07)]"
    using st(2) facts ds returns_imm_accepted by (auto simp: list_all_iff numeral_3_eq_3)
  from execute_block_safe [OF core words decoded accepted, of software_host] executed st(1)
  show ?thesis by (auto simp: numeral_3_eq_3)
qed


end
