(* ===== verification/SymbolWalk.thy ===== *)
theory SymbolWalk
  imports TypeLayout Strings
begin

text \<open>
  The symbol walker (\<open>src/soc/prog/symbols/walker.rs\<close>): a stack of frames from which the primitive
  values of a type are popped one by one, with the path and the bit offset of each.  The walk of a
  type that contains itself does not end, so the iterator is a \<open>partial_function\<close>, for which not
  returning and the panic of an identifier out of range are \<open>None\<close>.  In an arena whose sequences and
  members have earlier types the walk is total and yields the recursive listing \<open>type_leaves\<close>.
\<close>

section \<open>Paths and entries\<close>

datatype value_kind =
    UnsignedValue u32
  | SignedValue u32
  | Float32Value
  | Float64Value
  | Utf8Value u32
  | EnumValue
  | FixedValue
  | PointerValue u32 type_id

datatype path_segment = MemberSegment "string_id option" | IndexSegment u32

type_synonym symbol_path = "path_segment list"

definition path_root :: symbol_path where
  "path_root = []"

definition push_member :: "symbol_path \<Rightarrow> string_id option \<Rightarrow> symbol_path" where
  "push_member p name = p @ [MemberSegment name]"

definition push_index :: "symbol_path \<Rightarrow> u32 \<Rightarrow> symbol_path" where
  "push_index p i = p @ [IndexSegment i]"

text \<open>The separator before a member; \<open>None\<close> is the panic of an unknown string.\<close>

definition with_dot :: "string \<Rightarrow> string" where
  "with_dot text = (if text = [] then [] else text @ ''.'')"

fun push_segment :: "type_arena \<Rightarrow> path_segment \<Rightarrow> string \<Rightarrow> string option" where
  "push_segment a (MemberSegment (Some i)) text =
     map_option (\<lambda>s. with_dot text @ s) (resolve_string a i)"
| "push_segment a (MemberSegment None) text = Some (with_dot text @ ''<unnamed>'')"
| "push_segment a (IndexSegment i) text = Some (text @ ''['' @ dec (unat i) @ '']'')"

definition path_to_string :: "type_arena \<Rightarrow> symbol_path \<Rightarrow> string option" where
  "path_to_string a p =
     map_option (\<lambda>text. if text = [] then ''<root>'' else text)
       (fold (\<lambda>seg text. Option.bind text (push_segment a seg)) p (Some []))"

record symbol_walk_entry =
  we_ty :: type_id
  we_path :: symbol_path
  we_offset_bits :: u64
  we_bit_len :: u32
  we_kind :: value_kind

definition div_ceil8 :: "u32 \<Rightarrow> u32" where
  "div_ceil8 n = n div 8 + (if n mod 8 = 0 then 0 else 1)"

definition entry_byte_len :: "symbol_walk_entry \<Rightarrow> u32" where
  "entry_byte_len e = div_ceil8 (we_bit_len e)"

section \<open>The walker\<close>

record walk_frame =
  wf_ty :: type_id
  wf_offset_bits :: u64
  wf_path :: symbol_path

definition symbol_walker_new :: "type_id \<Rightarrow> walk_frame list" where
  "symbol_walker_new root = [\<lparr>wf_ty = root, wf_offset_bits = 0, wf_path = path_root\<rparr>]"

text \<open>The stack has its top at the head; the loops push from the last element to the first.\<close>

definition element_frame :: "walk_frame \<Rightarrow> sequence_type \<Rightarrow> nat \<Rightarrow> walk_frame" where
  "element_frame f s index =
     \<lparr>wf_ty = sq_element s,
      wf_offset_bits = wf_offset_bits f + of_nat index * (ucast (sq_stride_bytes s) * 8),
      wf_path = push_index (wf_path f) (of_nat index)\<rparr>"

definition push_sequence :: "walk_frame \<Rightarrow> sequence_type \<Rightarrow> walk_frame list \<Rightarrow> walk_frame list" where
  "push_sequence f s stack =
     (case element_count s of
        None \<Rightarrow> stack
      | Some count \<Rightarrow> fold (\<lambda>index st. element_frame f s index # st) (rev [0..<unat count]) stack)"

definition member_frame :: "walk_frame \<Rightarrow> member_record \<Rightarrow> walk_frame" where
  "member_frame f m =
     \<lparr>wf_ty = mr_ty m, wf_offset_bits = wf_offset_bits f + ucast (mr_offset_bits m),
      wf_path = push_member (wf_path f) (mr_name m)\<rparr>"

definition push_aggregate ::
    "type_arena \<Rightarrow> walk_frame \<Rightarrow> aggregate_type \<Rightarrow> walk_frame list \<Rightarrow> walk_frame list option" where
  "push_aggregate a f ag stack =
     (if ms_len (ag_members ag) = 0 then Some stack
      else map_option (\<lambda>ms. fold (\<lambda>m st. member_frame f m # st) (rev ms) stack)
             (arena_members a (ag_members ag)))"

definition walk_entry :: "walk_frame \<Rightarrow> u32 \<Rightarrow> value_kind \<Rightarrow> symbol_walk_entry" where
  "walk_entry f bits kind =
     \<lparr>we_ty = wf_ty f, we_path = wf_path f, we_offset_bits = wf_offset_bits f, we_bit_len = bits,
      we_kind = kind\<rparr>"

definition walk_scalar :: "scalar_type \<Rightarrow> walk_frame \<Rightarrow> symbol_walk_entry option" where
  "walk_scalar s f =
     (let bit_len = st_byte_size s * 8
      in map_option (walk_entry f bit_len)
        (case st_encoding s of
           UnsignedEnc \<Rightarrow> Some (UnsignedValue (st_byte_size s))
         | SignedEnc \<Rightarrow> Some (SignedValue (st_byte_size s))
         | FloatingEnc \<Rightarrow>
             (if st_byte_size s = 4 then Some Float32Value
              else if st_byte_size s = 8 then Some Float64Value
              else None)
         | Utf8StringEnc \<Rightarrow> Some (Utf8Value (st_byte_size s))))"

definition scalar_bits :: "type_arena \<Rightarrow> type_id \<Rightarrow> u32 option" where
  "scalar_bits a ty =
     (case arena_get a ty of
        Some (ScalarRec s) \<Rightarrow> Some (st_byte_size s * 8)
      | Some (EnumRec e) \<Rightarrow> Some (st_byte_size (et_base e) * 8)
      | Some (FixedRec x) \<Rightarrow> Some (st_byte_size (fx_base x) * 8)
      | Some (PointerRec p) \<Rightarrow> Some (pt_byte_size p * 8)
      | Some (BitFieldRec b) \<Rightarrow> Some (ucast (total_width b))
      | _ \<Rightarrow> None)"

definition scalar_bits_or_zero :: "type_arena \<Rightarrow> type_id \<Rightarrow> u32" where
  "scalar_bits_or_zero a ty = (case scalar_bits a ty of None \<Rightarrow> 0 | Some n \<Rightarrow> n)"

text \<open>\<open>Iterator::next\<close>.\<close>

partial_function (option) symbol_next ::
    "type_arena \<Rightarrow> walk_frame list \<Rightarrow> (symbol_walk_entry option \<times> walk_frame list) option" where
  "symbol_next a stack =
     (case stack of
        [] \<Rightarrow> Some (None, [])
      | f # rest \<Rightarrow>
          (case arena_get a (wf_ty f) of
             None \<Rightarrow> None
           | Some r \<Rightarrow>
               (case r of
                  ScalarRec s \<Rightarrow>
                    (case walk_scalar s f of
                       Some e \<Rightarrow> Some (Some e, rest)
                     | None \<Rightarrow> symbol_next a rest)
                | EnumRec e \<Rightarrow>
                    Some (Some (walk_entry f (scalar_bits_or_zero a (wf_ty f)) EnumValue), rest)
                | FixedRec x \<Rightarrow>
                    Some (Some (walk_entry f (scalar_bits_or_zero a (wf_ty f)) FixedValue), rest)
                | PointerRec p \<Rightarrow>
                    Some (Some (walk_entry f (pt_byte_size p * 8)
                                  (PointerValue (pt_byte_size p) (pt_target p))), rest)
                | SequenceRec s \<Rightarrow> symbol_next a (push_sequence f s rest)
                | AggregateRec ag \<Rightarrow> Option.bind (push_aggregate a f ag rest) (symbol_next a)
                | BitFieldRec b \<Rightarrow>
                    Some (Some (walk_entry f (ucast (total_width b))
                                  (UnsignedValue (div_ceil8 (ucast (total_width b))))), rest)
                | CallableRec c \<Rightarrow> symbol_next a rest
                | DynamicRec d \<Rightarrow> symbol_next a rest
                | OpaqueRec q \<Rightarrow> symbol_next a rest)))"

text \<open>The items of the iterator, as a \<open>for\<close> loop sees them.\<close>

partial_function (option) symbol_walk ::
    "type_arena \<Rightarrow> walk_frame list \<Rightarrow> symbol_walk_entry list option" where
  "symbol_walk a stack =
     Option.bind (symbol_next a stack) (\<lambda>(e, st).
       case e of
         None \<Rightarrow> Some []
       | Some entry \<Rightarrow> Option.bind (symbol_walk a st) (\<lambda>es. Some (entry # es)))"

section \<open>What the walker yields\<close>

text \<open>The entry of a frame whose type is a leaf, and the frames below one whose type is not.\<close>

definition leaf_of :: "type_arena \<Rightarrow> walk_frame \<Rightarrow> type_record \<Rightarrow> symbol_walk_entry option" where
  "leaf_of a f r =
     (case r of
        ScalarRec s \<Rightarrow> walk_scalar s f
      | EnumRec e \<Rightarrow> Some (walk_entry f (scalar_bits_or_zero a (wf_ty f)) EnumValue)
      | FixedRec x \<Rightarrow> Some (walk_entry f (scalar_bits_or_zero a (wf_ty f)) FixedValue)
      | PointerRec p \<Rightarrow>
          Some (walk_entry f (pt_byte_size p * 8) (PointerValue (pt_byte_size p) (pt_target p)))
      | BitFieldRec b \<Rightarrow>
          Some (walk_entry f (ucast (total_width b)) (UnsignedValue (div_ceil8 (ucast (total_width b)))))
      | _ \<Rightarrow> None)"

definition child_frames :: "type_arena \<Rightarrow> walk_frame \<Rightarrow> type_record \<Rightarrow> walk_frame list" where
  "child_frames a f r =
     (case r of
        SequenceRec s \<Rightarrow>
          (case element_count s of
             None \<Rightarrow> []
           | Some count \<Rightarrow> map (element_frame f s) [0..<unat count])
      | AggregateRec ag \<Rightarrow>
          (case arena_members a (ag_members ag) of
             None \<Rightarrow> []
           | Some ms \<Rightarrow> map (member_frame f) ms)
      | _ \<Rightarrow> [])"

function type_leaves :: "type_arena \<Rightarrow> walk_frame \<Rightarrow> symbol_walk_entry list" where
  "type_leaves a f =
     (case arena_get a (wf_ty f) of
        None \<Rightarrow> []
      | Some r \<Rightarrow>
          (case leaf_of a f r of
             Some e \<Rightarrow> [e]
           | None \<Rightarrow>
               concat (map (\<lambda>g. if wf_ty g < wf_ty f then type_leaves a g else [])
                 (child_frames a f r))))"
  by pat_completeness auto
termination
  by (relation "measure (\<lambda>(a, f). wf_ty f)") auto

declare type_leaves.simps [simp del]

text \<open>The elements of a sequence have a type declared before it, as the members of an aggregate do.\<close>

definition arena_ranked :: "type_arena \<Rightarrow> bool" where
  "arena_ranked a \<longleftrightarrow>
     arena_ok a \<and>
     (\<forall>i < length (ta_records a).
        case ta_records a ! i of SequenceRec s \<Rightarrow> sq_element s < i | _ \<Rightarrow> True)"

lemma arena_ranked_new: "arena_ranked arena_new"
  by (simp add: arena_ranked_def arena_ok_new) (simp add: arena_new_def)

lemma sequence_keeps_ranked:
  assumes "arena_ranked a" and "element < length (ta_records a)"
    and "build_sequence element stride count a = (i, a')"
  shows "arena_ranked a'"
proof -
  have push: "push_record (SequenceRec \<lparr>sq_element = element, sq_stride_bytes = stride,
      sq_count = count\<rparr>) a = (i, a')"
    using assms(3) by (simp add: build_sequence_def)
  have "arena_ok a'"
    using push_record_ok(1) [OF _ _ push] assms(1) by (simp add: arena_ranked_def record_ok_def)
  then show ?thesis
    using assms(1,2) push
    by (auto simp: arena_ranked_def push_record_def nth_append less_Suc_eq)
qed

lemma child_frames_earlier:
  assumes "arena_ranked a" and "arena_get a (wf_ty f) = Some r" and "g \<in> set (child_frames a f r)"
  shows "wf_ty g < wf_ty f"
proof -
  have "record_ok a (wf_ty f) r" and "case r of SequenceRec s \<Rightarrow> sq_element s < wf_ty f | _ \<Rightarrow> True"
    using assms(1,2) by (auto simp: arena_ranked_def arena_ok_def arena_get_def split: if_splits)
  then show ?thesis
    using assms(3)
    by (auto simp: child_frames_def record_ok_def element_frame_def member_frame_def list_all_iff
        split: type_record.splits option.splits)
qed

lemma push_frames: "fold (\<lambda>x st. h x # st) (rev xs) st = map h xs @ st"
  by (induction xs) simp_all

lemma push_sequence_children:
  "push_sequence f s rest = child_frames a f (SequenceRec s) @ rest"
  by (simp add: push_sequence_def child_frames_def push_frames split: option.split)

lemma push_aggregate_children:
  assumes "record_ok a i (AggregateRec ag)"
  shows "push_aggregate a f ag rest = Some (child_frames a f (AggregateRec ag) @ rest)"
proof -
  obtain ms where "arena_members a (ag_members ag) = Some ms"
    using assms by (auto simp: record_ok_def split: option.splits)
  moreover from this have "ms = []" if "ms_len (ag_members ag) = 0"
    using that by (auto simp: arena_members_def Let_def split: if_splits)
  ultimately show ?thesis by (auto simp: push_aggregate_def child_frames_def push_frames)
qed

text \<open>One turn of the loop: a leaf is returned, anything else is replaced by what is below it.\<close>

lemma symbol_next_Cons:
  assumes "arena_ranked a" and "arena_get a (wf_ty f) = Some r"
  shows "symbol_next a (f # rest) =
    (case leaf_of a f r of
       Some e \<Rightarrow> Some (Some e, rest)
     | None \<Rightarrow> symbol_next a (child_frames a f r @ rest))"
proof -
  have ok: "record_ok a (wf_ty f) r"
    using assms by (auto simp: arena_ranked_def arena_ok_def arena_get_def split: if_splits)
  show ?thesis
  proof (cases r)
    case (AggregateRec ag)
    then show ?thesis
      using ok assms(2) push_aggregate_children [of a "wf_ty f" ag f rest]
      by (simp add: symbol_next.simps [of a "f # rest"] leaf_of_def)
  next
    case (SequenceRec s)
    then show ?thesis
      using assms(2) push_sequence_children [of f s rest a]
      by (simp add: symbol_next.simps [of a "f # rest"] leaf_of_def)
  qed (use assms(2) in \<open>simp_all add: symbol_next.simps [of a "f # rest"] leaf_of_def child_frames_def
      split: option.split\<close>)
qed

lemma symbol_walk_Nil: "symbol_walk a [] = Some []"
  by (simp add: symbol_walk.simps [of a "[]"] symbol_next.simps [of a "[]"])

lemma symbol_walk_same_next:
  "symbol_next a st = symbol_next a st' \<Longrightarrow> symbol_walk a st = symbol_walk a st'"
  by (simp add: symbol_walk.simps [of a st] symbol_walk.simps [of a st'])

lemma symbol_walk_append:
  assumes "arena_ranked a" and "wf_ty f < length (ta_records a)"
  shows "symbol_walk a (f # rest) = map_option (append (type_leaves a f)) (symbol_walk a rest)"
  using assms(2)
proof (induction "wf_ty f" arbitrary: f rest rule: less_induct)
  case less
  obtain r where r: "arena_get a (wf_ty f) = Some r" using less.prems by (simp add: arena_get_def)
  note nxt = symbol_next_Cons [OF assms(1) r]
  show ?case
  proof (cases "leaf_of a f r")
    case (Some e)
    then have "symbol_walk a (f # rest) = map_option ((#) e) (symbol_walk a rest)"
      by (cases "symbol_walk a rest") (simp_all add: symbol_walk.simps [of a "f # rest"] nxt)
    moreover have "type_leaves a f = [e]" using r Some by (simp add: type_leaves.simps [of a f])
    ultimately show ?thesis by (cases "symbol_walk a rest") simp_all
  next
    case None
    have earlier: "\<And>g. g \<in> set (child_frames a f r) \<Longrightarrow> wf_ty g < wf_ty f"
      using child_frames_earlier [OF assms(1) r] .
    have "symbol_walk a (gs @ rest) =
        map_option (append (concat (map (type_leaves a) gs))) (symbol_walk a rest)"
      if "set gs \<subseteq> set (child_frames a f r)" for gs
      using that
    proof (induction gs)
      case (Cons g gs)
      have "wf_ty g < wf_ty f" using earlier Cons.prems by simp
      then show ?case
        using less.hyps [of g "gs @ rest"] less.prems Cons by (simp add: option.map_comp comp_def)
    qed (cases "symbol_walk a rest"; simp)
    moreover have "type_leaves a f = concat (map (type_leaves a) (child_frames a f r))"
      using r None earlier by (simp add: type_leaves.simps [of a f] cong: map_cong)
    moreover have "symbol_walk a (f # rest) = symbol_walk a (child_frames a f r @ rest)"
      using None by (intro symbol_walk_same_next) (simp add: nxt)
    ultimately show ?thesis by simp
  qed
qed

text \<open>C19: In a well-formed arena (members and elements have earlier types) the walk of any declared
  type ends, whatever its size, and yields exactly its primitive values in declaration order: a
  sequence is the listing of its elements at multiples of the stride, an aggregate that of its members
  at their offsets, each with the path that leads to it, and an unsupported shape is nothing.\<close>
theorem symbol_walk_lists_leaves:
  assumes "arena_ranked a" and "root < length (ta_records a)"
  shows "symbol_walk a (symbol_walker_new root) =
    Some (type_leaves a \<lparr>wf_ty = root, wf_offset_bits = 0, wf_path = []\<rparr>)"
  using symbol_walk_append [OF assms(1), of "\<lparr>wf_ty = root, wf_offset_bits = 0, wf_path = []\<rparr>" "[]"]
    assms(2)
  by (simp add: symbol_walker_new_def path_root_def symbol_walk_Nil)

text \<open>A word and an array of three half-words in a structure.\<close>

definition walk_arena :: type_arena where
  "walk_arena =
     \<lparr>ta_records =
        [ScalarRec \<lparr>st_name = None, st_byte_size = 4, st_encoding = SignedEnc, st_display = HexFormat\<rparr>,
         ScalarRec \<lparr>st_name = None, st_byte_size = 2, st_encoding = UnsignedEnc, st_display = HexFormat\<rparr>,
         SequenceRec \<lparr>sq_element = 1, sq_stride_bytes = 2, sq_count = StaticCount 3\<rparr>,
         AggregateRec (aggregate_new StructKind \<lparr>ms_start = 0, ms_len = 2\<rparr>
           \<lparr>ls_bytes = 10, ls_trailing_bits = 0\<rparr>)],
      ta_members = [member_new None 0 0, member_new None 2 32],
      ta_strings = \<lparr>sp_values = [], sp_lookup = (\<lambda>s. None)\<rparr>\<rparr>"

lemma walk_arena_ranked: "arena_ranked walk_arena"
  by (auto simp: arena_ranked_def arena_ok_def walk_arena_def pool_ok_def record_ok_def
      arena_members_def aggregate_new_def member_new_def less_Suc_eq)

theorem symbol_walk_lists_leaves_witness:
  "map_option (map (\<lambda>e. (path_to_string walk_arena (we_path e), we_offset_bits e, we_bit_len e, we_kind e)))
     (symbol_walk walk_arena (symbol_walker_new 3)) =
   Some [(Some ''<unnamed>'', 0, 32, SignedValue 4),
         (Some ''<unnamed>[0]'', 32, 16, UnsignedValue 2),
         (Some ''<unnamed>[1]'', 48, 16, UnsignedValue 2),
         (Some ''<unnamed>[2]'', 64, 16, UnsignedValue 2)]"
proof -
  have "3 < length (ta_records walk_arena)" by (simp add: walk_arena_def)
  note w = symbol_walk_lists_leaves [OF walk_arena_ranked this]
  show ?thesis unfolding w by code_simp
qed

end
