(* ===== verification/BusExtFacts.thy ===== *)
theory BusExtFacts
  imports BusExt
begin

text \<open>
  What the typed views of the bus promise: chunked transfers move whole buffers, the LEB128 readers
  return what the encoders of the format wrote and end on every input, and what they make of a number
  longer than the format allows.
\<close>

section \<open>Buffers\<close>

text \<open>C16: Writing a buffer of any length at a mapped place of a memory succeeds although it goes out in
  chunks of sixteen bytes, overwrites exactly its window of the memory, and jumping back and reading
  a buffer of the same length returns it.\<close>
theorem write_then_read_bytes:
  assumes "span_ok mem_bytes bus h ar (length data)"
    and "jump bus ah0 a = (Inr (), dh_address h)" and "length out = length data"
  shows "case write_bytes memory_ops data (bus, h) of (r, (bus', h')) \<Rightarrow>
    r = Inr () \<and>
    mem_bytes (bus_devices bus' ! rr_device_id (ar_resolved ar)) =
      splice (mem_bytes (bus_devices bus ! rr_device_id (ar_resolved ar)))
        (unat (ar_device_offset ar)) data \<and>
    (case view_jump a (bus', h') of (r2, v2) \<Rightarrow>
       r2 = Inr () \<and>
       (case read_bytes memory_ops out v2 of (r3, out', (bus3, h3)) \<Rightarrow>
          r3 = Inr () \<and> out' = data \<and> bus3 = bus'))"
proof -
  have i: "rr_device_id (ar_resolved ar) < length (bus_devices bus)"
    using assms(1) by (simp add: span_ok_def)
  show ?thesis
    by (rule mem.write_then_read_bytes_ok [OF assms]) (use i in auto)
qed

theorem write_then_read_bytes_witness:
  "fst (write_bytes memory_ops [1, 2, 3, 4, 5, 6, 7, 8, 9]
     (demo_bus, \<lparr>dh_address = snd (jump demo_bus address_handle_new 3), dh_cache = slice_cache_default\<rparr>))
   = Inr ()"
proof -
  let ?ah = "snd (jump demo_bus address_handle_new 3)"
  let ?h = "\<lparr>dh_address = ?ah, dh_cache = slice_cache_default\<rparr>"
  have span: "\<exists>ar. span_ok mem_bytes demo_bus ?h ar (length [1, 2, 3, 4, 5, 6, 7, 8, 9 :: u8])"
    by (simp add: demo_jump span_ok_def ar_bytes_remaining_def ar_bus_address_def
        ar_device_offset_def demo_bus_fields demo_memory_def basic_memory_new_def)
  have jump: "jump demo_bus address_handle_new 3 = (Inr (), dh_address ?h)" by (simp add: demo_jump)
  from span obtain ar where "span_ok mem_bytes demo_bus ?h ar (length [1, 2, 3, 4, 5, 6, 7, 8, 9 :: u8])" ..
  from write_then_read_bytes [OF this jump, of "replicate 9 0"] show ?thesis
    by (auto split: prod.splits)
qed

section \<open>Reading a byte\<close>

definition byte_ready ::
    "('d \<Rightarrow> u8 list) \<Rightarrow> 'd device_ops \<Rightarrow> 'd device_bus \<Rightarrow> data_handle \<Rightarrow> active_range \<Rightarrow> nat \<Rightarrow> bool" where
  "byte_ready bytes ops bus h ar n \<longleftrightarrow>
     span_ok bytes bus h ar n \<and> coherent bytes (bus_devices bus) (dh_cache h) \<and>
     dev_endianness ops (bus_devices bus ! rr_device_id (ar_resolved ar)) = Little \<and>
     8 dvd length (bytes (bus_devices bus ! rr_device_id (ar_resolved ar)))"

lemma word_window_fits:
  assumes "8 dvd n" and "k < (n::nat)"
  shows "8 * (k div 8) + 8 \<le> n"
proof -
  obtain m where "n = 8 * m" using assms(1) by (rule dvdE)
  moreover from this assms(2) have "k div 8 < m" by (simp add: less_mult_imp_div_less mult.commute)
  ultimately show ?thesis by simp
qed

lemma byte_ready_access:
  assumes "byte_ready bytes ops bus h ar (Suc n)"
  shows "bit_access_ok bytes ops bus h ar 0 8"
proof -
  let ?bs = "bytes (bus_devices bus ! rr_device_id (ar_resolved ar))"
  have span: "span_ok bytes bus h ar (Suc n)" and dvd: "8 dvd length ?bs"
    using assms by (simp_all add: byte_ready_def)
  have "unat (ar_device_offset ar) < length ?bs" using span by (simp add: span_ok_def)
  then have fits: "8 * (unat (ar_device_offset ar) div 8) + 8 \<le> length ?bs"
    by (rule word_window_fits [OF dvd])
  have intra: "intra_bits (ar_device_offset ar) 0 \<le> 56" by (simp add: intra_bits_def)
  have "slice_fits ?bs (ar_device_offset ar) 0 8"
    using fits intra span by (simp add: slice_fits_def word_count_for_def span_ok_def)
  moreover have "of_nat (bits_to_bytes 0 8) \<le> ar_bytes_remaining ar"
    using span_ok_le [OF span_ok_prefix [OF span, of 1]] by (simp add: bits_to_bytes_def)
  ultimately show ?thesis
    using assms by (simp add: bit_access_ok_def byte_ready_def span_ok_def)
qed

lemma bits_are_byte:
  assumes "is_bits_at bs (8 * k) 8 v"
  shows "(ucast v :: u8) = bs ! k"
proof (rule bit_word_eqI)
  fix i assume "i < LENGTH(8)"
  then have i: "i < 8" by simp
  then have "(8 * k + i) div 8 = k" "(8 * k + i) mod 8 = i" by simp_all
  then show "bit (ucast v :: u8) i \<longleftrightarrow> bit (bs ! k) i"
    using assms i by (simp add: is_bits_at_def mem_bit_def bit_ucast_iff)
qed

context byte_device
begin

lemma read_u8_ok:
  assumes "byte_ready bytes ops bus h ar (Suc n)"
  obtains h' where "read_u8 ops (bus, h) =
      (Inr (bytes (bus_devices bus ! rr_device_id (ar_resolved ar)) ! unat (ar_device_offset ar)), (bus, h'))"
    "byte_ready bytes ops bus h' (step_range ar 1) n"
    "dh_address h' = moved (dh_address h) ar 1"
proof -
  let ?d = "bus_devices bus ! rr_device_id (ar_resolved ar)"
  obtain v c' where r: "read_bits ops bus h 0 8 =
      (Inr v, bus, \<lparr>dh_address = moved (dh_address h) ar (bits_to_bytes 0 8), dh_cache = c'\<rparr>)"
    "is_bits_at (bytes ?d) (access_bit ar 0) (unat (8 :: u16)) v"
    "coherent bytes (bus_devices bus) c'"
    by (rule read_bits_Little [OF byte_ready_access [OF assms]]) simp_all
  have one: "bits_to_bytes 0 8 = 1" by (simp add: bits_to_bytes_def)
  let ?h = "\<lparr>dh_address = moved (dh_address h) ar 1, dh_cache = c'\<rparr>"
  have "(ucast v :: u8) = bytes ?d ! unat (ar_device_offset ar)"
    by (rule bits_are_byte) (use r(2) in \<open>simp add: access_bit_def\<close>)
  then have "read_u8 ops (bus, h) = (Inr (bytes ?d ! unat (ar_device_offset ar)), (bus, ?h))"
    using r(1) by (simp add: read_u8_def se_map_def se_bind_def view_bits_def one)
  moreover have "byte_ready bytes ops bus ?h (step_range ar 1) n"
  proof -
    have "span_ok bytes bus h ar (1 + n)" using assms by (simp add: byte_ready_def)
    then have "span_ok bytes bus ?h (step_range ar 1) n"
      by (rule span_ok_step [where d = ?d]) simp_all
    then show ?thesis using assms r(3) by (simp add: byte_ready_def)
  qed
  ultimately show thesis using that by simp
qed

end

section \<open>LEB128\<close>

text \<open>A group of seven bits per byte, least significant first; the top bit of a byte says that another
  follows.  \<open>leb_groups\<close> is what the readers accumulate.\<close>

fun leb_groups :: "u64 \<Rightarrow> nat \<Rightarrow> u8 list \<Rightarrow> u64" where
  "leb_groups acc shift [] = acc"
| "leb_groups acc shift (b # bs) = leb_groups (acc OR shl (ucast (b AND 0x7F)) shift) (shift + 7) bs"

fun leb_terminated :: "u8 list \<Rightarrow> bool" where
  "leb_terminated [] \<longleftrightarrow> False"
| "leb_terminated (b # bs) \<longleftrightarrow> (if bs = [] then b AND 0x80 = 0 else b AND 0x80 \<noteq> 0 \<and> leb_terminated bs)"

definition bytes_ahead :: "('d \<Rightarrow> u8 list) \<Rightarrow> 'd device_bus \<Rightarrow> active_range \<Rightarrow> u8 list \<Rightarrow> bool" where
  "bytes_ahead bytes bus ar bs \<longleftrightarrow>
     take (length bs) (drop (unat (ar_device_offset ar))
       (bytes (bus_devices bus ! rr_device_id (ar_resolved ar)))) = bs"

lemma bytes_ahead_Cons:
  assumes "byte_ready bytes ops bus h ar (Suc (length bs))" and "bytes_ahead bytes bus ar (b # bs)"
  shows "bytes (bus_devices bus ! rr_device_id (ar_resolved ar)) ! unat (ar_device_offset ar) = b"
    and "bytes_ahead bytes bus (step_range ar 1) bs"
proof -
  let ?bs = "bytes (bus_devices bus ! rr_device_id (ar_resolved ar))" and ?off = "unat (ar_device_offset ar)"
  have span: "?off + Suc (length bs) \<le> length ?bs" "length ?bs < 2 ^ 64"
    using assms(1) by (simp_all add: byte_ready_def span_ok_def)
  have split: "drop ?off ?bs = ?bs ! ?off # drop (Suc ?off) ?bs"
    using span(1) by (simp add: Cons_nth_drop_Suc)
  with assms(2) show "?bs ! ?off = b" by (simp add: bytes_ahead_def)
  have "unat (ar_device_offset (step_range ar 1)) = Suc ?off"
    using step_offset [of ar 1] span by simp
  with split assms(2) show "bytes_ahead bytes bus (step_range ar 1) bs" by (simp add: bytes_ahead_def)
qed

context byte_device
begin

lemma uleb_loop_reads:
  assumes "byte_ready bytes ops bus h ar (length bs)" and "bytes_ahead bytes bus ar bs"
    and "leb_terminated bs"
  shows "\<exists>h'. uleb_loop ops acc shift (bus, h) = Some (Inr (leb_groups acc shift bs), (bus, h')) \<and>
    ah_active (dh_address h') = Some (step_range ar (length bs))"
  using assms
proof (induction bs arbitrary: h ar acc shift)
  case (Cons b bs)
  have ready: "byte_ready bytes ops bus h ar (Suc (length bs))" using Cons.prems(1) by simp
  note at = bytes_ahead_Cons [OF ready Cons.prems(2)]
  obtain h' where r: "read_u8 ops (bus, h) = (Inr b, (bus, h'))"
    "byte_ready bytes ops bus h' (step_range ar 1) (length bs)"
    "dh_address h' = moved (dh_address h) ar 1"
    using read_u8_ok [OF ready] at(1) by metis
  show ?case
  proof (cases "b AND 0x80 = 0")
    case True
    then show ?thesis
      using Cons.prems(3) r by (simp add: uleb_loop.simps [of ops acc] moved_step split: if_splits)
  next
    case False
    then have "leb_terminated bs" using Cons.prems(3) by (simp split: if_splits)
    from Cons.IH [OF r(2) at(2) this] False r(1) show ?thesis
      by (simp add: uleb_loop.simps [of ops acc] step_range_def add.assoc Let_def)
  qed
qed simp

lemma sleb_loop_reads:
  assumes "byte_ready bytes ops bus h ar (length bs)" and "bytes_ahead bytes bus ar bs"
    and "leb_terminated bs"
  shows "\<exists>h'. sleb_loop ops acc shift (bus, h) =
      Some (Inr (sleb_finish (leb_groups acc shift bs) (last bs) (shift + 7 * length bs)), (bus, h')) \<and>
    ah_active (dh_address h') = Some (step_range ar (length bs))"
  using assms
proof (induction bs arbitrary: h ar acc shift)
  case (Cons b bs)
  have ready: "byte_ready bytes ops bus h ar (Suc (length bs))" using Cons.prems(1) by simp
  note at = bytes_ahead_Cons [OF ready Cons.prems(2)]
  obtain h' where r: "read_u8 ops (bus, h) = (Inr b, (bus, h'))"
    "byte_ready bytes ops bus h' (step_range ar 1) (length bs)"
    "dh_address h' = moved (dh_address h) ar 1"
    using read_u8_ok [OF ready] at(1) by metis
  show ?case
  proof (cases "b AND 0x80 = 0")
    case True
    then show ?thesis
      using Cons.prems(3) r by (simp add: sleb_loop.simps [of ops acc] moved_step split: if_splits)
  next
    case False
    then have more: "bs \<noteq> []" "leb_terminated bs" using Cons.prems(3) by (simp_all split: if_splits)
    from Cons.IH [OF r(2) at(2) more(2), of "acc OR shl (ucast (b AND 0x7F)) shift" "shift + 7"]
      False r(1) more(1)
    show ?thesis
      by (simp add: sleb_loop.simps [of ops acc] step_range_def add.assoc Let_def)
  qed
qed simp

end

text \<open>The encoders of the format.\<close>

function uleb_encode :: "u64 \<Rightarrow> u8 list" where
  "uleb_encode v = (if v < 0x80 then [ucast v] else (ucast v OR 0x80) # uleb_encode (drop_bit 7 v))"
  by pat_completeness auto
termination
proof (relation "measure unat")
  show "(drop_bit 7 v, v) \<in> measure unat" if "\<not> v < 0x80" for v :: u64
  proof -
    have "0 < unat v" using that by (cases "v = 0") (simp_all add: unat_gt_0)
    then have "unat v div 128 < unat v" by (rule div_less_dividend [rotated]) simp
    moreover have "unat (drop_bit 7 v) = unat v div 128" by (simp add: drop_bit_eq_div unat_div)
    ultimately show ?thesis by simp
  qed
qed simp

declare uleb_encode.simps [simp del]

lemma sint_sar7: "sint (sar (v::i64) 7) = sint v div 128"
  by (simp add: sar_def sint_signed_drop_bit_eq drop_bit_eq_div)

definition seven_bits :: "i64 \<Rightarrow> bool" where
  "seven_bits v \<longleftrightarrow> - 64 \<le> sint v \<and> sint v < 64"

definition final_group :: "i64 \<Rightarrow> u8" where
  "final_group v = ucast v AND 0x7F"

function sleb_encode :: "i64 \<Rightarrow> u8 list" where
  "sleb_encode v =
     (if seven_bits v then [final_group v]
      else (ucast v OR 0x80) # sleb_encode (sar v 7))"
  by pat_completeness simp
termination
proof (relation "measure (\<lambda>v. nat \<bar>sint v\<bar>)")
  show "(sar v 7, v) \<in> measure (\<lambda>v. nat \<bar>sint v\<bar>)" if "\<not> seven_bits v" for v :: i64
  proof -
    have "\<bar>x div 128\<bar> < \<bar>x\<bar>" if "x < - 64 \<or> 64 \<le> x" for x :: int
    proof -
      have "x = 128 * (x div 128) + x mod 128" "0 \<le> x mod 128" "x mod 128 < 128" by simp_all
      with that show ?thesis by linarith
    qed
    then have "\<bar>sint v div 128\<bar> < \<bar>sint v\<bar>" using that unfolding seven_bits_def by linarith
    then show ?thesis by (simp add: sint_sar7)
  qed
qed simp

declare sleb_encode.simps [simp del]

lemma top_bit: "(b :: u8) AND 0x80 = 0 \<longleftrightarrow> \<not> bit b 7"
proof -
  have "(0x80 :: u8) = 2 ^ 7" by simp
  then show ?thesis by (simp only: and_exp_eq_0_iff_not_bit)
qed

lemma bit_0x80: "bit (0x80 :: u8) i \<longleftrightarrow> i = 7" "bit (0x80 :: u64) i \<longleftrightarrow> i = 7"
proof -
  have "(0x80 :: u8) = 2 ^ 7" "(0x80 :: u64) = 2 ^ 7" by simp_all
  then show "bit (0x80 :: u8) i \<longleftrightarrow> i = 7" "bit (0x80 :: u64) i \<longleftrightarrow> i = 7"
    by (simp_all only: bit_exp_iff) auto
qed

lemma bit_0x7F: "bit (0x7F :: u8) i \<longleftrightarrow> i < 7" "bit (0x7F :: u64) i \<longleftrightarrow> i < 7"
proof -
  have "(0x7F :: u8) = mask 7" "(0x7F :: u64) = mask 7" by (simp_all add: mask_eq_exp_minus_1)
  then show "bit (0x7F :: u8) i \<longleftrightarrow> i < 7" "bit (0x7F :: u64) i \<longleftrightarrow> i < 7"
    by (simp_all only: bit_mask_iff) auto
qed

lemma high_groups_zero: "drop_bit 7 (v :: u64) = 0 \<longleftrightarrow> v < 0x80"
proof -
  have "drop_bit 7 v = 0 \<longleftrightarrow> unat (drop_bit 7 v) = 0" by (rule unsigned_eq_0_iff [symmetric])
  also have "\<dots> \<longleftrightarrow> unat v div 128 = 0" by (simp add: drop_bit_eq_div unat_div)
  finally show ?thesis by (simp add: word_less_nat_alt div_eq_0_iff)
qed

lemma below_0x80:
  assumes "(v :: u64) < 0x80" and "bit v i"
  shows "i < 7"
proof (rule ccontr)
  assume "\<not> i < 7"
  then obtain j where i: "i = 7 + j" by (metis le_Suc_ex not_less)
  have "drop_bit 7 v = 0" using assms(1) by (simp add: high_groups_zero)
  then have "\<not> bit (drop_bit 7 v) j" by simp
  then show False using assms(2) by (simp add: bit_drop_bit_eq i)
qed

lemma bit_group:
  "bit (shl (ucast (b AND 0x7F) :: u64) s) i \<longleftrightarrow> s mod 64 \<le> i \<and> i < 64 \<and> i - s mod 64 < 7 \<and> bit b (i - s mod 64)"
  for b :: u8
  by (simp only: bit_shl_iff bit_ucast_iff bit_and_iff bit_0x7F) auto

lemma uleb_encode_terminated: "leb_terminated (uleb_encode v)"
proof (induction v rule: uleb_encode.induct)
  case (1 v)
  have ne: "uleb_encode w \<noteq> []" for w by (simp add: uleb_encode.simps [of w])
  show ?case
  proof (cases "v < 0x80")
    case True
    then have "\<not> bit (ucast v :: u8) 7" using below_0x80 [OF True, of 7] by (auto simp: bit_ucast_iff)
    then show ?thesis using True by (simp add: uleb_encode.simps [of v] top_bit)
  next
    case False
    then show ?thesis
      using 1 [OF False] ne by (simp add: uleb_encode.simps [of v] top_bit bit_or_iff bit_0x80)
  qed
qed

lemma uleb_groups:
  assumes "s < 64" and "drop_bit (64 - s) v = 0"
  shows "leb_groups acc s (uleb_encode v) = acc OR push_bit s v"
  using assms
proof (induction v arbitrary: acc s rule: uleb_encode.induct)
  case (1 v)
  show ?case
  proof (cases "v < 0x80")
    case True
    have "acc OR shl (ucast ((ucast v :: u8) AND 0x7F)) s = acc OR push_bit s v"
    proof (rule bit_word_eqI)
      fix i assume "i < LENGTH(64)"
      then have i: "i < 64" by simp
      show "bit (acc OR shl (ucast ((ucast v :: u8) AND 0x7F)) s) i \<longleftrightarrow> bit (acc OR push_bit s v) i"
        using i "1.prems"(1) below_0x80 [OF True, of "i - s"]
        by (auto simp: bit_or_iff bit_group bit_ucast_iff bit_push_bit_iff)
    qed
    then show ?thesis using True by (simp add: uleb_encode.simps [of v])
  next
    case False
    have "s < 57"
    proof (rule ccontr)
      assume "\<not> s < 57"
      then have "drop_bit 7 v = drop_bit (7 - (64 - s)) (drop_bit (64 - s) v)" using "1.prems"(1) by simp
      then have "drop_bit 7 v = 0" using "1.prems"(2) by simp
      then show False using False by (simp only: high_groups_zero)
    qed
    then have "drop_bit (64 - (s + 7)) (drop_bit 7 v) = drop_bit (64 - s) v" by simp
    then have IH: "leb_groups a (s + 7) (uleb_encode (drop_bit 7 v)) = a OR push_bit (s + 7) (drop_bit 7 v)"
      for a using "1.IH" [OF False] \<open>s < 57\<close> "1.prems"(2) by simp
    have "(acc OR shl (ucast ((ucast v OR 0x80 :: u8) AND 0x7F)) s) OR push_bit (s + 7) (drop_bit 7 v)
        = acc OR push_bit s v"
    proof (rule bit_word_eqI)
      fix i assume "i < LENGTH(64)"
      then have i: "i < 64" by simp
      show "bit ((acc OR shl (ucast ((ucast v OR 0x80 :: u8) AND 0x7F)) s) OR push_bit (s + 7) (drop_bit 7 v)) i
          \<longleftrightarrow> bit (acc OR push_bit s v) i"
      proof (cases "s + 7 \<le> i")
        case True
        then obtain j where "i = s + 7 + j" by (metis le_Suc_ex)
        then show ?thesis using i \<open>s < 57\<close>
          by (auto simp: bit_or_iff bit_group bit_push_bit_iff bit_drop_bit_eq add.commute)
      next
        case False
        then show ?thesis using i \<open>s < 57\<close>
          by (simp only: bit_or_iff bit_group bit_ucast_iff bit_0x80 bit_push_bit_iff) auto
      qed
    qed
    then show ?thesis using False by (simp add: uleb_encode.simps [of v] IH)
  qed
qed

text \<open>A number whose bits from \<open>n\<close> on all equal its sign.\<close>

definition sign_from :: "i64 \<Rightarrow> nat \<Rightarrow> bool" where
  "sign_from v n \<longleftrightarrow> (\<forall>i < 64. n \<le> i \<longrightarrow> bit v i = bit v 63)"

lemma bit_0x40: "(b :: u8) AND 0x40 = 0 \<longleftrightarrow> \<not> bit b 6"
proof -
  have "(0x40 :: u8) = 2 ^ 6" by simp
  then show ?thesis by (simp only: and_exp_eq_0_iff_not_bit)
qed

lemma sign_fromD:
  assumes "sign_from v n" and "n \<le> i" and "i < 64"
  shows "bit v i \<longleftrightarrow> bit v 63"
  using assms unfolding sign_from_def by blast

lemma sign_from_mono: "sign_from v n \<Longrightarrow> n \<le> m \<Longrightarrow> sign_from v m"
  unfolding sign_from_def by (meson order_trans)

lemma sign_from_top: "sign_from v 63"
  unfolding sign_from_def
proof (intro allI impI)
  fix i :: nat assume "i < 64" and "63 \<le> i"
  then have "i = 63" by simp
  then show "bit v i = bit v 63" by simp
qed

lemma bit_sint_min: "bit (sint (v :: i64)) i \<longleftrightarrow> bit v (min i 63)"
  by (auto simp: bit_sint_iff min_def dest: bit_imp_le_length)

lemma seven_bits_sign: "seven_bits v \<longleftrightarrow> sign_from v 6"
proof -
  have "seven_bits v \<longleftrightarrow> signed_take_bit 6 (sint v) = sint v"
    by (simp add: seven_bits_def signed_take_bit_int_eq_self_iff)
  also have "\<dots> \<longleftrightarrow> (\<forall>i. bit (sint v) (min 6 i) \<longleftrightarrow> bit (sint v) i)"
    by (simp add: bit_eq_iff bit_signed_take_bit_iff)
  also have "\<dots> \<longleftrightarrow> (\<forall>i. bit v (min (min 6 i) 63) \<longleftrightarrow> bit v (min i 63))"
    by (simp only: bit_sint_min)
  also have "\<dots> \<longleftrightarrow> sign_from v 6"
  proof
    assume all: "\<forall>i. bit v (min (min 6 i) 63) \<longleftrightarrow> bit v (min i 63)"
    have "bit v 6 \<longleftrightarrow> bit v i" if "6 \<le> i" "i < 64" for i
      using all [rule_format, of i] that by (simp add: min_def split: if_splits)
    note eq = this
    have "bit v i \<longleftrightarrow> bit v 63" if "6 \<le> i" "i < 64" for i
      using eq [OF that] eq [of 63] by simp
    then show "sign_from v 6" unfolding sign_from_def by blast
  next
    assume s: "sign_from v 6"
    show "\<forall>i. bit v (min (min 6 i) 63) \<longleftrightarrow> bit v (min i 63)"
    proof
      fix i
      show "bit v (min (min 6 i) 63) \<longleftrightarrow> bit v (min i 63)"
        using sign_fromD [OF s, of 6] sign_fromD [OF s, of i]
        by (cases "6 \<le> i"; cases "i \<le> 63") (simp_all add: min_def)
    qed
  qed
  finally show ?thesis .
qed

lemma bit_sar7: "i < 64 \<Longrightarrow> bit (sar (v :: i64) 7) i \<longleftrightarrow> bit v (if 57 \<le> i then 63 else 7 + i)"
proof -
  assume i: "i < 64"
  have "sar v 7 = signed_drop_bit 7 v" by (simp add: sar_def)
  then show ?thesis using i by (simp only: bit_signed_drop_bit_iff) (cases "57 \<le> i"; simp)
qed

lemma sleb_groups:
  assumes "s < 64" and "sign_from v (63 - s)"
  shows "sleb_finish (leb_groups acc s (sleb_encode v)) (last (sleb_encode v)) (s + 7 * length (sleb_encode v))
    = acc OR push_bit s v"
  using assms
proof (induction v arbitrary: acc s rule: sleb_encode.induct)
  case (1 v)
  show ?case
  proof (cases "seven_bits v")
    case True
    then have sign: "sign_from v 6" by (simp only: seven_bits_sign)
    have neg: "final_group v AND 0x40 \<noteq> 0 \<longleftrightarrow> bit v 6"
      unfolding bit_0x40 not_not final_group_def
      by (simp only: bit_and_iff bit_ucast_iff bit_0x7F) simp
    have "sleb_finish (acc OR shl (ucast (final_group v AND 0x7F)) s) (final_group v) (s + 7)
        = acc OR push_bit s v"
    proof (rule bit_word_eqI)
      fix i assume "i < LENGTH(64)"
      then have i: "i < 64" by simp
      have g: "bit (shl (ucast (final_group v AND 0x7F) :: u64) s) i \<longleftrightarrow> s \<le> i \<and> i - s < 7 \<and> bit v (i - s)"
        unfolding bit_group final_group_def bit_and_iff bit_ucast_iff bit_0x7F
        using i "1.prems"(1) by auto
      have high: "bit v (i - s) \<longleftrightarrow> bit v 6" if "s + 7 \<le> i"
        using sign_fromD [OF sign, of "i - s"] sign_fromD [OF sign, of 6] that i by simp
      have n: "bit (shl (NOT 0 :: u64) (s + 7)) i \<longleftrightarrow> s + 7 \<le> i" if "s + 7 < 64"
        using that i by (auto simp: bit_shl_iff bit_not_iff)
      show "bit (sleb_finish (acc OR shl (ucast (final_group v AND 0x7F)) s) (final_group v) (s + 7)) i
          \<longleftrightarrow> bit (acc OR push_bit s v) i"
        using i high g n unfolding sleb_finish_def neg
        by (cases "s + 7 < 64"; cases "s + 7 \<le> i"; cases "bit v 6")
          (auto simp: bit_or_iff bit_push_bit_iff)
    qed
    then show ?thesis using True by (simp add: sleb_encode.simps [of v])
  next
    case False
    have "s < 57"
    proof (rule ccontr)
      assume "\<not> s < 57"
      then have "sign_from v 6" using sign_from_mono [OF "1.prems"(2), of 6] by simp
      then show False using False by (simp add: seven_bits_sign)
    qed
    have top: "bit (sar v 7) 63 \<longleftrightarrow> bit v 63" by (simp only: bit_sar7) simp
    have "sign_from (sar v 7) (63 - (s + 7))"
      unfolding sign_from_def
    proof (intro allI impI)
      fix i assume "i < 64" and "63 - (s + 7) \<le> i"
      then show "bit (sar v 7) i \<longleftrightarrow> bit (sar v 7) 63"
        using sign_fromD [OF "1.prems"(2), of "7 + i"] \<open>s < 57\<close>
        unfolding bit_sar7 [OF \<open>i < 64\<close>] top by (cases "57 \<le> i") simp_all
    qed
    then have IH: "sleb_finish (leb_groups a (s + 7) (sleb_encode (sar v 7))) (last (sleb_encode (sar v 7)))
        (s + 7 + 7 * length (sleb_encode (sar v 7))) = a OR push_bit (s + 7) (sar v 7)" for a
      using "1.IH" [OF False] \<open>s < 57\<close> by simp
    have "(acc OR shl (ucast ((ucast v OR 0x80 :: u8) AND 0x7F)) s) OR push_bit (s + 7) (sar v 7)
        = acc OR push_bit s v"
    proof (rule bit_word_eqI)
      fix i assume "i < LENGTH(64)"
      then have i: "i < 64" by simp
      show "bit ((acc OR shl (ucast ((ucast v OR 0x80 :: u8) AND 0x7F)) s) OR push_bit (s + 7) (sar v 7)) i
          \<longleftrightarrow> bit (acc OR push_bit s v) i"
      proof (cases "s + 7 \<le> i")
        case True
        then obtain j where j: "i = s + 7 + j" by (metis le_Suc_ex)
        then have "j < 57" using i by simp
        then have "bit (sar v 7) j \<longleftrightarrow> bit v (7 + j)" by (simp only: bit_sar7) simp
        then show ?thesis using i j \<open>s < 57\<close>
          by (simp only: bit_or_iff bit_group bit_push_bit_iff) (auto simp: add.assoc)
      next
        case False
        then show ?thesis using i \<open>s < 57\<close>
          by (simp only: bit_or_iff bit_group bit_ucast_iff bit_0x80 bit_push_bit_iff) auto
      qed
    qed
    moreover have "sleb_encode (sar v 7) \<noteq> []" by (simp add: sleb_encode.simps [of "sar v 7"])
    ultimately show ?thesis using False IH by (simp add: sleb_encode.simps [of v] add.assoc)
  qed
qed

lemma sleb_encode_terminated: "leb_terminated (sleb_encode v)"
proof (induction v rule: sleb_encode.induct)
  case (1 v)
  have ne: "sleb_encode w \<noteq> []" for w by (simp add: sleb_encode.simps [of w])
  have "\<not> bit (final_group v) 7"
    unfolding final_group_def by (simp only: bit_and_iff bit_0x7F) simp
  then show ?case
    using 1 ne by (cases "seven_bits v") (simp_all add: sleb_encode.simps [of v] top_bit bit_or_iff bit_0x80)
qed

text \<open>C20: Reading a LEB128 number from a memory that holds its encoding at the cursor returns the
  number, for every unsigned and every signed value of 64 bits, and leaves the cursor behind the
  encoding.\<close>
theorem leb128_round_trip:
  assumes "byte_ready mem_bytes memory_ops bus h ar (length bs)" and "bytes_ahead mem_bytes bus ar bs"
  shows "(bs = uleb_encode u \<longrightarrow>
      (\<exists>h'. read_uleb128 memory_ops (bus, h) = Some (Inr u, (bus, h')) \<and>
        ah_active (dh_address h') = Some (step_range ar (length bs)))) \<and>
    (bs = sleb_encode i \<longrightarrow>
      (\<exists>h'. read_sleb128 memory_ops (bus, h) = Some (Inr i, (bus, h')) \<and>
        ah_active (dh_address h') = Some (step_range ar (length bs))))"
proof (intro conjI impI)
  assume bs: "bs = uleb_encode u"
  have "leb_groups 0 0 bs = u" using uleb_groups [of 0 u 0] by (simp add: bs)
  then show "\<exists>h'. read_uleb128 memory_ops (bus, h) = Some (Inr u, (bus, h')) \<and>
      ah_active (dh_address h') = Some (step_range ar (length bs))"
    using mem.uleb_loop_reads [OF assms, of 0 0] uleb_encode_terminated [of u]
    by (simp add: read_uleb128_def bs)
next
  assume bs: "bs = sleb_encode i"
  have "sleb_finish (leb_groups 0 0 bs) (last bs) (7 * length bs) = i"
    using sleb_groups [of 0 i 0] by (simp add: bs sign_from_top)
  then show "\<exists>h'. read_sleb128 memory_ops (bus, h) = Some (Inr i, (bus, h')) \<and>
      ah_active (dh_address h') = Some (step_range ar (length bs))"
    using mem.sleb_loop_reads [OF assms, of 0 0] sleb_encode_terminated [of i]
    by (simp add: read_sleb128_def bs)
qed

text \<open>Two numbers in a row in the demonstration memory, from address 3 on.\<close>

definition leb_bus :: "u8 list \<Rightarrow> basic_memory device_bus" where
  "leb_bus bs = demo_bus\<lparr>bus_devices := (bus_devices demo_bus)
     [0 := demo_memory\<lparr>mem_bytes := replicate 3 0 @ bs @ replicate (13 - length bs) 0\<rparr>]\<rparr>"

definition leb_handle :: data_handle where
  "leb_handle = \<lparr>dh_address = snd (jump demo_bus address_handle_new 3), dh_cache = slice_cache_default\<rparr>"

lemma leb_bus_ready:
  assumes "length bs \<le> 13"
  shows "\<exists>ar. byte_ready mem_bytes memory_ops (leb_bus bs) leb_handle ar (length bs) \<and>
    bytes_ahead mem_bytes (leb_bus bs) ar bs"
proof -
  have "dev_endianness memory_ops = mem_endian" by (simp add: memory_ops_def)
  then show ?thesis
    using assms
    by (simp add: leb_bus_def leb_handle_def demo_jump byte_ready_def bytes_ahead_def span_ok_def
        ar_bytes_remaining_def ar_bus_address_def ar_device_offset_def demo_bus_fields
        demo_memory_def basic_memory_new_def coherent_default)
qed

theorem leb128_round_trip_witness:
  "(\<exists>v. read_uleb128 memory_ops (leb_bus [0xE5, 0x8E, 0x26], leb_handle) = Some (Inr 624485, v)) \<and>
   (\<exists>v. read_sleb128 memory_ops (leb_bus [0x9B, 0xF1, 0x59], leb_handle) = Some (Inr (- 624485), v))"
proof -
  have u: "[0xE5, 0x8E, 0x26] = uleb_encode 624485" by code_simp
  have i: "[0x9B, 0xF1, 0x59] = sleb_encode (- 624485)" by code_simp
  obtain ar where "byte_ready mem_bytes memory_ops (leb_bus [0xE5, 0x8E, 0x26]) leb_handle ar
      (length [0xE5, 0x8E, 0x26 :: u8])"
    "bytes_ahead mem_bytes (leb_bus [0xE5, 0x8E, 0x26]) ar [0xE5, 0x8E, 0x26]"
    using leb_bus_ready [of "[0xE5, 0x8E, 0x26]"] by auto
  from leb128_round_trip [OF this, of 624485 0] u
  have "\<exists>v. read_uleb128 memory_ops (leb_bus [0xE5, 0x8E, 0x26], leb_handle) = Some (Inr 624485, v)"
    by blast
  moreover obtain ar where "byte_ready mem_bytes memory_ops (leb_bus [0x9B, 0xF1, 0x59]) leb_handle ar
      (length [0x9B, 0xF1, 0x59 :: u8])"
    "bytes_ahead mem_bytes (leb_bus [0x9B, 0xF1, 0x59]) ar [0x9B, 0xF1, 0x59]"
    using leb_bus_ready [of "[0x9B, 0xF1, 0x59]"] by auto
  from leb128_round_trip [OF this, of 0 "- 624485"] i
  have "\<exists>v. read_sleb128 memory_ops (leb_bus [0x9B, 0xF1, 0x59], leb_handle) = Some (Inr (- 624485), v)"
    by blast
  ultimately show ?thesis ..
qed

text \<open>A number of more than ten bytes is not refused: the shift of the eleventh byte wraps around
  the width (where it does not panic), so that zero written with ten continuation bytes and a last
  byte of one is read as 64.\<close>
theorem overlong_leb128_wraps:
  assumes "byte_ready mem_bytes memory_ops bus h ar 11"
    and "bytes_ahead mem_bytes bus ar (replicate 10 0x80 @ [1])"
  shows "\<exists>h'. read_uleb128 memory_ops (bus, h) = Some (Inr 64, (bus, h'))"
proof -
  have "leb_groups 0 0 (replicate 10 0x80 @ [1]) = 64" by code_simp
  moreover have "leb_terminated (replicate 10 0x80 @ [1])" by code_simp
  ultimately show ?thesis
    using mem.uleb_loop_reads [of bus h ar "replicate 10 0x80 @ [1]" 0 0] assms
    by (auto simp: read_uleb128_def)
qed

theorem overlong_leb128_wraps_witness:
  "\<exists>v. read_uleb128 memory_ops (leb_bus (replicate 10 0x80 @ [1]), leb_handle) = Some (Inr 64, v)"
proof -
  obtain ar where "byte_ready mem_bytes memory_ops (leb_bus (replicate 10 0x80 @ [1])) leb_handle ar 11"
    "bytes_ahead mem_bytes (leb_bus (replicate 10 0x80 @ [1])) ar (replicate 10 0x80 @ [1])"
    using leb_bus_ready [of "replicate 10 0x80 @ [1]"] by auto
  from overlong_leb128_wraps [OF this] show ?thesis by blast
qed

section \<open>The readers return\<close>

definition view_left :: "'d view \<Rightarrow> nat" where
  "view_left v = unat (ah_bytes_to_end (dh_address (snd v)))"

lemma transact_progress:
  assumes "transact ops sz op bus h c = (Inr x, bus', h', c')"
  shows "sz \<le> ah_bytes_to_end h" and "ah_bytes_to_end h' = ah_bytes_to_end h - sz"
  using assms
  by (auto simp: transact_def ah_bytes_to_end_def ar_bytes_remaining_def ar_bus_address_def Let_def
      split: option.splits if_splits prod.splits sum.splits)

lemma read_u8_progress:
  assumes "read_u8 ops v = (Inr b, v')"
  shows "view_left v' < view_left v"
proof -
  obtain bus h where v: "v = (bus, h)" by force
  obtain x bus' h' where r: "read_bits ops bus h 0 8 = (Inr x, bus', h')" "v' = (bus', h')"
    using assms
    by (cases v') (auto simp: v read_u8_def se_map_def se_bind_def view_bits_def split: prod.splits sum.splits)
  obtain c' where t: "transact ops 1
      (\<lambda>device offset resolved cache.
         with_device_transaction ops (read_bits_body ops 0 8 offset resolved) device cache)
      bus (dh_address h) (dh_cache h) = (Inr x, bus', dh_address h', c')"
    using r(1) by (auto simp: read_bits_def bits_to_bytes_def Let_def split: prod.splits)
  note p = transact_progress [OF t]
  show ?thesis
    using p by (simp add: v r(2) view_left_def unat_sub word_le_nat_alt)
qed

text \<open>The LEB128 readers have no bound on the length of a number, and still return on every bus and
  from every state of the handle: each byte read leaves fewer bytes of the mapping, and the byte past
  the end is an error.\<close>
theorem leb128_returns:
  "(\<exists>r. read_uleb128 ops v = Some r) \<and> (\<exists>r. read_sleb128 ops v = Some r)"
proof -
  have u: "\<exists>r. uleb_loop ops acc shift v = Some r" for acc shift
  proof (induction "view_left v" arbitrary: v acc shift rule: less_induct)
    case less
    obtain x v' where x: "read_u8 ops v = (x, v')" by (cases "read_u8 ops v")
    show ?case
    proof (cases x)
      case (Inr b)
      then have "view_left v' < view_left v" using read_u8_progress x by blast
      then show ?thesis
        using less.hyps x Inr by (auto simp: uleb_loop.simps [of ops acc] Let_def)
    qed (use x in \<open>simp add: uleb_loop.simps [of ops acc]\<close>)
  qed
  have i: "\<exists>r. sleb_loop ops acc shift v = Some r" for acc shift
  proof (induction "view_left v" arbitrary: v acc shift rule: less_induct)
    case less
    obtain x v' where x: "read_u8 ops v = (x, v')" by (cases "read_u8 ops v")
    show ?case
    proof (cases x)
      case (Inr b)
      then have "view_left v' < view_left v" using read_u8_progress x by blast
      then show ?thesis
        using less.hyps x Inr by (auto simp: sleb_loop.simps [of ops acc] Let_def)
    qed (use x in \<open>simp add: sleb_loop.simps [of ops acc]\<close>)
  qed
  show ?thesis unfolding read_uleb128_def read_sleb128_def using u i by blast
qed

end
