(* ===== verification/BusHistory.thy ===== *)
theory BusHistory
  imports BusExt
begin

text \<open>
  The bus over its whole life: every sequence of registrations, redirects, removals and device
  accesses, failed ones included, as a step relation with its invariant; and the aliasing a redirect
  makes, seen through the byte views (\<open>src/soc/system/bus/device_bus.rs\<close>,
  \<open>src/soc/system/bus/ext/stream.rs\<close>).
\<close>

section \<open>Histories of a bus\<close>

text \<open>One step of the bus.  A device is only reached through a handle, which leaves its name and its
  span as they are.  A registration or redirect may take a fresh range identifier, the counter of the
  relation.\<close>

inductive bus_reached :: "'d device_ops \<Rightarrow> nat \<Rightarrow> 'd device_bus \<Rightarrow> bool" for ops where
  fresh: "device_bus_new bits = Some bus \<Longrightarrow> bus_reached ops 0 bus"
| registered: "bus_reached ops n bus \<Longrightarrow> register_device ops bus d base = (res, bus') \<Longrightarrow>
    bus_reached ops (Suc n) bus'"
| redirected: "bus_reached ops n bus \<Longrightarrow> redirect ops bus src sz tgt = (res, bus') \<Longrightarrow>
    bus_reached ops (Suc n) bus'"
| removed: "bus_reached ops n bus \<Longrightarrow> remove_redirect bus src sz = (res', bus') \<Longrightarrow>
    bus_reached ops n bus'"
| accessed: "bus_reached ops n bus \<Longrightarrow> i < length (bus_devices bus) \<Longrightarrow>
    dev_span ops d = dev_span ops (bus_devices bus ! i) \<Longrightarrow>
    dev_name ops d = dev_name ops (bus_devices bus ! i) \<Longrightarrow>
    bus_reached ops n (bus\<lparr>bus_devices := (bus_devices bus)[i := d]\<rparr>)"

text \<open>The name index is exact, so no two devices of a bus have the same name.\<close>

definition names_ok :: "'d device_ops \<Rightarrow> 'd device_bus \<Rightarrow> bool" where
  "names_ok ops bus \<longleftrightarrow>
     (\<forall>name i. name_index bus name = Some i \<longleftrightarrow>
        i < length (bus_devices bus) \<and> dev_name ops (bus_devices bus ! i) = name)"

lemma names_ok_push:
  assumes "names_ok ops bus" and "name_index bus (dev_name ops d) = None"
  shows "names_ok ops (push_device ops bus d)"
proof -
  have "dev_name ops (bus_devices bus ! i) \<noteq> dev_name ops d" if "i < length (bus_devices bus)" for i
    using assms that by (metis names_ok_def option.distinct(1))
  with assms show ?thesis
    by (auto simp: names_ok_def push_device_def nth_append less_Suc_eq)
qed

lemma names_ok_cong:
  assumes "names_ok ops bus" and "bus_devices bus' = bus_devices bus"
    and "name_index bus' = name_index bus"
  shows "names_ok ops bus'"
  using assms by (simp add: names_ok_def)

lemma register_device_names:
  assumes "names_ok ops bus" and "register_device ops bus d base = (res, bus')"
  shows "names_ok ops bus' \<and>
    (next_range_id bus' = next_range_id bus \<or> next_range_id bus' = next_range_id bus + 1)"
  using assms(2)
proof (cases rule: register_device_cases)
  case (added stop r)
  have "next_range_id bus' = next_range_id bus \<or> next_range_id bus' = next_range_id bus + 1"
    using added(5) by (auto simp: add_range_def Let_def split: if_splits prod.splits sum.splits)
  with add_range_same [OF added(5)] names_ok_push [OF assms(1) added(4)] show ?thesis
    by (auto intro: names_ok_cong)
qed (use assms(1) in simp_all)

lemma remove_redirect_wf:
  assumes wf: "bus_wf ops bus" and run: "remove_redirect bus src sz = (res, bus')"
  shows "bus_wf ops bus' \<and> bus_devices bus' = bus_devices bus \<and> name_index bus' = name_index bus \<and>
    next_range_id bus' = next_range_id bus"
proof (cases "redirect_index bus (src, sz)")
  case (Some rid)
  let ?bus = "bus\<lparr>redirect_index := (redirect_index bus)((src, sz) := None)\<rparr>"
  from run Some have rem: "remove_range ?bus rid = (res, bus')" by (simp add: remove_redirect_def)
  have wf': "bus_wf ops ?bus" using wf by (simp add: bus_wf_def seg_ok_def)
  have same: "bus_devices bus' = bus_devices bus \<and> name_index bus' = name_index bus \<and>
      next_range_id bus' = next_range_id bus"
    using rem by (auto simp: remove_range_def split: option.splits)
  show ?thesis
  proof (cases "range_index ?bus rid")
    case None
    with rem wf' same show ?thesis by (simp add: remove_range_def)
  next
    case (Some idxs)
    with remove_range_found(2) [OF wf' Some rem] same show ?thesis by simp
  qed
qed (use wf run in \<open>simp add: remove_redirect_def\<close>)

lemma access_wf:
  assumes "bus_wf ops bus" and "i < length (bus_devices bus)"
    and "dev_span ops d = dev_span ops (bus_devices bus ! i)"
  shows "bus_wf ops (bus\<lparr>bus_devices := (bus_devices bus)[i := d]\<rparr>)"
proof -
  have span: "dev_span ops ((bus_devices bus)[i := d] ! j) = dev_span ops (bus_devices bus ! j)" for j
    using assms(2,3) by (cases "j = i") simp_all
  have "fst (dev_span ops x) = 0 \<and> 0 < snd (dev_span ops x)" if "x \<in> set ((bus_devices bus)[i := d])" for x
    using that assms set_update_subset_insert [of "bus_devices bus" i d]
    by (auto simp: bus_wf_def dest!: subsetD)
  with assms(1) show ?thesis by (auto simp: bus_wf_def seg_ok_def span)
qed

lemma bus_reached_invariant:
  assumes "bus_reached ops n bus" and "n < 2 ^ 64 - 1"
  shows "bus_wf ops bus \<and> names_ok ops bus \<and> unat (next_range_id bus) \<le> Suc n"
  using assms
proof (induction rule: bus_reached.induct)
  case (fresh bits bus)
  then show ?case
    by (auto simp: device_bus_new_def bus_wf_def names_ok_def bucket_list_def bucket_sorted_def
        split: if_splits)
next
  case (registered n bus d base res bus')
  then have inv: "bus_wf ops bus" "names_ok ops bus" "unat (next_range_id bus) \<le> Suc n" by simp_all
  have room: "next_range_id bus \<noteq> - 1" using inv(3) registered.prems by (auto simp: unsigned_minus_1_eq_mask mask_eq_exp_minus_1)
  from register_device_effect [OF inv(1) room registered.hyps(2)]
    register_device_names [OF inv(2) registered.hyps(2)] inv(3)
  show ?case by (auto simp: unat_word_ariths intro: le_trans [OF mod_less_eq_dividend])
next
  case (redirected n bus src sz tgt res bus')
  then have inv: "bus_wf ops bus" "names_ok ops bus" "unat (next_range_id bus) \<le> Suc n" by simp_all
  have room: "next_range_id bus \<noteq> - 1" using inv(3) redirected.prems by (auto simp: unsigned_minus_1_eq_mask mask_eq_exp_minus_1)
  from redirect_wf [OF inv(1) room redirected.hyps(2)] inv(2,3)
  show ?case
    by (auto simp: unat_word_ariths intro: names_ok_cong le_trans [OF mod_less_eq_dividend])
next
  case (removed n bus src sz res' bus')
  then show ?case using remove_redirect_wf [OF _ removed.hyps(2)] by (auto intro: names_ok_cong)
next
  case (accessed n bus i d)
  then have "names_ok ops (bus\<lparr>bus_devices := (bus_devices bus)[i := d]\<rparr>)"
    by (auto simp: names_ok_def nth_list_update)
  with accessed show ?case by (simp add: access_wf)
qed

text \<open>C8: Whatever sequence of registrations, redirects, removals and device accesses a bus has gone
  through, failed ones included, and as long as the range identifiers last, its address map is well
  formed and no two devices share a name; an address resolves to \<open>NotMapped\<close> exactly when no range
  covers it, and otherwise into the span of a device the bus has.\<close>
theorem bus_history_safe:
  assumes "bus_reached ops n bus" and "n < 2 ^ 64 - 1"
  shows "bus_wf ops bus \<and> names_ok ops bus \<and>
    (case resolve bus a of
       Inl e \<Rightarrow> e = NotMapped a \<and> segs_at bus a = {}
     | Inr r \<Rightarrow> rr_contains r a \<and> rr_device_id r < length (bus_devices bus) \<and>
         unat (rr_device_offset r) + unat (a - rr_bus_start r)
           < unat (snd (dev_span ops (bus_devices bus ! rr_device_id r))))"
proof -
  from bus_reached_invariant [OF assms] have wf: "bus_wf ops bus" and names: "names_ok ops bus" by simp_all
  have "case resolve bus a of
       Inl e \<Rightarrow> e = NotMapped a \<and> segs_at bus a = {}
     | Inr r \<Rightarrow> rr_contains r a \<and> rr_device_id r < length (bus_devices bus) \<and>
         unat (rr_device_offset r) + unat (a - rr_bus_start r)
           < unat (snd (dev_span ops (bus_devices bus ! rr_device_id r)))"
    using wf
  proof (cases rule: resolve_cases [where a = a])
    case (mapped s)
    note ok = resolve_range_ok [OF wf mapped(1)]
    have "unat (a - rr_bus_start (resolved_of s)) < unat (rr_len (resolved_of s))"
      using ok by (simp add: rr_len_unat range_ok_def unat_sub word_le_nat_alt word_less_nat_alt)
    with ok show ?thesis by (simp add: mapped(1) range_ok_def rr_contains_def)
  qed simp
  with wf names show ?thesis by simp
qed

lemma reached_demo: "bus_reached memory_ops 1 demo_bus"
proof -
  have "device_bus_new 4 = Some (empty_bus 4)" by (simp add: device_bus_new_def empty_bus_def)
  then have "bus_reached memory_ops 0 (empty_bus 4)" by (rule bus_reached.fresh)
  from bus_reached.registered [OF this demo_register] show ?thesis by simp
qed

theorem bus_history_safe_witness:
  "bus_wf memory_ops (snd (redirect memory_ops overlap_bus 40 16 0)) \<and>
   names_ok memory_ops (snd (redirect memory_ops overlap_bus 40 16 0))"
proof -
  have "bus_reached memory_ops 2 overlap_bus"
    using bus_reached.redirected [OF reached_demo, of 48 8 0 _ overlap_bus]
    by (simp add: overlap_bus_def prod_eq_iff numeral_2_eq_2)
  then have "bus_reached memory_ops 3 (snd (redirect memory_ops overlap_bus 40 16 0))"
    by (rule bus_reached.redirected [where n = 2, simplified Suc_numeral, simplified])
      (rule prod.collapse [symmetric])
  from bus_history_safe [OF this] show ?thesis by simp
qed

section \<open>Aliases\<close>

context byte_device
begin

text \<open>A jump to a mapped address leaves every byte up to the end of the range ahead.\<close>

lemma jump_span:
  assumes wf: "bus_wf ops bus" and r: "resolve bus a = Inr r"
    and small: "length (bytes (bus_devices bus ! rr_device_id r)) < 2 ^ 64"
    and n: "unat a + n \<le> unat (rr_bus_end r)"
  obtains h' where "view_jump a (bus, h) = (Inr (), (bus, h'))"
    "span_ok bytes bus h' \<lparr>ar_resolved = r, ar_cursor = a - rr_bus_start r\<rparr> n"
proof -
  let ?ar = "\<lparr>ar_resolved = r, ar_cursor = a - rr_bus_start r\<rparr>"
  obtain ah where j: "jump bus (dh_address h) a = (Inr (), ah)"
    using r by (auto simp: jump_def Let_def)
  from wf j show thesis
  proof (cases rule: jump_ok)
    case (1 r')
    with r have r': "r' = r" by simp
    have act: "ah_active ah = Some ?ar" using 1 r' by simp
    with 1(5) have ok: "range_ok ops bus (ar_resolved ?ar)" "ar_cursor ?ar \<le> rr_len (ar_resolved ?ar)"
      by (simp_all add: handle_ok_def)
    have len: "unat (rr_len r) = unat (rr_bus_end r) - unat (rr_bus_start r)"
      using ok(1) by (simp add: rr_len_unat range_ok_def)
    have cur: "unat (a - rr_bus_start r) = unat a - unat (rr_bus_start r)"
      using 1(2) r' by (simp add: unat_sub)
    have le: "unat (rr_bus_start r) \<le> unat a" using 1(2) r' by (simp add: word_le_nat_alt)
    have span': "unat (rr_device_offset r) + unat (rr_len r) \<le> length (bytes (bus_devices bus ! rr_device_id r))"
      using ok(1) span [OF small] small by (simp add: range_ok_def unat_of_nat)
    have "span_ok bytes bus (h\<lparr>dh_address := ah\<rparr>) ?ar n"
      using act ok(1) handle_arith [OF ok] len cur le n span' small
      by (simp add: span_ok_def range_ok_def) (intro conjI; linarith)
    moreover have "view_jump a (bus, h) = (Inr (), (bus, h\<lparr>dh_address := ah\<rparr>))"
      by (simp add: view_jump_def j)
    ultimately show thesis using that by blast
  qed
qed

lemma whole_chunks:
  "concat (chunks max_endian_bytes xs) = xs" "[] \<notin> set (chunks max_endian_bytes xs)"
  using chunks_bounds [of "[]" max_endian_bytes xs] by (auto simp: concat_chunks)

lemma whole_write:
  assumes "span_ok bytes bus h ar (length data)"
  obtains d' h' where
    "write_bytes ops data (bus, h) =
       (Inr (), (bus\<lparr>bus_devices := (bus_devices bus)[rr_device_id (ar_resolved ar) := d']\<rparr>, h'))"
    "bytes d' = splice (bytes (bus_devices bus ! rr_device_id (ar_resolved ar)))
       (unat (ar_device_offset ar)) data"
proof -
  have "write_bytes ops data v = write_chunks ops (chunks max_endian_bytes data) v" for v
    by (simp add: write_bytes_def)
  with write_chunks_ok [of bus h ar "chunks max_endian_bytes data", unfolded whole_chunks(1),
      OF assms whole_chunks(2)] that
  show thesis by metis
qed

lemma whole_read:
  assumes "span_ok bytes bus h ar (length out)"
  obtains h' where "read_bytes ops out (bus, h) =
    (Inr (), take (length out) (drop (unat (ar_device_offset ar))
       (bytes (bus_devices bus ! rr_device_id (ar_resolved ar)))), (bus, h'))"
proof -
  have "read_bytes ops out v = read_chunks ops (chunks max_endian_bytes out) v" for v
    by (simp add: read_bytes_def)
  with read_chunks_ok [of bus h ar "chunks max_endian_bytes out", unfolded whole_chunks(1),
      OF assms whole_chunks(2)] that
  show thesis by metis
qed

end

text \<open>C13: After a successful redirect its source window is an alias of the target: a buffer written
  through any handle at \<open>src + i\<close> is read back by any other handle, whatever its cache, at \<open>tgt + i\<close>,
  provided that address is not itself redirected.\<close>
theorem redirect_is_alias:
  assumes wf: "bus_wf memory_ops bus" and room: "next_range_id bus \<noteq> - 1"
    and run: "redirect memory_ops bus src sz tgt = (Inr (), bus')"
    and small: "\<forall>d \<in> set (bus_devices bus). length (mem_bytes d) < 2 ^ 64"
    and i: "i < sz" "unat i + length data \<le> unat sz"
    and target: "\<not> (src \<le> tgt + i \<and> tgt + i < src + sz)" "resolve bus (tgt + i) = resolve bus tgt"
    and len: "length out = length data"
  shows "case view_jump (src + i) (bus', h) of (r1, v1) \<Rightarrow> r1 = Inr () \<and>
    (case write_bytes memory_ops data v1 of (r2, (bus2, h2)) \<Rightarrow> r2 = Inr () \<and>
      (case view_jump (tgt + i) (bus2, h') of (r3, v3) \<Rightarrow> r3 = Inr () \<and>
        (case read_bytes memory_ops out v3 of (r4, out', v4) \<Rightarrow> r4 = Inr () \<and> out' = data)))"
  using run
proof (cases rule: redirect_Inr)
  case (1 r stop src_end rid bus1)
  have eff: "bus_wf memory_ops bus'"
    and res: "\<And>a. resolve bus' a =
      (if src \<le> a \<and> a < src + sz
       then Inr \<lparr>rr_bus_start = src, rr_bus_end = src + sz,
         rr_device_offset = rr_device_offset r + (tgt - rr_bus_start r),
         rr_priority = redirect_priority, rr_device_id = rr_device_id r\<rparr>
       else resolve bus a)"
    using redirect_effect [OF wf room run] 1(2) by simp_all
  have devs: "bus_devices bus' = bus_devices bus"
    using redirect_wf [OF wf room run] by simp
  have did: "rr_device_id r < length (bus_devices bus)"
    using resolve_range_ok(1) [OF wf 1(2)] by (simp add: range_ok_def)
  have sums: "unat (src + sz) = unat src + unat sz" "unat (tgt + sz) = unat tgt + unat sz"
    "tgt + sz \<le> rr_bus_end r"
    using checked_add_unat [OF 1(5)] checked_add_unat [OF 1(3)] 1(3,4,5)
    by (simp_all add: checked_add_Some)
  have "unat i < unat sz" using i(1) by (simp add: word_less_nat_alt)
  with sums have parts: "unat (src + i) = unat src + unat i" "unat (tgt + i) = unat tgt + unat i"
    using unat_u64_less [of "src + sz"] unat_u64_less [of "tgt + sz"] by (simp_all add: unat_word_ariths)
  let ?s = "\<lparr>rr_bus_start = src, rr_bus_end = src + sz,
    rr_device_offset = rr_device_offset r + (tgt - rr_bus_start r),
    rr_priority = redirect_priority, rr_device_id = rr_device_id r\<rparr>"
  let ?sr = "\<lparr>ar_resolved = ?s, ar_cursor = src + i - src\<rparr>"
  let ?tr = "\<lparr>ar_resolved = r, ar_cursor = tgt + i - rr_bus_start r\<rparr>"
  let ?n = "length data" and ?j = "rr_device_id r"
  have small': "length (mem_bytes (bus_devices bus ! ?j)) < 2 ^ 64" using small did by simp
  have at_src: "resolve bus' (src + i) = Inr ?s"
    unfolding res using parts(1) sums(1) \<open>unat i < unat sz\<close> by (simp add: word_le_nat_alt word_less_nat_alt)
  have at_tgt: "resolve bus' (tgt + i) = Inr r"
    unfolding res using target 1(2) by auto
  obtain h1 where j1: "view_jump (src + i) (bus', h) = (Inr (), (bus', h1))"
    and s1: "span_ok mem_bytes bus' h1 ?sr ?n"
    by (rule mem.jump_span [OF eff at_src, of ?n h]) (use small' devs parts sums i(2) in simp_all)
  obtain d' h2 where w: "write_bytes memory_ops data (bus', h1) =
      (Inr (), (bus'\<lparr>bus_devices := (bus_devices bus')[?j := d']\<rparr>, h2))"
    and d': "mem_bytes d' = splice (mem_bytes (bus_devices bus ! ?j)) (unat (ar_device_offset ?sr)) data"
    by (rule mem.whole_write [OF s1]) (simp add: devs)
  let ?bus = "bus'\<lparr>bus_devices := (bus_devices bus')[?j := d']\<rparr>"
  have fits: "unat (ar_device_offset ?sr) + ?n \<le> length (mem_bytes (bus_devices bus ! ?j))"
    using s1 by (simp add: span_ok_def devs)
  then have size: "length (mem_bytes d') = length (mem_bytes (bus_devices bus ! ?j))" by (simp add: d')
  then have "dev_span memory_ops d' = dev_span memory_ops (bus_devices bus' ! ?j)"
    by (simp add: mem_span_def mem_size_def devs)
  with eff did have wf2: "bus_wf memory_ops ?bus" by (intro access_wf) (simp_all add: devs)
  have at_tgt': "resolve ?bus (tgt + i) = Inr r" using at_tgt by (simp add: resolve_update_device)
  obtain h3 where j3: "view_jump (tgt + i) (?bus, h') = (Inr (), (?bus, h3))"
    and s3: "span_ok mem_bytes ?bus h3 ?tr ?n"
  proof (rule mem.jump_span [OF wf2 at_tgt', of ?n h'])
    show "unat (tgt + i) + ?n \<le> unat (rr_bus_end r)"
      using sums(2,3) parts(2) i(2) by (simp add: word_le_nat_alt)
  qed (use small' did size devs in simp_all)
  obtain h4 where rd: "read_bytes memory_ops out (?bus, h3) =
      (Inr (), take ?n (drop (unat (ar_device_offset ?tr)) (mem_bytes d')), (?bus, h4))"
    by (rule mem.whole_read [OF s3 [folded len]]) (simp add: did devs len)
  have "ar_device_offset ?tr = ar_device_offset ?sr" by (simp add: ar_device_offset_def)
  then have "take ?n (drop (unat (ar_device_offset ?tr)) (mem_bytes d')) = data"
    using fits by (simp add: d' take_drop_splice_same)
  with j1 w j3 rd show ?thesis by simp
qed

theorem redirect_is_alias_witness:
  "case view_jump 34 (snd (redirect memory_ops demo_bus 32 8 4), data_handle_new) of (r1, v1) \<Rightarrow>
     r1 = Inr () \<and>
     (case write_bytes memory_ops [1, 2, 3] v1 of (r2, (bus2, h2)) \<Rightarrow> r2 = Inr () \<and>
       (case view_jump 6 (bus2, data_handle_new) of (r3, v3) \<Rightarrow> r3 = Inr () \<and>
         (case read_bytes memory_ops [0, 0, 0] v3 of (r4, out', v4) \<Rightarrow> r4 = Inr () \<and> out' = [1, 2, 3])))"
proof -
  have "resolve demo_bus (4 + 2) = resolve demo_bus 4"
    by (simp add: resolve_find demo_bus_fields demo_bus_buckets bucket_list_def bucket_index_def
        shr_def br_contains_def)
  moreover have "\<forall>d \<in> set (bus_devices demo_bus). length (mem_bytes d) < 2 ^ 64"
    by (simp add: demo_bus_fields demo_memory_def basic_memory_new_def)
  ultimately show ?thesis
    using redirect_is_alias [OF demo_bus_wf _ demo_redirect, of 2 "[1, 2, 3]" "[0, 0, 0]"
        data_handle_new data_handle_new]
    by (simp add: demo_bus_next)
qed

end
