(* ===== verification/HostCalls.thy ===== *)
theory HostCalls
  imports Runtime
begin

text \<open>
  The host helpers a program calls (\<open>$host::add\<close>, \<open>$host::sub\<close>, \<open>$host::mul\<close>,
  \<open>src/soc/isa/semantics/runtime.rs\<close>) over any host that keeps the contract \<open>exact_host\<close>: no bit of
  a result is lost between the value and the carry, or between the two halves of a product.
\<close>

lemma parse_width_exact:
  fixes n :: u32
  assumes "unat n \<le> 64"
  shows "parse_width (IntV (ucast n)) call = Inr n"
proof -
  have u: "uint (ucast n :: i64) = int (unat n)" 
    using unsigned_less [of n, where 'a = int] by (simp add: unsigned_ucast_eq take_bit_int_eq_self_iff)
  have "unat n < 2 ^ 63" using assms by simp
  then have lt: "int (unat n) < 2 ^ 63" by (simp only: of_nat_less_numeral_power_cancel_iff)
  have "- (2 ^ 63) \<le> int (unat n)" by (rule order.trans [of _ 0]) simp_all
  with lt have s: "sint (ucast n :: i64) = int (unat n)"
    unfolding sint_uint u by (simp only: len_num1 len_bit0 signed_take_bit_int_eq_self_iff) simp
  have "(ucast (ucast n :: i64) :: u32) = n"
    by (rule bit_word_eqI) (auto simp: bit_simps)
  moreover have "\<not> 4294967296 \<le> uint n" using unsigned_less [of n, where 'a = int] by (simp add: not_le)
  moreover have "\<not> 64 < n" using assms by (simp add: word_less_nat_alt)
  ultimately show ?thesis
    using assms by (simp add: parse_width_def word_sless_alt s)
qed

lemma core_emit [simp]: "w_core (emit_trace ev w) = w_core w"
  by (simp add: emit_trace_def split: option.split)

text \<open>What the two helpers with a carry do with well-typed arguments.\<close>

lemma host_arith_run:
  fixes n :: u32
  assumes "unat n \<le> 64" and "operation (w_host w) a b c n = (r, h)"
  shows "\<exists>w'. host_arith kind operation [IntV a, IntV b, BoolV c, IntV (ucast n)] call w =
      (Inr (TupleV [IntV (ha_value r), BoolV (ha_carry r)]), w') \<and> w_core w' = w_core w"
  using assms
  by (simp add: host_arith_def se_bind_def se_lift_def parse_width_exact on_host_def trace_step_def)

text \<open>A residue and the test for a carry make up the number.\<close>

lemma carry_restores:
  fixes s n :: nat
  assumes "s < 2 * 2 ^ n" and "v = s mod 2 ^ n" and "carry \<longleftrightarrow> 2 ^ n \<le> s"
  shows "v + of_bool carry * 2 ^ n = s"
proof (cases "s < 2 ^ n")
  case False
  with assms show ?thesis by (simp add: le_mod_geq)
qed (use assms in simp)

lemma borrow_restores:
  fixes A B n :: nat and b :: bool
  assumes "A < 2 ^ n" and "B < 2 ^ n" and "int v = (int A - int B - of_bool b) mod 2 ^ n"
    and "borrow \<longleftrightarrow> A < B + of_bool b"
  shows "int v - of_bool borrow * 2 ^ n = int A - int B - of_bool b"
proof -
  define K :: int where "K = 2 ^ n"
  have K: "int A < K" "int B < K"
    using assms(1,2) by (simp_all add: K_def of_nat_less_iff [symmetric] del: of_nat_less_iff)
  have v: "int v = (int A - int B - of_bool b) mod K" using assms(3) by (simp add: K_def)
  show ?thesis
  proof (cases borrow)
    case True
    with assms(4) have neg: "int A - int B - of_bool b < 0" by (cases b) simp_all
    have "(int A - int B - of_bool b) mod K = (int A - int B - of_bool b + K) mod K" by simp
    also have "\<dots> = int A - int B - of_bool b + K"
      using neg K by (intro mod_pos_pos_trivial) (cases b; simp)+
    finally show ?thesis using True v by (simp add: K_def)
  next
    case False
    with assms(4) have "0 \<le> int A - int B - of_bool b" by (cases b) simp_all
    with K have "(int A - int B - of_bool b) mod K = int A - int B - of_bool b"
      by (intro mod_pos_pos_trivial) (cases b; simp)+
    with False v show ?thesis by simp
  qed
qed

context exact_host
begin

lemma add_call:
  fixes n :: u32
  assumes n: "0 < unat n" "unat n \<le> 64" and call: "cc_name call = ''add''" "cc_subpath call = []"
  shows "\<exists>v carry w'. evaluate_host_call services call [IntV a, IntV b, BoolV c, IntV (ucast n)] w =
      (Inr (TupleV [IntV v, BoolV carry]), w') \<and> w_core w' = w_core w \<and>
    unat v + of_bool carry * 2 ^ unat n = low_bits (unat n) a + low_bits (unat n) b + of_bool c"
proof -
  obtain r h where r: "hs_add services (w_host w) a b c n = (r, h)" by fastforce
  have "low_bits (unat n) a + low_bits (unat n) b + of_bool c < 2 * 2 ^ unat n"
    using low_bits_less [of "unat n" a] low_bits_less [of "unat n" b] by (cases c) auto
  from carry_restores [OF this] add_exact [OF n r] host_arith_run [where operation = "hs_add services" and kind = HostAdd and call = call, OF n(2) r]
  show ?thesis by (fastforce simp: evaluate_host_call_def call host_add_def)
qed

lemma sub_call:
  fixes n :: u32
  assumes n: "0 < unat n" "unat n \<le> 64" and call: "cc_name call = ''sub''" "cc_subpath call = []"
  shows "\<exists>v borrow w'. evaluate_host_call services call [IntV a, IntV b, BoolV c, IntV (ucast n)] w =
      (Inr (TupleV [IntV v, BoolV borrow]), w') \<and> w_core w' = w_core w \<and>
    int (unat v) - of_bool borrow * 2 ^ unat n =
      int (low_bits (unat n) a) - int (low_bits (unat n) b) - of_bool c"
proof -
  obtain r h where r: "hs_sub services (w_host w) a b c n = (r, h)" by fastforce
  have run: "\<exists>w'. evaluate_host_call services call [IntV a, IntV b, BoolV c, IntV (ucast n)] w =
      (Inr (TupleV [IntV (ha_value r), BoolV (ha_carry r)]), w') \<and> w_core w' = w_core w"
    using host_arith_run [where operation = "hs_sub services" and kind = HostSub and call = call, OF n(2) r]
    by (simp add: evaluate_host_call_def call host_sub_def)
  have "int (unat (ha_value r)) - of_bool (ha_carry r) * 2 ^ unat n =
      int (low_bits (unat n) a) - int (low_bits (unat n) b) - of_bool c"
    by (rule borrow_restores [OF low_bits_less low_bits_less])
      (rule sub_exact [OF n r, THEN conjunct1], rule sub_exact [OF n r, THEN conjunct2])
  with run show ?thesis by blast
qed

lemma mul_call:
  fixes n :: u32
  assumes n: "0 < unat n" "unat n \<le> 64" and call: "cc_name call = ''mul''" "cc_subpath call = []"
    and fits: "unat a < 2 ^ unat n" "unat b < 2 ^ unat n"
  shows "\<exists>low high w'. evaluate_host_call services call [IntV a, IntV b, IntV (ucast n)] w =
      (Inr (TupleV [IntV low, IntV high]), w') \<and> w_core w' = w_core w \<and>
    unat low < 2 ^ unat n \<and> unat high * 2 ^ unat n + unat low = unat a * unat b"
proof -
  obtain p h where p: "hs_mul services (w_host w) a b n = (p, h)" by fastforce
  have "\<exists>w'. evaluate_host_call services call [IntV a, IntV b, IntV (ucast n)] w =
      (Inr (TupleV [IntV (hm_low p), IntV (hm_high p)]), w') \<and> w_core w' = w_core w"
    by (simp add: evaluate_host_call_def call host_mul_def se_bind_def se_lift_def
        parse_width_exact [OF n(2)] on_host_def p trace_step_def)
  with mul_exact [OF n p fits] show ?thesis by blast
qed

end

text \<open>C32: A program that calls a host helper on the software host at a width of 1 to 64 bits gets an
  exact result and leaves the core untouched: \<open>add\<close> returns a value and a carry that together are the
  sum, \<open>sub\<close> a value and a borrow that together are the difference, and \<open>mul\<close> of operands of that
  width the two halves of the product.\<close>
theorem host_calls_exact:
  fixes n :: u32
  assumes "0 < unat n" and "unat n \<le> 64" and "cc_subpath call = []"
  shows "(cc_name call = ''add'' \<longrightarrow>
      (\<exists>v carry w'. evaluate_host_call software_host call [IntV a, IntV b, BoolV c, IntV (ucast n)] w =
          (Inr (TupleV [IntV v, BoolV carry]), w') \<and> w_core w' = w_core w \<and>
        unat v + of_bool carry * 2 ^ unat n = low_bits (unat n) a + low_bits (unat n) b + of_bool c)) \<and>
    (cc_name call = ''sub'' \<longrightarrow>
      (\<exists>v borrow w'. evaluate_host_call software_host call [IntV a, IntV b, BoolV c, IntV (ucast n)] w =
          (Inr (TupleV [IntV v, BoolV borrow]), w') \<and> w_core w' = w_core w \<and>
        int (unat v) - of_bool borrow * 2 ^ unat n =
          int (low_bits (unat n) a) - int (low_bits (unat n) b) - of_bool c)) \<and>
    (cc_name call = ''mul'' \<and> unat a < 2 ^ unat n \<and> unat b < 2 ^ unat n \<longrightarrow>
      (\<exists>low high w'. evaluate_host_call software_host call [IntV a, IntV b, IntV (ucast n)] w =
          (Inr (TupleV [IntV low, IntV high]), w') \<and> w_core w' = w_core w \<and>
        unat low < 2 ^ unat n \<and> unat high * 2 ^ unat n + unat low = unat a * unat b))"
  using software.add_call [OF assms(1,2) _ assms(3)] software.sub_call [OF assms(1,2) _ assms(3)]
    software.mul_call [OF assms(1,2) _ assms(3)]
  by blast

definition demo_host_call :: context_call where
  "demo_host_call = ContextCall HostCall ''host'' ''add'' [] []
     (span_point ''demo.isa'' \<lparr>pos_line = 1, pos_column = 1\<rparr>)"

theorem host_calls_exact_witness:
  "\<forall>w. \<exists>v carry w'. evaluate_host_call software_host demo_host_call
      [IntV 0xFF, IntV 3, BoolV True, IntV 8] w = (Inr (TupleV [IntV v, BoolV carry]), w') \<and>
    unat v + of_bool carry * 256 = 0xFF + 3 + 1"
proof
  fix w :: "unit world"
  have width: "(ucast (8 :: u32) :: i64) = 8" "unat (8 :: u32) = 8" by simp_all
  have "cc_subpath demo_host_call = []" "cc_name demo_host_call = ''add''"
    by (simp_all add: demo_host_call_def)
  with host_calls_exact [where n = 8 and call = demo_host_call and a = "0xFF" and b = 3 and c = True
      and w = w, unfolded width, THEN conjunct1]
  obtain v carry w' where "evaluate_host_call software_host demo_host_call
      [IntV 0xFF, IntV 3, BoolV True, IntV 8] w = (Inr (TupleV [IntV v, BoolV carry]), w')"
    and sum: "unat v + of_bool carry * 2 ^ 8 = low_bits 8 0xFF + low_bits 8 3 + of_bool True"
    by auto
  moreover have "low_bits 8 0xFF = 0xFF" "low_bits 8 3 = 3" by (simp_all add: low_bits_def)
  ultimately show "\<exists>v carry w'. evaluate_host_call software_host demo_host_call
      [IntV 0xFF, IntV 3, BoolV True, IntV 8] w = (Inr (TupleV [IntV v, BoolV carry]), w') \<and>
    unat v + of_bool carry * 256 = 0xFF + 3 + 1"
    by (intro exI conjI) simp_all
qed

end
