(* ===== verification/SymbolBus.thy ===== *)
theory SymbolBus
  imports SymbolWalk SymbolTable BusExt RegisterAccess
begin

text \<open>
  Reading symbols through the bus (\<open>src/soc/system/bus/symbol/\<close>): the size of a symbol, the value of a
  type at an address, and the cursor that reads every primitive value of a symbol in turn.  The symbol
  table is borrowed for the life of a handle and never changes; the data handle and the bus behind it
  are the state.  \<open>None\<close> is a panic (an identifier out of range) or a walk that does not end.
\<close>

section \<open>Values and errors\<close>

text \<open>An \<open>f64\<close> is kept as what it was computed from: the bits of an \<open>f32\<close> that was widened, its own
  bits, or the integer, the scale and the offset of a fixed-point number.\<close>

datatype float_value =
    WidenedFloat u32
  | DoubleFloat u64
  | FixedPoint i64 u64 u64

datatype symbol_value =
    UnsignedSymbol u64
  | SignedSymbol i64
  | FloatSymbol float_value
  | Utf8Symbol string
  | EnumSymbol "string option" i64
  | BytesSymbol "u8 list"

datatype symbol_access_error =
    MissingAddress string
  | MissingSize string
  | AccessBus bus_error
  | UnsupportedTraversal string

definition symbol_access_error_text :: "symbol_access_error \<Rightarrow> string" where
  "symbol_access_error_text e =
     (case e of
        MissingAddress label \<Rightarrow> fmt ''symbol {} has no runtime or file address'' [quoted label]
      | MissingSize label \<Rightarrow> fmt ''symbol {} has no byte size or sized type metadata'' [quoted label]
      | AccessBus err \<Rightarrow> bus_error_text err
      | UnsupportedTraversal label \<Rightarrow>
          fmt ''symbol {} has no type metadata to drive traversal'' [quoted label])"

type_synonym ('d, 'a) access = "'d view \<Rightarrow> (symbol_access_error + 'a) \<times> 'd view"

definition on_bus :: "('d, 'a) view_op \<Rightarrow> ('d, 'a) access" where
  "on_bus m v = (case m v of (r, v') \<Rightarrow> (map_err AccessBus r, v'))"

section \<open>Sizes\<close>

definition sequence_size :: "sequence_type \<Rightarrow> u32 option" where
  "sequence_size s =
     (case sq_count s of
        StaticCount count \<Rightarrow> checked_mul count (sq_stride_bytes s)
      | DynamicCount c \<Rightarrow> None)"

text \<open>The outer option is the panic of \<open>arena.get\<close>.\<close>

definition type_size :: "type_arena \<Rightarrow> type_id \<Rightarrow> u32 option option" where
  "type_size a ty =
     map_option (\<lambda>r.
       case r of
         ScalarRec s \<Rightarrow> Some (st_byte_size s)
       | EnumRec e \<Rightarrow> Some (st_byte_size (et_base e))
       | FixedRec x \<Rightarrow> Some (st_byte_size (fx_base x))
       | SequenceRec s \<Rightarrow> sequence_size s
       | AggregateRec ag \<Rightarrow> Some (ls_bytes (ag_byte_size ag))
       | OpaqueRec q \<Rightarrow> Some (oq_byte_size q)
       | PointerRec p \<Rightarrow> Some (pt_byte_size p)
       | _ \<Rightarrow> None) (arena_get a ty)"

section \<open>Values of types\<close>

record read_context =
  rc_arena :: type_arena
  rc_entry :: "symbol_walk_entry option"
  rc_field_address :: u64
  rc_symbol_base :: u64
  rc_size_hint :: "u32 option"

definition read_scalar :: "'d device_ops \<Rightarrow> read_context \<Rightarrow> scalar_type \<Rightarrow> ('d, symbol_value option) access" where
  "read_scalar ops c s =
     se_bind (on_bus (view_jump (rc_field_address c))) (\<lambda>u.
       let width = unat (st_byte_size s) in
       case st_encoding s of
         UnsignedEnc \<Rightarrow>
           se_map (\<lambda>v. Some (UnsignedSymbol v))
             (if width = 0 then se_lift (Inr 0) else on_bus (read_unsigned ops 0 (width * 8)))
       | SignedEnc \<Rightarrow>
           se_map (\<lambda>v. Some (SignedSymbol v))
             (if width = 0 then se_lift (Inr 0) else on_bus (read_signed_bits ops 0 (width * 8)))
       | FloatingEnc \<Rightarrow>
           (if width = 4 then se_map (\<lambda>v. Some (FloatSymbol (WidenedFloat v))) (on_bus (read_f32 ops))
            else if width = 8 then se_map (\<lambda>v. Some (FloatSymbol (DoubleFloat v))) (on_bus (read_f64 ops))
            else se_lift (Inr None))
       | Utf8StringEnc \<Rightarrow>
           (if width = 0 then se_lift (Inr (Some (Utf8Symbol [])))
            else se_map (\<lambda>s. Some (Utf8Symbol s)) (on_bus (read_utf8 ops width))))"

text \<open>The label of an enumeration value; \<open>None\<close> is the panic of an unknown string.\<close>

definition enum_label :: "type_arena \<Rightarrow> enum_type \<Rightarrow> i64 \<Rightarrow> string option option" where
  "enum_label a e v =
     (case label_for e v of
        None \<Rightarrow> Some None
      | Some i \<Rightarrow> map_option Some (resolve_string a i))"

definition read_base :: "'d device_ops \<Rightarrow> read_context \<Rightarrow> scalar_type \<Rightarrow> ('d, i64) access" where
  "read_base ops c s =
     se_bind (on_bus (view_jump (rc_field_address c))) (\<lambda>u.
       let width = unat (st_byte_size s) in
       if width = 0 then se_lift (Inr 0) else on_bus (read_signed_bits ops 0 (width * 8)))"

definition read_fixed :: "'d device_ops \<Rightarrow> read_context \<Rightarrow> fixed_scalar \<Rightarrow> ('d, symbol_value option) access" where
  "read_fixed ops c x =
     se_map (\<lambda>raw. Some (FloatSymbol (FixedPoint raw (fx_scale x) (fx_offset x))))
       (read_base ops c (fx_base x))"

definition read_pointer :: "'d device_ops \<Rightarrow> read_context \<Rightarrow> pointer_type \<Rightarrow> ('d, symbol_value option) access" where
  "read_pointer ops c p =
     se_bind (on_bus (view_jump (rc_field_address c))) (\<lambda>u.
       let hint = (case rc_size_hint c of None \<Rightarrow> pt_byte_size p | Some n \<Rightarrow> n);
           width = unat (max (pt_byte_size p) hint) in
       if width > 8 then se_lift (Inr None)
       else se_map (\<lambda>v. Some (UnsignedSymbol v))
              (if width = 0 then se_lift (Inr 0) else on_bus (read_unsigned ops 0 (width * 8))))"

definition bitfield_value :: "bitfield_spec \<Rightarrow> u64 \<Rightarrow> symbol_value" where
  "bitfield_value b container_bits =
     (let (raw, actual_width) = bf_read_bits b container_bits in
      if is_signed b then
        (let shift = unat (64 - actual_width) in SignedSymbol (sar (shl raw shift) shift))
      else UnsignedSymbol raw)"

definition read_bitfield :: "'d device_ops \<Rightarrow> read_context \<Rightarrow> bitfield_spec \<Rightarrow> ('d, symbol_value option) access" where
  "read_bitfield ops c b =
     (case rc_entry c of
        None \<Rightarrow> se_lift (Inl (UnsupportedTraversal ''bitfield requires symbol walk entry''))
      | Some entry \<Rightarrow>
          let width = total_width b in
          if width = 0 then se_lift (Inr (Some (UnsignedSymbol 0)))
          else if width > 64 then se_lift (Inl (UnsupportedTraversal ''bitfield wider than 64 bits''))
          else
            se_map (\<lambda>bits. Some (bitfield_value b bits))
              (case bit_span b of
                 None \<Rightarrow> se_lift (Inr 0)
               | Some (min_bit, max_bit) \<Rightarrow>
                   let entry_bit_base = we_offset_bits entry;
                       aligned_bit_base = entry_bit_base AND NOT 7;
                       bit_offset = ucast (entry_bit_base - aligned_bit_base);
                       byte_address = rc_symbol_base c + aligned_bit_base div 8
                   in se_bind (on_bus (view_jump byte_address)) (\<lambda>u.
                        on_bus (read_unsigned ops bit_offset (unat max_bit)))))"

definition read_type_record ::
    "'d device_ops \<Rightarrow> read_context \<Rightarrow> type_record \<Rightarrow> 'd view \<Rightarrow>
     ((symbol_access_error + symbol_value option) \<times> 'd view) option" where
  "read_type_record ops c r v =
     (case r of
        ScalarRec s \<Rightarrow> Some (read_scalar ops c s v)
      | EnumRec e \<Rightarrow>
          (case read_base ops c (et_base e) v of
             (Inl err, v') \<Rightarrow> Some (Inl err, v')
           | (Inr n, v') \<Rightarrow>
               map_option (\<lambda>label. (Inr (Some (EnumSymbol label n)), v')) (enum_label (rc_arena c) e n))
      | FixedRec x \<Rightarrow> Some (read_fixed ops c x v)
      | PointerRec p \<Rightarrow> Some (read_pointer ops c p v)
      | BitFieldRec b \<Rightarrow> Some (read_bitfield ops c b v)
      | _ \<Rightarrow> Some (Inr None, v))"

section \<open>The symbol handle\<close>

definition resolve_symbol_label :: "symbol_table \<Rightarrow> string \<Rightarrow> symbol_handle option" where
  "resolve_symbol_label t label =
     Option.bind (lookup_label t label) (\<lambda>i.
     Option.bind (handles_by_label t i) (\<lambda>handles. nth_opt handles 0))"

definition resolve_symbol_id :: "symbol_table \<Rightarrow> symbol_id \<Rightarrow> symbol_handle option" where
  "resolve_symbol_id t i = handle_by_symbol_id t i"

record snapshot_of =
  sn_record :: symbol_record
  sn_address :: u64
  sn_size :: u32

definition symbol_address :: "symbol_record \<Rightarrow> u64 option" where
  "symbol_address r = (case sym_runtime_addr r of Some a \<Rightarrow> Some a | None \<Rightarrow> sym_file_addr r)"

definition symbol_size :: "symbol_table \<Rightarrow> symbol_record \<Rightarrow> u32 option option" where
  "symbol_size t r =
     (case sym_size r of
        Some n \<Rightarrow> Some (Some n)
      | None \<Rightarrow> (case sym_type r of None \<Rightarrow> Some None | Some ty \<Rightarrow> type_size (tb_types t) ty))"

definition prepare :: "symbol_table \<Rightarrow> symbol_handle \<Rightarrow> (symbol_access_error + snapshot_of) option" where
  "prepare t h =
     Option.bind (table_get t h) (\<lambda>r.
     Option.bind (resolve_label t (sym_label r)) (\<lambda>label.
       case symbol_address r of
         None \<Rightarrow> Some (Inl (MissingAddress label))
       | Some address \<Rightarrow>
           Option.bind (symbol_size t r) (\<lambda>n.
             case n of
               None \<Rightarrow> Some (Inl (MissingSize label))
             | Some size_bytes \<Rightarrow>
                 Some (Inr \<lparr>sn_record = r, sn_address = address, sn_size = size_bytes\<rparr>))))"

definition read_symbol_bytes :: "'d device_ops \<Rightarrow> snapshot_of \<Rightarrow> ('d, u8 list) access" where
  "read_symbol_bytes ops s =
     se_bind (on_bus (view_jump (sn_address s))) (\<lambda>u.
       on_bus (stream_read_exact ops (unat (sn_size s))))"

definition interpret_type_at ::
    "'d device_ops \<Rightarrow> type_arena \<Rightarrow> type_id \<Rightarrow> u64 \<Rightarrow> u32 option \<Rightarrow> 'd view \<Rightarrow>
     ((symbol_access_error + symbol_value option) \<times> 'd view) option" where
  "interpret_type_at ops a ty address hint v =
     Option.bind (arena_get a ty) (\<lambda>r.
       read_type_record ops
         \<lparr>rc_arena = a, rc_entry = None, rc_field_address = address, rc_symbol_base = address,
          rc_size_hint = hint\<rparr> r v)"

definition interpret_value ::
    "'d device_ops \<Rightarrow> type_arena \<Rightarrow> snapshot_of \<Rightarrow> 'd view \<Rightarrow>
     ((symbol_access_error + symbol_value option) \<times> 'd view) option" where
  "interpret_value ops a s v =
     (case sym_type (sn_record s) of
        None \<Rightarrow> Some (Inr None, v)
      | Some ty \<Rightarrow> interpret_type_at ops a ty (sn_address s) (Some (sn_size s)) v)"

definition read_symbol_value ::
    "'d device_ops \<Rightarrow> symbol_table \<Rightarrow> symbol_handle \<Rightarrow> 'd view \<Rightarrow>
     ((symbol_access_error + symbol_value) \<times> 'd view) option" where
  "read_symbol_value ops t h v =
     Option.bind (prepare t h) (\<lambda>p.
       case p of
         Inl e \<Rightarrow> Some (Inl e, v)
       | Inr s \<Rightarrow>
           map_option (\<lambda>(r, v').
             case r of
               Inl e \<Rightarrow> (Inl e, v')
             | Inr (Some x) \<Rightarrow> (Inr x, v')
             | Inr None \<Rightarrow> se_map BytesSymbol (read_symbol_bytes ops s) v')
             (interpret_value ops (tb_types t) s v))"

definition read_raw_bytes ::
    "'d device_ops \<Rightarrow> symbol_table \<Rightarrow> symbol_handle \<Rightarrow> 'd view \<Rightarrow>
     ((symbol_access_error + u8 list) \<times> 'd view) option" where
  "read_raw_bytes ops t h v =
     map_option (\<lambda>p. se_bind (se_lift p) (read_symbol_bytes ops) v) (prepare t h)"

section \<open>The value cursor\<close>

record value_cursor =
  vc_snapshot :: snapshot_of
  vc_walker :: "walk_frame list"

record symbol_walk_read =
  wr_entry :: symbol_walk_entry
  wr_value :: symbol_value
  wr_address :: u64

definition value_cursor_of :: "symbol_table \<Rightarrow> symbol_handle \<Rightarrow> (symbol_access_error + value_cursor) option" where
  "value_cursor_of t h =
     Option.bind (prepare t h) (\<lambda>p.
       case p of
         Inl e \<Rightarrow> Some (Inl e)
       | Inr s \<Rightarrow>
           (case sym_type (sn_record s) of
              None \<Rightarrow>
                map_option (\<lambda>label. Inl (UnsupportedTraversal label)) (resolve_label t (sym_label (sn_record s)))
            | Some ty \<Rightarrow> Some (Inr \<lparr>vc_snapshot = s, vc_walker = symbol_walker_new ty\<rparr>)))"

definition read_entry_value ::
    "'d device_ops \<Rightarrow> symbol_table \<Rightarrow> snapshot_of \<Rightarrow> symbol_walk_entry \<Rightarrow> u64 \<Rightarrow> 'd view \<Rightarrow>
     ((symbol_access_error + symbol_value) \<times> 'd view) option" where
  "read_entry_value ops t s entry address v =
     Option.bind (arena_get (tb_types t) (we_ty entry)) (\<lambda>r.
     Option.bind (read_type_record ops
         \<lparr>rc_arena = tb_types t, rc_entry = Some entry, rc_field_address = address,
          rc_symbol_base = sn_address s, rc_size_hint = Some (entry_byte_len entry)\<rparr> r v) (\<lambda>(x, v').
       case x of
         Inl e \<Rightarrow> Some (Inl e, v')
       | Inr (Some value) \<Rightarrow> Some (Inr value, v')
       | Inr None \<Rightarrow>
           map_option (\<lambda>label. (Inl (UnsupportedTraversal label), v'))
             (resolve_label t (sym_label (sn_record s)))))"

definition as_bitfield :: "type_record \<Rightarrow> bitfield_spec option" where
  "as_bitfield r = (case r of BitFieldRec b \<Rightarrow> Some b | _ \<Rightarrow> None)"

definition entry_address :: "snapshot_of \<Rightarrow> symbol_walk_entry \<Rightarrow> type_record \<Rightarrow> u64" where
  "entry_address s entry r =
     (case Option.bind (as_bitfield r) bit_span of
        Some (min_offset, hi) \<Rightarrow> sn_address s + (we_offset_bits entry + ucast min_offset) div 8
      | None \<Rightarrow> sn_address s + we_offset_bits entry div 8)"

text \<open>A primitive value that does not start at a byte is skipped unless it is a bit field.\<close>

partial_function (option) try_next ::
    "'d device_ops \<Rightarrow> symbol_table \<Rightarrow> snapshot_of \<Rightarrow> walk_frame list \<Rightarrow> 'd view \<Rightarrow>
     ((symbol_access_error + symbol_walk_read option) \<times> walk_frame list \<times> 'd view) option" where
  "try_next ops t s stack v =
     Option.bind (symbol_next (tb_types t) stack) (\<lambda>(e, stack').
       case e of
         None \<Rightarrow> Some (Inr None, stack', v)
       | Some entry \<Rightarrow>
           Option.bind (arena_get (tb_types t) (we_ty entry)) (\<lambda>r.
             if we_offset_bits entry mod 8 \<noteq> 0 \<and> as_bitfield r = None
             then try_next ops t s stack' v
             else
               Option.bind (read_entry_value ops t s entry (entry_address s entry r) v) (\<lambda>(x, v').
                 Some (case x of
                         Inl err \<Rightarrow> (Inl err, stack', v')
                       | Inr value \<Rightarrow>
                           (Inr (Some \<lparr>wr_entry = entry, wr_value = value,
                                       wr_address = entry_address s entry r\<rparr>), stack', v')))))"

definition cursor_next_value ::
    "'d device_ops \<Rightarrow> symbol_table \<Rightarrow> value_cursor \<Rightarrow> 'd view \<Rightarrow>
     ((symbol_access_error + symbol_walk_read option) \<times> value_cursor \<times> 'd view) option" where
  "cursor_next_value ops t c v =
     map_option (\<lambda>(r, stack, v'). (r, c\<lparr>vc_walker := stack\<rparr>, v'))
       (try_next ops t (vc_snapshot c) (vc_walker c) v)"

definition cursor_deref ::
    "'d device_ops \<Rightarrow> symbol_table \<Rightarrow> value_cursor \<Rightarrow> symbol_walk_read \<Rightarrow> 'd view \<Rightarrow>
     ((symbol_access_error + symbol_value option) \<times> 'd view) option" where
  "cursor_deref ops t c p v =
     (case (we_kind (wr_entry p), wr_value p) of
        (PointerValue bytes target, UnsignedSymbol address) \<Rightarrow>
          interpret_type_at ops (tb_types t) target address None v
      | _ \<Rightarrow>
          map_option (\<lambda>label. (Inl (UnsupportedTraversal label), v))
            (resolve_label t (sym_label (sn_record (vc_snapshot c)))))"

definition cursor_write_bytes ::
    "'d device_ops \<Rightarrow> value_cursor \<Rightarrow> symbol_walk_entry \<Rightarrow> u8 list \<Rightarrow> ('d, unit) access" where
  "cursor_write_bytes ops c entry data =
     (if unat (entry_byte_len entry) \<noteq> length data
      then se_lift (Inl (AccessBus (DeviceFault ''symbol''
             (FaultInvalidInput ''byte slice length does not match field width''))))
      else
        se_bind (on_bus (view_jump (sn_address (vc_snapshot c) + we_offset_bits entry div 8))) (\<lambda>u.
          on_bus (write_bytes ops data)))"

end
