(* ===== verification/SymbolBusFacts.thy ===== *)
theory SymbolBusFacts
  imports SymbolBus BusExtFacts
begin

text \<open>
  The value of a symbol is the number its bytes spell on the bus: facts about the integers of a
  positioned handle, the value of a scalar symbol and of an enumeration, and what a write through the
  value cursor changes.
\<close>

section \<open>Little-endian numbers\<close>

fun le_number :: "u8 list \<Rightarrow> nat" where
  "le_number [] = 0"
| "le_number (b # bs) = unat b + 256 * le_number bs"

lemma bit_le_number: "bit (le_number bs) i \<longleftrightarrow> i < 8 * length bs \<and> mem_bit bs i"
proof (induction bs arbitrary: i)
  case (Cons b bs)
  have "256 * le_number bs = push_bit 8 (le_number bs)" by (simp add: push_bit_eq_mult)
  moreover have "unat b + push_bit 8 (le_number bs) = unat b OR push_bit 8 (le_number bs)"
    by (rule disjunctive_add_eq_or) (auto simp: bit_eq_iff bit_simps dest: bit_imp_le_length)
  ultimately have "unat b + 256 * le_number bs = unat b OR push_bit 8 (le_number bs)" by simp
  then have b: "bit (le_number (b # bs)) i \<longleftrightarrow> bit b i \<or> 8 \<le> i \<and> bit (le_number bs) (i - 8)"
    by (auto simp: bit_simps)
  show ?case
  proof (cases "i < 8")
    case False
    then obtain j where j: "i = 8 + j" by (metis le_Suc_ex not_less)
    have "(8 + j) div 8 = Suc (j div 8)" "(8 + j) mod 8 = j mod 8" by simp_all
    then have "mem_bit (b # bs) i \<longleftrightarrow> mem_bit bs j" unfolding mem_bit_def j by (simp only:) simp
    moreover have "\<not> bit b i" using j by (auto dest: bit_imp_le_length)
    ultimately show ?thesis using b Cons.IH [of j] j by auto
  qed (use b in \<open>auto simp: mem_bit_def\<close>)
qed simp

lemma le_number_less: "le_number bs < 2 ^ (8 * length bs)"
proof (induction bs)
  case (Cons b bs)
  have "unat b < 256" using unsigned_less [of b, where 'a = nat] by simp
  moreover have "le_number bs + 1 \<le> 2 ^ (8 * length bs)" using Cons.IH by simp
  ultimately have "unat b + 256 * le_number bs < 256 * 2 ^ (8 * length bs)" by linarith
  then show ?case by (simp add: power_add)
qed simp

text \<open>The two's complement reading of a number of \<open>n\<close> bits.\<close>

definition signed_reading :: "nat \<Rightarrow> nat \<Rightarrow> int" where
  "signed_reading n x = (if x < 2 ^ (n - 1) then int x else int x - 2 ^ n)"

lemma sint_sign_extend:
  assumes "0 < n" and "n \<le> 64" and "unat v < 2 ^ n"
  shows "sint (sign_extend v n) = signed_reading n (unat v)"
proof -
  have "sign_extend v n = signed_take_bit (n - 1) v"
    using assms(1,2) sar_shl [of n v] by (simp add: sign_extend_def Let_def)
  then have "sint (sign_extend v n) = signed_take_bit (n - 1) (uint v)"
    using assms(1,2) by (simp add: sint_signed_take_bit)
  also have "\<dots> = take_bit n (uint v) - 2 ^ n * of_bool (bit (uint v) (n - 1))"
    using assms(1) by (simp add: signed_take_bit_eq_take_bit_minus)
  also have "take_bit n (uint v) = int (unat v)"
    using assms(3) by (simp add: take_bit_int_eq_self flip: uint_nat unat_less_power)
  also have "bit (uint v) (n - 1) \<longleftrightarrow> \<not> unat v < 2 ^ (n - 1)"
  proof -
    have "bit (unat v) (n - 1) \<longleftrightarrow> odd (unat v div 2 ^ (n - 1))" by (simp add: bit_iff_odd)
    moreover have "unat v div 2 ^ (n - 1) < 2"
      using assms(1,3) by (simp add: less_mult_imp_div_less flip: power_Suc)
    ultimately have "bit (unat v) (n - 1) \<longleftrightarrow> unat v div 2 ^ (n - 1) \<noteq> 0"
      by (metis One_nat_def even_zero less_2_cases odd_one)
    then show ?thesis by (simp add: div_eq_0_iff bit_unsigned_iff)
  qed
  finally show ?thesis by (simp add: signed_reading_def)
qed

section \<open>Integers on the bus\<close>

lemma width_word: "w \<le> 8 \<Longrightarrow> unat (of_nat (8 * w) :: u16) = 8 * w"
  unfolding unat_of_nat by simp

lemma access_length:
  assumes "slice_fits bs off 0 (of_nat (8 * w))" and "w \<le> 8"
  shows "unat off + w \<le> length bs"
proof -
  note n = width_word [OF assms(2)]
  then have "8 * (unat off mod 8) + 8 * w \<le> 64 * word_count_for off 0 (of_nat (8 * w))"
    and "8 * (unat off div 8) + 8 * word_count_for off 0 (of_nat (8 * w)) \<le> length bs"
    using assms by (auto simp: slice_fits_def intra_bits_def word_count_for_def)
  moreover have "unat off = 8 * (unat off div 8) + unat off mod 8" by simp
  ultimately show ?thesis by linarith
qed

lemma window_number:
  assumes "is_bits_at bs (8 * off) (8 * w) v" and "off + w \<le> length bs" and "w \<le> 8"
  shows "unat (ucast v :: u64) = le_number (take w (drop off bs))"
proof (rule bit_eqI)
  fix i
  have "bit (le_number (take w (drop off bs))) i \<longleftrightarrow> i < 8 * w \<and> mem_bit bs (8 * off + i)"
    using assms(2) mem_bit_window [OF assms(2), of i] by (auto simp: bit_le_number)
  moreover have "bit v i \<longleftrightarrow> i < 8 * w \<and> mem_bit bs (8 * off + i)"
    using assms(1) unfolding is_bits_at_def by blast
  moreover have "bit (unat (ucast v :: u64)) i \<longleftrightarrow> i < 64 \<and> bit v i"
    by (simp add: bit_unsigned_iff bit_ucast_iff)
  ultimately show "bit (unat (ucast v :: u64)) i \<longleftrightarrow> bit (le_number (take w (drop off bs))) i"
    using assms(3) by linarith
qed

context byte_device
begin

lemma read_unsigned_ok:
  assumes ok: "bit_access_ok bytes ops bus h ar 0 (of_nat (8 * w))" and w: "0 < w" "w \<le> 8"
  obtains v h' where "read_unsigned ops 0 (8 * w) (bus, h) = (Inr v, (bus, h'))"
    "unat v = le_number (take w (drop (unat (ar_device_offset ar))
       (bytes (bus_devices bus ! rr_device_id (ar_resolved ar)))))"
proof -
  let ?bs = "bytes (bus_devices bus ! rr_device_id (ar_resolved ar))"
  note n = width_word [OF w(2)]
  then have "of_nat (8 * w) \<noteq> (0 :: u16)" using w by (metis mult_is_0 neq0_conv unat_0 zero_neq_numeral)
  from read_bits_Little [OF ok this] obtain v c' where r:
      "read_bits ops bus h 0 (of_nat (8 * w)) =
        (Inr v, bus, \<lparr>dh_address = moved (dh_address h) ar (bits_to_bytes 0 (of_nat (8 * w))), dh_cache = c'\<rparr>)"
      "is_bits_at ?bs (access_bit ar 0) (unat (of_nat (8 * w) :: u16)) v"
    by blast
  have "unat (ar_device_offset ar) + w \<le> length ?bs"
    using ok w(2) by (intro access_length) (simp_all add: bit_access_ok_def)
  then have "unat (ucast v :: u64) = le_number (take w (drop (unat (ar_device_offset ar)) ?bs))"
    using r(2) w(2) unfolding n by (intro window_number) (simp_all add: access_bit_def)
  moreover have "ensure_width (8 * w) = Inr ()" using w by (simp add: ensure_width_def)
  ultimately show thesis
    using r(1) that
    by (simp add: read_unsigned_def se_map_def se_bind_def view_bits_def mult.commute [of w])
qed

lemma read_signed_ok:
  assumes ok: "bit_access_ok bytes ops bus h ar 0 (of_nat (8 * w))" and w: "0 < w" "w \<le> 8"
  obtains v h' where "read_signed_bits ops 0 (8 * w) (bus, h) = (Inr v, (bus, h'))"
    "sint v = signed_reading (8 * w) (le_number (take w (drop (unat (ar_device_offset ar))
       (bytes (bus_devices bus ! rr_device_id (ar_resolved ar))))))"
proof -
  let ?bs = "take w (drop (unat (ar_device_offset ar)) (bytes (bus_devices bus ! rr_device_id (ar_resolved ar))))"
  obtain v h' where r: "read_unsigned ops 0 (8 * w) (bus, h) = (Inr v, (bus, h'))"
    "unat v = le_number ?bs"
    using read_unsigned_ok [OF assms] .
  have "8 * length ?bs \<le> 8 * w" by simp
  then have "unat v < 2 ^ (8 * w)"
    using r(2) le_number_less [of ?bs] by (metis less_le_trans one_le_numeral power_increasing)
  then have "sint (sign_extend v (8 * w)) = signed_reading (8 * w) (le_number ?bs)"
    using w r(2) by (simp add: sint_sign_extend)
  then show thesis
    using r(1) that by (simp add: read_signed_bits_def se_map_def se_bind_def)
qed

end

section \<open>Values of symbols\<close>


text \<open>A signed word of four bytes named \<open>rpm\<close> at address 3 of the demonstration memory.\<close>

definition rpm_record :: symbol_record where
  "rpm_record = (symbol_record_new 0)\<lparr>sym_type := Some 0, sym_runtime_addr := Some 3\<rparr>"

definition rpm_table :: symbol_table where
  "rpm_table =
     \<lparr>tb_types = walk_arena, tb_records = [rpm_record], tb_by_label = [0 \<mapsto> [0]],
      tb_by_symbol_id = (\<lambda>i. None), tb_labels = \<lparr>sp_values = [''rpm''], sp_lookup = [''rpm'' \<mapsto> 0]\<rparr>\<rparr>"

lemma rpm_prepared:
  "prepare rpm_table 0 = Some (Inr \<lparr>sn_record = rpm_record, sn_address = 3, sn_size = 4\<rparr>)"
  by (simp add: prepare_def rpm_table_def table_get_def resolve_label_def pool_resolve_def
      rpm_record_def symbol_record_new_def symbol_fields_default_def symbol_fields.defs
      symbol_record.defs symbol_address_def symbol_size_def type_size_def arena_get_def walk_arena_def)


section \<open>Enumerations and writes\<close>

text \<open>An enumeration reads its base as a signed number whatever its encoding is: a label declared for
  a value with the top bit of an unsigned base is never found.\<close>

lemma enum_reads_signed:
  assumes "jump bus (dh_address d) a = (Inr (), ah)" and "rc_field_address c = a"
    and "unat (st_byte_size (et_base e)) = w" and "0 < w" and "w \<le> 8"
    and "bit_access_ok mem_bytes memory_ops bus (d\<lparr>dh_address := ah\<rparr>) ar 0 (of_nat (8 * w))"
    and "n = le_number (take w (drop (unat (ar_device_offset ar))
           (mem_bytes (bus_devices bus ! rr_device_id (ar_resolved ar)))))"
  obtains i d' where "sint i = signed_reading (8 * w) n"
    "read_type_record memory_ops c (EnumRec e) (bus, d) =
       map_option (\<lambda>label. (Inr (Some (EnumSymbol label i)), (bus, d'))) (enum_label (rc_arena c) e i)"
proof -
  obtain i h' where r: "read_signed_bits memory_ops 0 (8 * w) (bus, d\<lparr>dh_address := ah\<rparr>) = (Inr i, (bus, h'))"
    "sint i = signed_reading (8 * w) n"
    using mem.read_signed_ok [OF assms(6,4,5)] assms(7) by metis
  have "read_base memory_ops c (et_base e) (bus, d) = (Inr i, (bus, h'))"
    using assms(1-4) r(1)
    by (simp add: read_base_def se_bind_def on_bus_def view_jump_def mult.commute [of w])
  then show thesis using that r(2) by (simp add: read_type_record_def)
qed

text \<open>A write through the value cursor overwrites the whole bytes at the byte offset of the entry, the
  neighbours of a bit field that shares them included.\<close>

lemma cursor_write_whole_bytes:
  assumes "unat (entry_byte_len entry) = length data"
    and "jump bus (dh_address d) (sn_address (vc_snapshot c) + we_offset_bits entry div 8) = (Inr (), ah)"
    and "span_ok mem_bytes bus (d\<lparr>dh_address := ah\<rparr>) ar (length data)"
  obtains m d' where "cursor_write_bytes memory_ops c entry data (bus, d) =
      (Inr (), (bus\<lparr>bus_devices := (bus_devices bus)[rr_device_id (ar_resolved ar) := m]\<rparr>, d'))"
    "mem_bytes m = splice (mem_bytes (bus_devices bus ! rr_device_id (ar_resolved ar)))
       (unat (ar_device_offset ar)) data"
proof -
  have j: "jump bus (dh_address d) (sn_address (vc_snapshot c) + we_offset_bits entry div 8)
      = (Inr (), dh_address (d\<lparr>dh_address := ah\<rparr>))"
    using assms(2) by simp
  show thesis
  proof (rule mem.write_then_read_bytes_ok [OF assms(3) j refl])
    fix m h' h2 h3
    assume "write_bytes memory_ops data (bus, d\<lparr>dh_address := ah\<rparr>) =
        (Inr (), (bus\<lparr>bus_devices := (bus_devices bus)[rr_device_id (ar_resolved ar) := m]\<rparr>, h'))"
      and "mem_bytes m = splice (mem_bytes (bus_devices bus ! rr_device_id (ar_resolved ar)))
        (unat (ar_device_offset ar)) data"
    then show thesis
      using assms(1,2) that
      by (simp add: cursor_write_bytes_def se_bind_def on_bus_def view_jump_def)
  qed
qed

section \<open>The value cursor\<close>

text \<open>The leaves the cursor reads: those that start at a byte, and every bit field.\<close>

definition reads_leaf :: "type_arena \<Rightarrow> symbol_walk_entry \<Rightarrow> bool" where
  "reads_leaf a e \<longleftrightarrow>
     (case arena_get a (we_ty e) of
        None \<Rightarrow> True
      | Some r \<Rightarrow> we_offset_bits e mod 8 = 0 \<or> as_bitfield r \<noteq> None)"

definition read_leaf ::
    "'d device_ops \<Rightarrow> symbol_table \<Rightarrow> snapshot_of \<Rightarrow> symbol_walk_entry \<Rightarrow> 'd view \<Rightarrow>
     ((symbol_access_error + symbol_walk_read) \<times> 'd view) option" where
  "read_leaf ops t s e v =
     Option.bind (arena_get (tb_types t) (we_ty e)) (\<lambda>r.
       map_option (\<lambda>(x, v').
         (rbind x (\<lambda>value. Inr \<lparr>wr_entry = e, wr_value = value, wr_address = entry_address s e r\<rparr>), v'))
         (read_entry_value ops t s e (entry_address s e r) v))"

lemma symbol_walk_NilD:
  assumes "symbol_walk a st = Some []"
  obtains st' where "symbol_next a st = Some (None, st')"
  using assms
  by (subst (asm) symbol_walk.simps) (auto simp: bind_eq_Some_conv split: prod.splits option.splits)

lemma symbol_walk_ConsD:
  assumes "symbol_walk a st = Some (e # es)"
  obtains st' where "symbol_next a st = Some (Some e, st')" "symbol_walk a st' = Some es"
  using assms
  by (subst (asm) symbol_walk.simps) (auto simp: bind_eq_Some_conv split: prod.splits option.splits)

text \<open>C18: The value cursor reads exactly the leaves of the walk that start at a byte or are bit fields,
  in the order of the walk: a step passes over the leaves before the next such leaf, returns what
  reading that leaf gives (its error included) and leaves the rest of the walk for the next step; it
  reports the end when no such leaf is left, and then touches nothing.\<close>
theorem cursor_reads_leaves:
  assumes "symbol_walk (tb_types t) stack = Some es"
  shows "case dropWhile (\<lambda>e. \<not> reads_leaf (tb_types t) e) es of
      [] \<Rightarrow> \<exists>stack'. try_next ops t s stack v = Some (Inr None, stack', v)
    | e # rest \<Rightarrow> \<exists>stack'. symbol_walk (tb_types t) stack' = Some rest \<and>
        try_next ops t s stack v =
          map_option (\<lambda>(x, v'). (rbind x (\<lambda>r. Inr (Some r)), stack', v')) (read_leaf ops t s e v)"
  using assms
proof (induction es arbitrary: stack)
  case Nil
  then obtain stack' where "symbol_next (tb_types t) stack = Some (None, stack')"
    by (rule symbol_walk_NilD)
  then show ?case by (simp add: try_next.simps [of ops t s stack])
next
  case (Cons e es)
  then obtain stack' where nxt: "symbol_next (tb_types t) stack = Some (Some e, stack')"
    and rest: "symbol_walk (tb_types t) stack' = Some es"
    by (elim symbol_walk_ConsD)
  show ?case
  proof (cases "reads_leaf (tb_types t) e")
    case True
    have "try_next ops t s stack v =
        map_option (\<lambda>(x, v'). (rbind x (\<lambda>r. Inr (Some r)), stack', v')) (read_leaf ops t s e v)"
    proof (cases "arena_get (tb_types t) (we_ty e)")
      case (Some r)
      then have ne: "(we_offset_bits e mod 8 \<noteq> 0 \<and> as_bitfield r = None) = False"
        using True unfolding reads_leaf_def Some option.case by blast
      show ?thesis
        by (cases "read_entry_value ops t s e (entry_address s e r) v")
          (auto simp only: try_next.simps [of ops t s stack] nxt Some ne if_False bind.simps prod.case
            option.case option.map read_leaf_def rbind_def split: sum.split prod.split)
    qed (simp add: try_next.simps [of ops t s stack] nxt read_leaf_def)
    then show ?thesis using True rest by auto
  next
    case False
    then have same: "try_next ops t s stack v = try_next ops t s stack' v"
      by (simp add: try_next.simps [of ops t s stack] nxt reads_leaf_def split: option.splits)
    have skip: "dropWhile (\<lambda>e. \<not> reads_leaf (tb_types t) e) (e # es) =
        dropWhile (\<lambda>e. \<not> reads_leaf (tb_types t) e) es"
      using False by simp
    show ?thesis unfolding skip same by (rule Cons.IH [OF rest])
  qed
qed

theorem cursor_reads_leaves_witness:
  "\<exists>e stack'. we_kind e = SignedValue 4 \<and> symbol_walk walk_arena stack' = Some [] \<and>
     try_next memory_ops rpm_table \<lparr>sn_record = rpm_record, sn_address = 3, sn_size = 4\<rparr>
       (symbol_walker_new 0) (demo_bus, data_handle_new) =
     map_option (\<lambda>(x, v'). (rbind x (\<lambda>r. Inr (Some r)), stack', v'))
       (read_leaf memory_ops rpm_table \<lparr>sn_record = rpm_record, sn_address = 3, sn_size = 4\<rparr> e
          (demo_bus, data_handle_new))"
proof -
  let ?e = "\<lparr>we_ty = 0, we_path = [], we_offset_bits = 0, we_bit_len = 32, we_kind = SignedValue 4\<rparr>"
  have types: "tb_types rpm_table = walk_arena" by (simp add: rpm_table_def)
  have leaves: "type_leaves walk_arena \<lparr>wf_ty = 0, wf_offset_bits = 0, wf_path = []\<rparr> = [?e]" by code_simp
  have "symbol_walk walk_arena (symbol_walker_new 0) = Some [?e]"
    using symbol_walk_append [OF walk_arena_ranked,
        of "\<lparr>wf_ty = 0, wf_offset_bits = 0, wf_path = []\<rparr>" "[]"]
    unfolding leaves symbol_walk_Nil by (simp add: symbol_walker_new_def path_root_def walk_arena_def)
  then have w: "symbol_walk (tb_types rpm_table) (symbol_walker_new 0) = Some [?e]"
    by (simp only: types)
  have "reads_leaf walk_arena ?e"
    by (simp add: reads_leaf_def walk_arena_def arena_get_def)
  then show ?thesis
    using cursor_reads_leaves [OF w, of memory_ops "\<lparr>sn_record = rpm_record, sn_address = 3, sn_size = 4\<rparr>"
        "(demo_bus, data_handle_new)"]
    by (intro exI [of _ ?e]) (simp add: types)
qed

end
