(* ===== verification/ProgDisplay.thy ===== *)
theory ProgDisplay
  imports SymbolTable
begin

text \<open>
  The outside of the program descriptions: how identifiers wrap their numbers
  (\<open>src/soc/prog/symbols/id.rs\<close>, \<open>src/soc/prog/types/arena.rs\<close>), the fluent filters of a symbol query
  and what iterating over it yields (\<open>query.rs\<close>), and the texts of numbers and symbols
  (\<open>src/soc/prog/types/scalar.rs\<close>, \<open>src/soc/prog/types/fmt.rs\<close>, \<open>src/soc/prog/symbols/fmt.rs\<close>).
  The arena and the table name their entries by position; the lemmas of the first section give the
  size up to which this is exact.
\<close>

section \<open>Identifiers\<close>

text \<open>\<open>from_index\<close> of \<open>TypeId\<close>, \<open>StringId\<close> and \<open>LabelId\<close>: the index is cut to 32 bits, incremented and
  must not be zero; \<open>None\<close> is the panic.\<close>

definition nonzero_from_index :: "nat \<Rightarrow> u32 option" where
  "nonzero_from_index index =
     (let raw = of_nat index + 1 in if raw = 0 then None else Some raw)"

definition nonzero_index :: "u32 \<Rightarrow> nat" where
  "nonzero_index raw = unat (raw - 1)"

definition handle_from_index :: "nat \<Rightarrow> u32 option" where
  "handle_from_index index = (if index < 2 ^ 32 - 1 then Some (of_nat index) else None)"

definition handle_index :: "u32 \<Rightarrow> nat" where
  "handle_index raw = unat raw"

definition symbol_id_from_u64 :: "u64 \<Rightarrow> symbol_id option" where
  "symbol_id_from_u64 v = (if v = 0 then None else Some v)"

definition symbol_id_text :: "symbol_id \<Rightarrow> string" where
  "symbol_id_text i = ''#'' @ dec (unat i)"

lemma nonzero_from_index_exact:
  assumes "index < 2 ^ 32 - 1"
  shows "\<exists>raw. nonzero_from_index index = Some raw \<and> nonzero_index raw = index"
proof -
  have "unat (of_nat index + 1 :: u32) = index + 1"
    using assms by (simp add: unat_word_ariths unat_of_nat)
  then have "(of_nat index + 1 :: u32) \<noteq> 0" by (metis add_is_0 one_neq_zero unat_0)
  moreover have "unat (of_nat index :: u32) = index" using assms by (simp add: unat_of_nat)
  ultimately show ?thesis by (simp add: nonzero_from_index_def nonzero_index_def Let_def)
qed

lemma nonzero_from_index_wraps: "nonzero_from_index (2 ^ 32) = nonzero_from_index 0"
  by (simp add: nonzero_from_index_def)

lemma handle_from_index_exact:
  "handle_from_index index = Some raw \<Longrightarrow> handle_index raw = index"
  by (auto simp: handle_from_index_def handle_index_def unat_of_nat split: if_splits)

section \<open>Queries\<close>

definition table_query :: "symbol_table \<Rightarrow> symbol_query" where
  "table_query t = query_new t"

definition query_binding :: "symbol_binding \<Rightarrow> symbol_query \<Rightarrow> symbol_query" where
  "query_binding b q = q\<lparr>sq_binding := Some b\<rparr>"

definition query_label :: "label_id \<Rightarrow> symbol_query \<Rightarrow> symbol_query" where
  "query_label l q = q\<lparr>sq_label := Some l\<rparr>"

definition query_source :: "symbol_source \<Rightarrow> symbol_query \<Rightarrow> symbol_query" where
  "query_source s q = q\<lparr>sq_source := Some s\<rparr>"

definition query_runtime_addr :: "u64 \<Rightarrow> symbol_query \<Rightarrow> symbol_query" where
  "query_runtime_addr a q = q\<lparr>sq_runtime_addr := Some a\<rparr>"

definition query_file_addr :: "u64 \<Rightarrow> symbol_query \<Rightarrow> symbol_query" where
  "query_file_addr a q = q\<lparr>sq_file_addr := Some a\<rparr>"

text \<open>\<open>query.iter()\<close> run to its end from an index.\<close>

function query_iter :: "symbol_query \<Rightarrow> nat \<Rightarrow> (symbol_handle \<times> symbol_record) list" where
  "query_iter q i =
     (case query_next q i of
        (None, j) \<Rightarrow> []
      | (Some hr, j) \<Rightarrow> hr # query_iter q j)"
  by pat_completeness auto
termination
proof (relation "measure (\<lambda>(q, i). length (tb_records (sq_table q)) - i)")
  fix q i res j hr assume "(res, j) = query_next q i" and "res = Some hr"
  then have n: "(Some hr, j) = query_next q i" by simp
  obtain h r where hr: "hr = (h, r)" by (cases hr)
  note f = query_next_from [OF n [symmetric, unfolded hr]]
  show "((q, j), q, i) \<in> measure (\<lambda>(q, i). length (tb_records (sq_table q)) - i)"
    using f(1,2,4) by (auto simp: table_get_def split: if_splits)
qed simp

declare query_iter.simps [simp del]

definition matching :: "symbol_query \<Rightarrow> nat list \<Rightarrow> (symbol_handle \<times> symbol_record) list" where
  "matching q hs =
     filter (\<lambda>(h, r). query_matches q r) (map (\<lambda>h. (h, tb_records (sq_table q) ! h)) hs)"

lemma query_next_None: "query_next q i = (None, j) \<Longrightarrow> matching q [i..<length (tb_records (sq_table q))] = []"
proof (induction q i rule: query_next.induct)
  case (1 q i)
  show ?case
  proof (cases "length (tb_records (sq_table q)) \<le> i")
    case False
    then have "\<not> query_matches q (tb_records (sq_table q) ! i)" "query_next q (i + 1) = (None, j)"
      using "1.prems" by (auto simp: query_next.simps [of q i] Let_def split: if_splits)
    with "1.IH" [OF False refl] False show ?thesis by (simp add: matching_def upt_rec [of i])
  qed (simp add: matching_def)
qed

lemma query_next_Some:
  assumes "query_next q i = (Some hr, j)"
  shows "matching q [i..<length (tb_records (sq_table q))] =
    hr # matching q [j..<length (tb_records (sq_table q))]"
proof -
  let ?n = "length (tb_records (sq_table q))"
  obtain h r where hr: "hr = (h, r)" by (cases hr)
  note f = query_next_from [OF assms [unfolded hr]]
  have h: "h < ?n" "r = tb_records (sq_table q) ! h" using f(2) by (auto simp: table_get_def split: if_splits)
  have "[i..<?n] = [i..<h] @ [h..<?n]" using f(1) h(1) upt_add_eq_append [of i h "?n - h"] by simp
  then have "[i..<?n] = [i..<h] @ h # [j..<?n]" using f(4) h(1) by (simp add: upt_conv_Cons)
  then show ?thesis using f(3,5) h(2) by (simp add: matching_def hr filter_empty_conv)
qed

text \<open>Iterating over a query yields exactly the records that satisfy every filter set, once each and in
  the order of their handles.\<close>

theorem query_lists_matches:
  "query_iter q 0 = matching q [0..<length (tb_records (sq_table q))]"
proof -
  have "query_iter q i = matching q [i..<length (tb_records (sq_table q))]" for i
  proof (induction q i rule: query_iter.induct)
    case (1 q i)
    show ?case
    proof (cases "query_next q i")
      case (Pair res j)
      then show ?thesis
        using "1" [OF Pair [symmetric]] query_next_None [of q i j] query_next_Some [of q i _ j]
        by (cases res) (simp_all add: query_iter.simps [of q i])
    qed
  qed
  then show ?thesis .
qed

section \<open>Texts of numbers\<close>

text \<open>\<open>format!("0x{value:0width$x}")\<close>.\<close>

definition format_hex :: "u64 \<Rightarrow> nat \<Rightarrow> string" where
  "format_hex v width = ''0x'' @ pad_left CHR ''0'' width (lower_hex (unat v))"

definition format_dot :: "u8 list \<Rightarrow> string" where
  "format_dot bytes = join ''.'' (map (\<lambda>b. dec (unat b)) bytes)"

text \<open>The shift by \<open>idx * 8\<close>, a \<open>u32\<close>, wraps as in a release build: past eight bytes the digits
  repeat (a debug build panics).\<close>

definition dot_parts :: "u64 \<Rightarrow> u32 \<Rightarrow> u8 list" where
  "dot_parts v byte_size =
     map (\<lambda>idx. ucast (shr v (unat (of_nat idx * 8 :: u32)) AND 0xFF)) (rev [0..<unat byte_size])"

definition format_dot_notation :: "u64 \<Rightarrow> u32 \<Rightarrow> string" where
  "format_dot_notation v byte_size =
     join ''.'' (map (\<lambda>byte. dec (unat byte)) (dot_parts v byte_size))"

definition format_unsigned :: "scalar_type \<Rightarrow> u64 \<Rightarrow> string" where
  "format_unsigned s v =
     (case st_display s of
        HexFormat \<Rightarrow> ''0x'' @ pad_left CHR ''0'' (unat (st_byte_size s * 2)) (lower_hex (unat v))
      | DotNotation \<Rightarrow> format_dot_notation v (st_byte_size s)
      | _ \<Rightarrow> dec (unat v))"

lemma unat_index_times_8: "idx < 2 ^ 29 \<Longrightarrow> unat (of_nat idx * 8 :: u32) = idx * 8"
  by (simp add: unat_word_ariths unat_of_nat)

lemma dot_parts_from_le_bytes:
  assumes "unat n \<le> 8"
  shows "from_le_bytes (rev (dot_parts v n)) = ucast v AND mask (8 * unat n)"
proof (rule bit_word_eqI)
  fix i assume "i < LENGTH(128)"
  have "rev (dot_parts v n) = map (\<lambda>idx. ucast (shr v (idx * 8) AND mask 8)) [0..<unat n]"
    unfolding dot_parts_def rev_map rev_rev_ident
    using assms by (intro map_cong refl) (simp add: unat_index_times_8 mask_eq_decr_exp)
  moreover have "i div 8 < unat n \<Longrightarrow> (i div 8 * 8) mod 64 = i div 8 * 8" using assms by simp
  moreover have "i mod 8 < 8" and "i mod 8 < 64" by (simp_all add: order.strict_trans [of _ 8])
  moreover have "i div 8 * 8 + i mod 8 = i" by simp
  ultimately show "bit (from_le_bytes (rev (dot_parts v n))) i =
      bit (ucast v AND mask (8 * unat n) :: u128) i"
    using assms \<open>i < LENGTH(128)\<close>
    by (auto simp: bit_from_le_bytes bit_simps less_mult_imp_div_less mult.commute [of 8]
        div_less_iff_less_mult dest: bit_imp_le_length)
qed

lemma split_join_dots:
  assumes "\<And>s. s \<in> set ts \<Longrightarrow> CHR ''.'' \<notin> set s" and "ts \<noteq> []"
  shows "split_char CHR ''.'' (join ''.'' ts) = ts"
  using assms by (induction ts rule: join.induct [where P = "\<lambda>sep ts. _ ts"])
     (simp_all add: split_char_none split_char_append)

lemma dec_no_dot: "CHR ''.'' \<notin> set (dec n)"
  using to_radix_alnum [of 10 "CHR ''.''" n] by (auto simp: dec_def is_alnum_def)

text \<open>The dotted text of a number of at most eight bytes is that of its big-endian bytes: split at the
  dots and read in decimal, it gives the number back, cut to the size of the type.\<close>

theorem dot_notation_round_trip:
  assumes "st_display s = DotNotation" and "0 < st_byte_size s" and "st_byte_size s \<le> 8"
  shows "\<exists>bytes. map (digits_value 10 0) (split_char CHR ''.'' (format_unsigned s v)) =
      map (\<lambda>b. Some (unat b)) bytes \<and>
    bytes_value Big (bytes :: u8 list) = ucast v AND mask (8 * unat (st_byte_size s))"
proof (intro exI conjI)
  let ?n = "st_byte_size s" and ?bs = "dot_parts v (st_byte_size s)"
  have n: "0 < unat ?n" "unat ?n \<le> 8"
    using assms(2,3) by (simp_all add: word_less_nat_alt word_le_nat_alt)
  have "split_char CHR ''.'' (join ''.'' (map (\<lambda>b. dec (unat b)) ?bs)) = map (\<lambda>b. dec (unat b)) ?bs"
    using n(1) by (intro split_join_dots) (auto simp: dec_no_dot dot_parts_def)
  then show "map (digits_value 10 0) (split_char CHR ''.'' (format_unsigned s v)) =
      map (\<lambda>b. Some (unat b)) ?bs"
    by (simp add: format_unsigned_def assms(1) format_dot_notation_def dec_def digits_value_to_radix)
  show "bytes_value Big ?bs = ucast v AND mask (8 * unat ?n)"
    by (simp add: bytes_value_def dot_parts_from_le_bytes n(2))
qed

lemma dot_notation_example:
  "format_unsigned \<lparr>st_name = None, st_byte_size = 4, st_encoding = UnsignedEnc, st_display = DotNotation\<rparr>
     0xC0A80001 = ''192.168.0.1''"
  by code_simp

section \<open>Texts of symbols\<close>

definition kind_name :: "symbol_kind \<Rightarrow> string" where
  "kind_name k =
     (case k of
        ObjectSymbol \<Rightarrow> ''Object''
      | FunctionSymbol \<Rightarrow> ''Function''
      | SectionSymbol \<Rightarrow> ''Section''
      | MetadataSymbol \<Rightarrow> ''Metadata'')"

text \<open>\<open>None\<close> is the panic of a handle or a label outside the table.\<close>

definition describe_symbol :: "symbol_table \<Rightarrow> symbol_handle \<Rightarrow> string option" where
  "describe_symbol t h =
     Option.bind (table_get t h) (\<lambda>r.
     map_option (\<lambda>label.
       label @ '' | '' @ kind_name (sym_kind r) @
       (case sym_runtime_addr r of None \<Rightarrow> []
        | Some a \<Rightarrow> '' @0x'' @ pad_left CHR ''0'' 8 (upper_hex (unat a))) @
       (case sym_size r of None \<Rightarrow> []
        | Some n \<Rightarrow> '' ['' @ dec (unat n) @ '' bytes]''))
       (resolve_label t (sym_label r)))"

end
