(* ===== verification/Spec2Isabelle.thy ===== *)
theory Spec2Isabelle
  imports
    Prelude Strings Endian Device DeviceBus Address DataHandle CoreSpec CoreState Host
    BitField LiteralParser IsaError SemanticValue SemanticProgram Expression ExprTyping
    Lexer LexerFacts ProgramParser ProgramParserFacts TypeArena TypeLayout SymbolTable IsaAst StringMap
    MachineSpace RegisterSchema MachineDesc MachineDecode Assembly RegisterAccess
    Bindings Trace Runtime RuntimeFacts Analyzer MachineBuild MachineCore MachineCoreFacts Emulator
    SourcePath DocParser DocMembers DocDirectives Validator IsaBuild Loader DocFacts LoaderFacts
    MachineDecodeFacts AssemblyFacts Harness HarnessFacts
    SymbolWalk BusExt BusExtFacts BusHistory HostCalls SymbolBus SymbolBusFacts ProgDisplay
begin

text \<open>
  Verification library for the core of the embedded-systems emulator: the Rust crate under
  \<open>src/src/\<close> of the repository.  File names below are relative to \<open>src/src/\<close>.

  \<^bold>\<open>The program.\<close>  Instruction sets are described in \<open>.isa\<close> documents.  The loader reads a
  \<open>.coredef\<close> file with its includes, the lexer and the document parser turn each file into
  declarations, the validator checks them across files, and the machine builder makes from them a
  machine description: spaces, forms, instruction patterns, macros and the register schema.  From a
  machine a core layout is computed, and a core state is laid out for it on a private device bus.  The
  disassembler and the assembler translate between instruction words and text.  Every instruction may
  carry a semantic program; the interpreter runs it on the core state and on a host that provides
  arithmetic.  The harness decodes a block of bytes and runs the program of each instruction, with a
  trace.  Beside this stand the system bus with its devices, address cursors and typed views, and the
  type arena and symbol table of a debugged program, whose symbols are read through the bus.

  \<^bold>\<open>The theories, from the bottom up.\<close>

  \<^item> Foundations: \<open>Prelude\<close> (machine integers, errors as sums, the state-and-error plumbing, facts on
    words and lists), \<open>Strings\<close> (the Rust string functions the sources call), \<open>StringMap\<close>
    (\<open>BTreeMap\<close>), \<open>SourcePath\<close> (\<open>std::path::Path\<close>).

  \<^item> Devices and bus: \<open>Endian\<close> (\<open>soc/device/endianness.rs\<close>), \<open>Device\<close> (\<open>soc/device/device.rs\<close>,
    \<open>memory/basic.rs\<close>), \<open>DeviceBus\<close> (\<open>soc/system/bus/device_bus.rs\<close>, \<open>range.rs\<close>, \<open>error.rs\<close>),
    \<open>Address\<close> (\<open>address.rs\<close>), \<open>DataHandle\<close> (\<open>data.rs\<close>), \<open>BusExt\<close> and \<open>BusExtFacts\<close> (\<open>ext/\<close>),
    \<open>BusHistory\<close> (histories of a bus, aliases).

  \<^item> Cores: \<open>CoreSpec\<close> (\<open>soc/core/specification.rs\<close>), \<open>CoreState\<close> (\<open>soc/core/state.rs\<close>), \<open>MachineCore\<close>
    and \<open>MachineCoreFacts\<close> (the layout of a machine), \<open>Host\<close> (\<open>soc/isa/machine/host.rs\<close>),
    \<open>Harness\<close> and \<open>HarnessFacts\<close> (\<open>soc/core/harness.rs\<close>, \<open>soc/core/isa.rs\<close>, \<open>soc/isa/handle.rs\<close>).

  \<^item> Types and symbols: \<open>BitField\<close> (\<open>soc/prog/types/bitfield.rs\<close>), \<open>LiteralParser\<close> (\<open>literal.rs\<close>),
    \<open>TypeArena\<close> and \<open>TypeLayout\<close> (the rest of \<open>soc/prog/types/\<close>), \<open>SymbolTable\<close>, \<open>SymbolWalk\<close> and
    \<open>ProgDisplay\<close> (\<open>soc/prog/symbols/\<close>), \<open>SymbolBus\<close> and \<open>SymbolBusFacts\<close>
    (\<open>soc/system/bus/symbol/\<close>).

  \<^item> Documents: \<open>IsaError\<close> (\<open>soc/isa/error.rs\<close>, \<open>diagnostic.rs\<close>), \<open>IsaAst\<close> (\<open>soc/isa/ast.rs\<close>),
    \<open>IsaBuild\<close> (\<open>soc/isa/builder.rs\<close>), \<open>Lexer\<close> and \<open>LexerFacts\<close> (\<open>loader/isa/lexer.rs\<close>), \<open>DocParser\<close>,
    \<open>DocMembers\<close>, \<open>DocDirectives\<close> and \<open>DocFacts\<close> (\<open>loader/isa/parser/\<close>), \<open>Validator\<close>
    (\<open>soc/isa/validator/\<close>, \<open>space.rs\<close>, \<open>register.rs\<close>, \<open>logic.rs\<close>), \<open>Loader\<close> and \<open>LoaderFacts\<close>
    (\<open>loader/isa/loader.rs\<close>).

  \<^item> Machines: \<open>MachineSpace\<close>, \<open>RegisterSchema\<close>, \<open>MachineDesc\<close>, \<open>MachineDecode\<close>, \<open>Assembly\<close>,
    \<open>MachineBuild\<close> (\<open>soc/isa/machine/\<close>), \<open>MachineDecodeFacts\<close>, \<open>AssemblyFacts\<close>.

  \<^item> Semantic programs (\<open>soc/isa/semantics/\<close>): \<open>SemanticValue\<close>, \<open>SemanticProgram\<close>, \<open>ProgramParser\<close>,
    \<open>ProgramParserFacts\<close>, \<open>Expression\<close>, \<open>ExprTyping\<close>, \<open>RegisterAccess\<close>, \<open>Bindings\<close>, \<open>Trace\<close>,
    \<open>Runtime\<close>, \<open>RuntimeFacts\<close>, \<open>HostCalls\<close>, \<open>Analyzer\<close>.

  \<^item> \<open>Emulator\<close>: the parts together, from documents to the execution of a program on a core.

  \<^bold>\<open>How the state corresponds to the code.\<close>  A struct is a record with the fields of the struct, an
  enum a datatype with its variants.  Code that changes state takes the state and returns it, with
  the result as a sum \<open>error + value\<close>: a failed operation returns the state it leaves behind.
  A trait object is a record of functions over a state (\<open>device_ops\<close>, \<open>host_services\<close>).  A shared
  device is an entry of the bus's list of devices, and handles name it by its index; handles of
  different owners are separate values over one bus, so aliasing and stale caches are visible.  A hash
  map is a partial function, or an association list where the code iterates over it.  Integers keep
  their width; arithmetic wraps and a shift counts modulo the width, as in a release build, and
  where a debug build panics this is noted.  Panics and failed assertions are \<open>None\<close> or an error
  constructor of their own.  Strings are byte strings.  A floating-point value is its bit pattern, or
  the integer it is computed from with the scale and offset.

  \<^bold>\<open>The interfaces\<close> are locales: \<open>byte_device\<close> (what the bus expects of a device; interpreted for
  \<open>BasicMemory\<close>), \<open>exact_host\<close> (what a program expects of its host; interpreted for
  \<open>SoftwareHost\<close>), \<open>call_contract\<close> and its extension \<open>statement_contract\<close> (what the interpreter
  of expressions and of statements expects of the calls a program makes; interpreted for the runtime
  at every depth of the call stack).

  \<^bold>\<open>What is shown.\<close>
  \<^item> Execution: a static checker (\<open>check_program\<close>) whose approval means that a program runs to
    its end, returns a value of its type and keeps the core's invariant; the same for blocks of
    instruction bytes; endless recursion ends with an error; host helpers are exact.
  \<^item> Machine code: an encoded instruction is listed under its name with its operands; the
    listing of any bytes ends and covers them.
  \<^item> Machines and cores: registers a program can name exist in the core laid out for the machine
    and are zero at first; register and subfield writes are read back and touch nothing else.
  \<^item> Bus: the address map keeps its invariant along every history, resolution implements the
    abstract choice of the covering range of highest priority, redirects are aliases and their
    removal undoes them; byte, bit and LEB128 accesses round-trip.
  \<^item> Parsers: loading a machine, parsing documents and parsing programs always return; tokens
    lose no text; numeric literals and bit-field notations denote what they say.
  \<^item> Types and symbols: the arena's invariant, the equivalence of both walkers with recursive
    listings, the values of symbols, the completeness of the symbol table's indexes and queries.
  \<^item> Divergences: theorems that exhibit inputs on which the code does not do what it means to
    (an overlapping registration blocks on its own lock, a failed redirect stays visible, a
    big-endian bit field is not read back, a stale cache, the misaligned fetch trace).

  \<^bold>\<open>Bounds and fuel.\<close>  Recursion is structural or has a proved measure wherever the code's loop has
  one.  The parser of documents runs with fuel \<open>length + 2\<close> and that of programs with one unit per
  character; \<open>load_machine_returns\<close> and \<open>parse_with_span_total\<close> show that it is never used up.
  Includes nest at most two deep (\<open>include_depth\<close>), since only a core definition may include files and
  only files that are none.  The listing loops take one unit of fuel per word; \<open>length + 1\<close> is
  enough for any non-zero word size.  The call stack is bounded by the code itself
  (\<open>max_call_depth\<close>, 32).  The symbol walker, the value cursor and the LEB128 loops are
  \<open>partial_function\<close>s whose \<open>None\<close> is not returning or a panic; their theorems prove that they return.
  Range identifiers of a bus are 64-bit; theorems about a bus assume that they are not exhausted.

  \<^bold>\<open>Parameters.\<close>  The file system is a function from paths to contents, the SHA-256 digest of the
  \<open>sha2\<close> crate a function on bytes, the devices of a bus and the host any values of their interfaces.

  \<^bold>\<open>Not modelled.\<close>  The entry point \<open>main.rs\<close> prints a greeting.  Re-exports, derived traits
  and the \<open>Debug\<close> implementations that print a placeholder compute nothing.  The byte order of the build
  target (\<open>Endianness::native\<close>) is a constant of the compiler.  Locks are modelled only where a
  thread can block itself; concurrent threads are not.  The \<open>DebugTypeProvider\<close> trait has no
  implementation.  The older C# sources, the documents and the tests are not part of the program.
\<close>

end
